(* ===== verification/SMB_Prelude.thy ===== *)
theory SMB_Prelude
  imports Main "HOL-Library.Word"
begin

text \<open>
  Shared vocabulary of the development: the fixed-width integer types of the C sources, the
  byte images of integers in host memory, list and word lemmas the components use, and the
  theorem collections that carry their proofs.

  A C pointer that may be \<open>NULL\<close> is an \<open>option\<close>; a memory block is the list of its bytes.
\<close>

unbundle bit_operations_syntax

subsection \<open>Integer types of the sources\<close>

type_synonym u8 = "8 word"
type_synonym u16 = "16 word"
type_synonym u32 = "32 word"
type_synonym u64 = "64 word"

text \<open>Collections used as simp sets by the component proofs.\<close>

named_theorems byte_simps \<open>byte images of words and their lengths\<close>
named_theorems slice_simps \<open>takes and drops of appended blocks\<close>

subsection \<open>Words\<close>

lemma bit_ucast_u8 [byte_simps]:
  "bit (ucast (b :: u8) :: u32) n \<longleftrightarrow> n < 8 \<and> bit b n"
  using bit_imp_le_length [of b n] by (auto simp: bit_ucast_iff)

lemma word_eq_lowbits_iff:
  fixes x y :: "'a :: len word"
  shows "x = y \<longleftrightarrow> (\<forall>n < LENGTH('a). bit x n = bit y n)"
  by (auto intro: bit_word_eqI)

lemma unat_u32_lt: "unat (x :: u32) < 4294967296"
  using unsigned_less [of x] by simp

subsection \<open>Byte images of words\<close>

text \<open>
  \<open>le_bytes n w\<close> is the image of an \<open>n\<close>-byte integer in the memory of a little-endian host,
  lowest byte first; \<open>le_word\<close> reads it back.
\<close>

fun le_bytes :: "nat \<Rightarrow> 'a :: len word \<Rightarrow> u8 list" where
  "le_bytes 0 w = []"
| "le_bytes (Suc n) w = ucast w # le_bytes n (drop_bit 8 w)"

fun le_word :: "u8 list \<Rightarrow> 'a :: len word" where
  "le_word [] = 0"
| "le_word (b # bs) = ucast b OR push_bit 8 (le_word bs)"

lemma le_bytes_numeral [simp]:
  "le_bytes (numeral k) w = ucast w # le_bytes (pred_numeral k) (drop_bit 8 w)"
  by (simp add: numeral_eq_Suc)

lemma length_le_bytes [simp, byte_simps]: "length (le_bytes n w) = n"
  by (induction n arbitrary: w) auto

lemma nth_le_bytes: "i < n \<Longrightarrow> le_bytes n w ! i = ucast (drop_bit (8 * i) w)"
proof (induction n arbitrary: w i)
  case 0
  then show ?case by simp
next
  case (Suc n)
  then show ?case by (cases i) (auto simp: add.commute)
qed

lemma bit_le_word:
  "bit (le_word bs :: 'a :: len word) k \<longleftrightarrow>
     k < LENGTH('a) \<and> k < 8 * length bs \<and> bit (bs ! (k div 8)) (k mod 8)"
proof (induction bs arbitrary: k)
  case Nil
  then show ?case by simp
next
  case (Cons b bs)
  show ?case
  proof (cases "k < 8")
    case True
    then show ?thesis by (auto simp: bit_or_iff bit_push_bit_iff bit_ucast_iff)
  next
    case False
    then obtain j where k: "k = j + 8" by (metis add.commute le_Suc_ex not_less)
    have nb: "\<not> bit b k" using False bit_imp_le_length [of b k] by auto
    have dv: "(j + 8) div 8 - Suc 0 = j div 8" by simp
    show ?thesis using Cons.IH [of j] nb dv
      by (auto simp: bit_or_iff bit_push_bit_iff bit_ucast_iff k)
  qed
qed

lemma le_word_le_bytes: "le_word (le_bytes n w) = take_bit (8 * n) (w :: 'a :: len word)"
proof (rule bit_word_eqI)
  fix k assume k: "k < LENGTH('a)"
  have "bit (le_bytes n w ! (k div 8)) (k mod 8) = bit w k" if "k < 8 * n"
    using that k by (simp add: nth_le_bytes bit_ucast_iff bit_drop_bit_eq mult.commute)
  then show "bit (le_word (le_bytes n w) :: 'a word) k = bit (take_bit (8 * n) w) k"
    using k by (auto simp: bit_le_word bit_take_bit_iff)
qed

lemma le_bytes_le_word:
  assumes "length bs = n" and "8 * n \<le> LENGTH('a)"
  shows "le_bytes n (le_word bs :: 'a :: len word) = bs"
proof (rule nth_equalityI)
  show "length (le_bytes n (le_word bs :: 'a word)) = length bs" using assms by simp
  fix i assume "i < length (le_bytes n (le_word bs :: 'a word))"
  then have i: "i < n" by simp
  show "le_bytes n (le_word bs :: 'a word) ! i = bs ! i"
  proof (rule bit_word_eqI)
    fix k assume "k < LENGTH(8)"
    then have k: "k < 8" by simp
    then have "8 * i + k < 8 * n" "(8 * i + k) div 8 = i" "(8 * i + k) mod 8 = k" using i by auto
    then show "bit (le_bytes n (le_word bs :: 'a word) ! i) k = bit (bs ! i) k"
      using i k assms by (simp add: nth_le_bytes bit_ucast_iff bit_drop_bit_eq bit_le_word)
  qed
qed

subsection \<open>Memory blocks\<close>

text \<open>\<open>memcpy\<close> of a whole block to an offset of another.\<close>

definition memcpy_at :: "nat \<Rightarrow> 'a list \<Rightarrow> 'a list \<Rightarrow> 'a list" where
  "memcpy_at off src dst = take off dst @ src @ drop (off + length src) dst"

lemma length_memcpy_at [simp]:
  "off + length src \<le> length dst \<Longrightarrow> length (memcpy_at off src dst) = length dst"
  by (simp add: memcpy_at_def)

lemma nth_memcpy_at:
  "off + length src \<le> length dst \<Longrightarrow> i < length dst \<Longrightarrow>
   memcpy_at off src dst ! i =
     (if off \<le> i \<and> i < off + length src then src ! (i - off) else dst ! i)"
  by (auto simp: memcpy_at_def nth_append)

lemma memcpy_at_Nil [simp]: "memcpy_at off [] dst = dst"
  by (simp add: memcpy_at_def)

text \<open>The characters of a C string: the bytes before the first zero.\<close>

definition c_str :: "u8 list \<Rightarrow> u8 list" where
  "c_str s = takeWhile (\<lambda>b. b \<noteq> 0) s"

lemma c_str_no_zero: "b \<in> set (c_str s) \<Longrightarrow> b \<noteq> 0"
  by (auto simp: c_str_def dest: set_takeWhileD)

lemma c_str_append_zero: "\<forall>b \<in> set xs. b \<noteq> 0 \<Longrightarrow> c_str (xs @ 0 # ys) = xs"
  by (induction xs) (simp_all add: c_str_def)

lemma take_c_str: "n \<le> length (c_str s) \<Longrightarrow> take n s = take n (c_str s)"
  by (metis c_str_def takeWhile_eq_take length_takeWhile_le take_take min.absorb1)

section \<open>Refinement of a sequence of operations\<close>

text \<open>
  A component's operations as one step function: the concrete one may fail (\<open>None\<close>: an access the
  code must not make, or a loop that does not end), the abstract one is total.
\<close>

fun run_concrete :: "('c \<Rightarrow> 'op \<Rightarrow> ('r \<times> 'c) option) \<Rightarrow> 'c \<Rightarrow> 'op list \<Rightarrow> ('r list \<times> 'c) option" where
  "run_concrete step c [] = Some ([], c)"
| "run_concrete step c (op # ops) =
     (case step c op of
        None \<Rightarrow> None
      | Some (r, c') \<Rightarrow> map_option (\<lambda>(rs, d). (r # rs, d)) (run_concrete step c' ops))"

fun run_abstract :: "('a \<Rightarrow> 'op \<Rightarrow> 'r \<times> 'a) \<Rightarrow> 'a \<Rightarrow> 'op list \<Rightarrow> 'r list \<times> 'a" where
  "run_abstract step a [] = ([], a)"
| "run_abstract step a (op # ops) =
     (let (r, a') = step a op; (rs, b) = run_abstract step a' ops in (r # rs, b))"

text \<open>A step of the abstraction is matched for the operations \<open>ok_op\<close> admits.\<close>

locale refinement_on =
  fixes rep :: "'c \<Rightarrow> 'a \<Rightarrow> bool"
    and cstep :: "'c \<Rightarrow> 'op \<Rightarrow> ('r \<times> 'c) option"
    and astep :: "'a \<Rightarrow> 'op \<Rightarrow> 'r \<times> 'a"
    and ok_op :: "'op \<Rightarrow> bool"
  assumes step_on: "rep c a \<Longrightarrow> ok_op op \<Longrightarrow> astep a op = (r, a') \<Longrightarrow> \<exists>c'. cstep c op = Some (r, c') \<and> rep c' a'"
begin

lemma run_refines_on:
  "rep c a \<Longrightarrow> \<forall>op \<in> set ops. ok_op op \<Longrightarrow> run_abstract astep a ops = (rs, b) \<Longrightarrow>
     \<exists>d. run_concrete cstep c ops = Some (rs, d) \<and> rep d b"
proof (induction ops arbitrary: c a rs)
  case (Cons op ops)
  obtain r a' where s: "astep a op = (r, a')" by fastforce
  then obtain rs' where rs: "rs = r # rs'" "run_abstract astep a' ops = (rs', b)"
    using Cons.prems(3) by (auto split: prod.splits)
  from step_on [OF Cons.prems(1) _ s] Cons.prems(2) obtain c' where "cstep c op = Some (r, c')" "rep c' a'" by auto
  with Cons.IH Cons.prems(2) rs show ?case by fastforce
qed auto

end

text \<open>If every operation is admitted.\<close>

locale refinement =
  fixes rep :: "'c \<Rightarrow> 'a \<Rightarrow> bool"
    and cstep :: "'c \<Rightarrow> 'op \<Rightarrow> ('r \<times> 'c) option"
    and astep :: "'a \<Rightarrow> 'op \<Rightarrow> 'r \<times> 'a"
  assumes step: "rep c a \<Longrightarrow> astep a op = (r, a') \<Longrightarrow> \<exists>c'. cstep c op = Some (r, c') \<and> rep c' a'"

sublocale refinement \<subseteq> total: refinement_on rep cstep astep "\<lambda>_. True"
  by unfold_locales (rule step)

context refinement
begin

lemma run_refines:
  "rep c a \<Longrightarrow> run_abstract astep a ops = (rs, b) \<Longrightarrow>
     \<exists>d. run_concrete cstep c ops = Some (rs, d) \<and> rep d b"
  by (rule total.run_refines_on) auto

end

end
