(* ===== verification/Crc32.thy ===== *)
theory Crc32
  imports SMB_Prelude
begin

text \<open>
  The CRC32 checksum of \<open>src/platform/util/zoo_crc32.c\<close>: the 256-entry table as the source has
  it, the table-driven loop, and the bit-by-bit checksum of the reflected polynomial the source's
  comment names (\<open>0xEDB88320\<close>). The two are proved equal, and the checksum is proved to detect
  every error confined to four consecutive bytes.
\<close>

section \<open>The source\<close>

definition crc32_table :: "u32 list" where
  "crc32_table = [
    0x00000000, 0x77073096, 0xEE0E612C, 0x990951BA, 0x076DC419, 0x706AF48F,
    0xE963A535, 0x9E6495A3, 0x0EDB8832, 0x79DCB8A4, 0xE0D5E91E, 0x97D2D988,
    0x09B64C2B, 0x7EB17CBD, 0xE7B82D07, 0x90BF1D91, 0x1DB71064, 0x6AB020F2,
    0xF3B97148, 0x84BE41DE, 0x1ADAD47D, 0x6DDDE4EB, 0xF4D4B551, 0x83D385C7,
    0x136C9856, 0x646BA8C0, 0xFD62F97A, 0x8A65C9EC, 0x14015C4F, 0x63066CD9,
    0xFA0F3D63, 0x8D080DF5, 0x3B6E20C8, 0x4C69105E, 0xD56041E4, 0xA2677172,
    0x3C03E4D1, 0x4B04D447, 0xD20D85FD, 0xA50AB56B, 0x35B5A8FA, 0x42B2986C,
    0xDBBBC9D6, 0xACBCF940, 0x32D86CE3, 0x45DF5C75, 0xDCD60DCF, 0xABD13D59,
    0x26D930AC, 0x51DE003A, 0xC8D75180, 0xBFD06116, 0x21B4F4B5, 0x56B3C423,
    0xCFBA9599, 0xB8BDA50F, 0x2802B89E, 0x5F058808, 0xC60CD9B2, 0xB10BE924,
    0x2F6F7C87, 0x58684C11, 0xC1611DAB, 0xB6662D3D, 0x76DC4190, 0x01DB7106,
    0x98D220BC, 0xEFD5102A, 0x71B18589, 0x06B6B51F, 0x9FBFE4A5, 0xE8B8D433,
    0x7807C9A2, 0x0F00F934, 0x9609A88E, 0xE10E9818, 0x7F6A0DBB, 0x086D3D2D,
    0x91646C97, 0xE6635C01, 0x6B6B51F4, 0x1C6C6162, 0x856530D8, 0xF262004E,
    0x6C0695ED, 0x1B01A57B, 0x8208F4C1, 0xF50FC457, 0x65B0D9C6, 0x12B7E950,
    0x8BBEB8EA, 0xFCB9887C, 0x62DD1DDF, 0x15DA2D49, 0x8CD37CF3, 0xFBD44C65,
    0x4DB26158, 0x3AB551CE, 0xA3BC0074, 0xD4BB30E2, 0x4ADFA541, 0x3DD895D7,
    0xA4D1C46D, 0xD3D6F4FB, 0x4369E96A, 0x346ED9FC, 0xAD678846, 0xDA60B8D0,
    0x44042D73, 0x33031DE5, 0xAA0A4C5F, 0xDD0D7CC9, 0x5005713C, 0x270241AA,
    0xBE0B1010, 0xC90C2086, 0x5768B525, 0x206F85B3, 0xB966D409, 0xCE61E49F,
    0x5EDEF90E, 0x29D9C998, 0xB0D09822, 0xC7D7A8B4, 0x59B33D17, 0x2EB40D81,
    0xB7BD5C3B, 0xC0BA6CAD, 0xEDB88320, 0x9ABFB3B6, 0x03B6E20C, 0x74B1D29A,
    0xEAD54739, 0x9DD277AF, 0x04DB2615, 0x73DC1683, 0xE3630B12, 0x94643B84,
    0x0D6D6A3E, 0x7A6A5AA8, 0xE40ECF0B, 0x9309FF9D, 0x0A00AE27, 0x7D079EB1,
    0xF00F9344, 0x8708A3D2, 0x1E01F268, 0x6906C2FE, 0xF762575D, 0x806567CB,
    0x196C3671, 0x6E6B06E7, 0xFED41B76, 0x89D32BE0, 0x10DA7A5A, 0x67DD4ACC,
    0xF9B9DF6F, 0x8EBEEFF9, 0x17B7BE43, 0x60B08ED5, 0xD6D6A3E8, 0xA1D1937E,
    0x38D8C2C4, 0x4FDFF252, 0xD1BB67F1, 0xA6BC5767, 0x3FB506DD, 0x48B2364B,
    0xD80D2BDA, 0xAF0A1B4C, 0x36034AF6, 0x41047A60, 0xDF60EFC3, 0xA867DF55,
    0x316E8EEF, 0x4669BE79, 0xCB61B38C, 0xBC66831A, 0x256FD2A0, 0x5268E236,
    0xCC0C7795, 0xBB0B4703, 0x220216B9, 0x5505262F, 0xC5BA3BBE, 0xB2BD0B28,
    0x2BB45A92, 0x5CB36A04, 0xC2D7FFA7, 0xB5D0CF31, 0x2CD99E8B, 0x5BDEAE1D,
    0x9B64C2B0, 0xEC63F226, 0x756AA39C, 0x026D930A, 0x9C0906A9, 0xEB0E363F,
    0x72076785, 0x05005713, 0x95BF4A82, 0xE2B87A14, 0x7BB12BAE, 0x0CB61B38,
    0x92D28E9B, 0xE5D5BE0D, 0x7CDCEFB7, 0x0BDBDF21, 0x86D3D2D4, 0xF1D4E242,
    0x68DDB3F8, 0x1FDA836E, 0x81BE16CD, 0xF6B9265B, 0x6FB077E1, 0x18B74777,
    0x88085AE6, 0xFF0F6A70, 0x66063BCA, 0x11010B5C, 0x8F659EFF, 0xF862AE69,
    0x616BFFD3, 0x166CCF45, 0xA00AE278, 0xD70DD2EE, 0x4E048354, 0x3903B3C2,
    0xA7672661, 0xD06016F7, 0x4969474D, 0x3E6E77DB, 0xAED16A4A, 0xD9D65ADC,
    0x40DF0B66, 0x37D83BF0, 0xA9BCAE53, 0xDEBB9EC5, 0x47B2CF7F, 0x30B5FFE9,
    0xBDBDF21C, 0xCABAC28A, 0x53B39330, 0x24B4A3A6, 0xBAD03605, 0xCDD70693,
    0x54DE5729, 0x23D967BF, 0xB3667A2E, 0xC4614AB8, 0x5D681B02, 0x2A6F2B94,
    0xB40BBE37, 0xC30C8EA1, 0x5A05DF1B, 0x2D02EF8D]"

text \<open>One iteration of the loop: \<^verbatim>\<open>crc = (crc >> 8) ^ crc32_table[(crc ^ p[i]) & 0xFF]\<close>.\<close>

definition crc32_step :: "u32 \<Rightarrow> u8 \<Rightarrow> u32" where
  "crc32_step crc b = drop_bit 8 crc XOR crc32_table ! unat ((crc XOR ucast b) AND 0xFF)"

definition zoo_calc_crc32 :: "u8 list option \<Rightarrow> nat \<Rightarrow> u32" where
  "zoo_calc_crc32 data sz =
     (case data of
        None \<Rightarrow> 0
      | Some p \<Rightarrow>
          if sz = 0 then 0
          else foldl crc32_step 0xFFFFFFFF (take sz p) XOR 0xFFFFFFFF)"

section \<open>The reference: one bit at a time\<close>

definition crc_bit :: "u32 \<Rightarrow> u32" where
  "crc_bit c = (if bit c 0 then drop_bit 1 c XOR 0xEDB88320 else drop_bit 1 c)"

definition crc_byte :: "u32 \<Rightarrow> u32" where
  "crc_byte c = (crc_bit ^^ 8) c"

definition crc32_bitwise :: "u8 list \<Rightarrow> u32" where
  "crc32_bitwise bs = foldl (\<lambda>crc b. crc_byte (crc XOR ucast b)) 0xFFFFFFFF bs XOR 0xFFFFFFFF"

subsection \<open>Linearity and injectivity of the bit step\<close>

lemma xor_swap4: "(a XOR p) XOR (b XOR q) = (a XOR b) XOR (p XOR (q :: u32))"
  by (simp add: ac_simps)

lemma crc_bit_xor: "crc_bit (x XOR y) = crc_bit x XOR crc_bit y"
  by (cases "bit x 0"; cases "bit y 0")
    (simp_all add: crc_bit_def bit_xor_iff drop_bit_xor ac_simps xor_swap4)

lemma crc_bit_pow_xor: "(crc_bit ^^ n) (x XOR y) = (crc_bit ^^ n) x XOR (crc_bit ^^ n) y"
  by (induction n) (simp_all add: crc_bit_xor)

lemma crc_byte_xor: "crc_byte (x XOR y) = crc_byte x XOR crc_byte y"
  by (simp add: crc_byte_def crc_bit_pow_xor)

lemma crc_bit_pow_zero_low:
  "(\<And>i. i < n \<Longrightarrow> \<not> bit x i) \<Longrightarrow> (crc_bit ^^ n) x = drop_bit n x"
proof (induction n)
  case 0
  then show ?case by simp
next
  case (Suc n)
  then have "(crc_bit ^^ n) x = drop_bit n x" and "\<not> bit (drop_bit n x) 0"
    by (simp_all add: bit_drop_bit_eq del: bit_0)
  then have "crc_bit ((crc_bit ^^ n) x) = drop_bit 1 (drop_bit n x)"
    by (simp only: crc_bit_def if_False)
  then show ?case by simp
qed

lemma bit_255: "bit (0xFF :: int) n \<longleftrightarrow> n < 8"
  using bit_mask_iff [of 8 n, where ?'a = int] by (auto simp: mask_eq_exp_minus_1)

lemma crc_byte_zero_low: "x AND 0xFF = 0 \<Longrightarrow> crc_byte x = drop_bit 8 x"
proof -
  assume x: "x AND 0xFF = 0"
  have "\<not> bit x i" if "i < 8" for i
  proof -
    have "bit (0xFF :: u32) i" using that by (simp add: bit_255)
    moreover have "\<not> bit (x AND 0xFF) i" using x by simp
    ultimately show ?thesis by (simp add: bit_and_iff)
  qed
  then show ?thesis unfolding crc_byte_def by (rule crc_bit_pow_zero_low)
qed

lemma xor_eq_0_iff_eq: "x XOR y = 0 \<longleftrightarrow> x = (y :: u32)"
  by (auto simp: bit_eq_iff bit_xor_iff)

lemma crc_bit_zero: "crc_bit z = 0 \<Longrightarrow> z = 0"
proof (cases "bit z 0")
  case True
  assume "crc_bit z = 0"
  with True have "drop_bit 1 z XOR 0xEDB88320 = 0" by (simp only: crc_bit_def if_True)
  then have "drop_bit 1 z = 0xEDB88320" by (simp only: xor_eq_0_iff_eq)
  then have "bit (drop_bit 1 z) 31 = bit (0xEDB88320 :: u32) 31" by simp
  moreover have "\<not> bit (drop_bit 1 z) 31"
    using bit_imp_le_length [of z 32] by (auto simp: bit_drop_bit_eq)
  ultimately show ?thesis by simp
next
  case False
  assume "crc_bit z = 0"
  with False have d: "drop_bit 1 z = 0" by (simp only: crc_bit_def if_False)
  show ?thesis
  proof (rule bit_word_eqI)
    fix n
    show "bit z n = bit (0 :: u32) n"
      using False arg_cong [OF d, of "\<lambda>w. bit w (n - 1)"]
      by (cases n) (simp_all add: bit_drop_bit_eq del: bit_0)
  qed
qed

lemma crc_bit_inj: "crc_bit x = crc_bit y \<longleftrightarrow> x = y"
  using crc_bit_zero [of "x XOR y"] by (auto simp: crc_bit_xor xor_eq_0_iff_eq)

lemma crc_byte_inj [simp]: "crc_byte x = crc_byte y \<longleftrightarrow> x = y"
proof -
  have "(crc_bit ^^ n) x = (crc_bit ^^ n) y \<longleftrightarrow> x = y" for n
    by (induction n) (simp_all add: crc_bit_inj)
  then show ?thesis by (simp add: crc_byte_def)
qed

subsection \<open>The table\<close>

text \<open>
  The table is closed under exclusive or, so that it is built from its eight entries at the
  powers of two by doubling; only those eight are computed from the polynomial.
\<close>

definition crc_double :: "u32 \<Rightarrow> u32 list \<Rightarrow> u32 list" where
  "crc_double t xs = xs @ map (\<lambda>x. x XOR t) xs"

definition crc_table_upto :: "nat \<Rightarrow> u32 list \<Rightarrow> bool" where
  "crc_table_upto b xs \<longleftrightarrow> length xs = 2 ^ b \<and> (\<forall>i < 2 ^ b. xs ! i = crc_byte (word_of_nat i))"

lemma word_of_nat_add_pow:
  assumes "j < 2 ^ b"
  shows "word_of_nat j + 2 ^ b = (word_of_nat j XOR 2 ^ b :: u32)"
proof -
  have "\<not> bit j b" using assms by (simp add: bit_iff_odd)
  then have "word_of_nat j AND (2 ^ b :: u32) = 0"
    by (intro bit_word_eqI) (auto simp: bit_and_iff bit_exp_iff bit_of_nat_iff)
  then show ?thesis by (simp add: disjunctive_add_eq_xor)
qed

lemma crc_table_double:
  assumes "crc_table_upto b xs" and "t = crc_byte (2 ^ b)"
  shows "crc_table_upto (Suc b) (crc_double t xs)"
proof -
  have len: "length xs = 2 ^ b" and xs: "\<And>i. i < 2 ^ b \<Longrightarrow> xs ! i = crc_byte (word_of_nat i)"
    using assms(1) by (auto simp: crc_table_upto_def)
  have "crc_double t xs ! i = crc_byte (word_of_nat i)" if i: "i < 2 ^ Suc b" for i
  proof (cases "i < 2 ^ b")
    case True
    then show ?thesis using len xs by (simp add: crc_double_def nth_append)
  next
    case False
    then obtain j where j: "i = j + 2 ^ b" by (metis add.commute le_Suc_ex not_less)
    then have "j < 2 ^ b" using i by simp
    then show ?thesis using len xs
      by (simp add: crc_double_def nth_append j word_of_nat_add_pow crc_byte_xor assms(2))
  qed
  then show ?thesis using len by (simp add: crc_table_upto_def crc_double_def)
qed

lemma crc_byte_pow2:
  "crc_byte 1 = 0x77073096" "crc_byte 2 = 0xEE0E612C" "crc_byte 4 = 0x076DC419"
  "crc_byte 8 = 0x0EDB8832" "crc_byte 16 = 0x1DB71064" "crc_byte 32 = 0x3B6E20C8"
  "crc_byte 64 = 0x76DC4190" "crc_byte 128 = 0xEDB88320"
  by code_simp+

lemma crc32_table_doubling:
  "crc32_table =
     crc_double 0xEDB88320 (crc_double 0x76DC4190 (crc_double 0x3B6E20C8 (crc_double 0x1DB71064
       (crc_double 0x0EDB8832 (crc_double 0x076DC419 (crc_double 0xEE0E612C
         (crc_double 0x77073096 [0])))))))"
  by (simp add: crc32_table_def crc_double_def)

lemma crc_table_base: "crc_table_upto 0 [0]"
  by (simp add: crc_table_upto_def crc_byte_zero_low)

lemma crc32_table_upto: "crc_table_upto 8 crc32_table"
proof -
  note step = crc_table_double [OF _ sym]
  have "crc_table_upto (Suc (Suc (Suc (Suc (Suc (Suc (Suc (Suc 0)))))))) crc32_table"
    unfolding crc32_table_doubling
    by (intro step crc_table_base) (simp_all add: crc_byte_pow2)
  then show ?thesis by (simp add: numeral_eq_Suc)
qed

lemma length_crc32_table: "length crc32_table = 256"
  using crc32_table_upto by (simp add: crc_table_upto_def)

lemma crc32_table_nth: "i < 256 \<Longrightarrow> crc32_table ! i = crc_byte (word_of_nat i)"
  using crc32_table_upto by (simp add: crc_table_upto_def)

subsection \<open>The loop computes the bitwise checksum\<close>

lemma crc_byte_push: "crc_byte (push_bit 8 w) = drop_bit 8 (push_bit 8 w)"
  by (rule crc_byte_zero_low)
    (auto intro!: bit_word_eqI simp: bit_and_iff bit_push_bit_iff bit_255)

lemma crc_byte_split: "crc_byte x = drop_bit 8 x XOR crc_byte (x AND 0xFF)"
proof -
  let ?hi = "push_bit 8 (drop_bit 8 x)"
  have x: "x = ?hi XOR (x AND 0xFF)"
    by (rule bit_word_eqI) (auto simp: bit_and_iff bit_xor_iff bit_push_bit_iff bit_drop_bit_eq bit_255)
  have "drop_bit 8 ?hi = drop_bit 8 x"
    by (rule bit_word_eqI) (auto simp: bit_drop_bit_eq bit_push_bit_iff dest: bit_imp_le_length)
  then have "crc_byte ?hi = drop_bit 8 x" by (simp add: crc_byte_push)
  moreover have "crc_byte (?hi XOR (x AND 0xFF)) = crc_byte ?hi XOR crc_byte (x AND 0xFF)"
    by (rule crc_byte_xor)
  ultimately show ?thesis using x by metis
qed

lemma u32_and_255_lt: "unat ((x :: u32) AND 0xFF) < 256"
proof -
  have "unat (x AND 0xFF) \<le> unat (0xFF :: u32)"
    by (rule word_and_le1 [THEN word_le_nat_alt [THEN iffD1]])
  then show ?thesis by simp
qed

lemma crc32_step_eq: "crc32_step crc b = crc_byte (crc XOR ucast b)"
proof -
  let ?x = "crc XOR ucast b"
  have "drop_bit 8 ?x = drop_bit 8 crc"
    by (rule bit_word_eqI) (auto simp: bit_drop_bit_eq bit_xor_iff bit_ucast_u8)
  then show ?thesis
    using crc_byte_split [of ?x] u32_and_255_lt [of ?x]
    by (simp add: crc32_step_def crc32_table_nth)
qed

lemma foldl_crc32_step:
  "foldl crc32_step c bs = foldl (\<lambda>crc b. crc_byte (crc XOR ucast b)) c bs"
  by (simp add: crc32_step_eq [abs_def])

lemma calc_crc32_eq: "zoo_calc_crc32 (Some p) n = crc32_bitwise (take n p)"
  by (cases "n = 0") (simp_all add: zoo_calc_crc32_def crc32_bitwise_def foldl_crc32_step)

subsection \<open>Injectivity of the loop\<close>

lemma xor_cancel_right: "x XOR z = y XOR z \<longleftrightarrow> x = (y :: u32)"
  by (auto simp: bit_eq_iff bit_xor_iff)

lemma foldl_crc32_inj: "foldl crc32_step c bs = foldl crc32_step c' bs \<longleftrightarrow> c = c'"
  by (induction bs arbitrary: c c') (simp_all add: crc32_step_eq xor_cancel_right)

text \<open>Up to four bytes act on the register as one little-endian word.\<close>

lemma foldl_crc32_window:
  "length bs \<le> 4 \<Longrightarrow> foldl crc32_step c bs = (crc_byte ^^ length bs) (c XOR le_word bs)"
proof (induction bs arbitrary: c)
  case Nil
  then show ?case by simp
next
  case (Cons b bs)
  let ?w = "le_word bs :: u32"
  have "drop_bit 8 (push_bit 8 ?w) = ?w"
    by (rule bit_word_eqI)
      (use Cons.prems in \<open>auto simp: bit_drop_bit_eq bit_push_bit_iff bit_le_word\<close>)
  then have w: "crc_byte (push_bit 8 ?w) = ?w" by (simp add: crc_byte_push)
  have disj: "ucast b XOR push_bit 8 ?w = ucast b OR push_bit 8 ?w"
    by (rule bit_word_eqI) (auto simp: bit_xor_iff bit_or_iff bit_push_bit_iff bit_ucast_u8)
  have "foldl crc32_step c (b # bs) = (crc_byte ^^ length bs) (crc_byte (c XOR ucast b) XOR ?w)"
    using Cons.prems by (simp only: foldl_Cons Cons.IH crc32_step_eq [of c b]) (simp add: Cons.IH)
  also have "crc_byte (c XOR ucast b) XOR ?w = crc_byte (c XOR (ucast b XOR push_bit 8 ?w))"
    using w by (simp add: crc_byte_xor xor.assoc)
  finally show ?case by (simp add: disj funpow_swap1)
qed

lemma crc_byte_pow_inj: "(crc_byte ^^ n) x = (crc_byte ^^ n) y \<longleftrightarrow> x = y"
  by (induction n) simp_all

lemma foldl_crc32_window_inj:
  assumes "length xs = length ys" and "length xs \<le> 4"
  shows "foldl crc32_step c xs = foldl crc32_step c ys \<longleftrightarrow> xs = ys"
proof
  assume "foldl crc32_step c xs = foldl crc32_step c ys"
  then have "(le_word xs :: u32) = le_word ys"
    using assms xor_cancel_right [of "le_word xs" c "le_word ys"]
    by (simp add: foldl_crc32_window crc_byte_pow_inj xor.commute)
  then have "le_bytes (length xs) (le_word xs :: u32) = le_bytes (length ys) (le_word ys :: u32)"
    using assms by simp
  then show "xs = ys" using assms by (simp add: le_bytes_le_word)
qed simp

section \<open>Properties\<close>

text \<open>
  C11. The table-driven checksum is the bitwise CRC32 of the polynomial \<open>0xEDB88320\<close>, for every
  block and every size (the early return for an empty block included): the table of the source is
  right in all of its 256 entries.
\<close>

theorem zoo_calc_crc32_bitwise: "zoo_calc_crc32 (Some p) n = crc32_bitwise (take n p)"
  by (rule calc_crc32_eq)

text \<open>
  C12. Every error burst confined to at most four consecutive bytes changes the checksum: two
  blocks that agree outside such a window and differ inside it have different checksums.
\<close>

theorem zoo_calc_crc32_detects_burst:
  assumes "length xs = length ys" and "length xs \<le> 4" and "xs \<noteq> ys"
    and "n = length (pre @ xs @ post)"
  shows "zoo_calc_crc32 (Some (pre @ xs @ post)) n \<noteq> zoo_calc_crc32 (Some (pre @ ys @ post)) n"
proof -
  have "0 < n" using assms by (cases xs) auto
  moreover have "foldl crc32_step (foldl crc32_step c pre) xs \<noteq> foldl crc32_step (foldl crc32_step c pre) ys"
    for c using assms foldl_crc32_window_inj by blast
  ultimately show ?thesis
    using assms by (simp add: zoo_calc_crc32_def foldl_crc32_inj xor_cancel_right)
qed

theorem zoo_calc_crc32_detects_burst_witness:
  "zoo_calc_crc32 (Some ([7] @ [1, 2] @ [9])) 4 \<noteq> zoo_calc_crc32 (Some ([7] @ [1, 3] @ [9])) 4"
  by (rule zoo_calc_crc32_detects_burst) simp_all

end
