(* ===== verification/Message.thy ===== *)
theory Message
  imports Crc32
begin

text \<open>
  Messages of the bus, from \<open>include/kernal/core/zoo_smb_message.h\<close> and
  \<open>src/kernal/core/zoo_smb_message.c\<close>: the packed header, the message, their construction and
  deep copy, and the memory image of a header on a little- or big-endian host.

  The memory pool is called only through the outcome of each request: an argument of type
  \<open>bool\<close> per allocation says whether the pool served it. What a fresh block holds is an argument
  too, so nothing is known of it that the code does not write. The configuration enters as the
  value of \<open>zoo_smb_config_peek()\<close>: \<open>None\<close> before initialisation, else the configured
  \<open>max_transport_buffer_size\<close>. Clocks are arguments.
\<close>

section \<open>Data\<close>

record msg_header =
  magic :: u32
  version :: u16
  msg_type :: u16
  flags :: u16
  crc32 :: u32
  payload_size :: u32
  msg_id :: u32
  sequence :: u32
  timestamp :: u64
  request_id :: u64
  sender :: "u8 list"
  topic :: "u8 list"

record smb_msg =
  header :: msg_header
  payload :: "u8 list option"

definition ZOO_SMB_MSG_MAGIC_NUMBER :: u32 where "ZOO_SMB_MSG_MAGIC_NUMBER = 0x12345678"
definition ZOO_SMB_MSG_VERSION :: u16 where "ZOO_SMB_MSG_VERSION = 0x1001"
definition ZOO_SMB_MAX_PAYLOAD_SIZE :: nat where "ZOO_SMB_MAX_PAYLOAD_SIZE = 0x1001"
definition ZOO_SMB_DEFAULT_MAX_TRANSPORT_BUFFER_SIZE :: nat where
  "ZOO_SMB_DEFAULT_MAX_TRANSPORT_BUFFER_SIZE = 40 * 1024"

text \<open>The sizes of the two packed structs (LP64): twelve header fields, and a pointer.\<close>

definition sizeof_header :: nat where "sizeof_header = 106"
definition sizeof_msg :: nat where "sizeof_msg = sizeof_header + 8"

definition MSG_TYPE_PUB :: u16 where "MSG_TYPE_PUB = 0x10"

text \<open>The two character arrays have their declared length.\<close>

definition wf_header :: "msg_header \<Rightarrow> bool" where
  "wf_header h \<longleftrightarrow> length (sender h) = 32 \<and> length (topic h) = 32"

definition zero_header :: msg_header where
  "zero_header = \<lparr>magic = 0, version = 0, msg_type = 0, flags = 0, crc32 = 0, payload_size = 0,
     msg_id = 0, sequence = 0, timestamp = 0, request_id = 0,
     sender = replicate 32 0, topic = replicate 32 0\<rparr>"

section \<open>Host memory\<close>

datatype endian = Little | Big

definition host_bytes :: "endian \<Rightarrow> nat \<Rightarrow> 'a :: len word \<Rightarrow> u8 list" where
  "host_bytes e n w = (case e of Little \<Rightarrow> le_bytes n w | Big \<Rightarrow> rev (le_bytes n w))"

definition host_word :: "endian \<Rightarrow> u8 list \<Rightarrow> 'a :: len word" where
  "host_word e bs = le_word (case e of Little \<Rightarrow> bs | Big \<Rightarrow> rev bs)"

text \<open>The image of the packed header: the fields in declaration order, without padding.\<close>

definition header_bytes :: "endian \<Rightarrow> msg_header \<Rightarrow> u8 list" where
  "header_bytes e h =
     host_bytes e 4 (magic h) @ host_bytes e 2 (version h) @ host_bytes e 2 (msg_type h) @
     host_bytes e 2 (flags h) @ host_bytes e 4 (crc32 h) @ host_bytes e 4 (payload_size h) @
     host_bytes e 4 (msg_id h) @ host_bytes e 4 (sequence h) @ host_bytes e 8 (timestamp h) @
     host_bytes e 8 (request_id h) @ sender h @ topic h"

definition field_at :: "nat \<Rightarrow> nat \<Rightarrow> u8 list \<Rightarrow> u8 list" where
  "field_at off n bs = take n (drop off bs)"

definition read_header :: "endian \<Rightarrow> u8 list \<Rightarrow> msg_header" where
  "read_header e bs =
     \<lparr>magic = host_word e (field_at 0 4 bs), version = host_word e (field_at 4 2 bs),
      msg_type = host_word e (field_at 6 2 bs), flags = host_word e (field_at 8 2 bs),
      crc32 = host_word e (field_at 10 4 bs), payload_size = host_word e (field_at 14 4 bs),
      msg_id = host_word e (field_at 18 4 bs), sequence = host_word e (field_at 22 4 bs),
      timestamp = host_word e (field_at 26 8 bs), request_id = host_word e (field_at 34 8 bs),
      sender = field_at 42 32 bs, topic = field_at 74 32 bs\<rparr>"

lemma length_host_bytes [simp, byte_simps]: "length (host_bytes e n w) = n"
  by (cases e) (simp_all add: host_bytes_def)

lemma host_word_bytes:
  "LENGTH('a) = 8 * n \<Longrightarrow> host_word e (host_bytes e n w) = (w :: 'a :: len word)"
  by (cases e) (simp_all add: host_word_def host_bytes_def le_word_le_bytes take_bit_word_eq_self)

lemma host_bytes_word:
  "length bs = n \<Longrightarrow> LENGTH('a) = 8 * n \<Longrightarrow> host_bytes e n (host_word e bs :: 'a :: len word) = bs"
  by (cases e) (simp_all add: host_word_def host_bytes_def le_bytes_le_word)

lemma host_word_fields [simp]:
  "host_word e (host_bytes e 2 (w :: u16)) = w"
  "host_word e (host_bytes e 4 (x :: u32)) = x"
  "host_word e (host_bytes e 8 (y :: u64)) = y"
  by (simp_all add: host_word_bytes)

lemma length_header_bytes [simp]: "wf_header h \<Longrightarrow> length (header_bytes e h) = sizeof_header"
  by (simp add: header_bytes_def wf_header_def sizeof_header_def)

text \<open>Reading a field out of a sequence of blocks skips the blocks before it.\<close>

lemma field_at_0 [slice_simps]: "length xs = n \<Longrightarrow> field_at 0 n (xs @ ys) = xs"
  by (simp add: field_at_def)

lemma field_at_skip [slice_simps]:
  "length xs \<le> off \<Longrightarrow> field_at off n (xs @ ys) = field_at (off - length xs) n ys"
  by (simp add: field_at_def)

lemma read_header_bytes:
  "wf_header h \<Longrightarrow> read_header e (header_bytes e h @ rest) = h"
  unfolding wf_header_def read_header_def header_bytes_def
  by (cases h) (simp add: slice_simps)

section \<open>Strings\<close>

definition zoo_safety_copy_string :: "u8 list option \<Rightarrow> u8 list option \<Rightarrow> nat \<Rightarrow> int \<times> u8 list option" where
  "zoo_safety_copy_string dest src dest_size =
     (case (dest, src) of
        (Some d, Some s) \<Rightarrow>
          if dest_size = 0 then (-1, dest)
          else if dest_size = 1 then (0, Some (d[0 := 0]))
          else
            let src_len = length (c_str s);
                copy_len = (if src_len < dest_size - 1 then src_len else dest_size - 1);
                d1 = (if copy_len > 0 then memcpy_at 0 (take copy_len s) d else d)
            in (0, Some (d1[copy_len := 0]))
      | _ \<Rightarrow> (-1, dest))"

lemma zoo_safety_copy_string_ok:
  assumes "length d = n" and "0 < n"
  obtains d' where "zoo_safety_copy_string (Some d) (Some s) n = (0, Some d')"
    and "length d' = n" and "c_str d' = take (n - 1) (c_str s)"
proof (cases "n = 1")
  case True
  have "c_str (d[0 := 0]) = []" using assms True by (cases d) (simp_all add: c_str_def)
  then show thesis using that assms True by (auto simp: zoo_safety_copy_string_def)
next
  case False
  let ?k = "min (length (c_str s)) (n - 1)"
  let ?d = "(memcpy_at 0 (take ?k s) d)[?k := 0]"
  have k: "?k \<le> length (c_str s)" "?k < n" using assms by auto
  have tk: "take ?k s = take ?k (c_str s)" "length (take ?k s) = ?k"
    using k(1) take_c_str [of ?k s] by (auto simp: min_def)
  have "?d = take ?k (c_str s) @ 0 # drop (Suc ?k) d"
    using assms k tk by (simp add: memcpy_at_def list_update_append Cons_nth_drop_Suc [symmetric])
  moreover have "\<forall>b \<in> set (take ?k (c_str s)). b \<noteq> 0"
    using c_str_no_zero [of _ s] in_set_takeD [of _ ?k "c_str s"] by blast
  ultimately have c: "c_str ?d = take ?k (c_str s)" by (metis c_str_append_zero)
  have "zoo_safety_copy_string (Some d) (Some s) n = (0, Some ?d)"
    using assms False by (auto simp: zoo_safety_copy_string_def Let_def min_def)
  moreover have "length ?d = n" using assms k tk by simp
  moreover have "take ?k (c_str s) = take (n - 1) (c_str s)" by (simp add: min_def)
  ultimately show thesis using that c by simp
qed

section \<open>Construction\<close>

text \<open>\<open>smb_message_alloc\<close>: a request of size 0 is refused, any other is the pool's answer.\<close>

definition smb_message_alloc :: "bool \<Rightarrow> nat \<Rightarrow> bool" where
  "smb_message_alloc pool_ok sz = (if sz = 0 then False else pool_ok)"

definition smb_effective_max_payload_size :: "nat option \<Rightarrow> nat" where
  "smb_effective_max_payload_size cfg =
     (let transport_budget = (case cfg of
            Some m \<Rightarrow> if m > 0 then m else ZOO_SMB_DEFAULT_MAX_TRANSPORT_BUFFER_SIZE
          | None \<Rightarrow> ZOO_SMB_DEFAULT_MAX_TRANSPORT_BUFFER_SIZE)
      in if transport_budget \<le> sizeof_header then 0 else transport_budget - sizeof_header)"

definition copy_name :: "u8 list \<Rightarrow> u8 list option \<Rightarrow> u8 list" where
  "copy_name old src = (case snd (zoo_safety_copy_string (Some old) src 32) of
     Some d \<Rightarrow> d | None \<Rightarrow> old)"

definition init_message_header ::
  "u64 \<Rightarrow> msg_header option \<Rightarrow> u16 \<Rightarrow> u8 list option \<Rightarrow> u8 list option \<Rightarrow> nat \<Rightarrow> u32 \<Rightarrow> u64 \<Rightarrow>
   msg_header option" where
  "init_message_header now hdr ty sndr tpc psize mid rid =
     (case hdr of
        None \<Rightarrow> None
      | Some h \<Rightarrow> Some (h
          \<lparr>sender := copy_name (sender h) sndr, topic := copy_name (topic h) tpc,
           magic := ZOO_SMB_MSG_MAGIC_NUMBER, version := ZOO_SMB_MSG_VERSION, msg_type := ty,
           flags := 0, crc32 := 0, payload_size := word_of_nat psize, msg_id := mid,
           timestamp := now, request_id := rid\<rparr>))"

definition allocate_and_copy_payload ::
  "bool \<Rightarrow> smb_msg option \<Rightarrow> u8 list option \<Rightarrow> nat \<Rightarrow> bool \<times> smb_msg option" where
  "allocate_and_copy_payload pool_ok message pl psize =
     (case message of
        None \<Rightarrow> (False, None)
      | Some m \<Rightarrow>
          if psize = 0 then (True, Some (m\<lparr>payload := None\<rparr>))
          else (case pl of
              None \<Rightarrow> (False, message)
            | Some p \<Rightarrow>
                if smb_message_alloc pool_ok psize
                then (True, Some (m\<lparr>payload := Some (take psize p)\<rparr>))
                else (False, Some (m\<lparr>payload := None\<rparr>))))"

definition zoo_smb_calc_message_crc32 :: "u8 list option \<Rightarrow> nat \<Rightarrow> u32" where
  "zoo_smb_calc_message_crc32 pl psize =
     (if pl \<noteq> None \<and> psize > 0 then NOT 0 XOR zoo_calc_crc32 pl psize else NOT 0)"

text \<open>
  \<open>zoo_smb_create_message\<close>: \<open>raw\<close> is what the fresh message block holds, \<open>ok1\<close> and \<open>ok2\<close> the
  answers of the pool to the two requests. The result is \<open>None\<close> where the code returns \<open>NULL\<close>.
\<close>

definition zoo_smb_create_message ::
  "nat option \<Rightarrow> bool \<Rightarrow> bool \<Rightarrow> u64 \<Rightarrow> smb_msg \<Rightarrow>
   u16 \<Rightarrow> u8 list option \<Rightarrow> u8 list option \<Rightarrow> u8 list option \<Rightarrow> nat \<Rightarrow> u32 \<Rightarrow> u64 \<Rightarrow> smb_msg option" where
  "zoo_smb_create_message cfg ok1 ok2 now raw ty sndr tpc pl psize mid rid =
     (if sndr = None \<or> tpc = None \<or> (psize > 0 \<and> pl = None) then None
      else if psize > smb_effective_max_payload_size cfg then None
      else if \<not> smb_message_alloc ok1 sizeof_msg then None
      else
        let msg = (case init_message_header now (Some (header raw)) ty sndr tpc psize mid rid of
              Some h \<Rightarrow> raw\<lparr>header := h\<rparr> | None \<Rightarrow> raw)
        in (case allocate_and_copy_payload ok2 (Some msg) pl psize of
              (True, Some m) \<Rightarrow>
                Some (m\<lparr>header := (header m)\<lparr>crc32 := zoo_smb_calc_message_crc32 (payload m) psize\<rparr>\<rparr>)
            | _ \<Rightarrow> None))"

definition zoo_smb_default_message :: "bool \<Rightarrow> smb_msg option" where
  "zoo_smb_default_message ok =
     (if smb_message_alloc ok sizeof_msg then Some \<lparr>header = zero_header, payload = None\<rparr> else None)"

definition zoo_smb_create_message_header ::
  "bool \<Rightarrow> u64 \<Rightarrow> msg_header \<Rightarrow> u16 \<Rightarrow> u8 list option \<Rightarrow> u8 list option \<Rightarrow> nat \<Rightarrow> u32 \<Rightarrow> u64 \<Rightarrow>
   msg_header option" where
  "zoo_smb_create_message_header ok now raw ty sndr tpc psize mid rid =
     (if sndr = None \<or> tpc = None then None
      else if \<not> smb_message_alloc ok sizeof_header then None
      else init_message_header now (Some raw) ty sndr tpc psize mid rid)"

definition zoo_smb_set_message_header ::
  "u64 \<Rightarrow> msg_header option \<Rightarrow> u16 \<Rightarrow> u8 list option \<Rightarrow> u8 list option \<Rightarrow> nat \<Rightarrow> u32 \<Rightarrow> u64 \<Rightarrow>
   msg_header option" where
  "zoo_smb_set_message_header now hdr ty sndr tpc psize mid rid =
     (case hdr of None \<Rightarrow> None | Some h \<Rightarrow> init_message_header now (Some h) ty sndr tpc psize mid rid)"

text \<open>\<open>zoo_smb_copy_message\<close>: the result and what \<open>to\<close> points at afterwards.\<close>

definition zoo_smb_copy_message ::
  "bool \<Rightarrow> smb_msg option \<Rightarrow> smb_msg option \<Rightarrow> bool \<times> smb_msg option" where
  "zoo_smb_copy_message ok from_msg to_msg =
     (case (from_msg, to_msg) of
        (Some f, Some t) \<Rightarrow>
          let t1 = \<lparr>header = zero_header, payload = None\<rparr>;
              t2 = t1\<lparr>header := header f\<rparr>;
              n = unat (payload_size (header f))
          in if n = 0 then (True, Some (t2\<lparr>payload := None\<rparr>))
             else (case payload f of
                 None \<Rightarrow> (False, Some t2)
               | Some p \<Rightarrow>
                   if smb_message_alloc ok n
                   then (True, Some (t2\<lparr>payload := Some (take n p)\<rparr>))
                   else (False, Some \<lparr>header = zero_header, payload = None\<rparr>))
      | _ \<Rightarrow> (False, to_msg))"

lemmas message_defs = zoo_smb_create_message_def allocate_and_copy_payload_def
  init_message_header_def smb_message_alloc_def Let_def

section \<open>Lemmas\<close>

lemma copy_name_props:
  assumes "length d = 32"
  shows "length (copy_name d (Some s)) = 32 \<and> c_str (copy_name d (Some s)) = take 31 (c_str s)"
proof -
  obtain d' where "zoo_safety_copy_string (Some d) (Some s) 32 = (0, Some d')"
    and "length d' = 32" and "c_str d' = take (32 - 1) (c_str s)"
    using zoo_safety_copy_string_ok [of d 32 s] assms by auto
  then show ?thesis by (simp add: copy_name_def)
qed

lemma effective_max_payload_bound:
  "cfg = Some m \<Longrightarrow> sizeof_header < m \<Longrightarrow> smb_effective_max_payload_size cfg = m - sizeof_header"
  by (simp add: smb_effective_max_payload_size_def)

lemma create_message_SomeD:
  assumes "zoo_smb_create_message cfg ok1 ok2 now raw ty sndr tpc pl psize mid rid = Some m"
  shows "psize \<le> smb_effective_max_payload_size cfg"
    and "payload m = (if psize = 0 then None else map_option (take psize) pl)"
    and "header m = (header raw)
          \<lparr>sender := copy_name (sender (header raw)) sndr, topic := copy_name (topic (header raw)) tpc,
           magic := ZOO_SMB_MSG_MAGIC_NUMBER, version := ZOO_SMB_MSG_VERSION, msg_type := ty,
           flags := 0, crc32 := zoo_smb_calc_message_crc32 (payload m) psize,
           payload_size := word_of_nat psize, msg_id := mid, timestamp := now, request_id := rid\<rparr>"
    and "sndr \<noteq> None" and "tpc \<noteq> None" and "0 < psize \<Longrightarrow> pl \<noteq> None"
  using assms by (auto simp: message_defs split: if_splits option.splits)

lemma copy_message_cases:
  assumes "n = unat (payload_size (header f))"
  shows "zoo_smb_copy_message ok (Some f) (Some t) =
    (if n = 0 then (True, Some \<lparr>header = header f, payload = None\<rparr>)
     else case payload f of
       None \<Rightarrow> (False, Some \<lparr>header = header f, payload = None\<rparr>)
     | Some p \<Rightarrow>
         if ok then (True, Some \<lparr>header = header f, payload = Some (take n p)\<rparr>)
         else (False, Some \<lparr>header = zero_header, payload = None\<rparr>))"
  using assms by (auto simp: zoo_smb_copy_message_def smb_message_alloc_def Let_def split: option.splits)

section \<open>Properties\<close>

text \<open>
  The image of a well-formed header in the memory of a host, read back on a host of the same
  byte order, is that header, whatever follows it in memory.
\<close>

theorem header_image_roundtrip:
  assumes "wf_header h"
  shows "read_header e (header_bytes e h @ rest) = h"
  using assms by (rule read_header_bytes)

theorem header_image_roundtrip_witness:
  "read_header Big (header_bytes Big (zero_header\<lparr>magic := 7\<rparr>) @ [1]) = zero_header\<lparr>magic := 7\<rparr>"
  by (rule header_image_roundtrip) (simp add: wf_header_def zero_header_def)

text \<open>
  A created message carries the payload it was given (none for size 0), its size, and names cut to
  31 characters and zero-terminated; its checksum field is the complement of the CRC32 of the
  payload (all ones without payload).
\<close>

theorem create_message_contents:
  assumes "zoo_smb_create_message cfg ok1 ok2 now raw ty (Some sn) (Some tp) pl psize mid rid = Some m"
    and "wf_header (header raw)" and "psize < 2 ^ 32"
  shows "payload m = (if psize = 0 then None else map_option (take psize) pl)
    \<and> unat (payload_size (header m)) = psize
    \<and> wf_header (header m)
    \<and> c_str (sender (header m)) = take 31 (c_str sn)
    \<and> c_str (topic (header m)) = take 31 (c_str tp)
    \<and> crc32 (header m) = NOT (case payload m of None \<Rightarrow> 0 | Some p \<Rightarrow> crc32_bitwise p)"
proof -
  note D = create_message_SomeD [OF assms(1)]
  have sz: "unat (word_of_nat psize :: u32) = psize"
    using assms(3) by (simp add: unsigned_of_nat take_bit_nat_eq_self)
  have w: "length (sender (header raw)) = 32" "length (topic (header raw)) = 32"
    using assms(2) by (simp_all add: wf_header_def)
  have crc: "zoo_smb_calc_message_crc32 (payload m) psize =
      NOT (case payload m of None \<Rightarrow> 0 | Some p \<Rightarrow> crc32_bitwise p)"
    using D(2) by (auto simp: zoo_smb_calc_message_crc32_def calc_crc32_eq
        split: option.splits if_splits)
  show ?thesis using D sz w crc copy_name_props by (simp add: wf_header_def)
qed

theorem create_message_contents_witness:
  "\<exists>m. zoo_smb_create_message None True True 5 \<lparr>header = zero_header, payload = None\<rparr> 1
        (Some [65]) (Some [66]) (Some [1, 2, 3]) 2 9 10 = Some m
     \<and> payload m = Some [1, 2] \<and> unat (payload_size (header m)) = 2 \<and> c_str (topic (header m)) = [66]"
proof -
  let ?c = "zoo_smb_create_message None True True 5 \<lparr>header = zero_header, payload = None\<rparr> 1
        (Some [65]) (Some [66]) (Some [1, 2, 3]) 2 9 10"
  have "?c \<noteq> None"
    by (simp add: message_defs smb_effective_max_payload_size_def sizeof_header_def sizeof_msg_def
        ZOO_SMB_DEFAULT_MAX_TRANSPORT_BUFFER_SIZE_def)
  then obtain m where m: "?c = Some m" by auto
  have wf: "wf_header (header \<lparr>header = zero_header, payload = None\<rparr>)"
    by (simp add: wf_header_def zero_header_def)
  show ?thesis using m create_message_contents [OF m wf] by (simp add: c_str_def)
qed

text \<open>
  A failed deep copy can leave the source's header in the destination: the header file
  promises an all-zero destination on every failure, and the branch for a source that has a
  size but no payload does not clear it.
\<close>

theorem copy_message_failure_keeps_header:
  "\<exists>f t'. zoo_smb_copy_message ok (Some f) (Some t) = (False, Some t') \<and> header t' \<noteq> zero_header"
proof (intro exI conjI)
  let ?f = "\<lparr>header = zero_header\<lparr>payload_size := 1\<rparr>, payload = None\<rparr>"
  show "zoo_smb_copy_message ok (Some ?f) (Some t) = (False, Some ?f)"
    by (simp add: zoo_smb_copy_message_def Let_def)
  show "header ?f \<noteq> zero_header" by (simp add: zero_header_def)
qed

end
