(* ===== verification/SMB_Error.thy ===== *)
theory SMB_Error
  imports SMB_Prelude
begin

text \<open>
  Error codes. \<open>ZOO_ERROR_TYPE\<close> is a 32-bit \<open>int\<close>; the platform's codes are small negative
  numbers (\<open>include/platform/zoo_error.h\<close>), the bus packs a flag bit, a category, a subcategory
  and a specific code (\<open>include/kernal/utility/zoo_smb_error.h\<close>). Both are modelled as the 32-bit
  word that holds them.
\<close>

type_synonym zoo_error = u32

section \<open>Packing and unpacking\<close>

definition ZOO_SMB_MAKE_ERROR :: "u32 \<Rightarrow> u32 \<Rightarrow> u32 \<Rightarrow> zoo_error" where
  "ZOO_SMB_MAKE_ERROR cat sub spec =
     0x80000000 OR push_bit 24 (cat AND 0x7F) OR push_bit 16 (sub AND 0xFF) OR (spec AND 0xFFFF)"

definition ZOO_SMB_GET_CATEGORY :: "zoo_error \<Rightarrow> u32" where
  "ZOO_SMB_GET_CATEGORY err = drop_bit 24 (err AND 0x7F000000)"

definition ZOO_SMB_GET_SUBCATEGORY :: "zoo_error \<Rightarrow> u32" where
  "ZOO_SMB_GET_SUBCATEGORY err = drop_bit 16 (err AND 0x00FF0000)"

definition ZOO_SMB_GET_SPECIFIC :: "zoo_error \<Rightarrow> u32" where
  "ZOO_SMB_GET_SPECIFIC err = err AND 0x0000FFFF"

definition ZOO_SMB_IS_SUCCESS :: "zoo_error \<Rightarrow> bool" where
  "ZOO_SMB_IS_SUCCESS err \<longleftrightarrow> err AND 0x80000000 = 0"

definition ZOO_SMB_IS_ERROR :: "zoo_error \<Rightarrow> bool" where
  "ZOO_SMB_IS_ERROR err \<longleftrightarrow> err AND 0x80000000 \<noteq> 0"

section \<open>Codes used by the modelled components\<close>

definition ZOO_OK :: zoo_error where "ZOO_OK = 0"
definition ZOO_SMB_OK :: zoo_error where "ZOO_SMB_OK = ZOO_OK"

definition ZOO_ERROR_INVALID_PARAM :: zoo_error where "ZOO_ERROR_INVALID_PARAM = - 2"
definition ZOO_ERROR_NOT_FOUND :: zoo_error where "ZOO_ERROR_NOT_FOUND = - 8"
definition ZOO_ERROR_OUT_OF_MEMORY :: zoo_error where "ZOO_ERROR_OUT_OF_MEMORY = - 101"
definition ZOO_ERROR_MUTEX_LOCK_FAILED :: zoo_error where "ZOO_ERROR_MUTEX_LOCK_FAILED = - 403"
definition ZOO_ERROR_BUFFER_FULL :: zoo_error where "ZOO_ERROR_BUFFER_FULL = - 1601"
definition ZOO_ERROR_BUFFER_OUT_OF_RANGE :: zoo_error where "ZOO_ERROR_BUFFER_OUT_OF_RANGE = - 1603"

definition ZOO_SMB_ERROR_INVALID_PARAM :: zoo_error where
  "ZOO_SMB_ERROR_INVALID_PARAM = ZOO_SMB_MAKE_ERROR 0 0 1"
definition ZOO_SMB_ERROR_INVALID_SIZE :: zoo_error where
  "ZOO_SMB_ERROR_INVALID_SIZE = ZOO_SMB_MAKE_ERROR 0 0 4"
definition ZOO_SMB_ERROR_INVALID_STATE :: zoo_error where
  "ZOO_SMB_ERROR_INVALID_STATE = ZOO_SMB_MAKE_ERROR 0 1 3"
definition ZOO_SMB_ERROR_ALLOCATION_FAILED :: zoo_error where
  "ZOO_SMB_ERROR_ALLOCATION_FAILED = ZOO_SMB_MAKE_ERROR 1 0 2"
definition ZOO_SMB_ERROR_OUT_OF_MEMORY :: zoo_error where
  "ZOO_SMB_ERROR_OUT_OF_MEMORY = ZOO_SMB_MAKE_ERROR 1 0 1"

definition ZOO_SMB_ERROR_RINGBUF_FULL :: zoo_error where
  "ZOO_SMB_ERROR_RINGBUF_FULL = ZOO_SMB_MAKE_ERROR 15 1 3"
definition ZOO_SMB_ERROR_RINGBUF_EMPTY :: zoo_error where
  "ZOO_SMB_ERROR_RINGBUF_EMPTY = ZOO_SMB_MAKE_ERROR 15 1 4"
definition ZOO_SMB_ERROR_RINGBUF_CORRUPTED :: zoo_error where
  "ZOO_SMB_ERROR_RINGBUF_CORRUPTED = ZOO_SMB_MAKE_ERROR 15 3 1"

definition ZOO_SMB_ERROR_NOT_STARTED :: zoo_error where
  "ZOO_SMB_ERROR_NOT_STARTED = ZOO_SMB_MAKE_ERROR 0 1 4"
definition ZOO_SMB_ERROR_NETWORK_SEND_FAILED :: zoo_error where
  "ZOO_SMB_ERROR_NETWORK_SEND_FAILED = ZOO_SMB_MAKE_ERROR 3 2 1"
definition ZOO_SMB_ERROR_TRANSPORT_SEND_FAILED :: zoo_error where
  "ZOO_SMB_ERROR_TRANSPORT_SEND_FAILED = ZOO_SMB_MAKE_ERROR 5 1 1"
definition ZOO_SMB_ERROR_SERVICE_NOT_FOUND :: zoo_error where
  "ZOO_SMB_ERROR_SERVICE_NOT_FOUND = ZOO_SMB_MAKE_ERROR 6 2 1"
definition ZOO_SMB_ERROR_SERVICE_UNAVAILABLE :: zoo_error where
  "ZOO_SMB_ERROR_SERVICE_UNAVAILABLE = ZOO_SMB_MAKE_ERROR 6 2 2"
definition ZOO_SMB_ERROR_PUBLICATION_NO_SUBSCRIBERS :: zoo_error where
  "ZOO_SMB_ERROR_PUBLICATION_NO_SUBSCRIBERS = ZOO_SMB_MAKE_ERROR 17 1 1"

definition ZOO_SMB_ERROR_TRANSPORT_INIT_FAILED :: zoo_error where
  "ZOO_SMB_ERROR_TRANSPORT_INIT_FAILED = ZOO_SMB_MAKE_ERROR 5 0 2"
definition ZOO_SMB_ERROR_NOT_SUPPORTED :: zoo_error where
  "ZOO_SMB_ERROR_NOT_SUPPORTED = ZOO_SMB_MAKE_ERROR 0 2 1"
definition ZOO_SMB_ERROR_OPERATION_FAILED :: zoo_error where
  "ZOO_SMB_ERROR_OPERATION_FAILED = ZOO_SMB_MAKE_ERROR 0 2 3"
definition ZOO_SMB_ERROR_TIMEOUT :: zoo_error where
  "ZOO_SMB_ERROR_TIMEOUT = ZOO_SMB_MAKE_ERROR 27 0 1"
definition ZOO_SMB_ERROR_NOT_FOUND :: zoo_error where
  "ZOO_SMB_ERROR_NOT_FOUND = ZOO_SMB_MAKE_ERROR 0 3 1"
definition ZOO_SMB_ERROR_NOT_INITIALIZED :: zoo_error where
  "ZOO_SMB_ERROR_NOT_INITIALIZED = ZOO_SMB_MAKE_ERROR 0 1 1"
definition ZOO_SMB_ERROR_SOCKET_CONNECT_FAILED :: zoo_error where
  "ZOO_SMB_ERROR_SOCKET_CONNECT_FAILED = ZOO_SMB_MAKE_ERROR 3 0 5"
definition ZOO_SMB_ERROR_SHM_ATTACH_FAILED :: zoo_error where
  "ZOO_SMB_ERROR_SHM_ATTACH_FAILED = ZOO_SMB_MAKE_ERROR 14 0 2"
definition ZOO_SMB_ERROR_QUEUE_FULL :: zoo_error where
  "ZOO_SMB_ERROR_QUEUE_FULL = ZOO_SMB_MAKE_ERROR 10 3 2"
definition ZOO_SMB_ERROR_TRANSPORT_CONNECTION_LOST :: zoo_error where
  "ZOO_SMB_ERROR_TRANSPORT_CONNECTION_LOST = ZOO_SMB_MAKE_ERROR 5 2 3"
definition ZOO_SMB_ERROR_SHM_NOT_FOUND :: zoo_error where
  "ZOO_SMB_ERROR_SHM_NOT_FOUND = ZOO_SMB_MAKE_ERROR 14 1 1"
definition ZOO_SMB_ERROR_SHM_DATA_CORRUPTED :: zoo_error where
  "ZOO_SMB_ERROR_SHM_DATA_CORRUPTED = ZOO_SMB_MAKE_ERROR 14 3 6"
definition ZOO_SMB_ERROR_SHM_CREATE_FAILED :: zoo_error where
  "ZOO_SMB_ERROR_SHM_CREATE_FAILED = ZOO_SMB_MAKE_ERROR 14 0 1"
definition ZOO_SMB_ERROR_SHM_BUFFER_FULL :: zoo_error where
  "ZOO_SMB_ERROR_SHM_BUFFER_FULL = ZOO_SMB_MAKE_ERROR 14 3 1"
definition ZOO_SMB_ERROR_INVALID_NAME :: zoo_error where
  "ZOO_SMB_ERROR_INVALID_NAME = ZOO_SMB_MAKE_ERROR 0 0 6"
definition ZOO_SMB_ERROR_EVENTFD_CREATION_FAILED :: zoo_error where
  "ZOO_SMB_ERROR_EVENTFD_CREATION_FAILED = ZOO_SMB_MAKE_ERROR 14 2 5"
definition ZOO_SMB_ERROR_TRANSPORT_START_FAILED :: zoo_error where
  "ZOO_SMB_ERROR_TRANSPORT_START_FAILED = ZOO_SMB_MAKE_ERROR 5 0 3"
definition ZOO_SMB_ERROR_TRANSPORT_CONNECT_FAILED :: zoo_error where
  "ZOO_SMB_ERROR_TRANSPORT_CONNECT_FAILED = ZOO_SMB_MAKE_ERROR 5 2 1"
definition ZOO_SMB_ERROR_SHM_SYNCHRONIZATION_FAILED :: zoo_error where
  "ZOO_SMB_ERROR_SHM_SYNCHRONIZATION_FAILED = ZOO_SMB_MAKE_ERROR 14 2 4"
definition ZOO_SMB_ERROR_RINGBUF_INIT_FAILED :: zoo_error where
  "ZOO_SMB_ERROR_RINGBUF_INIT_FAILED = ZOO_SMB_MAKE_ERROR 15 0 3"
definition ZOO_SMB_ERROR_RINGBUF_CREATE_FAILED :: zoo_error where
  "ZOO_SMB_ERROR_RINGBUF_CREATE_FAILED = ZOO_SMB_MAKE_ERROR 15 0 1"
definition ZOO_SMB_ERROR_PUBLICATION_QOS_VIOLATION :: zoo_error where
  "ZOO_SMB_ERROR_PUBLICATION_QOS_VIOLATION = ZOO_SMB_MAKE_ERROR 17 2 1"
definition ZOO_SMB_ERROR_PROCESS_NOT_FOUND :: zoo_error where
  "ZOO_SMB_ERROR_PROCESS_NOT_FOUND = ZOO_SMB_MAKE_ERROR 0 4 1"
definition ZOO_SMB_ERROR_NETWORK_IO_ERROR :: zoo_error where
  "ZOO_SMB_ERROR_NETWORK_IO_ERROR = ZOO_SMB_MAKE_ERROR 3 2 3"
definition ZOO_SMB_ERROR_LIST_FULL :: zoo_error where
  "ZOO_SMB_ERROR_LIST_FULL = ZOO_SMB_MAKE_ERROR 10 0 2"
definition ZOO_SMB_ERROR_ALREADY_STARTED :: zoo_error where
  "ZOO_SMB_ERROR_ALREADY_STARTED = ZOO_SMB_MAKE_ERROR 0 1 5"
definition ZOO_SMB_ERROR_VERSION_MISMATCH :: zoo_error where
  "ZOO_SMB_ERROR_VERSION_MISMATCH = ZOO_SMB_MAKE_ERROR 4 1 1"
definition ZOO_SMB_ERROR_SOCKET_CREATE_FAILED :: zoo_error where
  "ZOO_SMB_ERROR_SOCKET_CREATE_FAILED = ZOO_SMB_MAKE_ERROR 3 0 1"
definition ZOO_SMB_ERROR_SHM_DATA_VERSION_MISMATCH :: zoo_error where
  "ZOO_SMB_ERROR_SHM_DATA_VERSION_MISMATCH = ZOO_SMB_MAKE_ERROR 14 3 5"
definition ZOO_SMB_ERROR_SHM_DATA_INVALID_MAGIC :: zoo_error where
  "ZOO_SMB_ERROR_SHM_DATA_INVALID_MAGIC = ZOO_SMB_MAKE_ERROR 14 3 4"
definition ZOO_SMB_ERROR_ROUTING_RULE_PREPARE_FAILED :: zoo_error where
  "ZOO_SMB_ERROR_ROUTING_RULE_PREPARE_FAILED = ZOO_SMB_MAKE_ERROR 12 0 5"
definition ZOO_SMB_ERROR_PROCESS_CHECK_FAILED :: zoo_error where
  "ZOO_SMB_ERROR_PROCESS_CHECK_FAILED = ZOO_SMB_MAKE_ERROR 0 4 2"
definition ZOO_SMB_ERROR_POOL_EXHAUSTED :: zoo_error where
  "ZOO_SMB_ERROR_POOL_EXHAUSTED = ZOO_SMB_MAKE_ERROR 1 1 4"
definition ZOO_SMB_ERROR_ENCRYPT_FAILED :: zoo_error where
  "ZOO_SMB_ERROR_ENCRYPT_FAILED = ZOO_SMB_MAKE_ERROR 9 3 2"
definition ZOO_SMB_ERROR_BUSY :: zoo_error where
  "ZOO_SMB_ERROR_BUSY = ZOO_SMB_MAKE_ERROR 0 3 3"
definition ZOO_SMB_ERROR_AUTH_REQUIRED :: zoo_error where
  "ZOO_SMB_ERROR_AUTH_REQUIRED = ZOO_SMB_MAKE_ERROR 9 0 2"
definition ZOO_SMB_ERROR_ALREADY_EXISTS :: zoo_error where
  "ZOO_SMB_ERROR_ALREADY_EXISTS = ZOO_SMB_MAKE_ERROR 0 3 2"
definition ZOO_SMB_ERROR_AGAIN :: zoo_error where
  "ZOO_SMB_ERROR_AGAIN = ZOO_SMB_MAKE_ERROR 0 3 4"

lemmas zoo_error_codes = ZOO_OK_def ZOO_SMB_OK_def ZOO_ERROR_INVALID_PARAM_def
  ZOO_ERROR_NOT_FOUND_def ZOO_ERROR_OUT_OF_MEMORY_def ZOO_ERROR_MUTEX_LOCK_FAILED_def
  ZOO_ERROR_BUFFER_FULL_def ZOO_ERROR_BUFFER_OUT_OF_RANGE_def ZOO_SMB_ERROR_INVALID_PARAM_def
  ZOO_SMB_ERROR_INVALID_SIZE_def ZOO_SMB_ERROR_INVALID_STATE_def
  ZOO_SMB_ERROR_ALLOCATION_FAILED_def ZOO_SMB_ERROR_OUT_OF_MEMORY_def
  ZOO_SMB_ERROR_RINGBUF_FULL_def ZOO_SMB_ERROR_RINGBUF_EMPTY_def
  ZOO_SMB_ERROR_RINGBUF_CORRUPTED_def ZOO_SMB_ERROR_NOT_STARTED_def
  ZOO_SMB_ERROR_NETWORK_SEND_FAILED_def ZOO_SMB_ERROR_TRANSPORT_SEND_FAILED_def
  ZOO_SMB_ERROR_SERVICE_NOT_FOUND_def ZOO_SMB_ERROR_SERVICE_UNAVAILABLE_def
  ZOO_SMB_ERROR_PUBLICATION_NO_SUBSCRIBERS_def ZOO_SMB_MAKE_ERROR_def
  ZOO_SMB_ERROR_TRANSPORT_INIT_FAILED_def ZOO_SMB_ERROR_NOT_SUPPORTED_def ZOO_SMB_ERROR_OPERATION_FAILED_def
  ZOO_SMB_ERROR_TIMEOUT_def ZOO_SMB_ERROR_NOT_FOUND_def ZOO_SMB_ERROR_NOT_INITIALIZED_def
  ZOO_SMB_ERROR_SOCKET_CONNECT_FAILED_def ZOO_SMB_ERROR_SHM_ATTACH_FAILED_def ZOO_SMB_ERROR_QUEUE_FULL_def
  ZOO_SMB_ERROR_TRANSPORT_CONNECTION_LOST_def ZOO_SMB_ERROR_SHM_NOT_FOUND_def ZOO_SMB_ERROR_SHM_DATA_CORRUPTED_def
  ZOO_SMB_ERROR_SHM_CREATE_FAILED_def ZOO_SMB_ERROR_SHM_BUFFER_FULL_def ZOO_SMB_ERROR_INVALID_NAME_def
  ZOO_SMB_ERROR_EVENTFD_CREATION_FAILED_def ZOO_SMB_ERROR_TRANSPORT_START_FAILED_def ZOO_SMB_ERROR_TRANSPORT_CONNECT_FAILED_def
  ZOO_SMB_ERROR_SHM_SYNCHRONIZATION_FAILED_def ZOO_SMB_ERROR_RINGBUF_INIT_FAILED_def ZOO_SMB_ERROR_RINGBUF_CREATE_FAILED_def
  ZOO_SMB_ERROR_PUBLICATION_QOS_VIOLATION_def ZOO_SMB_ERROR_PROCESS_NOT_FOUND_def ZOO_SMB_ERROR_NETWORK_IO_ERROR_def
  ZOO_SMB_ERROR_LIST_FULL_def ZOO_SMB_ERROR_ALREADY_STARTED_def ZOO_SMB_ERROR_VERSION_MISMATCH_def
  ZOO_SMB_ERROR_SOCKET_CREATE_FAILED_def ZOO_SMB_ERROR_SHM_DATA_VERSION_MISMATCH_def ZOO_SMB_ERROR_SHM_DATA_INVALID_MAGIC_def
  ZOO_SMB_ERROR_ROUTING_RULE_PREPARE_FAILED_def ZOO_SMB_ERROR_PROCESS_CHECK_FAILED_def ZOO_SMB_ERROR_POOL_EXHAUSTED_def
  ZOO_SMB_ERROR_ENCRYPT_FAILED_def ZOO_SMB_ERROR_BUSY_def ZOO_SMB_ERROR_AUTH_REQUIRED_def
  ZOO_SMB_ERROR_ALREADY_EXISTS_def ZOO_SMB_ERROR_AGAIN_def

section \<open>Lemmas\<close>

lemma is_error_not_ok [simp]: "\<not> ZOO_SMB_IS_ERROR ZOO_SMB_OK"
  by (simp add: ZOO_SMB_IS_ERROR_def ZOO_SMB_OK_def ZOO_OK_def)

lemma error_codes_not_ok [simp]:
  "ZOO_SMB_ERROR_INVALID_PARAM \<noteq> ZOO_SMB_OK" "ZOO_SMB_ERROR_INVALID_SIZE \<noteq> ZOO_SMB_OK"
  "ZOO_SMB_ERROR_INVALID_STATE \<noteq> ZOO_SMB_OK" "ZOO_SMB_ERROR_ALLOCATION_FAILED \<noteq> ZOO_SMB_OK"
  "ZOO_SMB_ERROR_RINGBUF_FULL \<noteq> ZOO_SMB_OK" "ZOO_SMB_ERROR_RINGBUF_EMPTY \<noteq> ZOO_SMB_OK"
  "ZOO_SMB_ERROR_RINGBUF_CORRUPTED \<noteq> ZOO_SMB_OK" "ZOO_SMB_ERROR_OUT_OF_MEMORY \<noteq> ZOO_SMB_OK"
  "ZOO_ERROR_INVALID_PARAM \<noteq> ZOO_OK" "ZOO_ERROR_NOT_FOUND \<noteq> ZOO_OK"
  "ZOO_ERROR_OUT_OF_MEMORY \<noteq> ZOO_OK" "ZOO_ERROR_MUTEX_LOCK_FAILED \<noteq> ZOO_OK"
  "ZOO_ERROR_BUFFER_FULL \<noteq> ZOO_OK" "ZOO_ERROR_BUFFER_OUT_OF_RANGE \<noteq> ZOO_OK"
  by (simp_all add: zoo_error_codes)

lemma error_codes_not_ok2 [simp]:
  "ZOO_SMB_ERROR_TRANSPORT_INIT_FAILED \<noteq> ZOO_SMB_OK" "ZOO_SMB_ERROR_NOT_SUPPORTED \<noteq> ZOO_SMB_OK"
  "ZOO_SMB_ERROR_OPERATION_FAILED \<noteq> ZOO_SMB_OK" "ZOO_SMB_ERROR_TIMEOUT \<noteq> ZOO_SMB_OK"
  "ZOO_SMB_ERROR_NOT_FOUND \<noteq> ZOO_SMB_OK" "ZOO_SMB_ERROR_NOT_INITIALIZED \<noteq> ZOO_SMB_OK"
  "ZOO_SMB_ERROR_SOCKET_CONNECT_FAILED \<noteq> ZOO_SMB_OK" "ZOO_SMB_ERROR_SHM_ATTACH_FAILED \<noteq> ZOO_SMB_OK"
  "ZOO_SMB_ERROR_QUEUE_FULL \<noteq> ZOO_SMB_OK" "ZOO_SMB_ERROR_TRANSPORT_CONNECTION_LOST \<noteq> ZOO_SMB_OK"
  "ZOO_SMB_ERROR_SHM_NOT_FOUND \<noteq> ZOO_SMB_OK" "ZOO_SMB_ERROR_SHM_DATA_CORRUPTED \<noteq> ZOO_SMB_OK"
  "ZOO_SMB_ERROR_SHM_CREATE_FAILED \<noteq> ZOO_SMB_OK" "ZOO_SMB_ERROR_SHM_BUFFER_FULL \<noteq> ZOO_SMB_OK"
  "ZOO_SMB_ERROR_INVALID_NAME \<noteq> ZOO_SMB_OK" "ZOO_SMB_ERROR_EVENTFD_CREATION_FAILED \<noteq> ZOO_SMB_OK"
  "ZOO_SMB_ERROR_TRANSPORT_START_FAILED \<noteq> ZOO_SMB_OK" "ZOO_SMB_ERROR_TRANSPORT_CONNECT_FAILED \<noteq> ZOO_SMB_OK"
  "ZOO_SMB_ERROR_SHM_SYNCHRONIZATION_FAILED \<noteq> ZOO_SMB_OK" "ZOO_SMB_ERROR_RINGBUF_INIT_FAILED \<noteq> ZOO_SMB_OK"
  "ZOO_SMB_ERROR_RINGBUF_CREATE_FAILED \<noteq> ZOO_SMB_OK" "ZOO_SMB_ERROR_PUBLICATION_QOS_VIOLATION \<noteq> ZOO_SMB_OK"
  "ZOO_SMB_ERROR_PROCESS_NOT_FOUND \<noteq> ZOO_SMB_OK" "ZOO_SMB_ERROR_NETWORK_IO_ERROR \<noteq> ZOO_SMB_OK"
  "ZOO_SMB_ERROR_LIST_FULL \<noteq> ZOO_SMB_OK" "ZOO_SMB_ERROR_ALREADY_STARTED \<noteq> ZOO_SMB_OK"
  "ZOO_SMB_ERROR_VERSION_MISMATCH \<noteq> ZOO_SMB_OK" "ZOO_SMB_ERROR_SOCKET_CREATE_FAILED \<noteq> ZOO_SMB_OK"
  "ZOO_SMB_ERROR_SHM_DATA_VERSION_MISMATCH \<noteq> ZOO_SMB_OK" "ZOO_SMB_ERROR_SHM_DATA_INVALID_MAGIC \<noteq> ZOO_SMB_OK"
  "ZOO_SMB_ERROR_ROUTING_RULE_PREPARE_FAILED \<noteq> ZOO_SMB_OK" "ZOO_SMB_ERROR_PROCESS_CHECK_FAILED \<noteq> ZOO_SMB_OK"
  "ZOO_SMB_ERROR_POOL_EXHAUSTED \<noteq> ZOO_SMB_OK" "ZOO_SMB_ERROR_ENCRYPT_FAILED \<noteq> ZOO_SMB_OK"
  "ZOO_SMB_ERROR_BUSY \<noteq> ZOO_SMB_OK" "ZOO_SMB_ERROR_AUTH_REQUIRED \<noteq> ZOO_SMB_OK"
  "ZOO_SMB_ERROR_ALREADY_EXISTS \<noteq> ZOO_SMB_OK" "ZOO_SMB_ERROR_AGAIN \<noteq> ZOO_SMB_OK"
  "ZOO_SMB_ERROR_NOT_STARTED \<noteq> ZOO_SMB_OK" "ZOO_SMB_ERROR_NETWORK_SEND_FAILED \<noteq> ZOO_SMB_OK"
  "ZOO_SMB_ERROR_TRANSPORT_SEND_FAILED \<noteq> ZOO_SMB_OK" "ZOO_SMB_ERROR_SERVICE_NOT_FOUND \<noteq> ZOO_SMB_OK"
  "ZOO_SMB_ERROR_SERVICE_UNAVAILABLE \<noteq> ZOO_SMB_OK"
  "ZOO_SMB_ERROR_PUBLICATION_NO_SUBSCRIBERS \<noteq> ZOO_SMB_OK"
  by (simp_all add: zoo_error_codes)

lemma error_codes_are_errors [simp]:
  "ZOO_SMB_IS_ERROR ZOO_SMB_ERROR_INVALID_PARAM"
  "ZOO_SMB_IS_ERROR ZOO_SMB_ERROR_RINGBUF_CORRUPTED"
  by (simp_all add: zoo_error_codes ZOO_SMB_IS_ERROR_def)

end
