(* ===== verification/Protocol.thy ===== *)
theory Protocol
  imports Message SMB_Error
begin

text \<open>
  The wire format of \<open>src/kernal/transport/zoo_smb_protocol.c\<close>: byte-order conversion, header
  validation, serialisation and deserialisation. The byte order of the host is an argument, so
  that what one host writes and another reads can be stated.
\<close>

section \<open>Byte order\<close>

text \<open>\<open>zoo_smb_protocol_need_swap\<close> looks at the first byte in memory of the \<open>int\<close> 1.\<close>

definition zoo_smb_protocol_need_swap :: "endian \<Rightarrow> bool" where
  "zoo_smb_protocol_need_swap e \<longleftrightarrow> hd (host_bytes e 4 (1 :: u32)) \<noteq> 0"

text \<open>\<open>htobe16\<close>, \<open>htobe32\<close>, \<open>htobe64\<close> (and their inverses, which are the same functions).\<close>

definition htobe :: "endian \<Rightarrow> nat \<Rightarrow> 'a :: len word \<Rightarrow> 'a word" where
  "htobe e n w = (case e of Little \<Rightarrow> le_word (rev (le_bytes n w)) | Big \<Rightarrow> w)"

definition swap_uint32 :: "endian \<Rightarrow> u32 \<Rightarrow> bool \<Rightarrow> u32" where
  "swap_uint32 e value need_swap = (if \<not> need_swap then value else htobe e 4 value)"

definition zoo_smb_protocol_swap_header :: "endian \<Rightarrow> msg_header option \<Rightarrow> msg_header" where
  "zoo_smb_protocol_swap_header e hdr =
     (case hdr of
        None \<Rightarrow> zero_header
      | Some h \<Rightarrow>
          zero_header
          \<lparr>magic := htobe e 4 (magic h), version := htobe e 2 (version h),
           msg_type := htobe e 2 (msg_type h), flags := htobe e 2 (flags h),
           payload_size := htobe e 4 (payload_size h), crc32 := htobe e 4 (crc32 h),
           msg_id := htobe e 4 (msg_id h), sequence := htobe e 4 (sequence h),
           timestamp := htobe e 8 (timestamp h), request_id := htobe e 8 (request_id h),
           sender := sender h, topic := topic h\<rparr>)"

section \<open>Validation\<close>

definition validate_magic_number :: "u32 \<Rightarrow> bool" where
  "validate_magic_number m \<longleftrightarrow> \<not> m \<noteq> ZOO_SMB_MSG_MAGIC_NUMBER"

definition validate_protocol_version :: "u16 \<Rightarrow> bool" where
  "validate_protocol_version v \<longleftrightarrow> \<not> v \<noteq> ZOO_SMB_MSG_VERSION"

definition validate_payload_size :: "nat option \<Rightarrow> u32 \<Rightarrow> bool" where
  "validate_payload_size cfg psize =
     (let max_payload_size = (case cfg of
            Some m \<Rightarrow> if m > sizeof_header then m - sizeof_header else ZOO_SMB_MAX_PAYLOAD_SIZE
          | None \<Rightarrow> ZOO_SMB_MAX_PAYLOAD_SIZE)
      in if unat psize > max_payload_size then False else True)"

definition zoo_smb_protocol_is_header_valid :: "nat option \<Rightarrow> msg_header option \<Rightarrow> bool" where
  "zoo_smb_protocol_is_header_valid cfg hdr =
     (case hdr of
        None \<Rightarrow> False
      | Some h \<Rightarrow>
          if \<not> validate_magic_number (magic h) then False
          else if \<not> validate_protocol_version (version h) then False
          else if \<not> validate_payload_size cfg (payload_size h) then False
          else True)"

definition zoo_smb_protocol_is_header_valid_with_msg_type ::
  "nat option \<Rightarrow> msg_header option \<Rightarrow> int \<Rightarrow> bool" where
  "zoo_smb_protocol_is_header_valid_with_msg_type cfg hdr ty =
     (if \<not> zoo_smb_protocol_is_header_valid cfg hdr then False
      else case hdr of Some h \<Rightarrow> uint (msg_type h) = ty | None \<Rightarrow> False)"

section \<open>Serialisation\<close>

definition calculate_required_buffer_size :: "smb_msg option \<Rightarrow> nat" where
  "calculate_required_buffer_size msg =
     (case msg of None \<Rightarrow> 0 | Some m \<Rightarrow> sizeof_header + unat (payload_size (header m)))"

definition copy_payload_to_buffer :: "smb_msg \<Rightarrow> u8 list \<Rightarrow> u8 list" where
  "copy_payload_to_buffer m buf =
     (case payload m of
        Some p \<Rightarrow>
          if unat (payload_size (header m)) > 0
          then memcpy_at sizeof_header (take (unat (payload_size (header m))) p) buf
          else buf
      | None \<Rightarrow> buf)"

text \<open>The number of bytes written and the buffer afterwards.\<close>

definition zoo_smb_protocol_serialize ::
  "endian \<Rightarrow> smb_msg option \<Rightarrow> u8 list option \<Rightarrow> nat \<Rightarrow> nat \<times> u8 list option" where
  "zoo_smb_protocol_serialize e msg buffer buffer_size =
     (case (msg, buffer) of
        (Some m, Some buf) \<Rightarrow>
          let required_size = calculate_required_buffer_size (Some m)
          in if buffer_size < required_size then (0, buffer)
             else
               let buf0 = memcpy_at 0 (replicate buffer_size 0) buf;
                   hdr = (if zoo_smb_protocol_need_swap e
                          then zoo_smb_protocol_swap_header e (Some (header m)) else header m);
                   buf1 = memcpy_at 0 (header_bytes e hdr) buf0;
                   buf2 = copy_payload_to_buffer m buf1
               in (required_size, Some buf2)
      | _ \<Rightarrow> (0, buffer))"

section \<open>Deserialisation\<close>

definition validate_deserialize_params ::
  "u8 list option \<Rightarrow> nat \<Rightarrow> smb_msg option \<Rightarrow> nat \<Rightarrow> zoo_error" where
  "validate_deserialize_params buffer buffer_size msg_out msg_out_size =
     (if buffer = None \<or> msg_out = None then ZOO_SMB_ERROR_INVALID_PARAM
      else if buffer_size < sizeof_header then ZOO_SMB_ERROR_INVALID_PARAM
      else if msg_out_size < sizeof_msg then ZOO_SMB_ERROR_INVALID_PARAM
      else ZOO_SMB_OK)"

definition extract_and_validate_header :: "endian \<Rightarrow> u8 list \<Rightarrow> msg_header \<Rightarrow> zoo_error \<times> msg_header" where
  "extract_and_validate_header e buf header_out =
     (let hdr = read_header e buf;
          need_swap = zoo_smb_protocol_need_swap e;
          mg = swap_uint32 e (magic hdr) need_swap
      in if \<not> validate_magic_number mg then (ZOO_SMB_ERROR_INVALID_PARAM, header_out)
         else if need_swap then (ZOO_SMB_OK, zoo_smb_protocol_swap_header e (Some hdr))
         else (ZOO_SMB_OK, hdr))"

text \<open>\<open>ok\<close> is the pool's answer to the request for the payload block.\<close>

definition copy_payload_data :: "bool \<Rightarrow> u8 list \<Rightarrow> nat \<Rightarrow> smb_msg \<Rightarrow> zoo_error \<times> smb_msg" where
  "copy_payload_data ok buf buffer_size m =
     (let n = unat (payload_size (header m))
      in if n > 0 \<and> n + sizeof_header > buffer_size then (ZOO_SMB_ERROR_INVALID_PARAM, m)
         else if n > 0 then
           (if \<not> ok then (ZOO_SMB_ERROR_ALLOCATION_FAILED, m\<lparr>payload := None\<rparr>)
            else (ZOO_SMB_OK, m\<lparr>payload := Some (take n (drop sizeof_header buf))\<rparr>))
         else (ZOO_SMB_OK, m))"

definition zoo_smb_protocol_deserialize ::
  "endian \<Rightarrow> bool \<Rightarrow> u8 list option \<Rightarrow> nat \<Rightarrow> smb_msg option \<Rightarrow> nat \<Rightarrow> zoo_error \<times> smb_msg option" where
  "zoo_smb_protocol_deserialize e ok buffer buffer_size msg_out msg_out_size =
     (case (buffer, msg_out) of
        (Some buf, Some m) \<Rightarrow>
          if msg_out_size < sizeof_msg then (ZOO_SMB_ERROR_INVALID_PARAM, msg_out)
          else
            let r1 = validate_deserialize_params buffer buffer_size msg_out msg_out_size
            in if r1 \<noteq> ZOO_SMB_OK then (r1, msg_out)
               else (case extract_and_validate_header e buf (header m) of
                   (r2, h) \<Rightarrow>
                     let m2 = m\<lparr>header := h\<rparr>
                     in if r2 \<noteq> ZOO_SMB_OK then (r2, Some m2)
                        else (case copy_payload_data ok buf buffer_size m2 of (r3, m3) \<Rightarrow> (r3, Some m3)))
      | _ \<Rightarrow> (ZOO_SMB_ERROR_INVALID_PARAM, msg_out))"

section \<open>Lemmas on the byte order\<close>

lemma need_swap_iff [simp]: "zoo_smb_protocol_need_swap e \<longleftrightarrow> e = Little"
  by (cases e) (simp_all add: zoo_smb_protocol_need_swap_def host_bytes_def)

lemma host_bytes_htobe:
  "LENGTH('a) = 8 * n \<Longrightarrow> host_bytes e n (htobe e n (w :: 'a :: len word)) = host_bytes Big n w"
  by (cases e) (simp_all add: host_bytes_def htobe_def le_bytes_le_word)

lemma htobe_host_word:
  assumes "length bs = n" and "LENGTH('a) = 8 * n"
  shows "htobe e n (host_word e bs :: 'a :: len word) = host_word Big bs"
  using assms by (cases e) (simp_all add: host_word_def htobe_def le_bytes_le_word)

lemma htobe_fields:
  "host_bytes e 2 (htobe e 2 (w :: u16)) = host_bytes Big 2 w"
  "host_bytes e 4 (htobe e 4 (x :: u32)) = host_bytes Big 4 x"
  "host_bytes e 8 (htobe e 8 (y :: u64)) = host_bytes Big 8 y"
  by (simp_all add: host_bytes_htobe)

text \<open>The header as it goes over the wire: big-endian, whatever the host.\<close>

definition wire_header :: "msg_header \<Rightarrow> u8 list" where
  "wire_header h = header_bytes Big h"

lemma header_bytes_swapped:
  "header_bytes e (if zoo_smb_protocol_need_swap e
     then zoo_smb_protocol_swap_header e (Some h) else h) = wire_header h"
  by (cases e) (simp_all add: wire_header_def header_bytes_def zoo_smb_protocol_swap_header_def htobe_fields)

lemma field_at_length: "off + n \<le> length bs \<Longrightarrow> length (field_at off n bs) = n"
  by (simp add: field_at_def)

lemma read_header_swapped:
  assumes "sizeof_header \<le> length bs"
  shows "(if zoo_smb_protocol_need_swap e
     then zoo_smb_protocol_swap_header e (Some (read_header e bs)) else read_header e bs) = read_header Big bs"
proof (cases e)
  case Little
  then show ?thesis using assms
    by (simp add: zoo_smb_protocol_swap_header_def read_header_def sizeof_header_def
        htobe_host_word field_at_length zero_header_def)
next
  case Big
  then show ?thesis by simp
qed

lemma swapped_magic:
  assumes "sizeof_header \<le> length bs"
  shows "swap_uint32 e (magic (read_header e bs)) (zoo_smb_protocol_need_swap e) = magic (read_header Big bs)"
  using assms by (cases e)
    (simp_all add: swap_uint32_def read_header_def sizeof_header_def htobe_host_word field_at_length)

lemma extract_header:
  assumes "sizeof_header \<le> length bs"
  shows "extract_and_validate_header e bs h0 =
    (if magic (read_header Big bs) = ZOO_SMB_MSG_MAGIC_NUMBER
     then (ZOO_SMB_OK, read_header Big bs) else (ZOO_SMB_ERROR_INVALID_PARAM, h0))"
  using read_header_swapped [OF assms, of e] swapped_magic [OF assms, of e]
  by (auto simp: extract_and_validate_header_def Let_def validate_magic_number_def)

lemma magic_wire: "host_bytes Big 4 ZOO_SMB_MSG_MAGIC_NUMBER = [0x12, 0x34, 0x56, 0x78]"
  and magic_host: "host_word Big [0x12, 0x34, 0x56, 0x78] = ZOO_SMB_MSG_MAGIC_NUMBER"
  by (simp_all add: host_bytes_def host_word_def ZOO_SMB_MSG_MAGIC_NUMBER_def)

section \<open>Lemmas on serialisation\<close>

text \<open>The bytes after the header: the payload, or zeros for a size without payload.\<close>

definition wire_payload :: "smb_msg \<Rightarrow> u8 list" where
  "wire_payload m = (let n = unat (payload_size (header m)) in
     case payload m of None \<Rightarrow> replicate n 0 | Some p \<Rightarrow> take n p)"

text \<open>A message whose payload block, if any, holds at least the size its header states.\<close>

definition wf_msg :: "smb_msg \<Rightarrow> bool" where
  "wf_msg m \<longleftrightarrow> wf_header (header m) \<and>
     (case payload m of None \<Rightarrow> True | Some p \<Rightarrow> unat (payload_size (header m)) \<le> length p)"

lemma serialize_eq:
  assumes "wf_msg m" and "length buf = buffer_size"
    and "sizeof_header + unat (payload_size (header m)) \<le> buffer_size"
  shows "zoo_smb_protocol_serialize e (Some m) (Some buf) buffer_size =
    (sizeof_header + unat (payload_size (header m)),
     Some (wire_header (header m) @ wire_payload m @
       replicate (buffer_size - sizeof_header - unat (payload_size (header m))) 0))"
proof -
  let ?n = "unat (payload_size (header m))" and ?h = "wire_header (header m)"
  have lh: "length ?h = sizeof_header" using assms(1) by (simp add: wf_msg_def wire_header_def)
  have b0: "memcpy_at 0 (replicate buffer_size 0) buf = replicate buffer_size 0"
    using assms(2) by (simp add: memcpy_at_def)
  have b1: "memcpy_at 0 ?h (replicate buffer_size 0) = ?h @ replicate (buffer_size - sizeof_header) 0"
    by (simp add: memcpy_at_def lh)
  have b2: "copy_payload_to_buffer m (?h @ replicate (buffer_size - sizeof_header) 0) =
      ?h @ wire_payload m @ replicate (buffer_size - sizeof_header - ?n) 0"
  proof (cases "payload m")
    case None
    then show ?thesis using assms(3)
      by (simp add: copy_payload_to_buffer_def wire_payload_def flip: replicate_add)
  next
    case (Some p)
    then have "length (take ?n p) = ?n" using assms(1) by (simp add: wf_msg_def)
    then show ?thesis using Some
      by (auto simp: copy_payload_to_buffer_def wire_payload_def memcpy_at_def lh)
  qed
  show ?thesis using assms(3) b0 b1 b2
    by (simp add: zoo_smb_protocol_serialize_def calculate_required_buffer_size_def Let_def
        header_bytes_swapped del: need_swap_iff)
qed

lemma read_wire_header: "wf_header h \<Longrightarrow> read_header Big (wire_header h @ rest) = h"
  by (simp add: wire_header_def read_header_bytes)

lemma deserialize_eq:
  assumes "length buf = buffer_size"
  shows "zoo_smb_protocol_deserialize e ok (Some buf) buffer_size (Some m0) out_size =
    (if out_size < sizeof_msg \<or> buffer_size < sizeof_header
        \<or> magic (read_header Big buf) \<noteq> ZOO_SMB_MSG_MAGIC_NUMBER
     then (ZOO_SMB_ERROR_INVALID_PARAM, Some m0)
     else let h = read_header Big buf; n = unat (payload_size h) in
       if n = 0 then (ZOO_SMB_OK, Some (m0\<lparr>header := h\<rparr>))
       else if buffer_size < sizeof_header + n
         then (ZOO_SMB_ERROR_INVALID_PARAM, Some (m0\<lparr>header := h\<rparr>))
       else if \<not> ok then (ZOO_SMB_ERROR_ALLOCATION_FAILED, Some (m0\<lparr>header := h, payload := None\<rparr>))
       else (ZOO_SMB_OK, Some (m0\<lparr>header := h, payload := Some (take n (drop sizeof_header buf))\<rparr>)))"
proof (cases "out_size < sizeof_msg \<or> buffer_size < sizeof_header")
  case True
  then show ?thesis
    by (auto simp: zoo_smb_protocol_deserialize_def validate_deserialize_params_def Let_def)
next
  case False
  then have "sizeof_header \<le> length buf" using assms by simp
  note ex = extract_header [OF this, of e "header m0"]
  show ?thesis using False
    by (auto simp: zoo_smb_protocol_deserialize_def validate_deserialize_params_def Let_def ex
        copy_payload_data_def)
qed

section \<open>Properties\<close>

text \<open>
  C18. Serialisation writes the same bytes on every host: the header big-endian field by field, the
  payload behind it, zeros up to the end of the buffer; it reports header size plus payload size.
\<close>

theorem serialize_wire_format:
  assumes "wf_msg m" and "length buf = buffer_size"
    and "sizeof_header + unat (payload_size (header m)) \<le> buffer_size"
  shows "zoo_smb_protocol_serialize e (Some m) (Some buf) buffer_size =
    (sizeof_header + unat (payload_size (header m)),
     Some (wire_header (header m) @ wire_payload m @
       replicate (buffer_size - sizeof_header - unat (payload_size (header m))) 0))"
  using assms by (rule serialize_eq)

definition sample_msg :: smb_msg where
  "sample_msg = \<lparr>header = zero_header\<lparr>magic := 0x12345678, version := 0x1001, payload_size := 3\<rparr>,
     payload = Some [1, 2, 3]\<rparr>"

lemma sample_msg_wf: "wf_msg sample_msg" and sample_msg_size: "payload_size (header sample_msg) = 3"
  by (simp_all add: sample_msg_def wf_msg_def wf_header_def zero_header_def)

theorem serialize_wire_format_witness:
  "zoo_smb_protocol_serialize Little (Some sample_msg) (Some (replicate 110 9)) 110 =
   zoo_smb_protocol_serialize Big (Some sample_msg) (Some (replicate 110 9)) 110"
  using serialize_wire_format [OF sample_msg_wf, of "replicate 110 9" 110]
  by (simp add: sample_msg_size sizeof_header_def)





text \<open>
  C40. A message that was copied successfully goes over the wire byte for byte as the original,
  on every host.
\<close>

theorem copy_message_same_wire:
  assumes "wf_msg f" and "zoo_smb_copy_message ok (Some f) (Some t) = (True, Some t')"
    and "length buf = buffer_size"
  shows "zoo_smb_protocol_serialize e (Some t') (Some buf) buffer_size =
    zoo_smb_protocol_serialize e' (Some f) (Some buf) buffer_size"
proof -
  let ?n = "unat (payload_size (header f))"
  have t': "header t' = header f" and pl: "wire_payload t' = wire_payload f" and wf: "wf_msg t'"
    using assms(1,2) by (auto simp: copy_message_cases wf_msg_def wire_payload_def
        split: if_splits option.splits)
  show ?thesis
  proof (cases "sizeof_header + ?n \<le> buffer_size")
    case True
    then show ?thesis using serialize_eq [OF wf assms(3)] serialize_eq [OF assms(1,3)] t' pl by simp
  next
    case False
    then show ?thesis using t'
      by (simp add: zoo_smb_protocol_serialize_def calculate_required_buffer_size_def Let_def)
  qed
qed

theorem copy_message_same_wire_witness:
  "\<exists>t'. zoo_smb_copy_message True (Some sample_msg) (Some sample_msg) = (True, Some t')
     \<and> zoo_smb_protocol_serialize Big (Some t') (Some (replicate 109 0)) 109 =
       zoo_smb_protocol_serialize Little (Some sample_msg) (Some (replicate 109 0)) 109"
proof -
  have c: "zoo_smb_copy_message True (Some sample_msg) (Some sample_msg) = (True, Some sample_msg)"
    by (simp add: copy_message_cases sample_msg_def)
  show ?thesis using copy_message_same_wire [OF sample_msg_wf c, of "replicate 109 0" 109] c by auto
qed

text \<open>
  With an initialised configuration, every message the constructor builds has a header that the
  header validation of the receiver with the same configuration accepts.
\<close>

theorem created_message_header_valid:
  assumes "zoo_smb_create_message (Some mx) ok1 ok2 now raw ty sndr tpc pl psize mid rid = Some m"
    and "sizeof_header < mx"
  shows "zoo_smb_protocol_is_header_valid (Some mx) (Some (header m))"
proof -
  note D = create_message_SomeD [OF assms(1)]
  have "psize \<le> mx - sizeof_header"
    using D(1) assms(2) effective_max_payload_bound [of "Some mx" mx] by simp
  moreover have "unat (word_of_nat psize :: u32) \<le> psize"
    by (simp add: unsigned_of_nat take_bit_nat_less_eq_self)
  ultimately show ?thesis using D(3) assms(2)
    by (simp add: zoo_smb_protocol_is_header_valid_def validate_magic_number_def
        validate_protocol_version_def validate_payload_size_def)
qed

theorem created_message_header_valid_witness:
  "\<exists>m. zoo_smb_create_message (Some 200) True True 5 \<lparr>header = zero_header, payload = None\<rparr> 1
        (Some [65]) (Some [66]) (Some [1, 2, 3]) 2 9 10 = Some m
     \<and> zoo_smb_protocol_is_header_valid (Some 200) (Some (header m))"
proof -
  let ?c = "zoo_smb_create_message (Some 200) True True 5 \<lparr>header = zero_header, payload = None\<rparr> 1
        (Some [65]) (Some [66]) (Some [1, 2, 3]) 2 9 10"
  have "?c \<noteq> None"
    by (simp add: message_defs smb_effective_max_payload_size_def sizeof_header_def sizeof_msg_def)
  then obtain m where m: "?c = Some m" by auto
  have "sizeof_header < 200" by (simp add: sizeof_header_def)
  from created_message_header_valid [OF m this] m show ?thesis by blast
qed

text \<open>
  Without a configuration the two sides disagree: the constructor falls back to the default
  transport buffer of 40 KiB, the validation to 4097 bytes, so every successful creation of a payload
  larger than that yields a header that the validation rejects.
\<close>

theorem unconfigured_limits_disagree:
  assumes "zoo_smb_create_message None ok1 ok2 now raw ty sndr tpc pl psize mid rid = Some m"
    and "4097 < psize"
  shows "psize \<le> 40854 \<and> \<not> zoo_smb_protocol_is_header_valid None (Some (header m))"
proof -
  note D = create_message_SomeD [OF assms(1)]
  have b: "psize \<le> 40854"
    using D(1) by (simp add: smb_effective_max_payload_size_def sizeof_header_def
        ZOO_SMB_DEFAULT_MAX_TRANSPORT_BUFFER_SIZE_def)
  then have "unat (word_of_nat psize :: u32) = psize"
    by (simp add: unsigned_of_nat take_bit_nat_eq_self)
  then show ?thesis using D(3) assms(2) b
    by (simp add: zoo_smb_protocol_is_header_valid_def validate_payload_size_def
        ZOO_SMB_MAX_PAYLOAD_SIZE_def)
qed

theorem unconfigured_limits_disagree_witness:
  "\<exists>m. zoo_smb_create_message None True True 5 \<lparr>header = zero_header, payload = None\<rparr> 1
        (Some [65]) (Some [66]) (Some (replicate 5000 1)) 5000 9 10 = Some m
     \<and> \<not> zoo_smb_protocol_is_header_valid None (Some (header m))"
proof -
  let ?c = "zoo_smb_create_message None True True 5 \<lparr>header = zero_header, payload = None\<rparr> 1
        (Some [65]) (Some [66]) (Some (replicate 5000 1)) 5000 9 10"
  have "?c \<noteq> None"
    by (simp add: message_defs smb_effective_max_payload_size_def sizeof_header_def sizeof_msg_def
        ZOO_SMB_DEFAULT_MAX_TRANSPORT_BUFFER_SIZE_def)
  then obtain m where m: "?c = Some m" by auto
  from unconfigured_limits_disagree [OF m] m show ?thesis by simp
qed

end
