(* ===== verification/Ring_Buffer.thy ===== *)
theory Ring_Buffer
  imports Protocol
begin

text \<open>
  The shared-memory ring buffer of \<open>src/kernal/utility/zoo_smb_ring_buffer.c\<close>: variable-length
  messages, each framed by a bus header, in a circular byte array with one writer and one reader.

  A shared segment is its control structure and the bytes of its data area; a handle is what a
  process keeps of it. The operations take the handle (\<open>None\<close> for \<open>NULL\<close>) and the segment and
  return the error code and the segment afterwards. Each call is one atomic step here: the atomic
  accesses inside a call are modelled in program order, with no other process between them.
  Positions are 32-bit words with the wrap-around of the source; \<open>e\<close> is the byte order of the host,
  which fixes the image of a header in the data area.
\<close>

section \<open>Constants and data\<close>

definition RING_MAGIC :: u32 where "RING_MAGIC = 0x52494E47"
definition RING_VERSION :: u32 where "RING_VERSION = 2"
definition RING_MIN_SIZE :: nat where "RING_MIN_SIZE = 1024"
definition RING_MAX_SIZE :: nat where "RING_MAX_SIZE = 64 * 1024 * 1024"

text \<open>\<open>ZOO_SMB_PROTOCOL_VERSION\<close>, which the ring's headers carry, is an enumerator of value 1.\<close>

definition ZOO_SMB_PROTOCOL_VERSION :: u16 where "ZOO_SMB_PROTOCOL_VERSION = 1"

text \<open>\<open>RING_ALIGN\<close> rounds up to a multiple of 64; the control structure takes 192 bytes (LP64).\<close>

definition RING_ALIGN :: "u64 \<Rightarrow> u64" where
  "RING_ALIGN sz = (sz + 64 - 1) AND NOT (64 - 1)"

definition sizeof_control :: nat where "sizeof_control = 192"

record ring_control =
  rc_magic :: u32
  rc_version :: u32
  rc_total_size :: u32
  rc_data_size :: u32
  write_pos :: u32
  read_pos :: u32
  write_seq :: u32
  read_seq :: u32
  initialized :: bool
  corrupted :: bool
  total_writes :: u64
  total_reads :: u64
  write_bytes :: u64
  read_bytes :: u64
  overruns :: u64
  underruns :: u64
  active_writers :: u32
  active_readers :: u32
  allow_overwrite :: bool

record ring_shm =
  ctl :: ring_control
  area :: "u8 list"

record ring_handle =
  h_control :: "nat option"
  h_data :: "nat option"
  h_data_size :: u32
  is_owner :: bool
  is_attached :: bool
  last_read_pos :: u32
  last_read_seq :: u32
  memory_base :: "nat option"
  memory_size :: nat
  owns_memory :: bool

section \<open>Helpers\<close>

definition ring_next_pos :: "u32 \<Rightarrow> u32 \<Rightarrow> u32 \<Rightarrow> u32" where
  "ring_next_pos pos increment sz = (pos + increment) mod sz"

definition ring_space :: "u32 \<Rightarrow> u32 \<Rightarrow> u32 \<Rightarrow> u32" where
  "ring_space wp rp sz = (if wp \<ge> rp then sz - (wp - rp) - 1 else rp - wp - 1)"

definition ring_used :: "u32 \<Rightarrow> u32 \<Rightarrow> u32 \<Rightarrow> u32" where
  "ring_used wp rp sz = (if wp \<ge> rp then wp - rp else sz - (rp - wp))"

definition create_ring_header :: "u64 \<Rightarrow> u8 list \<Rightarrow> nat \<Rightarrow> u32 \<Rightarrow> msg_header" where
  "create_ring_header now d sz sq =
     zero_header\<lparr>magic := ZOO_SMB_MSG_MAGIC_NUMBER, version := ZOO_SMB_PROTOCOL_VERSION,
       msg_type := MSG_TYPE_PUB, flags := 0, payload_size := word_of_nat sz, sequence := sq,
       timestamp := now, crc32 := zoo_calc_crc32 (Some d) sz\<rparr>"

definition validate_ring_header :: "msg_header \<Rightarrow> bool" where
  "validate_ring_header h \<longleftrightarrow>
     magic h = ZOO_SMB_MSG_MAGIC_NUMBER \<and> version h = ZOO_SMB_PROTOCOL_VERSION"

definition zoo_smb_ring_buffer_get_required_size :: "u64 \<Rightarrow> u64" where
  "zoo_smb_ring_buffer_get_required_size data_size =
     (let d1 = (if data_size < word_of_nat RING_MIN_SIZE then word_of_nat RING_MIN_SIZE else data_size);
          d2 = (if d1 > word_of_nat RING_MAX_SIZE then word_of_nat RING_MAX_SIZE else d1)
      in RING_ALIGN (word_of_nat sizeof_control) + RING_ALIGN d2)"

section \<open>Creation, attachment, validity\<close>

text \<open>
  \<open>zoo_smb_ring_buffer_create_in_memory\<close>: \<open>memory\<close> is the address of the caller's block, \<open>mem\<close> its
  bytes, \<open>ok\<close> the pool's answer to the request for the handle.
\<close>

definition zoo_smb_ring_buffer_create_in_memory ::
  "bool \<Rightarrow> nat option \<Rightarrow> u8 list \<Rightarrow> nat \<Rightarrow> bool \<Rightarrow> (ring_handle \<times> ring_shm) option" where
  "zoo_smb_ring_buffer_create_in_memory ok memory mem msize overwrite =
     (case memory of
        None \<Rightarrow> None
      | Some base \<Rightarrow>
          if msize < sizeof_control + RING_MIN_SIZE then None
          else if \<not> ok then None
          else
            let control_size = unat (RING_ALIGN (word_of_nat sizeof_control));
                ds = word_of_nat (msize - control_size) :: u32;
                rb = \<lparr>h_control = Some base, h_data = Some (base + control_size), h_data_size = ds,
                      is_owner = True, is_attached = True, last_read_pos = 0, last_read_seq = 0,
                      memory_base = Some base, memory_size = msize, owns_memory = False\<rparr>;
                c = \<lparr>rc_magic = RING_MAGIC, rc_version = RING_VERSION,
                     rc_total_size = word_of_nat msize, rc_data_size = ds,
                     write_pos = 0, read_pos = 0, write_seq = 0, read_seq = 0,
                     initialized = True, corrupted = False,
                     total_writes = 0, total_reads = 0, write_bytes = 0, read_bytes = 0,
                     overruns = 0, underruns = 0, active_writers = 0, active_readers = 0,
                     allow_overwrite = overwrite\<rparr>
            in Some (rb, \<lparr>ctl = c, area = drop control_size mem\<rparr>))"

definition zoo_smb_ring_buffer_attach :: "bool \<Rightarrow> nat option \<Rightarrow> ring_shm \<Rightarrow> ring_handle option" where
  "zoo_smb_ring_buffer_attach ok memory shm =
     (case memory of
        None \<Rightarrow> None
      | Some base \<Rightarrow>
          let c = ctl shm
          in if rc_magic c \<noteq> RING_MAGIC then None
             else if rc_version c \<noteq> RING_VERSION then None
             else if \<not> initialized c then None
             else if corrupted c then None
             else if \<not> ok then None
             else Some
               \<lparr>h_control = Some base,
                h_data = Some (base + unat (RING_ALIGN (word_of_nat sizeof_control))),
                h_data_size = rc_data_size c, is_owner = False, is_attached = True,
                last_read_pos = read_pos c, last_read_seq = read_seq c, memory_base = Some base,
                memory_size = unat (rc_total_size c), owns_memory = False\<rparr>)"

definition zoo_smb_ring_buffer_destroy :: "ring_handle option \<Rightarrow> ring_shm \<Rightarrow> ring_shm" where
  "zoo_smb_ring_buffer_destroy buffer shm =
     (case buffer of
        None \<Rightarrow> shm
      | Some h \<Rightarrow>
          if is_owner h \<and> h_control h \<noteq> None
          then shm\<lparr>ctl := (ctl shm)\<lparr>initialized := False, corrupted := True\<rparr>\<rparr>
          else shm)"

definition zoo_smb_ring_buffer_is_valid :: "ring_handle option \<Rightarrow> ring_shm \<Rightarrow> bool" where
  "zoo_smb_ring_buffer_is_valid buffer shm =
     (case buffer of
        None \<Rightarrow> False
      | Some h \<Rightarrow>
          let c = ctl shm
          in if h_control h = None then False
             else if h_data h = None then False
             else if rc_magic c \<noteq> RING_MAGIC then False
             else if rc_version c \<noteq> RING_VERSION then False
             else if \<not> initialized c then False
             else if corrupted c then False
             else if unat (h_data_size h) < RING_MIN_SIZE then False
             else if unat (h_data_size h) > RING_MAX_SIZE then False
             else if write_pos c \<ge> h_data_size h then False
             else if read_pos c \<ge> h_data_size h then False
             else True)"

definition validate_buffer_for_operation :: "ring_handle option \<Rightarrow> ring_shm \<Rightarrow> zoo_error" where
  "validate_buffer_for_operation buffer shm =
     (if buffer = None then ZOO_SMB_ERROR_INVALID_PARAM
      else if \<not> zoo_smb_ring_buffer_is_valid buffer shm then ZOO_SMB_ERROR_RINGBUF_CORRUPTED
      else ZOO_SMB_OK)"

section \<open>Moving bytes in and out of the data area\<close>

text \<open>
  The byte-by-byte loop that reads a header with wrap-around: \<open>None\<close> where a position is out of
  bounds, else the bytes and the position behind them.
\<close>

fun ring_fetch :: "u8 list \<Rightarrow> u32 \<Rightarrow> u32 \<Rightarrow> nat \<Rightarrow> (u8 list \<times> u32) option" where
  "ring_fetch d sz pos 0 = Some ([], pos)"
| "ring_fetch d sz pos (Suc n) =
     (if pos \<ge> sz then None
      else case ring_fetch d sz ((pos + 1) mod sz) n of
          None \<Rightarrow> None
        | Some (bs, q) \<Rightarrow> Some (d ! unat pos # bs, q))"

text \<open>The two-part \<open>memcpy\<close> that writes a block at a position with wrap-around.\<close>

definition ring_store :: "u8 list \<Rightarrow> u32 \<Rightarrow> u32 \<Rightarrow> u8 list \<Rightarrow> u8 list" where
  "ring_store d sz pos src =
     (if unat pos + length src \<le> unat sz then memcpy_at (unat pos) src d
      else
        let first_part = unat (sz - pos)
        in memcpy_at 0 (drop first_part src) (memcpy_at (unat pos) (take first_part src) d))"

text \<open>The two-part \<open>memcpy\<close> that reads a payload; \<open>None\<close> for the check on the wrap calculation.\<close>

definition ring_load :: "u8 list \<Rightarrow> u32 \<Rightarrow> u32 \<Rightarrow> u32 \<Rightarrow> u8 list option" where
  "ring_load d sz pos n =
     (if pos + n \<le> sz then Some (take (unat n) (drop (unat pos) d))
      else
        let first_part = sz - pos
        in if first_part > n then None
           else Some (take (unat first_part) (drop (unat pos) d) @ take (unat (n - first_part)) d))"

section \<open>Writing\<close>

definition ring_peek_header :: "endian \<Rightarrow> u8 list \<Rightarrow> u32 \<Rightarrow> u32 \<Rightarrow> (msg_header \<times> u32) option" where
  "ring_peek_header e d sz pos =
     map_option (\<lambda>(bs, q). (read_header e bs, q)) (ring_fetch d sz pos sizeof_header)"

text \<open>
  The loop that makes room in overwrite mode, from the arguments \<open>new_read_pos\<close>,
  \<open>bytes_to_discard\<close> and \<open>messages_discarded\<close>: a valid message is skipped whole, anything else a
  byte at a time. It returns the new read position and the number of messages discarded.
\<close>

function ring_discard ::
  "endian \<Rightarrow> u8 list \<Rightarrow> u32 \<Rightarrow> u32 \<Rightarrow> u32 \<Rightarrow> u32 \<Rightarrow> nat \<Rightarrow> u32 \<times> nat" where
  "ring_discard e d sz wp rp todo cnt =
     (if todo > 0 \<and> cnt < 1000 then
        if unat (ring_used wp rp sz) < sizeof_header then (ring_next_pos rp todo sz, cnt)
        else case ring_peek_header e d sz rp of
            None \<Rightarrow> ring_discard e d sz wp (ring_next_pos rp 1 sz)
                        (if todo > 1 then todo - 1 else 0) cnt
          | Some (h, _) \<Rightarrow>
              if \<not> validate_ring_header h then
                ring_discard e d sz wp (ring_next_pos rp 1 sz) (if todo > 1 then todo - 1 else 0) cnt
              else
                let total_size = word_of_nat sizeof_header + payload_size h
                in if payload_size h > sz \<or> total_size > sz then
                     ring_discard e d sz wp (ring_next_pos rp 1 sz)
                       (if todo > 1 then todo - 1 else 0) cnt
                   else
                     ring_discard e d sz wp (ring_next_pos rp total_size sz)
                       (if todo > total_size then todo - total_size else 0) (cnt + 1)
      else (rp, cnt))"
  by pat_completeness auto

lemma unat_todo_decr: "0 < (todo :: u32) \<Longrightarrow> unat (if todo > 1 then todo - 1 else 0) < unat todo"
  by (auto simp: word_less_nat_alt unat_sub word_le_nat_alt)

lemma unat_todo_le: "unat (if todo > total_size then todo - total_size else 0) \<le> unat (todo :: u32)"
  by (auto simp: word_less_nat_alt unat_sub word_le_nat_alt)

termination ring_discard
proof (relation "measure (\<lambda>(_, _, _, _, _, todo, cnt). unat todo + (1000 - cnt))", goal_cases)
  case (5 e d sz wp rp todo cnt x h q total_size)
  then show ?case
    using unat_todo_le [of total_size todo] by (simp only: in_measure prod.case) linarith
qed (use unat_todo_decr in \<open>simp_all only: in_measure prod.case add_less_cancel_right wf_measure\<close>)

declare ring_discard.simps [simp del]

text \<open>The part of a write behind the space check: both blocks are stored and \<open>write_pos\<close> published.\<close>

definition ring_commit ::
  "endian \<Rightarrow> u64 \<Rightarrow> u32 \<Rightarrow> ring_shm \<Rightarrow> u8 list \<Rightarrow> nat \<Rightarrow> zoo_error \<times> ring_shm" where
  "ring_commit e now sz shm d n =
     (let c = ctl shm; wp = write_pos c; sq = write_seq c;
          header = create_ring_header now d n sq;
          failed = shm\<lparr>ctl := c\<lparr>active_writers := active_writers c - 1, corrupted := True\<rparr>\<rparr>
      in if wp \<ge> sz then (ZOO_SMB_ERROR_RINGBUF_CORRUPTED, failed)
         else
           let a1 = ring_store (area shm) sz wp (header_bytes e header);
               wp1 = ring_next_pos wp (word_of_nat sizeof_header) sz;
               a2 = (if n > 0 then ring_store a1 sz wp1 (take n d) else a1);
               wp2 = ring_next_pos wp1 (word_of_nat n) sz
           in if wp2 \<ge> sz then (ZOO_SMB_ERROR_RINGBUF_CORRUPTED, failed\<lparr>area := a2\<rparr>)
              else (ZOO_SMB_OK,
                    \<lparr>ctl = c\<lparr>write_pos := wp2, write_seq := sq + 1, total_writes := total_writes c + 1,
                       write_bytes := write_bytes c + word_of_nat n,
                       active_writers := active_writers c - 1\<rparr>,
                     area = a2\<rparr>))"

definition zoo_smb_ring_buffer_write ::
  "endian \<Rightarrow> u64 \<Rightarrow> ring_handle option \<Rightarrow> ring_shm \<Rightarrow> u8 list option \<Rightarrow> nat \<Rightarrow> zoo_error \<times> ring_shm" where
  "zoo_smb_ring_buffer_write e now buffer shm dat n =
     (let result = validate_buffer_for_operation buffer shm
      in if ZOO_SMB_IS_ERROR result then (result, shm)
         else case (buffer, dat) of
             (Some rb, Some d) \<Rightarrow>
               if n = 0 \<or> n > unat (h_data_size rb) - sizeof_header
               then (ZOO_SMB_ERROR_INVALID_PARAM, shm)
               else
                 let sz = h_data_size rb;
                     total_size = word_of_nat (sizeof_header + n) :: u32;
                     c = (ctl shm)\<lparr>active_writers := active_writers (ctl shm) + 1\<rparr>;
                     wp = write_pos c; rp = read_pos c
                 in if wp \<ge> sz \<or> rp \<ge> sz
                    then (ZOO_SMB_ERROR_RINGBUF_CORRUPTED,
                          shm\<lparr>ctl := c\<lparr>active_writers := active_writers c - 1, corrupted := True\<rparr>\<rparr>)
                    else
                      let available = ring_space wp rp sz
                      in if available < total_size then
                           if \<not> allow_overwrite c
                           then (ZOO_SMB_ERROR_RINGBUF_FULL,
                                 shm\<lparr>ctl := c\<lparr>active_writers := active_writers c - 1\<rparr>\<rparr>)
                           else
                             let (rp', _) = ring_discard e (area shm) sz wp rp (total_size - available) 0
                             in ring_commit e now sz
                                  (shm\<lparr>ctl := c\<lparr>read_pos := rp', overruns := overruns c + 1\<rparr>\<rparr>) d n
                         else ring_commit e now sz (shm\<lparr>ctl := c\<rparr>) d n
           | _ \<Rightarrow> (ZOO_SMB_ERROR_INVALID_PARAM, shm))"

section \<open>Reading\<close>

text \<open>
  \<open>zoo_smb_ring_buffer_read\<close>: \<open>dat\<close> is the caller's output buffer, returned as the call leaves it
  (a checksum failure is found after the payload was copied out).
\<close>

definition zoo_smb_ring_buffer_read ::
  "endian \<Rightarrow> ring_handle option \<Rightarrow> ring_shm \<Rightarrow> u8 list option \<Rightarrow> nat
   \<Rightarrow> zoo_error \<times> ring_shm \<times> u8 list option" where
  "zoo_smb_ring_buffer_read e buffer shm dat expected_size =
     (let result = validate_buffer_for_operation buffer shm
      in if ZOO_SMB_IS_ERROR result then (result, shm, dat)
         else case (buffer, dat) of
             (Some rb, Some out) \<Rightarrow>
               let sz = h_data_size rb;
                   c = (ctl shm)\<lparr>active_readers := active_readers (ctl shm) + 1\<rparr>;
                   wp = write_pos c; rp = read_pos c;
                   left = c\<lparr>active_readers := active_readers c - 1\<rparr>;
                   bad = shm\<lparr>ctl := left\<lparr>corrupted := True\<rparr>\<rparr>
               in if wp \<ge> sz \<or> rp \<ge> sz then (ZOO_SMB_ERROR_RINGBUF_CORRUPTED, bad, dat)
                  else
                    let used = ring_used wp rp sz
                    in if unat used < sizeof_header
                       then (ZOO_SMB_ERROR_RINGBUF_EMPTY,
                             shm\<lparr>ctl := left\<lparr>underruns := underruns c + 1\<rparr>\<rparr>, dat)
                       else case ring_peek_header e (area shm) sz rp of
                           None \<Rightarrow> (ZOO_SMB_ERROR_RINGBUF_CORRUPTED, bad, dat)
                         | Some (h, pos) \<Rightarrow>
                             if \<not> validate_ring_header h
                             then (ZOO_SMB_ERROR_RINGBUF_CORRUPTED, bad, dat)
                             else if unat (payload_size h) > unat sz - sizeof_header
                             then (ZOO_SMB_ERROR_RINGBUF_CORRUPTED, bad, dat)
                             else if unat (payload_size h) \<noteq> expected_size
                             then (ZOO_SMB_ERROR_INVALID_SIZE, shm\<lparr>ctl := left\<rparr>, dat)
                             else if unat used < sizeof_header + unat (payload_size h)
                             then (ZOO_SMB_ERROR_INVALID_STATE, shm\<lparr>ctl := left\<rparr>, dat)
                             else case (if payload_size h > 0
                                        then map_option (\<lambda>bs. (memcpy_at 0 bs out, (pos + payload_size h) mod sz))
                                               (ring_load (area shm) sz pos (payload_size h))
                                        else Some (out, pos)) of
                                 None \<Rightarrow> (ZOO_SMB_ERROR_RINGBUF_CORRUPTED, bad, dat)
                               | Some (out', pos') \<Rightarrow>
                                   if zoo_calc_crc32 (Some out') (unat (payload_size h)) \<noteq> crc32 h
                                   then (ZOO_SMB_ERROR_RINGBUF_CORRUPTED, bad, Some out')
                                   else if pos' \<ge> sz
                                   then (ZOO_SMB_ERROR_RINGBUF_CORRUPTED, bad, Some out')
                                   else (ZOO_SMB_OK,
                                         shm\<lparr>ctl := left\<lparr>read_pos := pos', read_seq := read_seq c + 1,
                                            total_reads := total_reads c + 1,
                                            read_bytes := read_bytes c + ucast (payload_size h)\<rparr>\<rparr>,
                                         Some out')
           | _ \<Rightarrow> (ZOO_SMB_ERROR_INVALID_PARAM, shm, dat))"

section \<open>Queries and reset\<close>

text \<open>The loop here has no position check; behind \<open>is_valid\<close> it is the same fetch.\<close>

definition zoo_smb_ring_buffer_get_next_message_size ::
  "endian \<Rightarrow> ring_handle option \<Rightarrow> ring_shm \<Rightarrow> nat" where
  "zoo_smb_ring_buffer_get_next_message_size e buffer shm =
     (case buffer of
        None \<Rightarrow> 0
      | Some rb \<Rightarrow>
          if \<not> zoo_smb_ring_buffer_is_valid buffer shm then 0
          else
            let sz = h_data_size rb; rp = read_pos (ctl shm);
                used = ring_used (write_pos (ctl shm)) rp sz
            in if unat used < sizeof_header then 0
               else
                 let h = read_header e
                           (map (\<lambda>i. area shm ! ((unat rp + i) mod unat sz)) [0..<sizeof_header])
                 in if magic h \<noteq> ZOO_SMB_MSG_MAGIC_NUMBER then 2 ^ 32 - 1
                    else if version h \<noteq> ZOO_SMB_PROTOCOL_VERSION then 2 ^ 32 - 1
                    else if unat used < sizeof_header + unat (payload_size h) then 0
                    else unat (payload_size h))"

definition zoo_smb_ring_buffer_get_available_data_size :: "ring_handle option \<Rightarrow> ring_shm \<Rightarrow> nat" where
  "zoo_smb_ring_buffer_get_available_data_size buffer shm =
     (case buffer of
        None \<Rightarrow> 0
      | Some rb \<Rightarrow>
          if \<not> zoo_smb_ring_buffer_is_valid buffer shm then 0
          else unat (ring_used (write_pos (ctl shm)) (read_pos (ctl shm)) (h_data_size rb)))"

definition zoo_smb_ring_buffer_has_data :: "ring_handle option \<Rightarrow> ring_shm \<Rightarrow> bool" where
  "zoo_smb_ring_buffer_has_data buffer shm =
     (if buffer = None \<or> \<not> zoo_smb_ring_buffer_is_valid buffer shm then False
      else write_pos (ctl shm) \<noteq> read_pos (ctl shm))"

definition zoo_smb_ring_buffer_is_empty :: "ring_handle option \<Rightarrow> ring_shm \<Rightarrow> bool" where
  "zoo_smb_ring_buffer_is_empty buffer shm =
     (if buffer = None then False
      else if \<not> zoo_smb_ring_buffer_is_valid buffer shm then False
      else write_pos (ctl shm) = read_pos (ctl shm))"

definition zoo_smb_ring_buffer_clear ::
  "ring_handle option \<Rightarrow> ring_shm \<Rightarrow> zoo_error \<times> ring_handle option \<times> ring_shm" where
  "zoo_smb_ring_buffer_clear buffer shm =
     (let result = validate_buffer_for_operation buffer shm
      in if ZOO_SMB_IS_ERROR result then (result, buffer, shm)
         else (ZOO_SMB_OK,
               map_option (\<lambda>rb. rb\<lparr>last_read_pos := 0, last_read_seq := 0\<rparr>) buffer,
               shm\<lparr>ctl := (ctl shm)\<lparr>write_pos := 0, read_pos := 0, write_seq := 0, read_seq := 0,
                  total_writes := 0, total_reads := 0, write_bytes := 0, read_bytes := 0,
                  overruns := 0, underruns := 0\<rparr>\<rparr>))"

section \<open>Circular regions\<close>

text \<open>\<open>cslice xs p k\<close>: the \<open>k\<close> bytes of the circular array \<open>xs\<close> from position \<open>p\<close>.\<close>

definition cslice :: "'a list \<Rightarrow> nat \<Rightarrow> nat \<Rightarrow> 'a list" where
  "cslice xs p k = map (\<lambda>i. xs ! ((p + i) mod length xs)) [0..<k]"

lemma length_cslice [simp]: "length (cslice xs p k) = k"
  by (simp add: cslice_def)

lemma nth_cslice [simp]: "i < k \<Longrightarrow> cslice xs p k ! i = xs ! ((p + i) mod length xs)"
  by (simp add: cslice_def)

lemma cslice_0 [simp]: "cslice xs p 0 = []"
  by (simp add: cslice_def)

lemma cslice_mod [simp]: "cslice xs (p mod length xs) k = cslice xs p k"
  by (simp add: cslice_def mod_add_left_eq)

lemma cslice_add: "cslice xs p (a + b) = cslice xs p a @ cslice xs (p + a) b"
  by (rule nth_equalityI) (auto simp: nth_append add.assoc)

lemma cslice_Suc: "cslice xs p (Suc k) = xs ! (p mod length xs) # cslice xs (Suc p) k"
  using cslice_add [of xs p 1 k] by (simp add: cslice_def)

lemma cslice_split:
  assumes "p < length xs" and "k \<le> length xs"
  shows "cslice xs p k =
     (if p + k \<le> length xs then take k (drop p xs)
      else take (length xs - p) (drop p xs) @ take (k - (length xs - p)) xs)"
proof (rule nth_equalityI)
  fix i assume "i < length (cslice xs p k)"
  then show "cslice xs p k ! i =
     (if p + k \<le> length xs then take k (drop p xs)
      else take (length xs - p) (drop p xs) @ take (k - (length xs - p)) xs) ! i"
    using assms by (auto simp: nth_append mod_if add.commute [of i p])
qed (use assms in auto)

lemma ring_pos_fetch:
  "pos < (sz :: u32) \<Longrightarrow> unat ((pos + 1) mod sz) = (unat pos + 1) mod unat sz"
  using unat_u32_lt [of sz] by (simp add: word_less_nat_alt unat_mod_distrib unat_word_ariths)

lemma unat_ring_next_pos:
  assumes "unat pos + unat inc < 2 ^ 32"
  shows "unat (ring_next_pos pos inc sz) = (unat pos + unat inc) mod unat sz"
  using assms by (simp add: ring_next_pos_def unat_mod_distrib unat_word_ariths)

lemma unat_ring_used:
  assumes "wp < sz" and "rp < sz"
  shows "unat (ring_used wp rp sz) = (unat wp + unat sz - unat rp) mod unat sz"
  using assms
  by (auto simp: ring_used_def unat_sub word_le_nat_alt word_less_nat_alt mod_if)

lemma unat_ring_space:
  assumes "wp < sz" and "rp < sz"
  shows "unat (ring_space wp rp sz) = unat sz - 1 - (unat wp + unat sz - unat rp) mod unat sz"
  using assms
  by (auto simp: ring_space_def unat_sub word_le_nat_alt word_less_nat_alt mod_if)

lemma ring_fetch_cslice:
  assumes "length d = unat sz" and "pos < sz"
  shows "ring_fetch d sz pos n =
           Some (cslice d (unat pos) n, word_of_nat ((unat pos + n) mod unat sz))"
  using assms(2)
proof (induction n arbitrary: pos)
  case 0
  then show ?case by (simp add: word_less_nat_alt)
next
  case (Suc n)
  have next_pos: "unat ((pos + 1) mod sz) = (unat pos + 1) mod unat sz"
    by (rule ring_pos_fetch) fact
  have "(pos + 1) mod sz < sz"
    unfolding word_less_nat_alt next_pos using Suc.prems
    by (intro mod_less_divisor) (simp add: word_less_nat_alt)
  note Suc.IH [OF this, unfolded next_pos]
  moreover have "cslice d ((unat pos + 1) mod unat sz) n = cslice d (Suc (unat pos)) n"
    using cslice_mod [of d "Suc (unat pos)" n] assms(1) by simp
  ultimately show ?case
    using Suc.prems assms(1)
    by (simp add: cslice_Suc word_less_nat_alt linorder_not_le mod_simps)
qed

lemma ring_load_cslice:
  assumes "length d = unat sz" and "pos < sz" and "unat n \<le> unat sz" and "unat sz < 2 ^ 31"
  shows "ring_load d sz pos n = Some (cslice d (unat pos) (unat n))"
proof -
  have "unat (pos + n) = unat pos + unat n"
    using assms(2-4) by (simp add: unat_word_ariths word_less_nat_alt)
  then show ?thesis
    using assms
    by (auto simp: ring_load_def cslice_split word_less_nat_alt word_le_nat_alt unat_sub Let_def)
qed

lemma length_ring_store:
  assumes "pos < sz" and "length d = unat sz" and "length src \<le> unat sz"
  shows "length (ring_store d sz pos src) = unat sz"
  using assms
  by (auto simp: ring_store_def Let_def unat_sub word_less_nat_alt word_le_nat_alt)

text \<open>What a store leaves at each index, by its distance from the position.\<close>

lemma nth_ring_store:
  assumes "pos < sz" and "length d = unat sz" and "length src \<le> unat sz" and "i < unat sz"
  shows "ring_store d sz pos src ! ((unat pos + i) mod unat sz) =
           (if i < length src then src ! i else d ! ((unat pos + i) mod unat sz))"
  using assms
  by (auto simp: ring_store_def Let_def nth_memcpy_at unat_sub word_less_nat_alt
      word_le_nat_alt mod_if)

lemma cslice_ring_store_same:
  assumes "pos < sz" and "length d = unat sz" and "length src \<le> unat sz"
  shows "cslice (ring_store d sz pos src) (unat pos) (length src) = src"
  using assms
  by (intro nth_equalityI) (simp_all add: length_ring_store nth_ring_store)

lemma cslice_ring_store_other:
  assumes "pos < sz" and "length d = unat sz" and "k + length src \<le> unat sz" and "r < unat sz"
    and "unat pos = (r + k) mod unat sz"
  shows "cslice (ring_store d sz pos src) r k = cslice d r k"
proof (intro nth_equalityI)
  fix i assume "i < length (cslice (ring_store d sz pos src) r k)"
  then have i: "i < k" by simp
  let ?j = "unat sz - k + i"
  have "(unat pos + ?j) mod unat sz = (r + k + ?j) mod unat sz"
    using assms(5) by (simp add: mod_simps)
  also have "r + k + ?j = (r + i) + unat sz" using i assms(3) by simp
  finally have j: "(unat pos + ?j) mod unat sz = (r + i) mod unat sz" by simp
  have "?j < unat sz" and "length src \<le> ?j" using i assms(3) by auto
  with nth_ring_store [of pos sz d src ?j] j
  show "cslice (ring_store d sz pos src) r k ! i = cslice d r k ! i"
    using assms i by (simp add: length_ring_store)
qed simp

lemma cslice_ring_store_append:
  assumes "pos < sz" and "length d = unat sz" and "k + length src \<le> unat sz" and "r < unat sz"
    and "unat pos = (r + k) mod unat sz"
  shows "cslice (ring_store d sz pos src) r (k + length src) = cslice d r k @ src"
proof -
  have "length (ring_store d sz pos src) = unat sz"
    using assms by (intro length_ring_store) auto
  then have "cslice (ring_store d sz pos src) (r + k) (length src) = src"
    using cslice_mod [of "ring_store d sz pos src" "r + k" "length src"] assms
      cslice_ring_store_same [of pos sz d src] by simp
  then show ?thesis
    using assms by (simp add: cslice_add cslice_ring_store_other)
qed

text \<open>The used byte count as the distance from the read to the write position.\<close>

lemma mod_below_twice: "a < 2 * n \<Longrightarrow> a mod n = (if a < n then a else a - n)" for a n :: nat
  by (simp add: mod_nat_eqI)

lemma distance_iff:
  assumes "w < n" and "r < (n :: nat)"
  shows "(w + n - r) mod n = u \<longleftrightarrow> u < n \<and> (r + u) mod n = w"
proof (cases "u < n")
  case True
  then show ?thesis using assms by (auto simp: mod_below_twice)
next
  case False
  then show ?thesis using assms mod_less_divisor [of n "w + n - r"] by auto
qed

lemma ring_used_eqI:
  assumes "wp < sz" and "rp < sz" and "u < unat sz" and "(unat rp + u) mod unat sz = unat wp"
  shows "unat (ring_used wp rp sz) = u"
  using assms distance_iff [of "unat wp" "unat sz" "unat rp" u]
  by (simp add: unat_ring_used word_less_nat_alt)

lemma ring_used_props:
  assumes "wp < sz" and "rp < sz"
  shows "unat (ring_used wp rp sz) < unat sz"
    and "(unat rp + unat (ring_used wp rp sz)) mod unat sz = unat wp"
  unfolding unat_ring_used [OF assms]
  using assms [unfolded word_less_nat_alt] distance_iff [THEN iffD1, OF _ _ refl] by blast+

lemma unat_ring_space_used:
  "wp < sz \<Longrightarrow> rp < sz \<Longrightarrow> unat (ring_space wp rp sz) = unat sz - 1 - unat (ring_used wp rp sz)"
  by (simp add: unat_ring_space unat_ring_used)

lemma ring_used_advance:
  assumes "wp < sz" and "rp < sz" and "rp' < sz" and "k \<le> unat (ring_used wp rp sz)"
    and "unat rp' = (unat rp + k) mod unat sz"
  shows "unat (ring_used wp rp' sz) = unat (ring_used wp rp sz) - k"
proof (rule ring_used_eqI)
  have "(unat rp' + (unat (ring_used wp rp sz) - k)) mod unat sz
          = (unat rp + (k + (unat (ring_used wp rp sz) - k))) mod unat sz"
    unfolding assms(5) by (simp only: mod_add_left_eq add.assoc)
  then show "(unat rp' + (unat (ring_used wp rp sz) - k)) mod unat sz = unat wp"
    using ring_used_props(2) [OF assms(1,2)] assms(4) by simp
qed (use assms ring_used_props(1) [OF assms(1,2)] in simp_all)

lemma ring_next_pos_less: "0 < sz \<Longrightarrow> ring_next_pos pos inc sz < sz"
  by (simp add: ring_next_pos_def word_mod_less_divisor)

end
