(* ===== verification/Message_Queue.thy ===== *)
theory Message_Queue
  imports SMB_Prelude
begin

text \<open>
  The contract of a first-in first-out message channel, which the ring buffer and both transports
  keep, and what a producer and a consumer get from it.
\<close>

text \<open>A call reads its environment: \<open>'i\<close> for a producer (the clock, say), \<open>'j\<close> for a consumer.\<close>

datatype ('i, 'j, 'm) queue_op = Put 'i 'm | Get 'j

fun run_queue ::
  "('i \<Rightarrow> 's \<Rightarrow> 'm \<Rightarrow> bool \<times> 's) \<Rightarrow> ('j \<Rightarrow> 's \<Rightarrow> 'r option \<times> 's) \<Rightarrow> 's \<Rightarrow> ('i, 'j, 'm) queue_op list
   \<Rightarrow> 'm list \<times> 'r list \<times> 's" where
  "run_queue put get s [] = ([], [], s)"
| "run_queue put get s (Put i m # ops) =
     (let (ok, s') = put i s m; (acc, rcv, t) = run_queue put get s' ops
      in (if ok then m # acc else acc, rcv, t))"
| "run_queue put get s (Get j # ops) =
     (let (r, s') = get j s; (acc, rcv, t) = run_queue put get s' ops
      in (acc, (case r of None \<Rightarrow> rcv | Some m \<Rightarrow> m # rcv), t))"

text \<open>
  \<open>holds s q\<close>: in state \<open>s\<close> the messages \<open>q\<close> are under way. \<open>put\<close> says whether it took the message;
  \<open>get\<close> returns the oldest one. A message \<open>m\<close> arrives as \<open>image m\<close>; the contract is for the messages
  \<open>sendable\<close> admits.
\<close>

locale message_queue =
  fixes holds :: "'s \<Rightarrow> 'r list \<Rightarrow> bool"
    and put :: "'i \<Rightarrow> 's \<Rightarrow> 'm \<Rightarrow> bool \<times> 's"
    and get :: "'j \<Rightarrow> 's \<Rightarrow> 'r option \<times> 's"
    and image :: "'m \<Rightarrow> 'r"
    and sendable :: "'m \<Rightarrow> bool"
  assumes put_law: "holds s q \<Longrightarrow> sendable m \<Longrightarrow>
      holds (snd (put i s m)) (if fst (put i s m) then q @ [image m] else q)"
    and get_empty: "holds s [] \<Longrightarrow> fst (get j s) = None \<and> holds (snd (get j s)) []"
    and get_next: "holds s (r # q) \<Longrightarrow> fst (get j s) = Some r \<and> holds (snd (get j s)) q"
begin

lemma run_fifo:
  assumes "holds s q" and "\<forall>i m. Put i m \<in> set ops \<longrightarrow> sendable m"
    and "run_queue put get s ops = (acc, rcv, t)"
  shows "\<exists>rest. holds t rest \<and> q @ map image acc = rcv @ rest"
  using assms
proof (induction ops arbitrary: s q acc rcv)
  case (Cons op ops)
  have ok: "\<forall>i m. Put i m \<in> set ops \<longrightarrow> sendable m" using Cons.prems(2) by simp
  show ?case
  proof (cases op)
    case (Put i m)
    then obtain acc' where r: "run_queue put get (snd (put i s m)) ops = (acc', rcv, t)"
      "acc = (if fst (put i s m) then m # acc' else acc')"
      using Cons.prems(3) by (auto simp: Let_def split: prod.splits)
    have "sendable m" using Cons.prems(2) Put by auto
    from Cons.IH [OF put_law [OF Cons.prems(1) this] ok r(1)] r(2) show ?thesis
      by (auto split: if_splits)
  next
    case (Get j)
    then obtain rcv' where r: "run_queue put get (snd (get j s)) ops = (acc, rcv', t)"
      "rcv = (case fst (get j s) of None \<Rightarrow> rcv' | Some m \<Rightarrow> m # rcv')"
      using Cons.prems(3) by (auto simp: Let_def split: prod.splits)
    show ?thesis
    proof (cases q)
      case Nil
      then show ?thesis
        using get_empty [of s j] Cons.prems(1) Cons.IH [of "snd (get j s)" "[]"] ok r by auto
    next
      case (Cons m q')
      then show ?thesis
        using get_next [of s m q' j] Cons.prems(1) Cons.IH [of "snd (get j s)" q'] ok r by auto
    qed
  qed
qed auto

end

end
