(* ===== verification/Ring_Queue.thy ===== *)
theory Ring_Queue
  imports Ring_Buffer Message_Queue
begin

text \<open>
  What the ring buffer of \<open>Ring_Buffer\<close> promises: the used part of its data area is a queue of
  payloads. Writing appends, reading takes the oldest, overwrite mode drops whole messages from the
  old end; the error branches leave the queue alone.
\<close>

section \<open>The contents of a ring as a queue of payloads\<close>

text \<open>
  The abstraction: the used region of the data area is a sequence of frames, each a header that
  describes its payload followed by that payload.
\<close>

definition good_frame :: "msg_header \<Rightarrow> u8 list \<Rightarrow> bool" where
  "good_frame hdr p \<longleftrightarrow>
     validate_ring_header hdr \<and> wf_header hdr \<and> p \<noteq> [] \<and> unat (payload_size hdr) = length p \<and>
     crc32 hdr = zoo_calc_crc32 (Some p) (length p)"

fun frames :: "endian \<Rightarrow> u8 list list \<Rightarrow> u8 list \<Rightarrow> bool" where
  "frames e [] bs \<longleftrightarrow> bs = []"
| "frames e (p # ps) bs \<longleftrightarrow>
     (\<exists>hdr rest. bs = header_bytes e hdr @ p @ rest \<and> good_frame hdr p \<and> frames e ps rest)"

definition frame_size :: "u8 list \<Rightarrow> nat" where
  "frame_size p = sizeof_header + length p"

definition frames_size :: "u8 list list \<Rightarrow> nat" where
  "frames_size ps = sum_list (map frame_size ps)"

lemma frames_size_simps [simp]:
  "frames_size [] = 0" "frames_size (p # ps) = frame_size p + frames_size ps"
  "frames_size (ps @ qs) = frames_size ps + frames_size qs"
  by (simp_all add: frames_size_def)

definition ring_contents :: "ring_handle \<Rightarrow> ring_shm \<Rightarrow> u8 list" where
  "ring_contents rb shm =
     cslice (area shm) (unat (read_pos (ctl shm)))
       (unat (ring_used (write_pos (ctl shm)) (read_pos (ctl shm)) (h_data_size rb)))"

definition ring_holds :: "endian \<Rightarrow> ring_handle \<Rightarrow> ring_shm \<Rightarrow> u8 list list \<Rightarrow> bool" where
  "ring_holds e rb shm ps \<longleftrightarrow>
     zoo_smb_ring_buffer_is_valid (Some rb) shm \<and> length (area shm) = unat (h_data_size rb) \<and>
     frames e ps (ring_contents rb shm)"

lemma frames_append:
  "frames e (ps @ qs) bs \<longleftrightarrow> (\<exists>b1 b2. bs = b1 @ b2 \<and> frames e ps b1 \<and> frames e qs b2)"
proof (induction ps arbitrary: bs)
  case (Cons p ps)
  then show ?case by simp (metis append.assoc)
qed simp

lemma frames_length: "frames e ps bs \<Longrightarrow> length bs = frames_size ps"
  by (induction ps arbitrary: bs) (auto simp: frame_size_def good_frame_def)

lemma ring_valid_iff:
  "zoo_smb_ring_buffer_is_valid (Some rb) shm \<longleftrightarrow>
     h_control rb \<noteq> None \<and> h_data rb \<noteq> None \<and> rc_magic (ctl shm) = RING_MAGIC \<and>
     rc_version (ctl shm) = RING_VERSION \<and> initialized (ctl shm) \<and> \<not> corrupted (ctl shm) \<and>
     1024 \<le> unat (h_data_size rb) \<and> unat (h_data_size rb) \<le> 67108864 \<and>
     write_pos (ctl shm) < h_data_size rb \<and> read_pos (ctl shm) < h_data_size rb"
  unfolding zoo_smb_ring_buffer_is_valid_def RING_MIN_SIZE_def RING_MAX_SIZE_def Let_def
  by (simp add: linorder_not_le) (meson linorder_not_le)

lemma validate_ok: "zoo_smb_ring_buffer_is_valid (Some rb) shm \<Longrightarrow>
    validate_buffer_for_operation (Some rb) shm = ZOO_SMB_OK"
  by (simp add: validate_buffer_for_operation_def)

text \<open>A peek at a region that starts with a good header reads that header.\<close>

lemma ring_peek_header_frame:
  assumes "length d = unat sz" and "rp < sz" and "wf_header hdr"
    and "cslice d (unat rp) n = header_bytes e hdr @ rest"
  shows "ring_peek_header e d sz rp =
           Some (hdr, word_of_nat ((unat rp + sizeof_header) mod unat sz))"
proof -
  have "sizeof_header \<le> n"
    using arg_cong [OF assms(4), of length] assms(3) by simp
  then have "cslice d (unat rp) sizeof_header = header_bytes e hdr"
    using assms(3,4) cslice_add [of d "unat rp" sizeof_header "n - sizeof_header"] by simp
  then show ?thesis
    using assms(1-3) read_header_bytes [of hdr e "[]"]
    by (simp add: ring_peek_header_def ring_fetch_cslice)
qed

lemma cslice_frame:
  assumes "cslice d r n = header_bytes e hdr @ p @ rest" and "wf_header hdr"
  shows "n = frame_size p + length rest" and "frame_size p = sizeof_header + length p"
    and "cslice d (r + sizeof_header) (length p) = p"
    and "cslice d (r + frame_size p) (length rest) = rest"
proof -
  show n: "n = frame_size p + length rest" and "frame_size p = sizeof_header + length p"
    using arg_cong [OF assms(1), of length] assms(2) by (simp_all add: frame_size_def)
  have "n = sizeof_header + (length p + length rest)" using n by (simp add: frame_size_def)
  with assms cslice_add [of d r sizeof_header "length p + length rest"]
  have "cslice d (r + sizeof_header) (length p + length rest) = p @ rest" by simp
  then show "cslice d (r + sizeof_header) (length p) = p"
    and "cslice d (r + frame_size p) (length rest) = rest"
    by (simp_all add: cslice_add frame_size_def add.assoc)
qed

text \<open>Committing a write appends one frame to the contents.\<close>

lemma create_ring_header_good:
  assumes "d \<noteq> []" and "length d < 2 ^ 32"
  shows "good_frame (create_ring_header now d (length d) sq) d"
  using assms
  by (simp add: good_frame_def create_ring_header_def validate_ring_header_def wf_header_def
      zero_header_def unat_of_nat)

lemma unat_ring_next_pos_nat:
  assumes "pos < sz" and "unat sz \<le> 67108864" and "n \<le> unat sz"
  shows "unat (ring_next_pos pos (word_of_nat n) sz) = (unat pos + n) mod unat sz"
    and "ring_next_pos pos (word_of_nat n) sz < sz"
proof -
  have "unat (word_of_nat n :: u32) = n" using assms by (simp add: unat_of_nat)
  then show "unat (ring_next_pos pos (word_of_nat n) sz) = (unat pos + n) mod unat sz"
    using assms unat_ring_next_pos [of pos "word_of_nat n" sz] by (simp add: word_less_nat_alt)
  show "ring_next_pos pos (word_of_nat n) sz < sz"
    using assms(1) by (intro ring_next_pos_less) (simp add: word_less_nat_alt)
qed

text \<open>Storing one block behind a region extends the region by that block.\<close>

lemma ring_append_block:
  assumes "pos < sz" and "unat sz \<le> 67108864" and "length a = unat sz" and "r < unat sz"
    and "unat pos = (r + k) mod unat sz" and "k + length src \<le> unat sz"
  shows "cslice (ring_store a sz pos src) r (k + length src) = cslice a r k @ src"
    and "length (ring_store a sz pos src) = unat sz"
    and "unat (ring_next_pos pos (word_of_nat (length src)) sz) = (r + (k + length src)) mod unat sz"
    and "ring_next_pos pos (word_of_nat (length src)) sz < sz"
proof -
  show "cslice (ring_store a sz pos src) r (k + length src) = cslice a r k @ src"
    using assms by (intro cslice_ring_store_append)
  show "length (ring_store a sz pos src) = unat sz"
    using assms by (intro length_ring_store) auto
  note next_pos = unat_ring_next_pos_nat [OF assms(1,2), of "length src"]
  show "unat (ring_next_pos pos (word_of_nat (length src)) sz) = (r + (k + length src)) mod unat sz"
    using next_pos(1) assms(6) unfolding assms(5) by (simp add: mod_add_left_eq add.assoc)
  show "ring_next_pos pos (word_of_nat (length src)) sz < sz"
    using next_pos(2) assms(6) by simp
qed

lemma ring_commit_ok:
  assumes "zoo_smb_ring_buffer_is_valid (Some rb) shm" and "length (area shm) = unat (h_data_size rb)"
    and "frames e ps (ring_contents rb shm)" and "d \<noteq> []"
    and "frames_size ps + frame_size d < unat (h_data_size rb)"
  shows "\<exists>shm'. ring_commit e now (h_data_size rb) shm d (length d) = (ZOO_SMB_OK, shm')
           \<and> ring_holds e rb shm' (ps @ [d])
           \<and> write_seq (ctl shm') = write_seq (ctl shm) + 1
           \<and> active_writers (ctl shm') = active_writers (ctl shm) - 1
           \<and> allow_overwrite (ctl shm') = allow_overwrite (ctl shm)"
proof -
  let ?sz = "h_data_size rb" and ?wp = "write_pos (ctl shm)" and ?rp = "read_pos (ctl shm)"
  let ?u = "unat (ring_used ?wp ?rp ?sz)"
  let ?h = "create_ring_header now d (length d) (write_seq (ctl shm))"
  have valid: "unat ?sz \<le> 67108864" "?wp < ?sz" "?rp < ?sz"
    using assms(1) by (simp_all add: ring_valid_iff)
  have u: "?u = frames_size ps"
    using frames_length [OF assms(3)] by (simp add: ring_contents_def)
  have len: "?u + sizeof_header + length d < unat ?sz" "length d < 2 ^ 32"
    using assms(5) u valid(1) by (simp_all add: frame_size_def)
  have good: "good_frame ?h d" using create_ring_header_good [OF assms(4) len(2)] .
  then have hb: "length (header_bytes e ?h) = sizeof_header" by (simp add: good_frame_def)
  define a1 where "a1 = ring_store (area shm) ?sz ?wp (header_bytes e ?h)"
  define wp1 where "wp1 = ring_next_pos ?wp (word_of_nat sizeof_header) ?sz"
  define a2 where "a2 = ring_store a1 ?sz wp1 d"
  define wp2 where "wp2 = ring_next_pos wp1 (word_of_nat (length d)) ?sz"
  have rp: "unat ?rp < unat ?sz" using valid(3) by (simp add: word_less_nat_alt)
  note one = ring_append_block [OF valid(2,1) assms(2) rp
      ring_used_props(2) [OF valid(2,3), symmetric], of "header_bytes e ?h",
      unfolded hb, folded a1_def wp1_def]
  note two = ring_append_block [OF one(4) valid(1) one(2) rp one(3), of d, folded a2_def wp2_def]
  have used: "unat (ring_used wp2 ?rp ?sz) = ?u + sizeof_header + length d"
    using len one two valid(3) by (intro ring_used_eqI) simp_all
  have "frames e (ps @ [d]) (cslice a2 (unat ?rp) (?u + sizeof_header + length d))"
    using one(1) two(1) len good assms(3) by (auto simp: frames_append ring_contents_def)
  then show ?thesis
    using assms(1,4) two(2,4) one(4) len used valid(2)
    by (simp add: ring_commit_def Let_def ring_holds_def ring_valid_iff ring_contents_def
        a1_def [symmetric] wp1_def [symmetric] a2_def [symmetric] wp2_def [symmetric]
        linorder_not_le)
qed

section \<open>Making room in overwrite mode\<close>

text \<open>The specification of the discard loop: drop the oldest messages until \<open>need\<close> bytes are freed.\<close>

fun evict :: "nat \<Rightarrow> u8 list list \<Rightarrow> u8 list list" where
  "evict need [] = []"
| "evict need (p # ps) = (if need = 0 then p # ps else evict (need - frame_size p) ps)"

lemma evict_suffix: "\<exists>old. ps = old @ evict need ps"
  by (induction need ps rule: evict.induct) (simp_all, metis append_Cons)

lemma length_evict_le: "length (evict need ps) \<le> length ps"
  by (induction need ps rule: evict.induct) auto

lemma evict_frees: "need \<le> frames_size ps \<Longrightarrow> frames_size (evict need ps) + need \<le> frames_size ps"
proof (induction need ps rule: evict.induct)
  case (2 need p ps)
  then show ?case by (cases "need = 0") (simp_all add: le_diff_conv)
qed simp

lemma evict_0 [simp]: "evict 0 ps = ps"
  by (cases ps) auto

lemma ring_discard_stop [simp]: "ring_discard e d sz wp rp 0 cnt = (rp, cnt)"
  by (simp add: ring_discard.simps)

text \<open>One round of the loop at the frame of a message skips that message.\<close>

lemma ring_discard_frame:
  assumes "length d = unat sz" and "unat sz \<le> 67108864" and "wp < sz" and "rp < sz"
    and "cslice d (unat rp) (unat (ring_used wp rp sz)) = header_bytes e hdr @ p @ rest"
    and "good_frame hdr p" and "0 < todo" and "cnt < 1000"
  shows "ring_discard e d sz wp rp todo cnt =
           ring_discard e d sz wp (ring_next_pos rp (word_of_nat (frame_size p)) sz)
             (word_of_nat (unat todo - frame_size p)) (cnt + 1)"
proof -
  have wf: "wf_header hdr" "validate_ring_header hdr" "unat (payload_size hdr) = length p"
    using assms(6) by (simp_all add: good_frame_def)
  have used: "frame_size p \<le> unat (ring_used wp rp sz)"
    using arg_cong [OF assms(5), of length] wf(1) by (simp add: frame_size_def)
  then have fits: "frame_size p < unat sz"
    using ring_used_props(1) [OF assms(3,4)] by simp
  have total: "word_of_nat sizeof_header + payload_size hdr = (word_of_nat (frame_size p) :: u32)"
    using wf(3) by (simp add: frame_size_def flip: wf(3))
  have fs: "unat (word_of_nat (frame_size p) :: u32) = frame_size p"
    using fits assms(2) by (simp add: unat_of_nat)
  have todo: "(if word_of_nat (frame_size p) < todo then todo - word_of_nat (frame_size p) else 0)
      = word_of_nat (unat todo - frame_size p)"
    using fs by (auto simp: word_less_nat_alt of_nat_diff)
  show ?thesis
    unfolding ring_discard.simps [of e d sz wp rp todo cnt]
      ring_peek_header_frame [OF assms(1,4) wf(1) assms(5)] option.case prod.case Let_def total todo
    using assms(7,8) used wf fits fs
    by (simp add: frame_size_def word_less_nat_alt)
qed

lemma ring_discard_evict:
  assumes "length d = unat sz" and "unat sz \<le> 67108864" and "wp < sz" and "rp < sz"
    and "frames e ps (cslice d (unat rp) (unat (ring_used wp rp sz)))"
    and "unat todo \<le> frames_size ps" and "cnt + length ps - length (evict (unat todo) ps) \<le> 1000"
  shows "\<exists>rp' n. ring_discard e d sz wp rp todo cnt = (rp', n) \<and> rp' < sz
           \<and> frames e (evict (unat todo) ps) (cslice d (unat rp') (unat (ring_used wp rp' sz)))"
  using assms(4-7)
proof (induction ps arbitrary: rp todo cnt)
  case Nil
  then show ?case by (simp add: unat_eq_0)
next
  case (Cons p ps)
  show ?case
  proof (cases "todo = 0")
    case True
    then show ?thesis using Cons.prems by (simp del: frames.simps)
  next
    case False
    obtain hdr rest where f: "cslice d (unat rp) (unat (ring_used wp rp sz)) = header_bytes e hdr @ p @ rest"
      "good_frame hdr p" "frames e ps rest" using Cons.prems(2) by auto
    let ?rp = "ring_next_pos rp (word_of_nat (frame_size p)) sz"
    let ?todo = "word_of_nat (unat todo - frame_size p) :: u32"
    have wf: "wf_header hdr" using f(2) by (simp add: good_frame_def)
    note used = cslice_frame(1) [OF f(1) wf]
    have fits: "frame_size p \<le> unat sz"
      using used ring_used_props(1) [OF assms(3) Cons.prems(1)] by simp
    note pos = unat_ring_next_pos_nat [OF Cons.prems(1) assms(2) fits]
    have todo: "unat ?todo = unat todo - frame_size p"
      using unat_u32_lt [of todo] by (simp add: unat_of_nat)
    have cnt: "cnt < 1000"
      using Cons.prems(4) False length_evict_le [of "unat todo - frame_size p" ps]
      by (simp add: unat_eq_0)
    have "unat (ring_used wp ?rp sz) = length rest"
      using ring_used_advance [OF assms(3) Cons.prems(1) pos(2) _ pos(1)] used by simp
    moreover note cslice_frame(4) [OF f(1) wf]
    ultimately have rest: "cslice d (unat ?rp) (unat (ring_used wp ?rp sz)) = rest"
      using pos(1) cslice_mod [of d "unat rp + frame_size p"] assms(1) by simp
    have evict: "evict (unat todo) (p # ps) = evict (unat ?todo) ps"
      using False todo by (simp add: unat_eq_0)
    have "unat ?todo \<le> frames_size ps" using Cons.prems(3) todo by simp
    moreover have "(cnt + 1) + length ps - length (evict (unat ?todo) ps) \<le> 1000"
      using Cons.prems(4) evict by simp
    ultimately show ?thesis
      using Cons.IH [OF pos(2), of ?todo "cnt + 1"] rest f(3) evict
        ring_discard_frame [OF assms(1-3) Cons.prems(1) f(1,2) _ cnt, of todo] False
      by (simp add: word_neq_0_conv)
  qed
qed

section \<open>The branches of a write and of a read on a ring that holds a queue\<close>

lemma ring_holds_valid:
  assumes "ring_holds e rb shm ps"
  shows "validate_buffer_for_operation (Some rb) shm = ZOO_SMB_OK"
    and "\<not> h_data_size rb \<le> write_pos (ctl shm)" and "\<not> h_data_size rb \<le> read_pos (ctl shm)"
    and "sizeof_header \<le> unat (h_data_size rb)" and "unat (h_data_size rb) \<le> 67108864"
  using assms by (auto simp: ring_holds_def validate_ok ring_valid_iff sizeof_header_def)

lemma ring_holds_used:
  assumes "ring_holds e rb shm ps"
  shows "unat (ring_used (write_pos (ctl shm)) (read_pos (ctl shm)) (h_data_size rb)) = frames_size ps"
    and "frames_size ps < unat (h_data_size rb)"
proof -
  show "unat (ring_used (write_pos (ctl shm)) (read_pos (ctl shm)) (h_data_size rb)) = frames_size ps"
    using assms frames_length [of e ps "ring_contents rb shm"]
    by (simp add: ring_holds_def ring_contents_def)
  then show "frames_size ps < unat (h_data_size rb)"
    using assms ring_used_props(1) [of "write_pos (ctl shm)" "h_data_size rb" "read_pos (ctl shm)"]
    by (simp add: ring_holds_def ring_valid_iff)
qed

text \<open>The control structure as the body of a write sees it, and the space check in bytes.\<close>

abbreviation "enter_writer shm \<equiv> shm\<lparr>ctl := (ctl shm)\<lparr>active_writers := active_writers (ctl shm) + 1\<rparr>\<rparr>"

lemma ring_write_unfold:
  assumes "ring_holds e rb shm ps" and "d \<noteq> []" and "frame_size d \<le> unat (h_data_size rb)"
  shows "zoo_smb_ring_buffer_write e now (Some rb) shm (Some d) (length d) =
     (if frames_size ps + frame_size d < unat (h_data_size rb)
      then ring_commit e now (h_data_size rb) (enter_writer shm) d (length d)
      else if \<not> allow_overwrite (ctl shm) then (ZOO_SMB_ERROR_RINGBUF_FULL, shm)
      else let (rp', _) = ring_discard e (area shm) (h_data_size rb) (write_pos (ctl shm))
                            (read_pos (ctl shm))
                            (word_of_nat (frames_size ps + frame_size d - (unat (h_data_size rb) - 1))) 0
           in ring_commit e now (h_data_size rb)
                (enter_writer shm\<lparr>ctl := (ctl (enter_writer shm))\<lparr>read_pos := rp',
                   overruns := overruns (ctl shm) + 1\<rparr>\<rparr>) d (length d))"
proof -
  let ?wp = "write_pos (ctl shm)" and ?rp = "read_pos (ctl shm)" and ?sz = "h_data_size rb"
  have valid: "zoo_smb_ring_buffer_is_valid (Some rb) shm" "?wp < ?sz" "?rp < ?sz"
    "unat ?sz \<le> 67108864"
    using assms(1) by (simp_all add: ring_holds_def ring_valid_iff)
  note used = ring_holds_used [OF assms(1)]
  have space: "unat (ring_space ?wp ?rp ?sz) = unat ?sz - 1 - frames_size ps"
    using unat_ring_space_used [OF valid(2,3)] used(1) by simp
  have total: "unat (word_of_nat (sizeof_header + length d) :: u32) = frame_size d"
    using assms(3) valid(4) by (simp add: unat_of_nat frame_size_def del: of_nat_add)
  have todo: "(word_of_nat (sizeof_header + length d) :: u32) - ring_space ?wp ?rp ?sz
      = word_of_nat (frames_size ps + frame_size d - (unat ?sz - 1))"
    if "unat ?sz \<le> frames_size ps + frame_size d"
  proof -
    have eq: "frames_size ps + frame_size d - (unat ?sz - 1)
        = frame_size d - unat (ring_space ?wp ?rp ?sz)"
      and le: "unat (ring_space ?wp ?rp ?sz) \<le> frame_size d"
      using that used(2) space by simp_all
    show ?thesis unfolding eq of_nat_diff [OF le] by (simp add: frame_size_def)
  qed
  have short: "ring_space ?wp ?rp ?sz < word_of_nat (sizeof_header + length d)
      \<longleftrightarrow> \<not> frames_size ps + frame_size d < unat ?sz"
    using used(2) assms(3) unfolding word_less_nat_alt space total by auto
  have dlen: "\<not> unat ?sz - sizeof_header < length d" "\<not> ?sz \<le> ?wp" "\<not> ?sz \<le> ?rp"
    using assms(3) valid(2,3) by (auto simp: frame_size_def)
  show ?thesis
    unfolding zoo_smb_ring_buffer_write_def validate_ok [OF valid(1)]
    using assms(2) todo
    by (simp add: Let_def short dlen del: of_nat_add)
qed

lemma ring_write_fits:
  assumes "ring_holds e rb shm ps" and "d \<noteq> []"
    and "frames_size ps + frame_size d < unat (h_data_size rb)"
  shows "\<exists>shm'. zoo_smb_ring_buffer_write e now (Some rb) shm (Some d) (length d) = (ZOO_SMB_OK, shm')
           \<and> ring_holds e rb shm' (ps @ [d])
           \<and> allow_overwrite (ctl shm') = allow_overwrite (ctl shm)
           \<and> write_seq (ctl shm') = write_seq (ctl shm) + 1
           \<and> active_writers (ctl shm') = active_writers (ctl shm)"
proof -
  have "zoo_smb_ring_buffer_is_valid (Some rb) (enter_writer shm)"
    "length (area (enter_writer shm)) = unat (h_data_size rb)"
    "frames e ps (ring_contents rb (enter_writer shm))"
    using assms(1) by (simp_all add: ring_holds_def ring_valid_iff ring_contents_def)
  from ring_commit_ok [OF this assms(2,3), of now] show ?thesis
    using assms(3) by (auto simp: ring_write_unfold [OF assms(1,2)])
qed

lemma ring_write_full:
  assumes "ring_holds e rb shm ps" and "d \<noteq> []" and "\<not> allow_overwrite (ctl shm)"
    and "frame_size d \<le> unat (h_data_size rb)"
    and "unat (h_data_size rb) \<le> frames_size ps + frame_size d"
  shows "zoo_smb_ring_buffer_write e now (Some rb) shm (Some d) (length d)
           = (ZOO_SMB_ERROR_RINGBUF_FULL, shm)"
  using assms by (simp add: ring_write_unfold)

lemma ring_write_bad_size:
  assumes "ring_holds e rb shm ps" and "d = [] \<or> unat (h_data_size rb) < frame_size d"
  shows "zoo_smb_ring_buffer_write e now (Some rb) shm (Some d) (length d)
           = (ZOO_SMB_ERROR_INVALID_PARAM, shm)"
proof -
  have "d = [] \<or> unat (h_data_size rb) - sizeof_header < length d"
    using assms(2) ring_holds_valid(4) [OF assms(1)] by (auto simp: frame_size_def)
  then show ?thesis
    by (simp add: zoo_smb_ring_buffer_write_def ring_holds_valid [OF assms(1)] Let_def)
qed

lemma ring_write_evicts:
  assumes "ring_holds e rb shm ps" and "d \<noteq> []" and "allow_overwrite (ctl shm)"
    and "frame_size d < unat (h_data_size rb)"
    and "unat (h_data_size rb) \<le> frames_size ps + frame_size d"
    and "kept = evict (frames_size ps + frame_size d - (unat (h_data_size rb) - 1)) ps"
    and "length ps - length kept \<le> 1000"
  shows "\<exists>shm'. zoo_smb_ring_buffer_write e now (Some rb) shm (Some d) (length d) = (ZOO_SMB_OK, shm')
           \<and> ring_holds e rb shm' (kept @ [d]) \<and> allow_overwrite (ctl shm')"
proof -
  let ?sz = "h_data_size rb" and ?wp = "write_pos (ctl shm)" and ?rp = "read_pos (ctl shm)"
  let ?need = "frames_size ps + frame_size d - (unat ?sz - 1)"
  have valid: "length (area shm) = unat ?sz" "unat ?sz \<le> 67108864" "?wp < ?sz" "?rp < ?sz"
    and fr: "frames e ps (cslice (area shm) (unat ?rp) (unat (ring_used ?wp ?rp ?sz)))"
    using assms(1) by (simp_all add: ring_holds_def ring_valid_iff ring_contents_def)
  note used = ring_holds_used [OF assms(1)]
  have need: "unat (word_of_nat ?need :: u32) = ?need"
    using assms(4) used(2) valid(2) by (simp add: unat_of_nat)
  have "?need \<le> frames_size ps" using assms(4,5) by simp
  then obtain rp' n where rp': "ring_discard e (area shm) ?sz ?wp ?rp (word_of_nat ?need) 0 = (rp', n)"
    "rp' < ?sz" "frames e kept (cslice (area shm) (unat rp') (unat (ring_used ?wp rp' ?sz)))"
    using ring_discard_evict [OF valid fr, of "word_of_nat ?need" 0] need assms(6,7) by auto
  let ?shm = "enter_writer shm\<lparr>ctl := (ctl (enter_writer shm))\<lparr>read_pos := rp',
                 overruns := overruns (ctl shm) + 1\<rparr>\<rparr>"
  have "frames_size kept + frame_size d < unat ?sz"
    using evict_frees [OF \<open>?need \<le> frames_size ps\<close>] assms(4-6) by simp
  moreover have "zoo_smb_ring_buffer_is_valid (Some rb) ?shm" "length (area ?shm) = unat ?sz"
    "frames e kept (ring_contents rb ?shm)"
    using assms(1) rp' by (simp_all add: ring_holds_def ring_valid_iff ring_contents_def)
  moreover have "zoo_smb_ring_buffer_write e now (Some rb) shm (Some d) (length d)
      = ring_commit e now ?sz ?shm d (length d)"
    unfolding ring_write_unfold [OF assms(1,2) less_imp_le [OF assms(4)]] rp'(1)
    using assms(3,5) by simp
  ultimately show ?thesis
    using ring_commit_ok [of rb ?shm e kept d now] assms(2,3) by auto
qed

lemma ring_read_empty:
  assumes "ring_holds e rb shm []"
  shows "zoo_smb_ring_buffer_read e (Some rb) shm (Some out) n =
     (ZOO_SMB_ERROR_RINGBUF_EMPTY,
      shm\<lparr>ctl := (ctl shm)\<lparr>underruns := underruns (ctl shm) + 1\<rparr>\<rparr>, Some out)"
  using ring_holds_used(1) [OF assms]
  by (simp add: zoo_smb_ring_buffer_read_def ring_holds_valid [OF assms] Let_def sizeof_header_def)

lemma unat_mod_size:
  fixes sz :: u32
  assumes "0 < unat sz"
  shows "unat (word_of_nat (k mod unat sz) :: u32) = k mod unat sz"
    and "word_of_nat (k mod unat sz) < sz"
proof -
  have "k mod unat sz < unat sz" using assms by simp
  then have "k mod unat sz < 4294967296" using unat_u32_lt [of sz] by linarith
  then show "unat (word_of_nat (k mod unat sz) :: u32) = k mod unat sz" by (simp add: unat_of_nat)
  then show "word_of_nat (k mod unat sz) < sz"
    using \<open>k mod unat sz < unat sz\<close> by (simp add: word_less_nat_alt)
qed

lemma ring_read_unfold:
  assumes "ring_holds e rb shm (p # ps)"
  obtains hdr where "good_frame hdr p"
    and "ring_peek_header e (area shm) (h_data_size rb) (read_pos (ctl shm)) =
          Some (hdr, word_of_nat ((unat (read_pos (ctl shm)) + sizeof_header) mod unat (h_data_size rb)))"
    and "ring_load (area shm) (h_data_size rb)
           (word_of_nat ((unat (read_pos (ctl shm)) + sizeof_header) mod unat (h_data_size rb)))
           (payload_size hdr) = Some p"
    and "frames e ps (cslice (area shm) (unat (read_pos (ctl shm)) + frame_size p) (frames_size ps))"
proof -
  let ?sz = "h_data_size rb" and ?wp = "write_pos (ctl shm)" and ?rp = "read_pos (ctl shm)"
  let ?pos = "word_of_nat ((unat ?rp + sizeof_header) mod unat ?sz) :: u32"
  have valid: "length (area shm) = unat ?sz" "unat ?sz \<le> 67108864" "?wp < ?sz" "?rp < ?sz" "0 < unat ?sz"
    using assms by (auto simp: ring_holds_def ring_valid_iff)
  obtain hdr rest where f: "good_frame hdr p" "frames e ps rest"
    "cslice (area shm) (unat ?rp) (unat (ring_used ?wp ?rp ?sz)) = header_bytes e hdr @ p @ rest"
    using assms by (auto simp: ring_holds_def ring_contents_def)
  then have wf: "wf_header hdr" "unat (payload_size hdr) = length p" by (simp_all add: good_frame_def)
  note frame = cslice_frame [OF f(3) wf(1)]
  have pos: "unat ?pos = (unat ?rp + sizeof_header) mod unat ?sz" "?pos < ?sz"
    using valid(5) by (simp_all add: unat_mod_size)
  have "ring_load (area shm) ?sz ?pos (payload_size hdr) = Some p"
    using ring_load_cslice [OF valid(1) pos(2), of "payload_size hdr"] frame wf(2) pos(1) valid(1,2)
      ring_used_props(1) [OF valid(3,4)]
      cslice_mod [of "area shm" "unat ?rp + sizeof_header" "length p"] by simp
  moreover have "length rest = frames_size ps" using f(2) by (rule frames_length)
  ultimately show ?thesis
    using that [of hdr] f(1,2) frame(4) ring_peek_header_frame [OF valid(1,4) wf(1) f(3)] by simp
qed

lemma ring_read_wrong_size:
  assumes "ring_holds e rb shm (p # ps)" and "n \<noteq> length p"
  shows "zoo_smb_ring_buffer_read e (Some rb) shm (Some out) n = (ZOO_SMB_ERROR_INVALID_SIZE, shm, Some out)"
proof -
  obtain hdr where h: "good_frame hdr p"
    "ring_peek_header e (area shm) (h_data_size rb) (read_pos (ctl shm)) =
       Some (hdr, word_of_nat ((unat (read_pos (ctl shm)) + sizeof_header) mod unat (h_data_size rb)))"
    using ring_read_unfold [OF assms(1)] by metis
  moreover have "\<not> unat (h_data_size rb) - sizeof_header < length p"
    using ring_holds_used [OF assms(1)] by (simp add: frame_size_def)
  ultimately show ?thesis
    using assms(2) ring_holds_used [OF assms(1)]
    by (simp add: zoo_smb_ring_buffer_read_def ring_holds_valid [OF assms(1)] Let_def
        frame_size_def good_frame_def)
qed

lemma ring_read_next:
  assumes "ring_holds e rb shm (p # ps)" and "length p \<le> length out"
  shows "\<exists>shm'. zoo_smb_ring_buffer_read e (Some rb) shm (Some out) (length p)
             = (ZOO_SMB_OK, shm', Some (p @ drop (length p) out))
           \<and> ring_holds e rb shm' ps \<and> allow_overwrite (ctl shm') = allow_overwrite (ctl shm)
           \<and> read_seq (ctl shm') = read_seq (ctl shm) + 1
           \<and> active_readers (ctl shm') = active_readers (ctl shm)"
proof -
  let ?sz = "h_data_size rb" and ?wp = "write_pos (ctl shm)" and ?rp = "read_pos (ctl shm)"
  let ?pos = "word_of_nat ((unat ?rp + sizeof_header) mod unat ?sz) :: u32"
  obtain hdr where h: "good_frame hdr p" "ring_peek_header e (area shm) ?sz ?rp = Some (hdr, ?pos)"
    "ring_load (area shm) ?sz ?pos (payload_size hdr) = Some p"
    "frames e ps (cslice (area shm) (unat ?rp + frame_size p) (frames_size ps))"
    using ring_read_unfold [OF assms(1)] by metis
  note valid = ring_holds_valid [OF assms(1)]
  note used = ring_holds_used [OF assms(1)]
  have len: "unat (payload_size hdr) = length p" "0 < payload_size hdr"
    using h(1) by (auto simp: good_frame_def word_less_nat_alt)
  define pos' where "pos' = (?pos + payload_size hdr) mod ?sz"
  have plen: "payload_size hdr = word_of_nat (length p)" using len(1) by (simp flip: len(1))
  have fits: "frame_size p < unat ?sz" "\<not> unat ?sz - sizeof_header < length p"
    using used by (simp_all add: frame_size_def)
  have pos: "unat ?pos = (unat ?rp + sizeof_header) mod unat ?sz" "?pos < ?sz"
    using fits(1) by (simp_all add: unat_mod_size)
  have pos': "unat pos' = (unat ?rp + frame_size p) mod unat ?sz" "pos' < ?sz"
    using unat_ring_next_pos_nat [OF pos(2) valid(5), of "length p"] fits(1)
    unfolding pos(1) pos'_def [folded ring_next_pos_def] frame_size_def plen
    by (simp_all add: mod_add_left_eq add.assoc)
  have crc: "zoo_calc_crc32 (Some (p @ drop (length p) out)) (length p) = crc32 hdr"
    using h(1) by (simp add: good_frame_def calc_crc32_eq)
  have "unat (ring_used ?wp pos' ?sz) = frames_size ps"
    using ring_used_advance [of ?wp ?sz ?rp pos' "frame_size p"] used valid pos' by simp
  then have "ring_holds e rb (shm\<lparr>ctl := (ctl shm)\<lparr>read_pos := pos', read_seq := read_seq (ctl shm) + 1,
      total_reads := total_reads (ctl shm) + 1,
      read_bytes := read_bytes (ctl shm) + ucast (payload_size hdr)\<rparr>\<rparr>) ps"
    using assms(1) h(4) pos' cslice_mod [of "area shm" "unat ?rp + frame_size p" "frames_size ps"]
    by (simp add: ring_holds_def ring_valid_iff ring_contents_def)
  then show ?thesis
    using h(1-3) used valid len crc pos'(2) fits(2)
    by (simp add: zoo_smb_ring_buffer_read_def Let_def good_frame_def frame_size_def
        pos'_def [symmetric] memcpy_at_def)
qed

lemma ring_next_size_empty:
  assumes "ring_holds e rb shm []"
  shows "zoo_smb_ring_buffer_get_next_message_size e (Some rb) shm = 0"
  using ring_holds_used(1) [OF assms]
  by (simp add: zoo_smb_ring_buffer_get_next_message_size_def Let_def sizeof_header_def)

lemma ring_next_size:
  assumes "ring_holds e rb shm (p # ps)"
  shows "zoo_smb_ring_buffer_get_next_message_size e (Some rb) shm = length p"
proof -
  obtain hdr where h: "good_frame hdr p"
    "ring_peek_header e (area shm) (h_data_size rb) (read_pos (ctl shm)) =
       Some (hdr, word_of_nat ((unat (read_pos (ctl shm)) + sizeof_header) mod unat (h_data_size rb)))"
    using ring_read_unfold [OF assms] by metis
  have valid: "zoo_smb_ring_buffer_is_valid (Some rb) shm"
    "length (area shm) = unat (h_data_size rb)" "read_pos (ctl shm) < h_data_size rb"
    using assms by (auto simp: ring_holds_def ring_valid_iff)
  have "read_header e (map (\<lambda>i. area shm ! ((unat (read_pos (ctl shm)) + i) mod unat (h_data_size rb)))
          [0..<sizeof_header]) = hdr"
    using h(2) ring_fetch_cslice [OF valid(2,3), of sizeof_header] valid(2)
    by (simp add: ring_peek_header_def cslice_def)
  then show ?thesis
    using h(1) ring_holds_used(1) [OF assms] valid(1)
    by (simp add: zoo_smb_ring_buffer_get_next_message_size_def Let_def good_frame_def
        validate_ring_header_def frame_size_def)
qed

lemma ring_has_data_iff:
  assumes "ring_holds e rb shm ps"
  shows "zoo_smb_ring_buffer_has_data (Some rb) shm \<longleftrightarrow> ps \<noteq> []"
    and "zoo_smb_ring_buffer_is_empty (Some rb) shm \<longleftrightarrow> ps = []"
    and "zoo_smb_ring_buffer_get_available_data_size (Some rb) shm = frames_size ps"
proof -
  let ?wp = "write_pos (ctl shm)" and ?rp = "read_pos (ctl shm)"
  have valid: "zoo_smb_ring_buffer_is_valid (Some rb) shm" "?wp < h_data_size rb" "?rp < h_data_size rb"
    using assms by (simp_all add: ring_holds_def ring_valid_iff)
  note used = ring_holds_used(1) [OF assms]
  have "?wp = ?rp \<longleftrightarrow> frames_size ps = 0"
  proof
    assume "?wp = ?rp"
    then show "frames_size ps = 0" using used by (simp add: ring_used_def)
  next
    assume "frames_size ps = 0"
    then show "?wp = ?rp"
      using used ring_used_props(2) [OF valid(2,3)] valid(3)
      by (simp add: word_less_nat_alt word_unat_eq_iff)
  qed
  moreover have "frames_size ps = 0 \<longleftrightarrow> ps = []"
    by (cases ps) (simp_all add: frame_size_def sizeof_header_def)
  ultimately show "zoo_smb_ring_buffer_has_data (Some rb) shm \<longleftrightarrow> ps \<noteq> []"
    and "zoo_smb_ring_buffer_is_empty (Some rb) shm \<longleftrightarrow> ps = []"
    and "zoo_smb_ring_buffer_get_available_data_size (Some rb) shm = frames_size ps"
    using valid(1) used
    by (simp_all add: zoo_smb_ring_buffer_has_data_def zoo_smb_ring_buffer_is_empty_def
        zoo_smb_ring_buffer_get_available_data_size_def)
qed

section \<open>Creating, attaching, clearing\<close>

lemma RING_ALIGN_control: "RING_ALIGN 192 = 192"
  by (simp add: RING_ALIGN_def)

lemma ring_create_holds:
  assumes "zoo_smb_ring_buffer_create_in_memory ok memory mem (length mem) ovr = Some (rb, shm)"
    and "length mem \<le> 192 + 67108864"
  shows "ring_holds e rb shm []" and "allow_overwrite (ctl shm) = ovr"
    and "unat (h_data_size rb) = length mem - 192"
  using assms
  by (auto simp: zoo_smb_ring_buffer_create_in_memory_def Let_def RING_ALIGN_control ring_holds_def
      ring_valid_iff ring_contents_def ring_used_def sizeof_control_def RING_MIN_SIZE_def unat_of_nat
      word_less_nat_alt simp del: of_nat_diff split: option.splits if_splits)

lemma ring_create_succeeds:
  "1216 \<le> length mem \<Longrightarrow>
     \<exists>rb shm. zoo_smb_ring_buffer_create_in_memory True (Some base) mem (length mem) ovr = Some (rb, shm)"
  by (simp add: zoo_smb_ring_buffer_create_in_memory_def Let_def sizeof_control_def RING_MIN_SIZE_def)

lemma ring_clear_holds:
  assumes "ring_holds e rb shm ps"
  shows "\<exists>rb' shm'. zoo_smb_ring_buffer_clear (Some rb) shm = (ZOO_SMB_OK, Some rb', shm')
           \<and> ring_holds e rb' shm' [] \<and> h_data_size rb' = h_data_size rb"
  using assms
  by (auto simp: zoo_smb_ring_buffer_clear_def ring_holds_valid [OF assms] Let_def ring_holds_def
      ring_valid_iff ring_contents_def ring_used_def word_less_nat_alt)

lemma ring_attach_holds:
  assumes "ring_holds e rb shm ps" and "rc_data_size (ctl shm) = h_data_size rb"
    and "zoo_smb_ring_buffer_attach ok (Some base) shm = Some rb'"
  shows "ring_holds e rb' shm ps" and "\<not> is_owner rb'"
  using assms
  by (auto simp: zoo_smb_ring_buffer_attach_def ring_holds_def ring_valid_iff ring_contents_def Let_def
      split: if_splits)

section \<open>The specification: a queue with a capacity in bytes\<close>

definition queue_write :: "nat \<Rightarrow> bool \<Rightarrow> u8 list list \<Rightarrow> u8 list \<Rightarrow> zoo_error \<times> u8 list list" where
  "queue_write cap ovr ps d =
     (if d = [] \<or> cap < frame_size d then (ZOO_SMB_ERROR_INVALID_PARAM, ps)
      else if frames_size ps + frame_size d < cap then (ZOO_SMB_OK, ps @ [d])
      else if \<not> ovr then (ZOO_SMB_ERROR_RINGBUF_FULL, ps)
      else (ZOO_SMB_OK, evict (frames_size ps + frame_size d - (cap - 1)) ps @ [d]))"

fun queue_read :: "u8 list list \<Rightarrow> nat \<Rightarrow> zoo_error \<times> u8 list list \<times> u8 list option" where
  "queue_read [] n = (ZOO_SMB_ERROR_RINGBUF_EMPTY, [], None)"
| "queue_read (p # ps) n =
     (if length p \<noteq> n then (ZOO_SMB_ERROR_INVALID_SIZE, p # ps, None) else (ZOO_SMB_OK, ps, Some p))"

lemma sample_ring:
  obtains rb shm where
    "zoo_smb_ring_buffer_create_in_memory True (Some 4096) (replicate 1216 0) 1216 ovr = Some (rb, shm)"
    and "ring_holds e rb shm []" and "allow_overwrite (ctl shm) = ovr" and "unat (h_data_size rb) = 1024"
proof -
  obtain rb shm where c:
    "zoo_smb_ring_buffer_create_in_memory True (Some 4096) (replicate 1216 0) (length (replicate 1216 (0 :: u8))) ovr
       = Some (rb, shm)"
    using ring_create_succeeds [of "replicate 1216 0" 4096 ovr] by auto
  show ?thesis
    using that [of rb shm] ring_create_holds(1) [OF c, of e] ring_create_holds(2,3) [OF c] c by simp
qed

lemma ring_write_queue:
  assumes "ring_holds e rb shm ps"
    and "queue_write (unat (h_data_size rb)) (allow_overwrite (ctl shm)) ps d = (err, qs)"
    and "allow_overwrite (ctl shm) \<longrightarrow> frame_size d \<noteq> unat (h_data_size rb)
           \<and> length (ps @ [d]) \<le> length qs + 1000"
  shows "\<exists>shm'. zoo_smb_ring_buffer_write e now (Some rb) shm (Some d) (length d) = (err, shm')
           \<and> ring_holds e rb shm' qs \<and> allow_overwrite (ctl shm') = allow_overwrite (ctl shm)"
proof -
  consider (bad) "d = [] \<or> unat (h_data_size rb) < frame_size d"
    | (fits) "d \<noteq> []" "frames_size ps + frame_size d < unat (h_data_size rb)"
    | (full) "d \<noteq> []" "frame_size d \<le> unat (h_data_size rb)" "\<not> allow_overwrite (ctl shm)"
        "unat (h_data_size rb) \<le> frames_size ps + frame_size d"
    | (evict) "d \<noteq> []" "frame_size d \<le> unat (h_data_size rb)" "allow_overwrite (ctl shm)"
        "unat (h_data_size rb) \<le> frames_size ps + frame_size d"
    by linarith
  then show ?thesis
  proof cases
    case bad
    then show ?thesis using assms ring_write_bad_size [OF assms(1) bad]
      by (auto simp: queue_write_def)
  next
    case fits
    then show ?thesis using assms ring_write_fits [OF assms(1) fits, of now]
      by (auto simp: queue_write_def)
  next
    case full
    then show ?thesis using assms ring_write_full [OF assms(1) full(1,3,2,4), of now]
      by (auto simp: queue_write_def)
  next
    case evict
    then have q: "err = ZOO_SMB_OK"
      "qs = evict (frames_size ps + frame_size d - (unat (h_data_size rb) - 1)) ps @ [d]"
      using assms(2) by (auto simp: queue_write_def)
    show ?thesis
      using ring_write_evicts [OF assms(1) evict(1,3) _ evict(4) refl, of now] assms(3) evict q
      by auto
  qed
qed



lemma ring_read_queue:
  assumes "ring_holds e rb shm ps" and "queue_read ps n = (err, qs, p)" and "n \<le> length out"
  shows "\<exists>shm'. zoo_smb_ring_buffer_read e (Some rb) shm (Some out) n
             = (err, shm', Some (case p of None \<Rightarrow> out | Some p \<Rightarrow> p @ drop n out))
           \<and> ring_holds e rb shm' qs \<and> allow_overwrite (ctl shm') = allow_overwrite (ctl shm)"
proof (cases ps)
  case Nil
  then show ?thesis using assms ring_read_empty [of e rb shm out n]
    by (auto simp: ring_holds_def ring_valid_iff ring_contents_def)
next
  case (Cons q rest)
  show ?thesis
  proof (cases "length q = n")
    case True
    then show ?thesis using ring_read_next [of e rb shm q rest out] assms Cons by auto
  next
    case False
    then show ?thesis using ring_read_wrong_size [of e rb shm q rest n out] assms Cons by auto
  qed
qed

text \<open>
  C10. A read from a ring that holds \<open>ps\<close> does what the queue specification says: empty and
  wrong-size reads leave the queue alone, any other read delivers the oldest payload intact at the
  start of the caller's buffer and removes exactly that message.
\<close>

theorem ring_read_refines:
  assumes "ring_holds e rb shm ps" and "queue_read ps n = (err, qs, p)" and "n \<le> length out"
  shows "\<exists>shm'. zoo_smb_ring_buffer_read e (Some rb) shm (Some out) n
             = (err, shm', Some (case p of None \<Rightarrow> out | Some p \<Rightarrow> p @ drop n out))
           \<and> ring_holds e rb shm' qs \<and> allow_overwrite (ctl shm') = allow_overwrite (ctl shm)"
  using assms by (rule ring_read_queue)

theorem ring_read_refines_witness:
  "\<exists>rb shm shm'. zoo_smb_ring_buffer_create_in_memory True (Some 4096) (replicate 1216 0) 1216 False
       = Some (rb, shm)
     \<and> fst (zoo_smb_ring_buffer_read Big (Some rb)
             (snd (zoo_smb_ring_buffer_write Big 5 (Some rb) shm (Some [7, 8]) 2)) (Some [0, 0, 9]) 2)
         = ZOO_SMB_OK
     \<and> snd (snd (zoo_smb_ring_buffer_read Big (Some rb)
             (snd (zoo_smb_ring_buffer_write Big 5 (Some rb) shm (Some [7, 8]) 2)) (Some [0, 0, 9]) 2))
         = Some [7, 8, 9]"
proof -
  obtain rb shm where r:
    "zoo_smb_ring_buffer_create_in_memory True (Some 4096) (replicate 1216 0) 1216 False = Some (rb, shm)"
    "ring_holds Big rb shm []" "unat (h_data_size rb) = 1024"
    using sample_ring [of False Big] by metis
  then obtain shm1 where w: "zoo_smb_ring_buffer_write Big 5 (Some rb) shm (Some [7, 8]) 2 = (ZOO_SMB_OK, shm1)"
    "ring_holds Big rb shm1 [[7, 8]]"
    using ring_write_fits [of Big rb shm "[]" "[7, 8]" 5]
    by (auto simp: frame_size_def sizeof_header_def numeral_2_eq_2)
  have "queue_read [[7, 8]] 2 = (ZOO_SMB_OK, [], Some [7, 8])" by simp
  from ring_read_refines [OF w(2) this, of "[0, 0, 9]"] show ?thesis
    using r(1) w(1) by auto
qed

section \<open>The ring as a message channel\<close>

text \<open>The ring in its default mode keeps the contract of \<open>message_queue\<close>, read as its users read it: size first.\<close>

definition ring_put :: "endian \<Rightarrow> ring_handle \<Rightarrow> u64 \<Rightarrow> ring_shm \<Rightarrow> u8 list \<Rightarrow> bool \<times> ring_shm" where
  "ring_put e rb now shm d =
     (let (r, shm') = zoo_smb_ring_buffer_write e now (Some rb) shm (Some d) (length d)
      in (r = ZOO_SMB_OK, shm'))"

definition ring_get :: "endian \<Rightarrow> ring_handle \<Rightarrow> unit \<Rightarrow> ring_shm \<Rightarrow> u8 list option \<times> ring_shm" where
  "ring_get e rb j shm =
     (let n = zoo_smb_ring_buffer_get_next_message_size e (Some rb) shm
      in if n = 0 then (None, shm)
         else let (r, shm', out) = zoo_smb_ring_buffer_read e (Some rb) shm (Some (replicate n 0)) n
              in (if r = ZOO_SMB_OK then out else None, shm'))"

lemma queue_write_keep:
  "queue_write cap False ps d = (err, qs) \<Longrightarrow> qs = (if err = ZOO_SMB_OK then ps @ [d] else ps)"
  by (auto simp: queue_write_def split: if_splits)

interpretation ring_queue:
  message_queue "\<lambda>shm ps. ring_holds e rb shm ps \<and> \<not> allow_overwrite (ctl shm)" "ring_put e rb"
    "ring_get e rb" id "\<lambda>_. True"
  for e rb
proof unfold_locales
  fix shm ps now d
  assume h: "ring_holds e rb shm ps \<and> \<not> allow_overwrite (ctl shm)"
  obtain err qs where q: "queue_write (unat (h_data_size rb)) (allow_overwrite (ctl shm)) ps d = (err, qs)"
    by fastforce
  with h ring_write_queue [OF _ q, of e now]
  show "ring_holds e rb (snd (ring_put e rb now shm d)) (if fst (ring_put e rb now shm d) then ps @ [id d] else ps)
    \<and> \<not> allow_overwrite (ctl (snd (ring_put e rb now shm d)))"
    using queue_write_keep [of "unat (h_data_size rb)" ps d err qs] by (auto simp: ring_put_def)
next
  fix shm j
  assume "ring_holds e rb shm [] \<and> \<not> allow_overwrite (ctl shm)"
  then show "fst (ring_get e rb j shm) = None
    \<and> ring_holds e rb (snd (ring_get e rb j shm)) [] \<and> \<not> allow_overwrite (ctl (snd (ring_get e rb j shm)))"
    by (simp add: ring_get_def ring_next_size_empty)
next
  fix shm p ps j
  assume h: "ring_holds e rb shm (p # ps) \<and> \<not> allow_overwrite (ctl shm)"
  then have "p \<noteq> []" by (auto simp: ring_holds_def good_frame_def)
  with h ring_read_next [of e rb shm p ps "replicate (length p) 0"]
  show "fst (ring_get e rb j shm) = Some p
    \<and> ring_holds e rb (snd (ring_get e rb j shm)) ps \<and> \<not> allow_overwrite (ctl (snd (ring_get e rb j shm)))"
    by (auto simp: ring_get_def ring_next_size)
qed

text \<open>
  C5. A ring created in a block of at most 64 MiB of data, in its default mode, is a FIFO: over any
  sequence of writes and reads the payloads read, followed by those still in the ring, are exactly
  the payloads whose write returned OK, in order; the ring is never reported corrupt.
\<close>

theorem ring_trace_fifo:
  assumes "zoo_smb_ring_buffer_create_in_memory ok memory mem (length mem) False = Some (rb, shm)"
    and "length mem \<le> 192 + 64 * 1024 * 1024"
    and "run_queue (ring_put e rb) (ring_get e rb) shm ops = (written, got, shm')"
  shows "\<exists>rest. written = got @ rest \<and> ring_holds e rb shm' rest
           \<and> zoo_smb_ring_buffer_is_valid (Some rb) shm'"
proof -
  have "ring_holds e rb shm []" "\<not> allow_overwrite (ctl shm)"
    using ring_create_holds(1) [OF assms(1), of e] ring_create_holds(2) [OF assms(1)] assms(2)
    by simp_all
  then show ?thesis
    using ring_queue.run_fifo [of e rb shm "[]" ops written got shm'] assms(3)
    by (auto simp: ring_holds_def)
qed

theorem ring_trace_fifo_witness:
  "\<exists>rb shm written got shm'.
     zoo_smb_ring_buffer_create_in_memory True (Some 0) (replicate 1216 0) 1216 False = Some (rb, shm)
     \<and> run_queue (ring_put Little rb) (ring_get Little rb) shm [Put 1 [5], Put 2 [6, 7], Get ()]
         = (written, got, shm')
     \<and> (\<exists>rest. written = got @ rest)"
proof -
  obtain rb shm where c:
    "zoo_smb_ring_buffer_create_in_memory True (Some 0) (replicate 1216 0) (length (replicate 1216 (0 :: u8))) False
       = Some (rb, shm)"
    using ring_create_succeeds [of "replicate 1216 0" 0 False] by auto
  obtain w g s where r: "run_queue (ring_put Little rb) (ring_get Little rb) shm
      [Put 1 [5], Put 2 [6, 7], Get ()] = (w, g, s)" using prod_cases3 by blast
  show ?thesis using ring_trace_fifo [OF c _ r] c r by auto
qed

section \<open>The size a ring needs\<close>

lemma and_not_mask_word: "y AND NOT (mask n) = push_bit n (drop_bit n y)" for y :: "'a :: len word"
  by (rule bit_eqI) (auto simp: bit_simps)

lemma unat_RING_ALIGN:
  assumes "unat x \<le> 67108864"
  shows "unat (RING_ALIGN x) = (unat x + 63) div 64 * 64"
proof -
  have "unat (x + 63) = unat x + 63" using assms by (simp add: unat_word_ariths)
  moreover have "unat (push_bit 6 (drop_bit 6 y)) = take_bit 64 (push_bit 6 (drop_bit 6 (unat y)))"
    for y :: u64 using unsigned_less [of y, where 'a = nat]
    by (simp add: unsigned_push_bit_eq unsigned_drop_bit_eq take_bit_nat_eq_self)
  moreover have "RING_ALIGN x = push_bit 6 (drop_bit 6 (x + 63))"
    using and_not_mask_word [of "x + 63" 6] by (simp add: RING_ALIGN_def mask_eq_exp_minus_1 add.commute)
  ultimately have "unat (RING_ALIGN x) = take_bit 64 (push_bit 6 (drop_bit 6 (unat x + 63)))"
    by simp
  moreover have "push_bit 6 (drop_bit 6 (unat x + 63)) = (unat x + 63) div 64 * 64"
    by (simp add: push_bit_eq_mult drop_bit_eq_div)
  moreover have "(unat x + 63) div 64 * 64 \<le> 67108864 + 63" using assms by simp
  ultimately show ?thesis by (simp add: take_bit_nat_eq_self)
qed



section \<open>A message that fills the data area exactly\<close>

lemma ring_discard_empty:
  assumes "0 < todo" and "unat (ring_used wp rp sz) < sizeof_header"
  shows "ring_discard e d sz wp rp todo 0 = (ring_next_pos rp todo sz, 0)"
  using assms by (simp add: ring_discard.simps)

lemma cslice_shift:
  assumes "cslice a w n = hb @ d" and "length hb < n"
  shows "cslice a (w + 1) (length hb) = take (length hb) (drop 1 (hb @ d))"
proof -
  obtain k where "n = Suc (length hb + k)" using assms(2) less_iff_Suc_add by auto
  then show ?thesis unfolding assms(1) [symmetric] by (simp add: cslice_Suc cslice_add)
qed

text \<open>A header read one byte too late has the wrong magic number.\<close>

lemma shifted_magic:
  assumes "wf_header hdr" and "magic hdr = ZOO_SMB_MSG_MAGIC_NUMBER" and "version hdr = ZOO_SMB_PROTOCOL_VERSION"
  shows "magic (read_header e (drop 1 (header_bytes e hdr) @ rest)) \<noteq> ZOO_SMB_MSG_MAGIC_NUMBER"
  using assms
  by (cases e) (simp_all add: read_header_def header_bytes_def field_at_def host_word_def host_bytes_def
      ZOO_SMB_MSG_MAGIC_NUMBER_def ZOO_SMB_PROTOCOL_VERSION_def)

text \<open>Committing such a message, from a write position with nothing unread before it.\<close>

lemma ring_commit_whole:
  assumes "zoo_smb_ring_buffer_is_valid (Some rb) shm" and "length (area shm) = unat (h_data_size rb)"
    and "frame_size d = unat (h_data_size rb)" and "d \<noteq> []"
  shows "\<exists>shm' hdr. ring_commit e now (h_data_size rb) shm d (length d) = (ZOO_SMB_OK, shm')
           \<and> zoo_smb_ring_buffer_is_valid (Some rb) shm' \<and> length (area shm') = unat (h_data_size rb)
           \<and> write_pos (ctl shm') = write_pos (ctl shm) \<and> read_pos (ctl shm') = read_pos (ctl shm)
           \<and> good_frame hdr d
           \<and> cslice (area shm') (unat (write_pos (ctl shm))) (unat (h_data_size rb)) = header_bytes e hdr @ d"
proof -
  let ?sz = "h_data_size rb" and ?wp = "write_pos (ctl shm)"
  let ?h = "create_ring_header now d (length d) (write_seq (ctl shm))"
  have valid: "unat ?sz \<le> 67108864" "?wp < ?sz" "unat ?wp < unat ?sz"
    using assms(1) by (simp_all add: ring_valid_iff word_less_nat_alt)
  have len: "sizeof_header + length d = unat ?sz" "length d < 2 ^ 32"
    using assms(3) valid(1) by (simp_all add: frame_size_def)
  have good: "good_frame ?h d" using create_ring_header_good [OF assms(4) len(2)] .
  then have hb: "length (header_bytes e ?h) = sizeof_header" by (simp add: good_frame_def)
  define a1 where "a1 = ring_store (area shm) ?sz ?wp (header_bytes e ?h)"
  define wp1 where "wp1 = ring_next_pos ?wp (word_of_nat sizeof_header) ?sz"
  define a2 where "a2 = ring_store a1 ?sz wp1 d"
  define wp2 where "wp2 = ring_next_pos wp1 (word_of_nat (length d)) ?sz"
  have start: "unat ?wp = (unat ?wp + 0) mod unat ?sz" using valid(3) by simp
  note one = ring_append_block [OF valid(2,1) assms(2) valid(3) start, of "header_bytes e ?h",
      unfolded hb, folded a1_def wp1_def]
  note two = ring_append_block [OF one(4) valid(1) one(2) valid(3) one(3), of d, folded a2_def wp2_def]
  have "wp2 = ?wp" using two(3) len valid(3) by (simp add: word_unat_eq_iff)
  moreover have "cslice a2 (unat ?wp) (unat ?sz) = header_bytes e ?h @ d"
    using one(1) two(1) len by simp
  ultimately show ?thesis
    using assms(1,4) two(2,4) one(4) len valid(2) good
    by (auto simp: ring_commit_def Let_def ring_valid_iff a1_def [symmetric] wp1_def [symmetric]
        a2_def [symmetric] wp2_def [symmetric] linorder_not_le intro!: exI [of _ ?h])
qed

text \<open>
  C35. The size check of a write admits a message that fills the data area exactly. In overwrite
  mode such a write to a drained ring reports success but moves the read position one byte past the
  start of the new message, so that every later read reports corruption and disables the ring.
\<close>

theorem exact_fill_corrupts:
  assumes "ring_holds e rb shm []" and "allow_overwrite (ctl shm)"
    and "frame_size d = unat (h_data_size rb)"
  shows "\<exists>shm' bad. zoo_smb_ring_buffer_write e now (Some rb) shm (Some d) (length d) = (ZOO_SMB_OK, shm')
           \<and> zoo_smb_ring_buffer_read e (Some rb) shm' (Some out) n
               = (ZOO_SMB_ERROR_RINGBUF_CORRUPTED, bad, Some out)
           \<and> \<not> zoo_smb_ring_buffer_is_valid (Some rb) bad"
proof -
  let ?sz = "h_data_size rb" and ?wp = "write_pos (ctl shm)"
  let ?rp = "ring_next_pos ?wp 1 ?sz"
  let ?shm = "enter_writer shm\<lparr>ctl := (ctl (enter_writer shm))\<lparr>read_pos := ?rp,
                 overruns := overruns (ctl shm) + 1\<rparr>\<rparr>"
  have valid: "zoo_smb_ring_buffer_is_valid (Some rb) shm" "length (area shm) = unat ?sz"
    "1024 \<le> unat ?sz" "unat ?sz \<le> 67108864" "?wp < ?sz"
    using assms(1) by (simp_all add: ring_holds_def ring_valid_iff)
  have drained: "read_pos (ctl shm) = ?wp"
    using ring_has_data_iff(2) [OF assms(1)] valid(1) by (simp add: zoo_smb_ring_buffer_is_empty_def)
  have d: "d \<noteq> []" using assms(3) valid(3) by (auto simp: frame_size_def sizeof_header_def)
  have rp: "unat ?rp = (unat ?wp + 1) mod unat ?sz" "?rp < ?sz"
    using unat_ring_next_pos_nat [OF valid(5,4), of 1] valid(3) by simp_all
  have "ring_discard e (area shm) ?sz ?wp ?wp 1 0 = (?rp, 0)"
    by (rule ring_discard_empty) (simp_all add: ring_used_def sizeof_header_def)
  then have wr: "zoo_smb_ring_buffer_write e now (Some rb) shm (Some d) (length d)
      = ring_commit e now ?sz ?shm d (length d)"
    unfolding ring_write_unfold [OF assms(1) d eq_refl [OF assms(3)]] drained
    using assms(2,3) valid(3) by simp
  have "zoo_smb_ring_buffer_is_valid (Some rb) ?shm" "length (area ?shm) = unat ?sz"
    using valid(1,2) rp(2) by (simp_all add: ring_valid_iff)
  from ring_commit_whole [OF this assms(3) d, of e now]
  obtain shm' hdr where c: "ring_commit e now ?sz ?shm d (length d) = (ZOO_SMB_OK, shm')"
    "zoo_smb_ring_buffer_is_valid (Some rb) shm'" "length (area shm') = unat ?sz"
    "write_pos (ctl shm') = ?wp" "read_pos (ctl shm') = ?rp" "good_frame hdr d"
    "cslice (area shm') (unat ?wp) (unat ?sz) = header_bytes e hdr @ d" by auto
  have "unat (ring_used ?wp ?rp ?sz) = unat ?sz - 1"
    using valid(3,5) rp by (intro ring_used_eqI) (auto simp: mod_below_twice word_less_nat_alt)
  moreover have "cslice (area shm') (unat ?rp) sizeof_header = drop 1 (header_bytes e hdr) @ take 1 d"
    using cslice_shift [OF c(7)] c(3,6) rp(1) valid(3)
      cslice_mod [of "area shm'" "unat ?wp + 1" sizeof_header]
    by (simp add: good_frame_def sizeof_header_def)
  then have "\<exists>q h. ring_peek_header e (area shm') ?sz ?rp = Some (h, q) \<and> \<not> validate_ring_header h"
    using shifted_magic [of hdr e "take 1 d"] c(3,6) rp(2)
    by (auto simp: ring_peek_header_def ring_fetch_cslice good_frame_def validate_ring_header_def)
  ultimately show ?thesis
    using wr c valid
    by (auto simp: zoo_smb_ring_buffer_read_def validate_ok Let_def sizeof_header_def ring_valid_iff)
qed

theorem exact_fill_corrupts_witness:
  "\<exists>rb shm shm' bad.
     zoo_smb_ring_buffer_create_in_memory True (Some 4096) (replicate 1216 0) 1216 True = Some (rb, shm)
     \<and> zoo_smb_ring_buffer_write Little 0 (Some rb) shm (Some (replicate 918 1)) 918 = (ZOO_SMB_OK, shm')
     \<and> zoo_smb_ring_buffer_read Little (Some rb) shm' (Some (replicate 918 0)) 918
         = (ZOO_SMB_ERROR_RINGBUF_CORRUPTED, bad, Some (replicate 918 0))"
proof -
  obtain rb shm where r:
    "zoo_smb_ring_buffer_create_in_memory True (Some 4096) (replicate 1216 0) 1216 True = Some (rb, shm)"
    "ring_holds Little rb shm []" "allow_overwrite (ctl shm)" "unat (h_data_size rb) = 1024"
    using sample_ring [of True Little] by metis
  then have "frame_size (replicate 918 1) = unat (h_data_size rb)"
    by (simp add: frame_size_def sizeof_header_def)
  from exact_fill_corrupts [OF r(2,3) this, of 0 "replicate 918 0" 918] r(1) show ?thesis
    unfolding length_replicate by blast
qed

end
