(* ===== verification/SMB_Error_Strings.thy ===== *)
theory SMB_Error_Strings
  imports SMB_Error
begin

text \<open>
  The rest of \<open>include/kernal/utility/zoo_smb_error.h\<close> and \<open>src/kernal/utility/zoo_smb_error.c\<close>: the
  declared error codes, their descriptions, category names, severities and the last error of a
  thread. The tables list the codes in declaration order, each with its name.
\<close>

section \<open>The declared codes\<close>

text \<open>An entry is the name and the three arguments of \<open>ZOO_SMB_MAKE_ERROR\<close>.\<close>

type_synonym code_table = "(string \<times> nat \<times> nat \<times> nat) list"

definition codes_general :: code_table where
  "codes_general =
    [(''ZOO_SMB_ERROR_INVALID_PARAM'', 0, 0, 1),
     (''ZOO_SMB_ERROR_NULL_POINTER'', 0, 0, 2),
     (''ZOO_SMB_ERROR_BUFFER_TOO_SMALL'', 0, 0, 3),
     (''ZOO_SMB_ERROR_INVALID_SIZE'', 0, 0, 4),
     (''ZOO_SMB_ERROR_OUT_OF_RANGE'', 0, 0, 5),
     (''ZOO_SMB_ERROR_INVALID_NAME'', 0, 0, 6),
     (''ZOO_SMB_ERROR_NOT_INITIALIZED'', 0, 1, 1),
     (''ZOO_SMB_ERROR_ALREADY_INITIALIZED'', 0, 1, 2),
     (''ZOO_SMB_ERROR_INVALID_STATE'', 0, 1, 3),
     (''ZOO_SMB_ERROR_NOT_STARTED'', 0, 1, 4),
     (''ZOO_SMB_ERROR_ALREADY_STARTED'', 0, 1, 5),
     (''ZOO_SMB_ERROR_NOT_SUPPORTED'', 0, 2, 1),
     (''ZOO_SMB_ERROR_NOT_IMPLEMENTED'', 0, 2, 2),
     (''ZOO_SMB_ERROR_OPERATION_FAILED'', 0, 2, 3),
     (''ZOO_SMB_ERROR_INTERRUPTED'', 0, 2, 4),
     (''ZOO_SMB_ERROR_NOT_FOUND'', 0, 3, 1),
     (''ZOO_SMB_ERROR_ALREADY_EXISTS'', 0, 3, 2),
     (''ZOO_SMB_ERROR_BUSY'', 0, 3, 3),
     (''ZOO_SMB_ERROR_AGAIN'', 0, 3, 4),
     (''ZOO_SMB_ERROR_PROCESS_NOT_FOUND'', 0, 4, 1),
     (''ZOO_SMB_ERROR_PROCESS_CHECK_FAILED'', 0, 4, 2)]"

definition codes_memory :: code_table where
  "codes_memory =
    [(''ZOO_SMB_ERROR_OUT_OF_MEMORY'', 1, 0, 1),
     (''ZOO_SMB_ERROR_ALLOCATION_FAILED'', 1, 0, 2),
     (''ZOO_SMB_ERROR_FREE_FAILED'', 1, 0, 3),
     (''ZOO_SMB_ERROR_POOL_CREATE_FAILED'', 1, 1, 1),
     (''ZOO_SMB_ERROR_POOL_DESTROY_FAILED'', 1, 1, 2),
     (''ZOO_SMB_ERROR_POOL_CORRUPTED'', 1, 1, 3),
     (''ZOO_SMB_ERROR_POOL_EXHAUSTED'', 1, 1, 4),
     (''ZOO_SMB_ERROR_BUFFER_OVERFLOW'', 1, 2, 1),
     (''ZOO_SMB_ERROR_BUFFER_UNDERFLOW'', 1, 2, 2),
     (''ZOO_SMB_ERROR_INVALID_BLOCK'', 1, 2, 3),
     (''ZOO_SMB_ERROR_DOUBLE_FREE'', 1, 2, 4)]"

definition codes_thread :: code_table where
  "codes_thread =
    [(''ZOO_SMB_ERROR_THREAD_CREATE_FAILED'', 2, 0, 1),
     (''ZOO_SMB_ERROR_THREAD_JOIN_FAILED'', 2, 0, 2),
     (''ZOO_SMB_ERROR_THREAD_DETACH_FAILED'', 2, 0, 3),
     (''ZOO_SMB_ERROR_MUTEX_INIT_FAILED'', 2, 1, 1),
     (''ZOO_SMB_ERROR_MUTEX_LOCK_FAILED'', 2, 1, 2),
     (''ZOO_SMB_ERROR_MUTEX_UNLOCK_FAILED'', 2, 1, 3),
     (''ZOO_SMB_ERROR_CONDITION_INIT_FAILED'', 2, 1, 4),
     (''ZOO_SMB_ERROR_CONDITION_WAIT_FAILED'', 2, 1, 5),
     (''ZOO_SMB_ERROR_CONDITION_SIGNAL_FAILED'', 2, 1, 6)]"

definition codes_network :: code_table where
  "codes_network =
    [(''ZOO_SMB_ERROR_SOCKET_CREATE_FAILED'', 3, 0, 1),
     (''ZOO_SMB_ERROR_SOCKET_BIND_FAILED'', 3, 0, 2),
     (''ZOO_SMB_ERROR_SOCKET_LISTEN_FAILED'', 3, 0, 3),
     (''ZOO_SMB_ERROR_SOCKET_ACCEPT_FAILED'', 3, 0, 4),
     (''ZOO_SMB_ERROR_SOCKET_CONNECT_FAILED'', 3, 0, 5),
     (''ZOO_SMB_ERROR_NETWORK_SEND_FAILED'', 3, 2, 1),
     (''ZOO_SMB_ERROR_NETWORK_RECV_FAILED'', 3, 2, 2),
     (''ZOO_SMB_ERROR_NETWORK_IO_ERROR'', 3, 2, 3)]"

definition codes_protocol :: code_table where
  "codes_protocol =
    [(''ZOO_SMB_ERROR_INVALID_MESSAGE_FORMAT'', 4, 0, 1),
     (''ZOO_SMB_ERROR_MESSAGE_TOO_LARGE'', 4, 0, 2),
     (''ZOO_SMB_ERROR_MESSAGE_CORRUPTED'', 4, 0, 3),
     (''ZOO_SMB_ERROR_MESSAGE_INCOMPLETE'', 4, 0, 4),
     (''ZOO_SMB_ERROR_VERSION_MISMATCH'', 4, 1, 1),
     (''ZOO_SMB_ERROR_VERSION_NOT_SUPPORTED'', 4, 1, 2),
     (''ZOO_SMB_ERROR_SEQUENCE_ERROR'', 4, 2, 1),
     (''ZOO_SMB_ERROR_DUPLICATE_MESSAGE'', 4, 2, 2)]"

definition codes_transport :: code_table where
  "codes_transport =
    [(''ZOO_SMB_ERROR_TRANSPORT_CREATE_FAILED'', 5, 0, 1),
     (''ZOO_SMB_ERROR_TRANSPORT_INIT_FAILED'', 5, 0, 2),
     (''ZOO_SMB_ERROR_TRANSPORT_START_FAILED'', 5, 0, 3),
     (''ZOO_SMB_ERROR_TRANSPORT_STOP_FAILED'', 5, 0, 4),
     (''ZOO_SMB_ERROR_TRANSPORT_DESTROY_FAILED'', 5, 0, 5),
     (''ZOO_SMB_ERROR_TRANSPORT_SEND_FAILED'', 5, 1, 1),
     (''ZOO_SMB_ERROR_TRANSPORT_RECV_FAILED'', 5, 1, 2),
     (''ZOO_SMB_ERROR_TRANSPORT_MESSAGE_TOO_LARGE'', 5, 1, 3),
     (''ZOO_SMB_ERROR_TRANSPORT_CONNECT_FAILED'', 5, 2, 1),
     (''ZOO_SMB_ERROR_TRANSPORT_DISCONNECT'', 5, 2, 2),
     (''ZOO_SMB_ERROR_TRANSPORT_CONNECTION_LOST'', 5, 2, 3),
     (''ZOO_SMB_ERROR_TRANSPORT_CONSUMER_NOT_FOUND'', 5, 3, 1),
     (''ZOO_SMB_ERROR_TRANSPORT_CONSUMER_EXISTS'', 5, 3, 2)]"

definition codes_service :: code_table where
  "codes_service =
    [(''ZOO_SMB_ERROR_SERVICE_START_FAILED'', 6, 0, 1),
     (''ZOO_SMB_ERROR_SERVICE_STOP_FAILED'', 6, 0, 2),
     (''ZOO_SMB_ERROR_SERVICE_RESTART_FAILED'', 6, 0, 3),
     (''ZOO_SMB_ERROR_SERVICE_REGISTER_FAILED'', 6, 1, 1),
     (''ZOO_SMB_ERROR_SERVICE_UNREGISTER_FAILED'', 6, 1, 2),
     (''ZOO_SMB_ERROR_SERVICE_ALREADY_REGISTERED'', 6, 1, 3),
     (''ZOO_SMB_ERROR_SERVICE_NOT_FOUND'', 6, 2, 1),
     (''ZOO_SMB_ERROR_SERVICE_UNAVAILABLE'', 6, 2, 2)]"

definition codes_config :: code_table where
  "codes_config =
    [(''ZOO_SMB_ERROR_CONFIG_FILE_NOT_FOUND'', 7, 0, 1),
     (''ZOO_SMB_ERROR_CONFIG_FILE_READ_FAILED'', 7, 0, 2),
     (''ZOO_SMB_ERROR_CONFIG_FILE_WRITE_FAILED'', 7, 0, 3),
     (''ZOO_SMB_ERROR_CONFIG_PARSE_FAILED'', 7, 1, 1),
     (''ZOO_SMB_ERROR_CONFIG_INVALID_FORMAT'', 7, 1, 2),
     (''ZOO_SMB_ERROR_CONFIG_INVALID_VALUE'', 7, 2, 1),
     (''ZOO_SMB_ERROR_CONFIG_MISSING_REQUIRED'', 7, 2, 2)]"

definition codes_filesystem :: code_table where
  "codes_filesystem =
    [(''ZOO_SMB_ERROR_FILE_NOT_FOUND'', 8, 0, 1),
     (''ZOO_SMB_ERROR_FILE_OPEN_FAILED'', 8, 0, 2),
     (''ZOO_SMB_ERROR_FILE_READ_FAILED'', 8, 0, 3),
     (''ZOO_SMB_ERROR_FILE_WRITE_FAILED'', 8, 0, 4),
     (''ZOO_SMB_ERROR_FILE_CLOSE_FAILED'', 8, 0, 5),
     (''ZOO_SMB_ERROR_DIR_NOT_FOUND'', 8, 1, 1),
     (''ZOO_SMB_ERROR_DIR_CREATE_FAILED'', 8, 1, 2),
     (''ZOO_SMB_ERROR_DIR_DELETE_FAILED'', 8, 1, 3),
     (''ZOO_SMB_ERROR_PERMISSION_DENIED'', 8, 2, 1),
     (''ZOO_SMB_ERROR_ACCESS_DENIED'', 8, 2, 2),
     (''ZOO_SMB_ERROR_DISK_FULL'', 8, 3, 1),
     (''ZOO_SMB_ERROR_QUOTA_EXCEEDED'', 8, 3, 2)]"

definition codes_security :: code_table where
  "codes_security =
    [(''ZOO_SMB_ERROR_AUTH_FAILED'', 9, 0, 1),
     (''ZOO_SMB_ERROR_AUTH_REQUIRED'', 9, 0, 2),
     (''ZOO_SMB_ERROR_AUTH_EXPIRED'', 9, 0, 3),
     (''ZOO_SMB_ERROR_UNAUTHORIZED'', 9, 1, 1),
     (''ZOO_SMB_ERROR_FORBIDDEN'', 9, 1, 2),
     (''ZOO_SMB_ERROR_CERT_INVALID'', 9, 2, 1),
     (''ZOO_SMB_ERROR_CERT_EXPIRED'', 9, 2, 2),
     (''ZOO_SMB_ERROR_CERT_NOT_FOUND'', 9, 2, 3),
     (''ZOO_SMB_ERROR_CRYPTO_INIT_FAILED'', 9, 3, 1),
     (''ZOO_SMB_ERROR_ENCRYPT_FAILED'', 9, 3, 2),
     (''ZOO_SMB_ERROR_DECRYPT_FAILED'', 9, 3, 3)]"

definition codes_data_structure :: code_table where
  "codes_data_structure =
    [(''ZOO_SMB_ERROR_LIST_EMPTY'', 10, 0, 1),
     (''ZOO_SMB_ERROR_LIST_FULL'', 10, 0, 2),
     (''ZOO_SMB_ERROR_LIST_INDEX_OUT_OF_BOUNDS'', 10, 0, 3),
     (''ZOO_SMB_ERROR_HASH_KEY_NOT_FOUND'', 10, 1, 1),
     (''ZOO_SMB_ERROR_HASH_KEY_EXISTS'', 10, 1, 2),
     (''ZOO_SMB_ERROR_HASH_TABLE_FULL'', 10, 1, 3),
     (''ZOO_SMB_ERROR_TREE_NODE_NOT_FOUND'', 10, 2, 1),
     (''ZOO_SMB_ERROR_TREE_INVALID_PATH'', 10, 2, 2),
     (''ZOO_SMB_ERROR_QUEUE_EMPTY'', 10, 3, 1),
     (''ZOO_SMB_ERROR_QUEUE_FULL'', 10, 3, 2)]"

definition codes_handshake :: code_table where
  "codes_handshake =
    [(''ZOO_SMB_ERROR_HANDSHAKE_FAILED'', 11, 0, 1),
     (''ZOO_SMB_ERROR_HANDSHAKE_REJECTED'', 11, 0, 2),
     (''ZOO_SMB_ERROR_HANDSHAKE_VERSION_MISMATCH'', 11, 0, 3),
     (''ZOO_SMB_ERROR_HANDSHAKE_INVALID_MESSAGE'', 11, 1, 1),
     (''ZOO_SMB_ERROR_HANDSHAKE_MESSAGE_FORMAT'', 11, 1, 2),
     (''ZOO_SMB_ERROR_HANDSHAKE_SEND_FAILED'', 11, 1, 3),
     (''ZOO_SMB_ERROR_HANDSHAKE_TIMEOUT'', 11, 2, 1),
     (''ZOO_SMB_ERROR_HANDSHAKE_ACK_TIMEOUT'', 11, 2, 2)]"

definition codes_routing :: code_table where
  "codes_routing =
    [(''ZOO_SMB_ERROR_ROUTING_RULE_NOT_FOUND'', 12, 0, 1),
     (''ZOO_SMB_ERROR_ROUTING_RULE_EXISTS'', 12, 0, 2),
     (''ZOO_SMB_ERROR_ROUTING_RULE_INVALID'', 12, 0, 3),
     (''ZOO_SMB_ERROR_ROUTING_RULE_DISABLED'', 12, 0, 4),
     (''ZOO_SMB_ERROR_ROUTING_RULE_PREPARE_FAILED'', 12, 0, 5),
     (''ZOO_SMB_ERROR_ROUTING_TABLE_FULL'', 12, 1, 1),
     (''ZOO_SMB_ERROR_ROUTING_TABLE_EMPTY'', 12, 1, 2),
     (''ZOO_SMB_ERROR_ROUTING_TABLE_CORRUPTED'', 12, 1, 3),
     (''ZOO_SMB_ERROR_ROUTING_PATH_NOT_FOUND'', 12, 2, 1),
     (''ZOO_SMB_ERROR_ROUTING_PATH_INVALID'', 12, 2, 2),
     (''ZOO_SMB_ERROR_ROUTING_PATH_BLOCKED'', 12, 2, 3),
     (''ZOO_SMB_ERROR_ROUTING_POLICY_VIOLATION'', 12, 3, 1),
     (''ZOO_SMB_ERROR_ROUTING_POLICY_CONFLICT'', 12, 3, 2)]"

definition codes_logging :: code_table where
  "codes_logging =
    [(''ZOO_SMB_ERROR_LOG_INIT_FAILED'', 13, 0, 1),
     (''ZOO_SMB_ERROR_LOG_ALREADY_INITIALIZED'', 13, 0, 2),
     (''ZOO_SMB_ERROR_LOG_CONFIG_INVALID'', 13, 1, 1),
     (''ZOO_SMB_ERROR_LOG_LEVEL_INVALID'', 13, 1, 2),
     (''ZOO_SMB_ERROR_LOG_WRITE_FAILED'', 13, 2, 1),
     (''ZOO_SMB_ERROR_LOG_FILE_FULL'', 13, 2, 2),
     (''ZOO_SMB_ERROR_LOG_ROTATION_FAILED'', 13, 3, 1),
     (''ZOO_SMB_ERROR_LOG_BACKUP_FAILED'', 13, 3, 2)]"

definition codes_shared_memory :: code_table where
  "codes_shared_memory =
    [(''ZOO_SMB_ERROR_SHM_CREATE_FAILED'', 14, 0, 1),
     (''ZOO_SMB_ERROR_SHM_ATTACH_FAILED'', 14, 0, 2),
     (''ZOO_SMB_ERROR_SHM_DETACH_FAILED'', 14, 0, 3),
     (''ZOO_SMB_ERROR_SHM_DESTROY_FAILED'', 14, 0, 4),
     (''ZOO_SMB_ERROR_SHM_NOT_FOUND'', 14, 1, 1),
     (''ZOO_SMB_ERROR_SHM_ALREADY_EXISTS'', 14, 1, 2),
     (''ZOO_SMB_ERROR_SHM_PERMISSION_DENIED'', 14, 1, 3),
     (''ZOO_SMB_ERROR_SHM_LOCK_FAILED'', 14, 2, 1),
     (''ZOO_SMB_ERROR_SHM_UNLOCK_FAILED'', 14, 2, 2),
     (''ZOO_SMB_ERROR_SHM_SEM_CREATE_FAILED'', 14, 2, 3),
     (''ZOO_SMB_ERROR_SHM_SYNCHRONIZATION_FAILED'', 14, 2, 4),
     (''ZOO_SMB_ERROR_EVENTFD_CREATION_FAILED'', 14, 2, 5),
     (''ZOO_SMB_ERROR_SHM_BUFFER_FULL'', 14, 3, 1),
     (''ZOO_SMB_ERROR_SHM_INVALID_MESSAGE'', 14, 3, 2),
     (''ZOO_SMB_ERROR_SHM_VERSION_MISMATCH'', 14, 3, 3),
     (''ZOO_SMB_ERROR_SHM_DATA_INVALID_MAGIC'', 14, 3, 4),
     (''ZOO_SMB_ERROR_SHM_DATA_VERSION_MISMATCH'', 14, 3, 5),
     (''ZOO_SMB_ERROR_SHM_DATA_CORRUPTED'', 14, 3, 6)]"

definition codes_ring_buffer :: code_table where
  "codes_ring_buffer =
    [(''ZOO_SMB_ERROR_RINGBUF_CREATE_FAILED'', 15, 0, 1),
     (''ZOO_SMB_ERROR_RINGBUF_DESTROY_FAILED'', 15, 0, 2),
     (''ZOO_SMB_ERROR_RINGBUF_INIT_FAILED'', 15, 0, 3),
     (''ZOO_SMB_ERROR_RINGBUF_WRITE_FAILED'', 15, 1, 1),
     (''ZOO_SMB_ERROR_RINGBUF_READ_FAILED'', 15, 1, 2),
     (''ZOO_SMB_ERROR_RINGBUF_FULL'', 15, 1, 3),
     (''ZOO_SMB_ERROR_RINGBUF_EMPTY'', 15, 1, 4),
     (''ZOO_SMB_ERROR_RINGBUF_NOT_INITIALIZED'', 15, 2, 1),
     (''ZOO_SMB_ERROR_RINGBUF_INVALID_STATE'', 15, 2, 2),
     (''ZOO_SMB_ERROR_RINGBUF_NOT_OWNER'', 15, 2, 3),
     (''ZOO_SMB_ERROR_RINGBUF_CORRUPTED'', 15, 3, 1),
     (''ZOO_SMB_ERROR_RINGBUF_OVERFLOW'', 15, 3, 2),
     (''ZOO_SMB_ERROR_RINGBUF_UNDERFLOW'', 15, 3, 3),
     (''ZOO_SMB_ERROR_RINGBUF_INVALID_MAGIC'', 15, 3, 4)]"

definition codes_subscription :: code_table where
  "codes_subscription =
    [(''ZOO_SMB_ERROR_SUBSCRIPTION_NOT_FOUND'', 16, 0, 1),
     (''ZOO_SMB_ERROR_SUBSCRIPTION_EXISTS'', 16, 0, 2),
     (''ZOO_SMB_ERROR_SUBSCRIPTION_LIMIT'', 16, 0, 3),
     (''ZOO_SMB_ERROR_SUBSCRIPTION_NO_MATCH'', 16, 1, 1),
     (''ZOO_SMB_ERROR_SUBSCRIPTION_PATTERN_INVALID'', 16, 1, 2),
     (''ZOO_SMB_ERROR_SUBSCRIPTION_DELIVERY_FAILED'', 16, 2, 1),
     (''ZOO_SMB_ERROR_SUBSCRIPTION_QUEUE_FULL'', 16, 2, 2),
     (''ZOO_SMB_ERROR_SUBSCRIPTION_FILTER_INVALID'', 16, 3, 1),
     (''ZOO_SMB_ERROR_SUBSCRIPTION_FILTER_FAILED'', 16, 3, 2)]"

definition codes_publication :: code_table where
  "codes_publication =
    [(''ZOO_SMB_ERROR_PUBLICATION_SEND_FAILED'', 17, 0, 1),
     (''ZOO_SMB_ERROR_PUBLICATION_QUEUE_FULL'', 17, 0, 2),
     (''ZOO_SMB_ERROR_PUBLICATION_NO_SUBSCRIBERS'', 17, 1, 1),
     (''ZOO_SMB_ERROR_PUBLICATION_ROUTING_FAILED'', 17, 1, 2),
     (''ZOO_SMB_ERROR_PUBLICATION_QOS_VIOLATION'', 17, 2, 1),
     (''ZOO_SMB_ERROR_PUBLICATION_QOS_NOT_SUPPORTED'', 17, 2, 2),
     (''ZOO_SMB_ERROR_PUBLICATION_RATE_EXCEEDED'', 17, 3, 1),
     (''ZOO_SMB_ERROR_PUBLICATION_THROTTLED'', 17, 3, 2)]"

definition codes_discovery :: code_table where
  "codes_discovery =
    [(''ZOO_SMB_ERROR_DISCOVERY_ANNOUNCE_FAILED'', 18, 0, 1),
     (''ZOO_SMB_ERROR_DISCOVERY_REGISTER_FAILED'', 18, 0, 2),
     (''ZOO_SMB_ERROR_DISCOVERY_SERVICE_NOT_FOUND'', 18, 1, 1),
     (''ZOO_SMB_ERROR_DISCOVERY_LOOKUP_TIMEOUT'', 18, 1, 2),
     (''ZOO_SMB_ERROR_DISCOVERY_NAME_NOT_FOUND'', 18, 2, 1),
     (''ZOO_SMB_ERROR_DISCOVERY_RESOLUTION_FAILED'', 18, 2, 2),
     (''ZOO_SMB_ERROR_DISCOVERY_HEALTH_CHECK_FAILED'', 18, 3, 1),
     (''ZOO_SMB_ERROR_DISCOVERY_SERVICE_UNHEALTHY'', 18, 3, 2)]"

definition codes_timeout :: code_table where
  "codes_timeout =
    [(''ZOO_SMB_ERROR_TIMEOUT'', 27, 0, 1),
     (''ZOO_SMB_ERROR_CONNECT_TIMEOUT'', 27, 1, 1),
     (''ZOO_SMB_ERROR_RESPONSE_TIMEOUT'', 27, 2, 1),
     (''ZOO_SMB_ERROR_HEARTBEAT_TIMEOUT'', 27, 3, 1)]"

definition smb_error_codes :: code_table where
  "smb_error_codes =
     codes_general @
     codes_memory @
     codes_thread @
     codes_network @
     codes_protocol @
     codes_transport @
     codes_service @
     codes_config @
     codes_filesystem @
     codes_security @
     codes_data_structure @
     codes_handshake @
     codes_routing @
     codes_logging @
     codes_shared_memory @
     codes_ring_buffer @
     codes_subscription @
     codes_publication @
     codes_discovery @
     codes_timeout"

lemmas code_tables = codes_general_def codes_memory_def codes_thread_def codes_network_def codes_protocol_def codes_transport_def codes_service_def codes_config_def codes_filesystem_def codes_security_def codes_data_structure_def codes_handshake_def codes_routing_def codes_logging_def codes_shared_memory_def codes_ring_buffer_def codes_subscription_def codes_publication_def codes_discovery_def codes_timeout_def

fun code_of :: "nat \<times> nat \<times> nat \<Rightarrow> zoo_error" where
  "code_of (category, subcategory, specific) =
     ZOO_SMB_MAKE_ERROR (word_of_nat category) (word_of_nat subcategory) (word_of_nat specific)"

section \<open>Descriptions\<close>

definition get_general_error_string :: "u32 \<Rightarrow> u32 \<Rightarrow> string" where
  "get_general_error_string subcategory specific =
     (if subcategory = 0 then
        (if specific = 1 then ''Invalid parameter''
         else if specific = 2 then ''Null pointer''
         else if specific = 3 then ''Buffer too small''
         else if specific = 4 then ''Invalid size''
         else if specific = 5 then ''Out of range''
         else ''Parameter validation error'')
      else if subcategory = 1 then
        (if specific = 1 then ''Not initialized''
         else if specific = 2 then ''Already initialized''
         else if specific = 3 then ''Invalid state''
         else if specific = 4 then ''Not started''
         else if specific = 5 then ''Already started''
         else ''State management error'')
      else if subcategory = 2 then
        (if specific = 1 then ''Operation not supported''
         else if specific = 2 then ''Operation not implemented''
         else if specific = 3 then ''Operation failed''
         else if specific = 4 then ''Operation interrupted''
         else ''Operation execution error'')
      else if subcategory = 3 then
        (if specific = 1 then ''Resource not found''
         else if specific = 2 then ''Resource already exists''
         else if specific = 3 then ''Resource busy''
         else if specific = 4 then ''Resource temporarily unavailable''
         else ''Resource access error'')
      else ''General error'')"

definition get_memory_error_string :: "u32 \<Rightarrow> u32 \<Rightarrow> string" where
  "get_memory_error_string subcategory specific =
     (if subcategory = 0 then
        (if specific = 1 then ''Out of memory''
         else if specific = 2 then ''Memory allocation failed''
         else if specific = 3 then ''Memory free failed''
         else ''Memory allocation error'')
      else if subcategory = 1 then
        (if specific = 1 then ''Memory pool creation failed''
         else if specific = 2 then ''Memory pool destruction failed''
         else if specific = 3 then ''Memory pool corrupted''
         else if specific = 4 then ''Memory pool exhausted''
         else ''Memory pool error'')
      else if subcategory = 2 then
        (if specific = 1 then ''Buffer overflow''
         else if specific = 2 then ''Buffer underflow''
         else if specific = 3 then ''Invalid memory block''
         else if specific = 4 then ''Double free detected''
         else ''Memory corruption error'')
      else if subcategory = 3 then
        ''Memory leak detected''
      else ''Memory error'')"

definition get_transport_error_string :: "u32 \<Rightarrow> u32 \<Rightarrow> string" where
  "get_transport_error_string subcategory specific =
     (if subcategory = 0 then
        (if specific = 1 then ''Transport creation failed''
         else if specific = 2 then ''Transport initialization failed''
         else if specific = 3 then ''Transport start failed''
         else if specific = 4 then ''Transport stop failed''
         else if specific = 5 then ''Transport destruction failed''
         else ''Transport lifecycle error'')
      else if subcategory = 1 then
        (if specific = 1 then ''Transport send failed''
         else if specific = 2 then ''Transport receive failed''
         else if specific = 3 then ''Message too large for transport''
         else ''Transport communication error'')
      else if subcategory = 2 then
        (if specific = 1 then ''Transport connection failed''
         else if specific = 2 then ''Transport disconnected''
         else if specific = 3 then ''Transport connection lost''
         else ''Transport connection error'')
      else if subcategory = 3 then
        (if specific = 1 then ''Transport consumer not found''
         else if specific = 2 then ''Transport consumer already exists''
         else ''Transport consumer error'')
      else ''Transport error'')"

definition get_handshake_error_string :: "u32 \<Rightarrow> u32 \<Rightarrow> string" where
  "get_handshake_error_string subcategory specific =
     (if subcategory = 0 then
        (if specific = 1 then ''Handshake failed''
         else if specific = 2 then ''Handshake rejected''
         else if specific = 3 then ''Handshake version mismatch''
         else ''Handshake process error'')
      else if subcategory = 1 then
        (if specific = 1 then ''Invalid handshake message''
         else if specific = 2 then ''Handshake message format error''
         else if specific = 3 then ''Handshake message send failed''
         else ''Handshake message error'')
      else if subcategory = 2 then
        (if specific = 1 then ''Handshake timeout''
         else if specific = 2 then ''Handshake acknowledgment timeout''
         else ''Handshake timeout error'')
      else ''Handshake error'')"

definition get_shm_error_string :: "u32 \<Rightarrow> u32 \<Rightarrow> string" where
  "get_shm_error_string subcategory specific =
     (if subcategory = 0 then
        (if specific = 1 then ''Shared memory creation failed''
         else if specific = 2 then ''Shared memory attach failed''
         else if specific = 3 then ''Shared memory detach failed''
         else if specific = 4 then ''Shared memory destruction failed''
         else ''Shared memory lifecycle error'')
      else if subcategory = 1 then
        (if specific = 1 then ''Shared memory not found''
         else if specific = 2 then ''Shared memory already exists''
         else if specific = 3 then ''Shared memory permission denied''
         else ''Shared memory access error'')
      else if subcategory = 2 then
        (if specific = 1 then ''Shared memory lock failed''
         else if specific = 2 then ''Shared memory unlock failed''
         else if specific = 3 then ''Shared memory semaphore creation failed''
         else if specific = 4 then ''Shared memory synchronization failed''
         else if specific = 5 then ''Event file descriptor creation failed''
         else ''Shared memory synchronization error'')
      else if subcategory = 3 then
        (if specific = 1 then ''Shared memory buffer full''
         else if specific = 2 then ''Invalid shared memory message''
         else if specific = 3 then ''Shared memory version mismatch''
         else ''Shared memory data error'')
      else ''Shared memory error'')"

definition get_ringbuf_error_string :: "u32 \<Rightarrow> u32 \<Rightarrow> string" where
  "get_ringbuf_error_string subcategory specific =
     (if subcategory = 0 then
        (if specific = 1 then ''Ring buffer creation failed''
         else if specific = 2 then ''Ring buffer destruction failed''
         else if specific = 3 then ''Ring buffer initialization failed''
         else ''Ring buffer lifecycle error'')
      else if subcategory = 1 then
        (if specific = 1 then ''Ring buffer write failed''
         else if specific = 2 then ''Ring buffer read failed''
         else if specific = 3 then ''Ring buffer full''
         else if specific = 4 then ''Ring buffer empty''
         else ''Ring buffer operation error'')
      else if subcategory = 2 then
        (if specific = 1 then ''Ring buffer not initialized''
         else if specific = 2 then ''Ring buffer invalid state''
         else if specific = 3 then ''Ring buffer not owner''
         else ''Ring buffer state error'')
      else if subcategory = 3 then
        (if specific = 1 then ''Ring buffer corrupted''
         else if specific = 2 then ''Ring buffer overflow''
         else if specific = 3 then ''Ring buffer underflow''
         else if specific = 4 then ''Ring buffer invalid magic number''
         else ''Ring buffer data integrity error'')
      else ''Ring buffer error'')"

definition get_timeout_error_string :: "u32 \<Rightarrow> u32 \<Rightarrow> string" where
  "get_timeout_error_string subcategory specific =
     (if subcategory = 0 then
        ''Operation timeout''
      else if subcategory = 1 then
        ''Connection timeout''
      else if subcategory = 2 then
        ''Response timeout''
      else if subcategory = 3 then
        ''Heartbeat timeout''
      else ''Timeout error'')"

definition get_thread_error_string :: "u32 \<Rightarrow> u32 \<Rightarrow> string" where
  "get_thread_error_string subcategory specific =
     (if subcategory = 0 then
        (if specific = 1 then ''Thread creation failed''
         else if specific = 2 then ''Thread join failed''
         else if specific = 3 then ''Thread detach failed''
         else ''Thread lifecycle error'')
      else if subcategory = 1 then
        (if specific = 1 then ''Mutex initialization failed''
         else if specific = 2 then ''Mutex lock failed''
         else if specific = 3 then ''Mutex unlock failed''
         else if specific = 4 then ''Condition variable initialization failed''
         else if specific = 5 then ''Condition variable wait failed''
         else if specific = 6 then ''Condition variable signal failed''
         else ''Thread synchronization error'')
      else ''Thread error'')"

definition get_network_error_string :: "u32 \<Rightarrow> u32 \<Rightarrow> string" where
  "get_network_error_string subcategory specific =
     (if subcategory = 0 then
        (if specific = 1 then ''Socket creation failed''
         else if specific = 2 then ''Socket bind failed''
         else if specific = 3 then ''Socket listen failed''
         else if specific = 4 then ''Socket accept failed''
         else if specific = 5 then ''Socket connect failed''
         else ''Socket error'')
      else if subcategory = 2 then
        (if specific = 1 then ''Network send failed''
         else if specific = 2 then ''Network receive failed''
         else if specific = 3 then ''Network I/O error''
         else ''Network I/O error'')
      else ''Network error'')"

definition get_protocol_error_string :: "u32 \<Rightarrow> u32 \<Rightarrow> string" where
  "get_protocol_error_string subcategory specific =
     (if subcategory = 0 then
        (if specific = 1 then ''Invalid message format''
         else if specific = 2 then ''Message too large''
         else if specific = 3 then ''Message corrupted''
         else if specific = 4 then ''Message incomplete''
         else ''Protocol message error'')
      else if subcategory = 1 then
        (if specific = 1 then ''Version mismatch''
         else if specific = 2 then ''Version not supported''
         else ''Protocol version error'')
      else if subcategory = 2 then
        (if specific = 1 then ''Message sequence error''
         else if specific = 2 then ''Duplicate message''
         else ''Protocol sequence error'')
      else ''Protocol error'')"

definition get_service_error_string :: "u32 \<Rightarrow> u32 \<Rightarrow> string" where
  "get_service_error_string subcategory specific =
     (if subcategory = 0 then
        (if specific = 1 then ''Service start failed''
         else if specific = 2 then ''Service stop failed''
         else if specific = 3 then ''Service restart failed''
         else ''Service lifecycle error'')
      else if subcategory = 1 then
        (if specific = 1 then ''Service registration failed''
         else if specific = 2 then ''Service unregistration failed''
         else if specific = 3 then ''Service already registered''
         else ''Service registration error'')
      else if subcategory = 2 then
        (if specific = 1 then ''Service not found''
         else if specific = 2 then ''Service unavailable''
         else ''Service discovery error'')
      else ''Service error'')"

definition get_config_error_string :: "u32 \<Rightarrow> u32 \<Rightarrow> string" where
  "get_config_error_string subcategory specific =
     (if subcategory = 0 then
        (if specific = 1 then ''Configuration file not found''
         else if specific = 2 then ''Configuration file read failed''
         else if specific = 3 then ''Configuration file write failed''
         else ''Configuration file error'')
      else if subcategory = 1 then
        (if specific = 1 then ''Configuration parse failed''
         else if specific = 2 then ''Invalid configuration format''
         else ''Configuration parse error'')
      else if subcategory = 2 then
        (if specific = 1 then ''Invalid configuration value''
         else if specific = 2 then ''Missing required configuration''
         else ''Configuration validation error'')
      else ''Configuration error'')"

lemmas string_funs =
  get_general_error_string_def
  get_memory_error_string_def
  get_transport_error_string_def
  get_handshake_error_string_def
  get_shm_error_string_def
  get_ringbuf_error_string_def
  get_timeout_error_string_def
  get_thread_error_string_def
  get_network_error_string_def
  get_protocol_error_string_def
  get_service_error_string_def
  get_config_error_string_def

definition zoo_smb_get_error_string :: "zoo_error \<Rightarrow> string" where
  "zoo_smb_get_error_string err =
     (if ZOO_SMB_IS_SUCCESS err then ''Success''
      else
        let category = ZOO_SMB_GET_CATEGORY err; subcategory = ZOO_SMB_GET_SUBCATEGORY err;
            specific = ZOO_SMB_GET_SPECIFIC err
        in if category = 0 then get_general_error_string subcategory specific
           else if category = 1 then get_memory_error_string subcategory specific
           else if category = 2 then get_thread_error_string subcategory specific
           else if category = 3 then get_network_error_string subcategory specific
           else if category = 4 then get_protocol_error_string subcategory specific
           else if category = 5 then get_transport_error_string subcategory specific
           else if category = 6 then get_service_error_string subcategory specific
           else if category = 7 then get_config_error_string subcategory specific
           else if category = 11 then get_handshake_error_string subcategory specific
           else if category = 14 then get_shm_error_string subcategory specific
           else if category = 15 then get_ringbuf_error_string subcategory specific
           else if category = 27 then get_timeout_error_string subcategory specific
           else ''Unknown error category'')"

definition category_strings :: "string list" where
  "category_strings =
    [''General'', ''Memory'', ''Thread'', ''Network'', ''Protocol'', ''Transport'', ''Service'', ''Config'', ''FileSystem'', ''Security'', ''DataStructure'', ''Handshake'', ''Routing'', ''Logging'', ''SharedMemory'', ''RingBuffer'', ''Subscription'', ''Publication'', ''Discovery'', ''Performance'', ''Validation'', ''Serialization'', ''Compression'', ''Encryption'', ''Statistics'', ''Maintenance'', ''Resource'', ''Timeout'', ''Compatibility'', ''Extension'']"

definition zoo_smb_get_category_string :: "u32 \<Rightarrow> string" where
  "zoo_smb_get_category_string category =
     (if unat category < length category_strings then category_strings ! unat category
      else ''Unknown Category'')"

datatype ZOO_SMB_ERROR_SEVERITY =
  SEVERITY_INFO | SEVERITY_WARNING | SEVERITY_ERROR | SEVERITY_CRITICAL | SEVERITY_FATAL

text \<open>\<open>severity_strings\<close> has an entry for each of the five severities, so the fallback is unreachable.\<close>

definition zoo_smb_get_error_severity_string :: "ZOO_SMB_ERROR_SEVERITY \<Rightarrow> string" where
  "zoo_smb_get_error_severity_string severity =
     (case severity of SEVERITY_INFO \<Rightarrow> ''Info'' | SEVERITY_WARNING \<Rightarrow> ''Warning''
      | SEVERITY_ERROR \<Rightarrow> ''Error'' | SEVERITY_CRITICAL \<Rightarrow> ''Critical'' | SEVERITY_FATAL \<Rightarrow> ''Fatal'')"

definition zoo_smb_get_error_severity :: "zoo_error \<Rightarrow> ZOO_SMB_ERROR_SEVERITY" where
  "zoo_smb_get_error_severity err =
     (if ZOO_SMB_IS_SUCCESS err then SEVERITY_INFO
      else
        let category = ZOO_SMB_GET_CATEGORY err; subcategory = ZOO_SMB_GET_SUBCATEGORY err
        in if category = 1 then (if subcategory = 2 then SEVERITY_CRITICAL else SEVERITY_ERROR)
           else if category = 9 \<or> category = 4 then SEVERITY_CRITICAL
           else if category = 27 \<or> category = 26 then SEVERITY_WARNING
           else if category = 0 then (if subcategory = 3 then SEVERITY_WARNING else SEVERITY_ERROR)
           else SEVERITY_ERROR)"

section \<open>The last error of a thread\<close>

text \<open>The state is the thread-local variable; a getter returns its value and the state afterwards.\<close>

definition zoo_smb_set_last_error :: "zoo_error \<Rightarrow> zoo_error \<Rightarrow> zoo_error" where
  "zoo_smb_set_last_error err last_error = err"

definition zoo_smb_get_last_error :: "zoo_error \<Rightarrow> zoo_error \<times> zoo_error" where
  "zoo_smb_get_last_error last_error = (last_error, last_error)"

definition zoo_smb_clear_last_error :: "zoo_error \<Rightarrow> zoo_error" where
  "zoo_smb_clear_last_error last_error = ZOO_SMB_OK"
section \<open>Packing and unpacking\<close>

lemma code_masks:
  "(0x7F :: u32) = mask 7" "(0xFF :: u32) = mask 8" "(0xFFFF :: u32) = mask 16"
  "(0x7F000000 :: u32) = push_bit 24 (mask 7)" "(0xFF0000 :: u32) = push_bit 16 (mask 8)"
  "(0x80000000 :: u32) = push_bit 31 1"
  by (simp_all add: mask_eq_exp_minus_1)

lemma bit_below: "x < 2 ^ k \<Longrightarrow> bit x n \<Longrightarrow> n < k" for x :: u32
  by (metis bit_take_bit_iff less_mask_eq take_bit_eq_mask)

lemma bit_flag: "bit (128 :: int) n \<longleftrightarrow> n = 7" "bit (32768 :: int) n \<longleftrightarrow> n = 15"
  "bit (2147483648 :: int) n \<longleftrightarrow> n = 31"
  using bit_exp_iff [where 'a = int, of 7 n] bit_exp_iff [where 'a = int, of 15 n]
    bit_exp_iff [where 'a = int, of 31 n] by simp_all

lemma make_error_bits:
  assumes "category < 128" and "subcategory < 256" and "specific < 65536"
  shows "ZOO_SMB_GET_CATEGORY (ZOO_SMB_MAKE_ERROR category subcategory specific) = category"
    and "ZOO_SMB_GET_SUBCATEGORY (ZOO_SMB_MAKE_ERROR category subcategory specific) = subcategory"
    and "ZOO_SMB_GET_SPECIFIC (ZOO_SMB_MAKE_ERROR category subcategory specific) = specific"
    and "ZOO_SMB_IS_ERROR (ZOO_SMB_MAKE_ERROR category subcategory specific)"
proof -
  have small: "bit category n \<Longrightarrow> n < 7" "bit subcategory n \<Longrightarrow> n < 8" "bit specific n \<Longrightarrow> n < 16" for n
    using assms bit_below [of category 7] bit_below [of subcategory 8] bit_below [of specific 16]
    by simp_all
  show "ZOO_SMB_GET_CATEGORY (ZOO_SMB_MAKE_ERROR category subcategory specific) = category"
    unfolding ZOO_SMB_GET_CATEGORY_def ZOO_SMB_MAKE_ERROR_def code_masks
    by (intro bit_eqI) (auto simp: bit_simps bit_flag dest: small)
  show "ZOO_SMB_GET_SUBCATEGORY (ZOO_SMB_MAKE_ERROR category subcategory specific) = subcategory"
    unfolding ZOO_SMB_GET_SUBCATEGORY_def ZOO_SMB_MAKE_ERROR_def code_masks
    by (intro bit_eqI) (auto simp: bit_simps bit_flag dest: small)
  show "ZOO_SMB_GET_SPECIFIC (ZOO_SMB_MAKE_ERROR category subcategory specific) = specific"
    unfolding ZOO_SMB_GET_SPECIFIC_def ZOO_SMB_MAKE_ERROR_def code_masks
    by (intro bit_eqI) (auto simp: bit_simps bit_flag dest: small)
  have "bit (ZOO_SMB_MAKE_ERROR category subcategory specific AND 0x80000000) 31"
    unfolding ZOO_SMB_MAKE_ERROR_def code_masks by (simp add: bit_simps)
  then show "ZOO_SMB_IS_ERROR (ZOO_SMB_MAKE_ERROR category subcategory specific)"
    unfolding ZOO_SMB_IS_ERROR_def by fastforce
qed

text \<open>
  C29. Packing keeps the parts apart: any category below 128, subcategory below 256 and specific
  code below 65536 can be read back from the code \<open>ZOO_SMB_MAKE_ERROR\<close> builds, and that code is an
  error, not a success.
\<close>

theorem make_error_roundtrip:
  assumes "category < 128" and "subcategory < 256" and "specific < 65536"
  shows "let err = ZOO_SMB_MAKE_ERROR category subcategory specific
         in ZOO_SMB_GET_CATEGORY err = category \<and> ZOO_SMB_GET_SUBCATEGORY err = subcategory
            \<and> ZOO_SMB_GET_SPECIFIC err = specific \<and> ZOO_SMB_IS_ERROR err \<and> \<not> ZOO_SMB_IS_SUCCESS err"
  using make_error_bits [OF assms]
  by (simp add: Let_def ZOO_SMB_IS_ERROR_def ZOO_SMB_IS_SUCCESS_def)

theorem make_error_roundtrip_witness:
  "ZOO_SMB_GET_SPECIFIC (ZOO_SMB_MAKE_ERROR 15 3 1) = 1
    \<and> ZOO_SMB_GET_CATEGORY (ZOO_SMB_MAKE_ERROR 15 3 1) = 15"
  using make_error_roundtrip [of 15 3 1] by (simp add: Let_def)

section \<open>The declared codes are distinct and described\<close>

fun code_key :: "nat \<times> nat \<times> nat \<Rightarrow> nat" where
  "code_key (category, subcategory, specific) = category * 2 ^ 24 + subcategory * 2 ^ 16 + specific"

lemma code_keys_increasing: "successively (<) (map (code_key \<circ> snd) smb_error_codes)"
  unfolding smb_error_codes_def code_tables by simp

lemma code_ranges: "list_all (\<lambda>(n, c, s, p). c < 128 \<and> s < 256 \<and> p < 65536) smb_error_codes"
  unfolding smb_error_codes_def code_tables by simp

lemma code_of_parts:
  assumes "c < 128" and "s < 256" and "p < 65536"
  shows "ZOO_SMB_GET_CATEGORY (code_of (c, s, p)) = word_of_nat c"
    and "ZOO_SMB_GET_SUBCATEGORY (code_of (c, s, p)) = word_of_nat s"
    and "ZOO_SMB_GET_SPECIFIC (code_of (c, s, p)) = word_of_nat p"
    and "\<not> ZOO_SMB_IS_SUCCESS (code_of (c, s, p))"
proof -
  have w: "(word_of_nat c :: u32) < 128" "(word_of_nat s :: u32) < 256" "(word_of_nat p :: u32) < 65536"
    using assms by (simp_all add: word_less_nat_alt unat_of_nat)
  note make_error_bits [OF this]
  then show "ZOO_SMB_GET_CATEGORY (code_of (c, s, p)) = word_of_nat c"
    and "ZOO_SMB_GET_SUBCATEGORY (code_of (c, s, p)) = word_of_nat s"
    and "ZOO_SMB_GET_SPECIFIC (code_of (c, s, p)) = word_of_nat p"
    and "\<not> ZOO_SMB_IS_SUCCESS (code_of (c, s, p))"
    by (simp_all add: ZOO_SMB_IS_ERROR_def ZOO_SMB_IS_SUCCESS_def)
qed

lemma code_of_inj:
  assumes "code_of (c, s, p) = code_of (c', s', p')"
    and "c < 128" "s < 256" "p < 65536" and "c' < 128" "s' < 256" "p' < 65536"
  shows "(c, s, p) = (c', s', p')"
proof -
  have "(word_of_nat c :: u32) = word_of_nat c'" "(word_of_nat s :: u32) = word_of_nat s'"
    "(word_of_nat p :: u32) = word_of_nat p'"
    using code_of_parts [of c s p] code_of_parts [of c' s' p'] assms by metis+
  then show ?thesis
    using assms(2-) by (simp add: word_of_nat_eq_iff take_bit_nat_eq_self)
qed

text \<open>The codes the header declares are pairwise different.\<close>

theorem declared_codes_distinct: "distinct (map (code_of \<circ> snd) smb_error_codes)"
proof -
  have "sorted_wrt (<) (map (code_key \<circ> snd) smb_error_codes)"
    using code_keys_increasing by (simp add: successively_conv_sorted_wrt)
  then have "distinct (map code_key (map snd smb_error_codes))"
    by (simp add: strict_sorted_iff)
  then have "distinct (map snd smb_error_codes)" using distinct_map by blast
  moreover have "inj_on code_of (set (map snd smb_error_codes))"
  proof (rule inj_onI)
    fix x y
    assume in_table: "x \<in> set (map snd smb_error_codes)" "y \<in> set (map snd smb_error_codes)"
      and eq: "code_of x = code_of y"
    obtain c s p c' s' p' where xy: "x = (c, s, p)" "y = (c', s', p')" using prod_cases3 by metis
    have "c < 128 \<and> s < 256 \<and> p < 65536" "c' < 128 \<and> s' < 256 \<and> p' < 65536"
      using in_table code_ranges unfolding xy list_all_iff by auto
    then show "x = y" unfolding xy using code_of_inj [OF eq [unfolded xy]] by blast
  qed
  ultimately have "distinct (map code_of (map snd smb_error_codes))"
    by (simp only: distinct_map)
  then show ?thesis by simp
qed

lemma error_string_code:
  assumes "c < 128" and "s < 256" and "p < 65536"
  shows "zoo_smb_get_error_string (code_of (c, s, p)) =
     (let category = word_of_nat c :: u32; subcategory = word_of_nat s; specific = word_of_nat p
      in if category = 0 then get_general_error_string subcategory specific
         else if category = 1 then get_memory_error_string subcategory specific
         else if category = 2 then get_thread_error_string subcategory specific
         else if category = 3 then get_network_error_string subcategory specific
         else if category = 4 then get_protocol_error_string subcategory specific
         else if category = 5 then get_transport_error_string subcategory specific
         else if category = 6 then get_service_error_string subcategory specific
         else if category = 7 then get_config_error_string subcategory specific
         else if category = 11 then get_handshake_error_string subcategory specific
         else if category = 14 then get_shm_error_string subcategory specific
         else if category = 15 then get_ringbuf_error_string subcategory specific
         else if category = 27 then get_timeout_error_string subcategory specific
         else ''Unknown error category'')"
  unfolding zoo_smb_get_error_string_def code_of_parts [OF assms] Let_def
  using code_of_parts(4) [OF assms] by simp

lemmas error_string_eval = error_string_code string_funs Let_def

text \<open>
  The tables of the twelve described categories, each with the descriptions that stand for some
  other error of the category: the \<open>default\<close> texts of its function.
\<close>

definition described_tables :: "(code_table \<times> string list) list" where
  "described_tables =
    [(codes_general,
       [''General error'', ''Parameter validation error'', ''State management error'',
        ''Operation execution error'', ''Resource access error'']),
     (codes_memory,
       [''Memory error'', ''Memory allocation error'', ''Memory pool error'',
        ''Memory corruption error'']),
     (codes_thread,
       [''Thread error'', ''Thread lifecycle error'', ''Thread synchronization error'']),
     (codes_network,
       [''Network error'', ''Socket error'', ''Network I/O error'']),
     (codes_protocol,
       [''Protocol error'', ''Protocol message error'', ''Protocol version error'',
        ''Protocol sequence error'']),
     (codes_transport,
       [''Transport error'', ''Transport lifecycle error'', ''Transport communication error'',
        ''Transport connection error'', ''Transport consumer error'']),
     (codes_service,
       [''Service error'', ''Service lifecycle error'', ''Service registration error'',
        ''Service discovery error'']),
     (codes_config,
       [''Configuration error'', ''Configuration file error'', ''Configuration parse error'',
        ''Configuration validation error'']),
     (codes_handshake,
       [''Handshake error'', ''Handshake process error'', ''Handshake message error'',
        ''Handshake timeout error'']),
     (codes_shared_memory,
       [''Shared memory error'', ''Shared memory lifecycle error'',
        ''Shared memory access error'', ''Shared memory synchronization error'',
        ''Shared memory data error'']),
     (codes_ring_buffer,
       [''Ring buffer error'', ''Ring buffer lifecycle error'',
        ''Ring buffer operation error'', ''Ring buffer state error'',
        ''Ring buffer data integrity error'']),
     (codes_timeout,
       [''Timeout error''])]"

definition undescribed :: "code_table \<times> string list \<Rightarrow> string list" where
  "undescribed = (\<lambda>(tab, fallbacks).
     map fst (filter (\<lambda>(n, t). zoo_smb_get_error_string (code_of t) \<in> set fallbacks) tab))"

text \<open>
  Of the codes declared in the twelve categories \<open>zoo_smb_get_error_string\<close> describes, exactly
  seven get a catch-all text of their category: six that the function does not know, and
  \<open>ZOO_SMB_ERROR_NETWORK_IO_ERROR\<close>, whose entry reads like the catch-all.
\<close>

theorem declared_codes_described:
  "concat (map undescribed described_tables) =
    [''ZOO_SMB_ERROR_INVALID_NAME'', ''ZOO_SMB_ERROR_PROCESS_NOT_FOUND'',
     ''ZOO_SMB_ERROR_PROCESS_CHECK_FAILED'', ''ZOO_SMB_ERROR_NETWORK_IO_ERROR'',
     ''ZOO_SMB_ERROR_SHM_DATA_INVALID_MAGIC'', ''ZOO_SMB_ERROR_SHM_DATA_VERSION_MISMATCH'',
     ''ZOO_SMB_ERROR_SHM_DATA_CORRUPTED'']"
  unfolding described_tables_def code_tables
  by (simp add: undescribed_def error_string_eval del: code_of.simps)

end
