(* ===== verification/Wire.thy ===== *)
theory Wire
  imports Protocol
begin

text \<open>
  Lemmas both transports share: the bytes of a message on the wire, and the message a receiver
  makes of exactly those bytes.
\<close>

definition MAX_TRANSPORT_BUFFER_SIZE :: nat where
  "MAX_TRANSPORT_BUFFER_SIZE = 40 * 1024"

text \<open>The states of a connection, and the descriptor of none.\<close>

datatype conn_state =
  TRANSPORT_CONN_STATE_DISCONNECTED | TRANSPORT_CONN_STATE_CONNECTING
  | TRANSPORT_CONN_STATE_CONNECTED | TRANSPORT_CONN_STATE_RECONNECTING

definition INVALID_TRANSPORT_FD :: int where "INVALID_TRANSPORT_FD = -1"

text \<open>The functions of the observers that have one, in order.\<close>

fun handlers :: "'o option list \<Rightarrow> 'o list" where
  "handlers [] = []"
| "handlers (None # obs) = handlers obs"
| "handlers (Some f # obs) = f # handlers obs"

definition wire :: "smb_msg \<Rightarrow> u8 list" where
  "wire m = wire_header (header m) @ wire_payload m"

text \<open>What arrives: the header as sent, the payload cut to the size the header states.\<close>

definition received :: "smb_msg \<Rightarrow> smb_msg" where
  "received m = \<lparr>header = header m,
     payload = (if payload_size (header m) = 0 then None else Some (wire_payload m))\<rparr>"

text \<open>A message a sender may hand over: its blocks are as large as it says and its header is valid.\<close>

definition good_msg :: "nat option \<Rightarrow> smb_msg \<Rightarrow> bool" where
  "good_msg cfg m \<longleftrightarrow>
     wf_msg m \<and> zoo_smb_protocol_is_header_valid cfg (Some (header m)) \<and>
     sizeof_header + unat (payload_size (header m)) \<le> MAX_TRANSPORT_BUFFER_SIZE"

lemma length_wire_header: "wf_header h \<Longrightarrow> length (wire_header h) = sizeof_header"
  by (simp add: wire_header_def)

lemma length_wire_payload: "wf_msg m \<Longrightarrow> length (wire_payload m) = unat (payload_size (header m))"
  by (auto simp: wire_payload_def wf_msg_def Let_def split: option.splits)

lemma length_wire: "wf_msg m \<Longrightarrow> length (wire m) = sizeof_header + unat (payload_size (header m))"
  by (simp add: wire_def length_wire_header length_wire_payload wf_msg_def)

lemma wire_not_Nil: "wf_msg m \<Longrightarrow> wire m \<noteq> []"
  using length_wire by (fastforce simp: sizeof_header_def)

lemma good_msg_magic: "good_msg cfg m \<Longrightarrow> magic (header m) = ZOO_SMB_MSG_MAGIC_NUMBER"
  by (auto simp: good_msg_def zoo_smb_protocol_is_header_valid_def validate_magic_number_def split: if_splits)

lemma serialize_wire:
  assumes "wf_msg m" and "length buf = n" and "length (wire m) \<le> n"
  shows "\<exists>buf'. zoo_smb_protocol_serialize e (Some m) (Some buf) n = (length (wire m), Some buf')
           \<and> take (length (wire m)) buf' = wire m"
  using serialize_eq [OF assms(1,2)] assms(3)
  by (simp add: length_wire [OF assms(1)])
    (simp add: wire_def length_wire_header length_wire_payload assms(1) wf_msg_def [THEN iffD1, OF assms(1)])

lemma deserialize_wire:
  assumes "wf_msg m" and "magic (header m) = ZOO_SMB_MSG_MAGIC_NUMBER" and "sizeof_msg \<le> out_size"
  shows "zoo_smb_protocol_deserialize e True (Some (wire m)) (length (wire m))
           (Some \<lparr>header = zero_header, payload = None\<rparr>) out_size = (ZOO_SMB_OK, Some (received m))"
proof -
  have wf: "wf_header (header m)" using assms(1) by (simp add: wf_msg_def)
  have "read_header Big (wire m) = header m"
    using read_wire_header [OF wf] by (simp add: wire_def)
  then show ?thesis
    using assms length_wire [OF assms(1)] length_wire_header [OF wf] length_wire_payload [OF assms(1)]
    by (auto simp: deserialize_eq Let_def received_def wire_def unat_eq_0)
qed

text \<open>Swapping a header that was read in host order gives the big-endian reading, on every host.\<close>

lemma swap_header_read:
  "sizeof_header \<le> length bs \<Longrightarrow>
   zoo_smb_protocol_swap_header e (Some (read_header e bs)) = read_header Big bs"
  by (cases e) (simp_all add: zoo_smb_protocol_swap_header_def read_header_def sizeof_header_def
      htobe_host_word field_at_length zero_header_def)

lemma read_wire: "wf_msg m \<Longrightarrow> read_header Big (wire m @ rest) = header m"
  by (simp add: wire_def read_wire_header wf_msg_def)

lemma good_msgD:
  assumes "good_msg cfg m"
  shows "wf_msg m" and "zoo_smb_protocol_is_header_valid cfg (Some (header m))"
    and "sizeof_header + unat (payload_size (header m)) \<le> MAX_TRANSPORT_BUFFER_SIZE"
  using assms by (simp_all add: good_msg_def)

lemma sample_msg_good: "good_msg None sample_msg"
  by (simp add: good_msg_def sample_msg_wf sample_msg_size sizeof_header_def MAX_TRANSPORT_BUFFER_SIZE_def
      zoo_smb_protocol_is_header_valid_def validate_magic_number_def validate_protocol_version_def
      validate_payload_size_def)
    (simp add: sample_msg_def ZOO_SMB_MSG_MAGIC_NUMBER_def ZOO_SMB_MSG_VERSION_def ZOO_SMB_MAX_PAYLOAD_SIZE_def)

end
