(* ===== verification/Zoo_Socket.thy ===== *)
theory Zoo_Socket
  imports Protocol
begin

text \<open>
  The socket layer \<open>src/platform/socket/zoo_socket.c\<close> in its POSIX configuration: error
  translation, the socket structure and its operations, and the address union
  \<open>ZOO_SOCKADDR_UNION\<close>. A system call is an argument: its result, or the \<open>errno\<close> it failed with.
  The address union is the block of its 128 bytes, because the code writes it both as the
  platform's \<open>struct sockaddr_in\<close> and as its own structures.
\<close>

section \<open>Errors\<close>

definition ZOO_ERROR_GENERIC :: zoo_error where "ZOO_ERROR_GENERIC = - 1"
definition ZOO_ERROR_NOT_SUPPORTED :: zoo_error where "ZOO_ERROR_NOT_SUPPORTED = - 4"
definition ZOO_ERROR_TIMEOUT :: zoo_error where "ZOO_ERROR_TIMEOUT = - 5"
definition ZOO_ERROR_NOT_INIT :: zoo_error where "ZOO_ERROR_NOT_INIT = - 6"
definition ZOO_ERROR_WOULD_BLOCK :: zoo_error where "ZOO_ERROR_WOULD_BLOCK = - 14"
definition ZOO_ERROR_IN_PROGRESS :: zoo_error where "ZOO_ERROR_IN_PROGRESS = - 16"
definition ZOO_ERROR_NOT_CONNECTED :: zoo_error where "ZOO_ERROR_NOT_CONNECTED = - 302"
definition ZOO_ERROR_NETWORK_UNREACHABLE :: zoo_error where "ZOO_ERROR_NETWORK_UNREACHABLE = - 303"
definition ZOO_ERROR_CONNECTION_REFUSED :: zoo_error where "ZOO_ERROR_CONNECTION_REFUSED = - 305"
definition ZOO_ERROR_ADDRESS_IN_USE :: zoo_error where "ZOO_ERROR_ADDRESS_IN_USE = - 309"

lemmas socket_error_codes = ZOO_ERROR_GENERIC_def ZOO_ERROR_NOT_SUPPORTED_def ZOO_ERROR_TIMEOUT_def
  ZOO_ERROR_NOT_INIT_def ZOO_ERROR_WOULD_BLOCK_def ZOO_ERROR_IN_PROGRESS_def
  ZOO_ERROR_NOT_CONNECTED_def ZOO_ERROR_NETWORK_UNREACHABLE_def ZOO_ERROR_CONNECTION_REFUSED_def
  ZOO_ERROR_ADDRESS_IN_USE_def

datatype errno =
  EINVAL | ENOMEM | ENOTCONN | ECONNREFUSED | ENETUNREACH | EADDRINUSE | EWOULDBLOCK | EINPROGRESS
  | ETIMEDOUT | ENOENT | EINTR | Other_errno

fun platform_to_zoo_error :: "errno \<Rightarrow> zoo_error" where
  "platform_to_zoo_error EINVAL = ZOO_ERROR_INVALID_PARAM"
| "platform_to_zoo_error ENOMEM = ZOO_ERROR_OUT_OF_MEMORY"
| "platform_to_zoo_error ENOTCONN = ZOO_ERROR_NOT_CONNECTED"
| "platform_to_zoo_error ECONNREFUSED = ZOO_ERROR_CONNECTION_REFUSED"
| "platform_to_zoo_error ENETUNREACH = ZOO_ERROR_NETWORK_UNREACHABLE"
| "platform_to_zoo_error EADDRINUSE = ZOO_ERROR_ADDRESS_IN_USE"
| "platform_to_zoo_error EWOULDBLOCK = ZOO_ERROR_WOULD_BLOCK"
| "platform_to_zoo_error EINPROGRESS = ZOO_ERROR_IN_PROGRESS"
| "platform_to_zoo_error ETIMEDOUT = ZOO_ERROR_TIMEOUT"
| "platform_to_zoo_error ENOENT = ZOO_ERROR_GENERIC"
| "platform_to_zoo_error EINTR = ZOO_ERROR_GENERIC"
| "platform_to_zoo_error Other_errno = ZOO_ERROR_GENERIC"

lemma platform_error_not_ok [simp]: "platform_to_zoo_error en \<noteq> ZOO_OK"
  by (cases en) (simp_all add: zoo_error_codes socket_error_codes)

section \<open>Sockets\<close>

datatype socket_family = ZOO_AF_INET | ZOO_AF_INET6 | ZOO_AF_UNIX | ZOO_AF_UNSPEC
datatype socket_kind = ZOO_SOCK_STREAM | ZOO_SOCK_DGRAM | ZOO_SOCK_RAW
datatype socket_protocol = ZOO_IPPROTO_TCP | ZOO_IPPROTO_UDP | ZOO_IPPROTO_RAW

text \<open>The enumeration's values.\<close>

fun family_value :: "socket_family \<Rightarrow> u32" where
  "family_value ZOO_AF_INET = 0"
| "family_value ZOO_AF_INET6 = 1"
| "family_value ZOO_AF_UNIX = 2"
| "family_value ZOO_AF_UNSPEC = 3"

definition ZOO_INVALID_SOCKET :: int where "ZOO_INVALID_SOCKET = -1"

record socket_info =
  sock_fd :: int
  sock_family :: socket_family
  sock_kind :: socket_kind
  sock_protocol :: socket_protocol
  is_connected :: bool
  is_bound :: bool
  is_listening :: bool
  is_blocking :: bool

text \<open>A system call: \<open>Inl\<close> the error, \<open>Inr\<close> the result, which is never negative.\<close>

type_synonym 'a sys = "errno + 'a"

definition zoo_socket_create ::
  "bool \<Rightarrow> int sys \<Rightarrow> socket_family \<Rightarrow> socket_kind \<Rightarrow> socket_protocol \<Rightarrow> socket_info option
   \<Rightarrow> zoo_error \<times> socket_info option" where
  "zoo_socket_create initialized sys fam kind prot info =
     (if \<not> initialized then (ZOO_ERROR_NOT_INIT, info)
      else case info of
        None \<Rightarrow> (ZOO_ERROR_INVALID_PARAM, None)
      | Some si \<Rightarrow>
          let si0 = si\<lparr>sock_fd := ZOO_INVALID_SOCKET, sock_family := fam, sock_kind := kind,
                sock_protocol := prot, is_connected := False, is_bound := False,
                is_listening := False, is_blocking := True\<rparr>
          in case sys of
               Inl en \<Rightarrow> (platform_to_zoo_error en, Some si0)
             | Inr sock \<Rightarrow> (ZOO_OK, Some (si0\<lparr>sock_fd := sock\<rparr>)))"

text \<open>The descriptor that was closed, if any, is the last result.\<close>

definition zoo_socket_close :: "socket_info \<Rightarrow> zoo_error \<times> socket_info \<times> int option" where
  "zoo_socket_close si =
     (if sock_fd si < 0 \<or> sock_fd si = ZOO_INVALID_SOCKET then (ZOO_ERROR_INVALID_PARAM, si, None)
      else (ZOO_OK, si\<lparr>sock_fd := ZOO_INVALID_SOCKET, is_connected := False, is_listening := False\<rparr>,
            Some (sock_fd si)))"

definition zoo_socket_bind :: "unit sys \<Rightarrow> socket_info \<Rightarrow> zoo_error \<times> socket_info" where
  "zoo_socket_bind sys si =
     (case sys of Inr _ \<Rightarrow> (ZOO_OK, si\<lparr>is_bound := True\<rparr>) | Inl en \<Rightarrow> (platform_to_zoo_error en, si))"

definition zoo_socket_listen :: "unit sys \<Rightarrow> socket_info \<Rightarrow> zoo_error \<times> socket_info" where
  "zoo_socket_listen sys si =
     (case sys of Inr _ \<Rightarrow> (ZOO_OK, si\<lparr>is_listening := True\<rparr>) | Inl en \<Rightarrow> (platform_to_zoo_error en, si))"

definition zoo_socket_accept :: "int sys \<Rightarrow> socket_info \<Rightarrow> socket_info \<Rightarrow> zoo_error \<times> socket_info" where
  "zoo_socket_accept sys server_info client_info =
     (case sys of
        Inl en \<Rightarrow> (platform_to_zoo_error en, client_info)
      | Inr client_sock \<Rightarrow>
          (ZOO_OK, client_info\<lparr>sock_fd := client_sock, sock_family := sock_family server_info,
             sock_kind := sock_kind server_info, sock_protocol := sock_protocol server_info,
             is_connected := True, is_listening := False, is_blocking := True\<rparr>))"

definition zoo_socket_connect :: "unit sys \<Rightarrow> socket_info \<Rightarrow> zoo_error \<times> socket_info" where
  "zoo_socket_connect sys si =
     (if sock_fd si < 0 \<or> sock_fd si = ZOO_INVALID_SOCKET then (ZOO_ERROR_INVALID_PARAM, si)
      else case sys of
        Inr _ \<Rightarrow> (ZOO_OK, si\<lparr>is_connected := True\<rparr>)
      | Inl en \<Rightarrow> (platform_to_zoo_error en, si))"

definition zoo_socket_set_blocking ::
  "unit sys \<Rightarrow> unit sys \<Rightarrow> socket_info option \<Rightarrow> bool \<Rightarrow> zoo_error \<times> socket_info option" where
  "zoo_socket_set_blocking getfl setfl info blocking =
     (case info of
        None \<Rightarrow> (ZOO_ERROR_INVALID_PARAM, None)
      | Some si \<Rightarrow>
          (case getfl of
             Inl en \<Rightarrow> (platform_to_zoo_error en, info)
           | Inr _ \<Rightarrow>
               (case setfl of
                  Inl en \<Rightarrow> (platform_to_zoo_error en, info)
                | Inr _ \<Rightarrow> (ZOO_OK, Some (si\<lparr>is_blocking := blocking\<rparr>)))))"

text \<open>
  Sending and receiving. \<open>sys\<close> is what \<open>send\<close> (the number of bytes taken) or \<open>recv\<close> (the bytes
  read) gives for this block; the second result is the number of bytes, \<open>None\<close> where the caller's
  variable is left as it was.
\<close>

definition zoo_socket_send ::
  "(u8 list \<Rightarrow> nat sys) \<Rightarrow> socket_info \<Rightarrow> u8 list option \<Rightarrow> nat \<Rightarrow> zoo_error \<times> nat option" where
  "zoo_socket_send sys si data data_len =
     (case data of
        None \<Rightarrow> (ZOO_ERROR_INVALID_PARAM, None)
      | Some d \<Rightarrow>
          if sock_fd si < 0 then (ZOO_ERROR_INVALID_PARAM, None)
          else if data_len = 0 then (ZOO_ERROR_INVALID_PARAM, None)
          else if \<not> is_connected si then (ZOO_ERROR_NOT_CONNECTED, None)
          else case sys (take data_len d) of
            Inl en \<Rightarrow> (platform_to_zoo_error en, Some 0)
          | Inr n \<Rightarrow> (ZOO_OK, Some n))"

definition zoo_socket_recv ::
  "(nat \<Rightarrow> u8 list sys) \<Rightarrow> socket_info \<Rightarrow> nat \<Rightarrow> zoo_error \<times> u8 list" where
  "zoo_socket_recv sys si buffer_len =
     (if sock_fd si < 0 then (ZOO_ERROR_INVALID_PARAM, [])
      else if buffer_len = 0 then (ZOO_ERROR_INVALID_PARAM, [])
      else case sys buffer_len of
        Inl en \<Rightarrow> (platform_to_zoo_error en, [])
      | Inr bs \<Rightarrow> (ZOO_OK, bs))"

section \<open>Addresses\<close>

type_synonym sockaddr = "u8 list"

definition sizeof_sockaddr_union :: nat where "sizeof_sockaddr_union = 128"

text \<open>
  Fields of the union. The code's own structures start with the family, an enumeration of four
  bytes: \<open>in\<close> has the port at 4 and the address at 8, \<open>in6\<close> the port at 4, the flow information at
  8, the address at 12 and the scope at 28. The platform's \<open>sockaddr_in\<close> has a family of two bytes,
  the port at 2 and the address at 4; \<open>sockaddr_in6\<close> the port at 2, the flow information at 4, the
  address at 8 and the scope at 24.
\<close>

definition put16 :: "endian \<Rightarrow> nat \<Rightarrow> u16 \<Rightarrow> sockaddr \<Rightarrow> sockaddr" where
  "put16 e off w a = memcpy_at off (host_bytes e 2 w) a"

definition put32 :: "endian \<Rightarrow> nat \<Rightarrow> u32 \<Rightarrow> sockaddr \<Rightarrow> sockaddr" where
  "put32 e off w a = memcpy_at off (host_bytes e 4 w) a"

definition get16 :: "endian \<Rightarrow> nat \<Rightarrow> sockaddr \<Rightarrow> u16" where
  "get16 e off a = host_word e (field_at off 2 a)"

definition get32 :: "endian \<Rightarrow> nat \<Rightarrow> sockaddr \<Rightarrow> u32" where
  "get32 e off a = host_word e (field_at off 4 a)"

definition AF_INET :: u16 where "AF_INET = 2"
definition AF_INET6 :: u16 where "AF_INET6 = 10"

text \<open>\<open>htons\<close> and \<open>htonl\<close> (and their inverses) are \<open>htobe\<close> at 2 and 4 bytes.\<close>

definition zoo_sockaddr_inet_init ::
  "endian \<Rightarrow> sockaddr option \<Rightarrow> u32 \<Rightarrow> u16 \<Rightarrow> zoo_error \<times> sockaddr option" where
  "zoo_sockaddr_inet_init e addr ip_address port =
     (case addr of
        None \<Rightarrow> (ZOO_ERROR_INVALID_PARAM, None)
      | Some a \<Rightarrow>
          let a0 = replicate sizeof_sockaddr_union 0;
              a1 = put16 e 0 AF_INET a0;
              a2 = put32 e 4 (htobe e 4 ip_address) a1;
              a3 = put16 e 2 (htobe e 2 port) a2;
              a4 = put32 e 0 (family_value ZOO_AF_INET) a3;
              a5 = put32 e 0 (family_value ZOO_AF_INET) a4;
              a6 = put16 e 4 port a5;
              a7 = put32 e 8 ip_address a6
          in (ZOO_OK, Some a7))"

definition zoo_sockaddr_inet6_init ::
  "endian \<Rightarrow> sockaddr option \<Rightarrow> u8 list option \<Rightarrow> u16 \<Rightarrow> u32 \<Rightarrow> u32 \<Rightarrow> zoo_error \<times> sockaddr option" where
  "zoo_sockaddr_inet6_init e addr ip6 port flowinfo scope_id =
     (case (addr, ip6) of
        (Some a, Some ip) \<Rightarrow>
          let a0 = replicate sizeof_sockaddr_union 0;
              a1 = put16 e 0 AF_INET6 a0;
              a2 = memcpy_at 8 (take 16 ip) a1;
              a3 = put16 e 2 (htobe e 2 port) a2;
              a4 = put32 e 4 flowinfo a3;
              a5 = put32 e 24 scope_id a4;
              a6 = put32 e 0 (family_value ZOO_AF_INET6) a5;
              a7 = memcpy_at 12 (take 16 ip) a6;
              a8 = put16 e 4 port a7;
              a9 = put32 e 8 flowinfo a8;
              a10 = put32 e 28 scope_id a9
          in (ZOO_OK, Some a10)
      | _ \<Rightarrow> (ZOO_ERROR_INVALID_PARAM, addr))"

definition zoo_sockaddr_any_init ::
  "endian \<Rightarrow> sockaddr option \<Rightarrow> socket_family \<Rightarrow> u16 \<Rightarrow> zoo_error \<times> sockaddr option" where
  "zoo_sockaddr_any_init e addr fam port =
     (if addr = None then (ZOO_ERROR_INVALID_PARAM, None)
      else case fam of
        ZOO_AF_INET \<Rightarrow> zoo_sockaddr_inet_init e addr 0 port
      | ZOO_AF_INET6 \<Rightarrow> zoo_sockaddr_inet6_init e addr (Some (replicate 16 0)) port 0 0
      | _ \<Rightarrow> (ZOO_ERROR_INVALID_PARAM, addr))"

definition zoo_sockaddr_loopback_init ::
  "endian \<Rightarrow> sockaddr option \<Rightarrow> socket_family \<Rightarrow> u16 \<Rightarrow> zoo_error \<times> sockaddr option" where
  "zoo_sockaddr_loopback_init e addr fam port =
     (if addr = None then (ZOO_ERROR_INVALID_PARAM, None)
      else case fam of
        ZOO_AF_INET \<Rightarrow> zoo_sockaddr_inet_init e addr 0x7F000001 port
      | ZOO_AF_INET6 \<Rightarrow> zoo_sockaddr_inet6_init e addr (Some (replicate 15 0 @ [1])) port 0 0
      | _ \<Rightarrow> (ZOO_ERROR_INVALID_PARAM, addr))"

definition zoo_sockaddr_equal :: "endian \<Rightarrow> sockaddr option \<Rightarrow> sockaddr option \<Rightarrow> bool" where
  "zoo_sockaddr_equal e addr1 addr2 =
     (case (addr1, addr2) of
        (Some a, Some b) \<Rightarrow>
          if get32 e 0 a \<noteq> get32 e 0 b then False
          else if get32 e 0 a = family_value ZOO_AF_INET
            then get32 e 4 a = get32 e 4 b \<and> get16 e 2 a = get16 e 2 b
          else if get32 e 0 a = family_value ZOO_AF_INET6
            then field_at 8 16 a = field_at 8 16 b \<and> get16 e 2 a = get16 e 2 b
              \<and> get32 e 4 a = get32 e 4 b \<and> get32 e 24 a = get32 e 24 b
          else False
      | _ \<Rightarrow> False)"

definition zoo_sockaddr_get_port :: "endian \<Rightarrow> sockaddr option \<Rightarrow> u16" where
  "zoo_sockaddr_get_port e addr =
     (case addr of
        None \<Rightarrow> 0
      | Some a \<Rightarrow>
          if get32 e 0 a = family_value ZOO_AF_INET \<or> get32 e 0 a = family_value ZOO_AF_INET6
          then htobe e 2 (get16 e 2 a) else 0)"

definition zoo_sockaddr_set_port :: "endian \<Rightarrow> sockaddr option \<Rightarrow> u16 \<Rightarrow> zoo_error \<times> sockaddr option" where
  "zoo_sockaddr_set_port e addr port =
     (case addr of
        None \<Rightarrow> (ZOO_ERROR_INVALID_PARAM, None)
      | Some a \<Rightarrow>
          if get32 e 0 a = family_value ZOO_AF_INET \<or> get32 e 0 a = family_value ZOO_AF_INET6
          then (ZOO_OK, Some (put16 e 4 port (put16 e 2 (htobe e 2 port) a)))
          else (ZOO_ERROR_NOT_SUPPORTED, addr))"

section \<open>Lemmas on the address union\<close>

lemma memcpy_at_skip [slice_simps]:
  "length xs \<le> off \<Longrightarrow> memcpy_at off src (xs @ ys) = xs @ memcpy_at (off - length xs) src ys"
  by (auto simp: memcpy_at_def)

lemma memcpy_at_over [slice_simps]:
  "length src = length xs \<Longrightarrow> memcpy_at 0 src (xs @ ys) = src @ ys"
  by (simp add: memcpy_at_def)

lemma memcpy_at_over2 [slice_simps]:
  "length src = length xs + length ys \<Longrightarrow> memcpy_at 0 src (xs @ ys @ zs) = src @ zs"
  by (simp add: memcpy_at_def)

lemma host_bytes_0 [simp]: "host_bytes e 4 (0 :: u32) = [0, 0, 0, 0]"
  by (cases e) (simp_all add: host_bytes_def)

lemma host_word_zeros [simp]:
  "host_word e [0, 0, 0, 0] = (0 :: u32)" "host_word e [0, 0] = (0 :: u16)"
  by (cases e; simp add: host_word_def)+

lemma inet_init_image:
  "zoo_sockaddr_inet_init e (Some a) ip port =
    (ZOO_OK, Some ([0, 0, 0, 0] @ host_bytes e 2 port @ drop 2 (host_bytes Big 4 ip) @
       host_bytes e 4 ip @ replicate 116 0))"
proof -
  obtain i0 i1 i2 i3 where ip: "host_bytes Big 4 ip = [i0, i1, i2, i3]"
    by (simp add: host_bytes_def)
  have z: "replicate sizeof_sockaddr_union 0 =
      [0, 0 :: u8] @ [0, 0] @ [0, 0] @ [0, 0] @ [0, 0, 0, 0] @ replicate 116 0"
    by (simp add: sizeof_sockaddr_union_def numeral_eq_Suc)
  have h: "memcpy_at 0 (host_bytes Big 4 ip) ([0, 0] @ [0, 0] @ zs) = [i0, i1] @ [i2, i3] @ zs" for zs
    by (simp add: ip memcpy_at_def)
  show ?thesis
    unfolding zoo_sockaddr_inet_init_def z put16_def put32_def
    by (simp add: Let_def htobe_fields slice_simps ip h [unfolded ip] del: append_Cons append_Nil)
qed

lemma field_at_take: "n \<le> length xs \<Longrightarrow> field_at 0 n (xs @ ys) = take n xs"
  by (simp add: field_at_def)

lemma host_word_inj:
  "length as = n \<Longrightarrow> length bs = n \<Longrightarrow> LENGTH('a) = 8 * n \<Longrightarrow>
   (host_word e as :: 'a :: len word) = host_word e bs \<longleftrightarrow> as = bs"
  by (metis host_bytes_word)

lemma host_bytes_inj: "LENGTH('a) = 8 * n \<Longrightarrow> host_bytes e n (v :: 'a :: len word) = host_bytes e n w \<longleftrightarrow> v = w"
  by (metis host_word_bytes)

lemma low_half_bytes: "drop 2 (host_bytes Big 4 (ip :: u32)) = host_bytes Big 2 (ucast ip :: u16)"
  by (simp add: host_bytes_def) (auto intro!: bit_word_eqI simp: bit_simps)

lemma inet_equal_iff:
  assumes "zoo_sockaddr_inet_init e (Some a) ip1 port1 = (ZOO_OK, Some x)"
    and "zoo_sockaddr_inet_init e (Some a') ip2 port2 = (ZOO_OK, Some y)"
  shows "zoo_sockaddr_equal e (Some x) (Some y) \<longleftrightarrow> port1 = port2 \<and> (ucast ip1 :: u16) = ucast ip2"
proof -
  let ?mid = "\<lambda>ip port. host_bytes e 2 port @ drop 2 (host_bytes Big 4 ip)"
  have x: "x = [0, 0, 0, 0] @ ?mid ip1 port1 @ host_bytes e 4 ip1 @ replicate 116 0"
    and y: "y = [0, 0, 0, 0] @ ?mid ip2 port2 @ host_bytes e 4 ip2 @ replicate 116 0"
    using assms by (simp_all add: inet_init_image)
  have f: "field_at 4 4 ([0, 0, 0, 0] @ host_bytes e 2 port @ drop 2 (host_bytes Big 4 ip) @ zs)
      = ?mid ip port" for ip port zs
    by (simp add: field_at_def)
  have g: "field_at 0 4 ([0, 0, 0, 0] @ zs) = [0, 0, 0, 0]" "field_at 2 2 ([0, 0, 0, 0] @ zs) = [0, 0]"
    for zs :: "u8 list" by (simp_all add: field_at_def)
  have "zoo_sockaddr_equal e (Some x) (Some y) \<longleftrightarrow> get32 e 4 x = get32 e 4 y"
    by (simp add: zoo_sockaddr_equal_def get16_def get32_def x y g del: append.simps)
  also have "\<dots> \<longleftrightarrow> ?mid ip1 port1 = ?mid ip2 port2"
    unfolding get32_def x y append_assoc f by (subst host_word_inj [where n = 4]) simp_all
  also have "\<dots> \<longleftrightarrow> port1 = port2 \<and> (ucast ip1 :: u16) = ucast ip2"
    by (simp add: low_half_bytes host_bytes_inj)
  finally show ?thesis .
qed

lemma family_bytes:
  assumes "get32 Little 0 a = family_value fam" and "4 \<le> length a"
  shows "\<exists>v. field_at 0 4 a = [v, 0, 0, 0]"
proof -
  have "field_at 0 4 a = host_bytes Little 4 (family_value fam)"
    using assms host_bytes_word [of "field_at 0 4 a" 4 Little, where 'a = 32]
    by (simp add: get32_def field_at_length)
  then show ?thesis by (cases fam) (auto simp: host_bytes_def)
qed

lemma field_at_sub: "off + n \<le> m \<Longrightarrow> field_at off n (field_at 0 m a) = field_at off n a"
  by (simp add: field_at_def drop_take)

section \<open>Properties\<close>

text \<open>
  An address made by \<open>zoo_sockaddr_inet_init\<close> reads back right through the structure \<open>in\<close> of the
  code, but as the \<open>struct sockaddr_in\<close> that \<open>bind\<close>, \<open>connect\<close> and \<open>sendto\<close> are given it has
  family 0 instead of \<open>AF_INET\<close> and port 0, whatever the address and the port: the two views share
  the memory of the union, and the code's own view is written last.
\<close>

theorem inet_init_two_views:
  assumes "zoo_sockaddr_inet_init e (Some a) ip port = (r, Some b)"
  shows "r = ZOO_OK \<and> get32 e 0 b = family_value ZOO_AF_INET \<and> get16 e 4 b = port \<and> get32 e 8 b = ip
    \<and> get16 e 0 b = 0 \<and> get16 e 0 b \<noteq> AF_INET \<and> htobe e 2 (get16 e 2 b) = 0"
  using assms unfolding inet_init_image
  by (cases e) (auto simp: get32_def get16_def slice_simps AF_INET_def htobe_def field_at_def)

theorem inet_init_two_views_witness:
  "\<exists>b. zoo_sockaddr_inet_init Little (Some []) 0x7F000001 8080 = (ZOO_OK, Some b)
     \<and> get16 Little 4 b = 8080 \<and> get16 Little 0 b \<noteq> AF_INET"
  using inet_init_two_views [of Little "[]" "0x7F000001" 8080, OF inet_init_image]
  by (auto simp: inet_init_image)

text \<open>
  \<open>zoo_sockaddr_equal\<close> on two such addresses compares the ports and the low sixteen bits of
  the IP addresses: 10.0.0.1 and 192.168.0.1 at the same port are equal to it.
\<close>

theorem sockaddr_equal_low_half:
  assumes "zoo_sockaddr_inet_init e (Some a) ip1 port1 = (ZOO_OK, Some x)"
    and "zoo_sockaddr_inet_init e (Some a') ip2 port2 = (ZOO_OK, Some y)"
  shows "zoo_sockaddr_equal e (Some x) (Some y) \<longleftrightarrow> port1 = port2 \<and> (ucast ip1 :: u16) = ucast ip2"
  using assms by (rule inet_equal_iff)

theorem sockaddr_equal_low_half_witness:
  "\<exists>x y. zoo_sockaddr_inet_init Little (Some []) 0x0A000001 80 = (ZOO_OK, Some x)
     \<and> zoo_sockaddr_inet_init Little (Some []) 0xC0A80001 80 = (ZOO_OK, Some y)
     \<and> zoo_sockaddr_equal Little (Some x) (Some y)"
proof -
  obtain x y where xy: "zoo_sockaddr_inet_init Little (Some []) 0x0A000001 80 = (ZOO_OK, Some x)"
    "zoo_sockaddr_inet_init Little (Some []) 0xC0A80001 80 = (ZOO_OK, Some y)"
    by (simp add: inet_init_image)
  with sockaddr_equal_low_half [OF xy] show ?thesis by auto
qed

text \<open>
  On a little-endian host \<open>zoo_sockaddr_get_port\<close> returns 0 for every address, also for one
  whose port was just set with \<open>zoo_sockaddr_set_port\<close>: the bytes it reads as the port are the upper
  half of the family it tests first.
\<close>

theorem get_port_always_zero:
  assumes "length a = sizeof_sockaddr_union"
  shows "zoo_sockaddr_get_port Little (Some a) = 0
    \<and> zoo_sockaddr_get_port Little (snd (zoo_sockaddr_set_port Little (Some a) port)) = 0"
proof -
  have zero: "zoo_sockaddr_get_port Little (Some c) = 0" if c: "length c = sizeof_sockaddr_union" for c
  proof -
    have len: "4 \<le> length c" using c by (simp add: sizeof_sockaddr_union_def)
    have "get16 Little 2 c = 0" if fam: "get32 Little 0 c = family_value fam" for fam
    proof -
      obtain v where "field_at 0 4 c = [v, 0, 0, 0]" using family_bytes [OF fam len] by auto
      then have "field_at 2 2 c = [0, 0]"
        using field_at_sub [of 2 2 4 c] by (simp add: field_at_def numeral_2_eq_2)
      then show ?thesis by (simp add: get16_def)
    qed
    from this [of ZOO_AF_INET] this [of ZOO_AF_INET6] show ?thesis
      by (auto simp: zoo_sockaddr_get_port_def htobe_def)
  qed
  have "length (put16 Little 4 port (put16 Little 2 (htobe Little 2 port) a)) = sizeof_sockaddr_union"
    using assms by (simp add: put16_def sizeof_sockaddr_union_def)
  with zero assms show ?thesis
    by (auto simp: zoo_sockaddr_set_port_def)
qed

theorem get_port_always_zero_witness:
  "zoo_sockaddr_get_port Little
     (snd (zoo_sockaddr_set_port Little (Some (replicate sizeof_sockaddr_union 0)) 8080)) = 0"
  using get_port_always_zero [of "replicate sizeof_sockaddr_union 0" 8080] by simp

end
