(* ===== verification/Tcp_Transport.thy ===== *)
theory Tcp_Transport
  imports Wire Zoo_Socket
begin

text \<open>
  Framing over a TCP socket: \<open>src/kernal/transport/zoo_smb_transport_tcp_common.c\<close> (sending, and
  receiving at a client) and the event handler of \<open>zoo_smb_transport_tcp_server.c\<close>.

  The socket is a parameter: \<open>recv\<close>, \<open>send\<close> and \<open>poll\<close> are functions of a world of any type
  \<open>'w\<close> that return the result and the world after the call. The memory pool's answers, the clock
  and the host's byte order are arguments.
\<close>

section \<open>Reading and writing with retries\<close>

definition TCP_MAX_RETRY_COUNT :: nat where "TCP_MAX_RETRY_COUNT = 3"

text \<open>\<open>Received []\<close> is the return value 0 of \<open>recv\<close>: the peer closed the connection.\<close>

datatype recv_result = Received "u8 list" | RecvAgain | RecvError

datatype send_result = Sent nat | SendAgain | SendInterrupted | SendError

text \<open>The loop of \<open>tcp_read_with_retry\<close>: \<open>acc\<close> are the bytes already in the caller's buffer.\<close>

function tcp_read_loop ::
  "('w \<Rightarrow> nat \<Rightarrow> recv_result \<times> 'w) \<Rightarrow> ('w \<Rightarrow> 'w) \<Rightarrow> 'w \<Rightarrow> nat \<Rightarrow> u8 list \<Rightarrow> nat \<Rightarrow> int \<times> u8 list \<times> 'w" where
  "tcp_read_loop recv poll w sz acc retry =
     (if length acc < sz \<and> retry < TCP_MAX_RETRY_COUNT then
        case recv w (sz - length acc) of
          (Received bs, w') \<Rightarrow>
            if bs \<noteq> [] then tcp_read_loop recv poll w' sz (acc @ bs) 0 else (0, acc, w')
        | (RecvAgain, w') \<Rightarrow>
            if retry + 1 < TCP_MAX_RETRY_COUNT
            then tcp_read_loop recv poll (poll w') sz acc (retry + 1) else (-1, acc, w')
        | (RecvError, w') \<Rightarrow> (-1, acc, w')
      else (int (length acc), acc, w))"
  by pat_completeness auto

termination tcp_read_loop
  by (relation "measures [\<lambda>(_, _, _, sz, acc, _). sz - length acc,
        \<lambda>(_, _, _, _, _, retry). TCP_MAX_RETRY_COUNT - retry]")
    (auto simp flip: length_greater_0_conv)

declare tcp_read_loop.simps [simp del]

definition tcp_read_with_retry ::
  "('w \<Rightarrow> nat \<Rightarrow> recv_result \<times> 'w) \<Rightarrow> ('w \<Rightarrow> 'w) \<Rightarrow> 'w \<Rightarrow> nat \<Rightarrow> int \<times> u8 list \<times> 'w" where
  "tcp_read_with_retry recv poll w sz = tcp_read_loop recv poll w sz [] 0"

text \<open>
  The loop of \<open>tcp_write_with_retry\<close>. An interrupted call is repeated without counting, so the loop
  ends only if the calls are not interrupted for ever.
\<close>

partial_function (option) tcp_write_loop ::
  "('w \<Rightarrow> u8 list \<Rightarrow> send_result \<times> 'w) \<Rightarrow> ('w \<Rightarrow> 'w) \<Rightarrow> 'w \<Rightarrow> u8 list \<Rightarrow> nat \<Rightarrow> nat \<Rightarrow> (int \<times> 'w) option" where
  "tcp_write_loop send poll w buf total_written retry =
     (if total_written < length buf \<and> retry < TCP_MAX_RETRY_COUNT then
        case send w (drop total_written buf) of
          (Sent n, w') \<Rightarrow>
            if n > 0 then tcp_write_loop send poll w' buf (total_written + n) 0 else Some (-1, w')
        | (SendAgain, w') \<Rightarrow>
            if retry + 1 < TCP_MAX_RETRY_COUNT
            then tcp_write_loop send poll (poll w') buf total_written (retry + 1) else Some (-1, w')
        | (SendInterrupted, w') \<Rightarrow> tcp_write_loop send poll w' buf total_written retry
        | (SendError, w') \<Rightarrow> Some (-1, w')
      else Some (int total_written, w))"

definition tcp_write_with_retry ::
  "('w \<Rightarrow> u8 list \<Rightarrow> send_result \<times> 'w) \<Rightarrow> ('w \<Rightarrow> 'w) \<Rightarrow> 'w \<Rightarrow> u8 list \<Rightarrow> (int \<times> 'w) option" where
  "tcp_write_with_retry send poll w buf = tcp_write_loop send poll w buf 0 0"

section \<open>Sending a message\<close>

text \<open>\<open>raw\<close> is the block the pool returned, \<open>None\<close> if it had none.\<close>

definition tcp_send_complete_message ::
  "endian \<Rightarrow> u8 list option \<Rightarrow> ('w \<Rightarrow> u8 list \<Rightarrow> send_result \<times> 'w) \<Rightarrow> ('w \<Rightarrow> 'w) \<Rightarrow> 'w \<Rightarrow> smb_msg option
   \<Rightarrow> (zoo_error \<times> 'w) option" where
  "tcp_send_complete_message e raw send poll w msg =
     (case msg of
        None \<Rightarrow> Some (ZOO_SMB_ERROR_INVALID_PARAM, w)
      | Some m \<Rightarrow>
          let total_size = sizeof_header + unat (payload_size (header m))
          in if total_size > MAX_TRANSPORT_BUFFER_SIZE then Some (ZOO_SMB_ERROR_TRANSPORT_SEND_FAILED, w)
             else if raw = None then Some (ZOO_SMB_ERROR_ALLOCATION_FAILED, w)
             else (case zoo_smb_protocol_serialize e msg raw total_size of
                 (msg_size, buf) \<Rightarrow>
                   if msg_size = 0 then Some (ZOO_SMB_ERROR_TRANSPORT_SEND_FAILED, w)
                   else map_option
                     (\<lambda>(sent_size, w'). if sent_size \<noteq> int msg_size
                        then (ZOO_SMB_ERROR_NETWORK_SEND_FAILED, w') else (ZOO_SMB_OK, w'))
                     (tcp_write_with_retry send poll w (take msg_size (the buf)))))"

section \<open>Receiving at a client\<close>

text \<open>
  \<open>tcp_notify_data_observers\<close>: an observer is its handler, \<open>None\<close> if it has none; the result is the
  sequence of calls. With a snapshot (\<open>snapshot_ok\<close>) the handlers run after the list was unlocked,
  without one they run while it is locked.
\<close>

definition tcp_notify_data_observers :: "bool \<Rightarrow> 'o option list \<Rightarrow> smb_msg \<Rightarrow> ('o \<times> smb_msg) list" where
  "tcp_notify_data_observers snapshot_ok observers msg =
     (let snapshot = (if observers \<noteq> [] \<and> snapshot_ok then Some observers else None);
          call = (\<lambda>obs. case obs of None \<Rightarrow> [] | Some f \<Rightarrow> [(f, msg)])
      in case snapshot of
           None \<Rightarrow> concat (map call observers)
         | Some snap \<Rightarrow> concat (map call snap))"

definition tcp_process_received_message :: "bool \<Rightarrow> 'o option list \<Rightarrow> smb_msg \<Rightarrow> ('o \<times> smb_msg) list" where
  "tcp_process_received_message snapshot_ok observers msg = tcp_notify_data_observers snapshot_ok observers msg"

text \<open>The state both sides share; times are in seconds.\<close>

record tcp_common =
  is_server :: bool
  running :: bool
  epoll_fd :: int
  conn_fd :: int
  conn_state :: conn_state
  reconnect_interval :: int
  last_connect_attempt :: int
  heartbeat_interval :: int
  last_heartbeat :: int

text \<open>The pool's answers in one call: header block, message block, message structure, payload, snapshot.\<close>

record tcp_pool =
  header_ok :: bool
  complete_ok :: bool
  msg_ok :: bool
  payload_ok :: bool
  snapshot_ok :: bool

text \<open>
  \<open>tcp_handle_incoming_data\<close>: the observer calls, the common state, the name of the client
  information (\<open>None\<close> for a \<open>NULL\<close> pointer) and the socket afterwards.
\<close>

definition tcp_handle_incoming_data ::
  "endian \<Rightarrow> nat option \<Rightarrow> tcp_pool \<Rightarrow> ('w \<Rightarrow> nat \<Rightarrow> recv_result \<times> 'w) \<Rightarrow> ('w \<Rightarrow> 'w) \<Rightarrow> int
   \<Rightarrow> 'o option list \<Rightarrow> tcp_common \<Rightarrow> int \<Rightarrow> u8 list option \<Rightarrow> 'w
   \<Rightarrow> ('o \<times> smb_msg) list \<times> tcp_common \<times> u8 list option \<times> 'w" where
  "tcp_handle_incoming_data e cfg pool recv poll now observers tcp fd client_info w =
     (if \<not> header_ok pool then ([], tcp, client_info, w)
      else case tcp_read_with_retry recv poll w sizeof_header of
        (n, header_buffer, w1) \<Rightarrow>
          if n \<noteq> int sizeof_header then ([], tcp, client_info, w1)
          else
            let host_header = zoo_smb_protocol_swap_header e (Some (read_header e header_buffer))
            in if \<not> zoo_smb_protocol_is_header_valid cfg (Some host_header) then ([], tcp, client_info, w1)
               else
                 let psize = unat (payload_size host_header)
                 in if psize > MAX_TRANSPORT_BUFFER_SIZE - sizeof_header then ([], tcp, client_info, w1)
                    else if \<not> complete_ok pool then ([], tcp, client_info, w1)
                    else
                      case (if psize > 0 then tcp_read_with_retry recv poll w1 psize else (0, [], w1)) of
                        (k, body, w2) \<Rightarrow>
                          if psize > 0 \<and> k \<noteq> int psize then ([], tcp, client_info, w2)
                          else
                            let (calls, info) =
                                  (case zoo_smb_protocol_deserialize e (payload_ok pool)
                                          (Some (header_buffer @ body)) (sizeof_header + psize)
                                          (zoo_smb_default_message (msg_ok pool)) sizeof_msg of
                                     (r, Some m) \<Rightarrow>
                                       if r = ZOO_SMB_OK then
                                         (tcp_process_received_message (snapshot_ok pool) observers m,
                                          if client_info \<noteq> None \<and> sender (header m) ! 0 \<noteq> 0
                                          then Some (take 63 (c_str (sender (header m)))) else client_info)
                                       else ([], client_info)
                                   | (_, None) \<Rightarrow> ([], client_info));
                                tcp' = (if \<not> is_server tcp \<and> fd = conn_fd tcp
                                        then tcp\<lparr>last_heartbeat := now\<rparr> else tcp)
                            in (calls, tcp', info, w2))"

section \<open>Connection state\<close>

definition EPOLLIN :: u32 where "EPOLLIN = 0x1"
definition EPOLLERR :: u32 where "EPOLLERR = 0x8"
definition EPOLLHUP :: u32 where "EPOLLHUP = 0x10"
definition EPOLLRDHUP :: u32 where "EPOLLRDHUP = 0x2000"

definition tcp_is_connection_lost_event :: "u32 \<Rightarrow> bool" where
  "tcp_is_connection_lost_event events \<longleftrightarrow> events AND (EPOLLRDHUP OR EPOLLHUP OR EPOLLERR) \<noteq> 0"

definition tcp_update_connection_state :: "tcp_common \<Rightarrow> conn_state \<Rightarrow> tcp_common" where
  "tcp_update_connection_state tcp new_state =
     (if conn_state tcp = new_state then tcp else tcp\<lparr>conn_state := new_state\<rparr>)"

text \<open>The system calls on descriptors, in order.\<close>

datatype fd_call = Epoll_del int int | Close_fd int

definition tcp_cleanup_connection :: "tcp_common \<Rightarrow> int \<Rightarrow> tcp_common \<times> fd_call list" where
  "tcp_cleanup_connection tcp fd =
     (let calls = (if epoll_fd tcp > 0 then [Epoll_del (epoll_fd tcp) fd] else []) @ [Close_fd fd]
      in if \<not> is_server tcp \<and> fd = conn_fd tcp
         then (tcp_update_connection_state (tcp\<lparr>conn_fd := INVALID_TRANSPORT_FD\<rparr>)
                 TRANSPORT_CONN_STATE_DISCONNECTED, calls)
         else (tcp, calls))"

definition TCP_HEARTBEAT_TIMEOUT_MULTIPLIER :: int where "TCP_HEARTBEAT_TIMEOUT_MULTIPLIER = 3"

definition tcp_check_heartbeat_timeout :: "tcp_common \<Rightarrow> int \<Rightarrow> tcp_common \<times> fd_call list" where
  "tcp_check_heartbeat_timeout tcp current_time =
     (if is_server tcp \<or> conn_state tcp \<noteq> TRANSPORT_CONN_STATE_CONNECTED then (tcp, [])
      else let timeout_threshold = heartbeat_interval tcp * TCP_HEARTBEAT_TIMEOUT_MULTIPLIER
           in if current_time - last_heartbeat tcp > timeout_threshold
              then tcp_cleanup_connection tcp (conn_fd tcp) else (tcp, []))"

section \<open>A stream of bytes\<close>

text \<open>
  What the reader relies on: \<open>avail w\<close> are the bytes the peer has sent and nobody has read,
  \<open>stalls w\<close> bounds how often \<open>recv\<close> reports that nothing is there yet although there is. While the
  connection is \<open>live\<close>, \<open>recv\<close> hands out a non-empty prefix of what is available, waiting changes
  nothing but the clock, and data is never late for more calls than the code retries.
\<close>

locale byte_stream =
  fixes recv :: "'w \<Rightarrow> nat \<Rightarrow> recv_result \<times> 'w"
    and poll :: "'w \<Rightarrow> 'w"
    and avail :: "'w \<Rightarrow> u8 list"
    and stalls :: "'w \<Rightarrow> nat"
    and live :: "'w \<Rightarrow> bool"
  assumes recv_ready: "live w \<Longrightarrow> stalls w = 0 \<Longrightarrow> avail w \<noteq> [] \<Longrightarrow> 0 < n \<Longrightarrow>
      \<exists>bs w'. recv w n = (Received bs, w') \<and> bs \<noteq> [] \<and> length bs \<le> n \<and> avail w = bs @ avail w' \<and> live w'"
    and recv_stall: "live w \<Longrightarrow> 0 < stalls w \<or> avail w = [] \<Longrightarrow>
      \<exists>w'. recv w n = (RecvAgain, w') \<and> avail w' = avail w \<and> stalls w' = stalls w - 1 \<and> live w'"
    and poll: "live w \<Longrightarrow> avail (poll w) = avail w \<and> stalls (poll w) = stalls w \<and> live (poll w)"
    and patience: "live w \<Longrightarrow> stalls w < TCP_MAX_RETRY_COUNT"
begin

lemma read_loop_exact:
  "live w \<Longrightarrow> sz \<le> length acc + length (avail w) \<Longrightarrow> length acc \<le> sz \<Longrightarrow>
   retry + stalls w < TCP_MAX_RETRY_COUNT \<Longrightarrow>
   \<exists>w'. tcp_read_loop recv poll w sz acc retry = (int sz, acc @ take (sz - length acc) (avail w), w')
     \<and> avail w' = drop (sz - length acc) (avail w) \<and> live w'"
proof (induction "(sz - length acc) * TCP_MAX_RETRY_COUNT + stalls w" arbitrary: w acc retry rule: less_induct)
  case less
  note unfold = tcp_read_loop.simps [of recv poll w sz acc retry]
  show ?case
  proof (cases "length acc < sz")
    case False
    then show ?thesis using less.prems by (simp add: unfold)
  next
    case True
    then have ne: "avail w \<noteq> []" and gap: "0 < sz - length acc" using less.prems(2) by auto
    show ?thesis
    proof (cases "stalls w = 0")
      case ready: True
      obtain bs w' where r: "recv w (sz - length acc) = (Received bs, w')" "bs \<noteq> []"
        "length bs \<le> sz - length acc" "avail w = bs @ avail w'" "live w'"
        using recv_ready [OF less.prems(1) ready ne gap] by blast
      have lt: "(sz - length (acc @ bs)) * TCP_MAX_RETRY_COUNT + stalls w'
          < (sz - length acc) * TCP_MAX_RETRY_COUNT + stalls w"
        using patience [OF r(5)] ready r(2,3) True
        by (cases bs) (auto simp: TCP_MAX_RETRY_COUNT_def)
      have "\<exists>w''. tcp_read_loop recv poll w' sz (acc @ bs) 0
          = (int sz, (acc @ bs) @ take (sz - length (acc @ bs)) (avail w'), w'')
          \<and> avail w'' = drop (sz - length (acc @ bs)) (avail w') \<and> live w''"
        using less.hyps [OF lt r(5)] less.prems(2,3) r(3,4) True patience [OF r(5)] by simp
      then show ?thesis using r less.prems(4) True by (simp add: unfold diff_diff_add)
    next
      case False
      obtain w' where r: "recv w (sz - length acc) = (RecvAgain, w')" "avail w' = avail w"
        "stalls w' = stalls w - 1" "live w'"
        using recv_stall [OF less.prems(1)] False by blast
      have "\<exists>w''. tcp_read_loop recv poll (poll w') sz acc (retry + 1)
          = (int sz, acc @ take (sz - length acc) (avail (poll w')), w'')
          \<and> avail w'' = drop (sz - length acc) (avail (poll w')) \<and> live w''"
        using less.hyps [of acc "poll w'" "retry + 1"] less.prems poll [OF r(4)] r(2,3) False by simp
      then show ?thesis using r less.prems(4) True False poll [OF r(4)] by (simp add: unfold)
    qed
  qed
qed

lemma read_exact:
  assumes "live w" and "sz \<le> length (avail w)"
  shows "\<exists>w'. tcp_read_with_retry recv poll w sz = (int sz, take sz (avail w), w')
     \<and> avail w' = drop sz (avail w) \<and> live w'"
  using read_loop_exact [of w sz "[]" 0] assms patience [of w] by (simp add: tcp_read_with_retry_def)

text \<open>If too few bytes are there, all of them are taken and the read fails.\<close>

lemma read_loop_short:
  "live w \<Longrightarrow> length acc + length (avail w) < sz \<Longrightarrow> retry < TCP_MAX_RETRY_COUNT \<Longrightarrow>
   retry + (if avail w = [] then 0 else stalls w) < TCP_MAX_RETRY_COUNT \<Longrightarrow>
   \<exists>w' bs. tcp_read_loop recv poll w sz acc retry = (-1, bs, w') \<and> avail w' = [] \<and> live w'"
proof (induction "length (avail w) * TCP_MAX_RETRY_COUNT
    + (if avail w = [] then TCP_MAX_RETRY_COUNT - retry else TCP_MAX_RETRY_COUNT + stalls w)"
    arbitrary: w acc retry rule: less_induct)
  case less
  note unfold = tcp_read_loop.simps [of recv poll w sz acc retry]
  have lt: "length acc < sz" using less.prems by simp
  show ?case
  proof (cases "stalls w = 0 \<and> avail w \<noteq> []")
    case True
    obtain bs w' where r: "recv w (sz - length acc) = (Received bs, w')" "bs \<noteq> []"
      "avail w = bs @ avail w'" "live w'"
      using recv_ready [OF less.prems(1), of "sz - length acc"] True lt by auto
    have "length (avail w') < length (avail w)" using r(2,3) by simp
    then have lt: "length (avail w') * TCP_MAX_RETRY_COUNT
        + (if avail w' = [] then TCP_MAX_RETRY_COUNT - 0 else TCP_MAX_RETRY_COUNT + stalls w')
        < length (avail w) * TCP_MAX_RETRY_COUNT + (if avail w = [] then TCP_MAX_RETRY_COUNT - retry
           else TCP_MAX_RETRY_COUNT + stalls w)"
      using patience [OF r(4)] True by (auto simp: TCP_MAX_RETRY_COUNT_def)
    have "\<exists>w'' bs'. tcp_read_loop recv poll w' sz (acc @ bs) 0 = (-1, bs', w'') \<and> avail w'' = [] \<and> live w''"
      using less.hyps [OF lt r(4)] less.prems(2) r(3) patience [OF r(4)]
      by (simp add: TCP_MAX_RETRY_COUNT_def)
    then show ?thesis using r less.prems lt \<open>length acc < sz\<close> by (simp add: unfold)
  next
    case False
    obtain w' where r: "recv w (sz - length acc) = (RecvAgain, w')" "avail w' = avail w"
      "stalls w' = stalls w - 1" "live w'"
      using recv_stall [OF less.prems(1), of "sz - length acc"] False by auto
    show ?thesis
    proof (cases "retry + 1 < TCP_MAX_RETRY_COUNT")
      case True
      then show ?thesis
        using less.hyps [of "poll w'" "retry + 1" acc] less.prems poll [OF r(4)] r False lt
        by (simp add: unfold split: if_splits)
    next
      case no: False
      then have "avail w = []" using less.prems(4) False by (auto split: if_splits)
      then show ?thesis using r no less.prems lt by (simp add: unfold)
    qed
  qed
qed

lemma read_short:
  assumes "live w" and "length (avail w) < sz"
  shows "\<exists>w' bs. tcp_read_with_retry recv poll w sz = (-1, bs, w') \<and> avail w' = [] \<and> live w'"
  using read_loop_short [of w "[]" sz 0] assms patience [of w]
  by (simp add: tcp_read_with_retry_def TCP_MAX_RETRY_COUNT_def)

lemma handle_frame:
  assumes "live w" and "avail w = wire m @ rest" and "good_msg cfg m"
    and "pool = \<lparr>header_ok = True, complete_ok = True, msg_ok = True, payload_ok = True, snapshot_ok = b\<rparr>"
  shows "\<exists>tcp' info w'. tcp_handle_incoming_data e cfg pool recv poll now observers tcp fd client w =
      (tcp_notify_data_observers b observers (received m), tcp', info, w') \<and> avail w' = rest \<and> live w'"
proof -
  note good = good_msgD [OF assms(3)]
  let ?n = "unat (payload_size (header m))"
  have wf: "wf_header (header m)" using good(1) by (simp add: wf_msg_def)
  have lh: "length (wire_header (header m)) = sizeof_header" using wf by (rule length_wire_header)
  have lp: "length (wire_payload m) = ?n" using good(1) by (rule length_wire_payload)
  obtain w1 where r1: "tcp_read_with_retry recv poll w sizeof_header
      = (int sizeof_header, wire_header (header m), w1)" "avail w1 = wire_payload m @ rest" "live w1"
    using read_exact [OF assms(1), of sizeof_header] assms(2) lh by (auto simp: wire_def)
  have hdr: "zoo_smb_protocol_swap_header e (Some (read_header e (wire_header (header m)))) = header m"
    using swap_header_read [of "wire_header (header m)" e] lh read_wire_header [OF wf, of "[]"] by simp
  obtain k w2 where r2: "(if ?n > 0 then tcp_read_with_retry recv poll w1 ?n else (0, [], w1))
      = (k, wire_payload m, w2)" "?n > 0 \<longrightarrow> k = int ?n" "avail w2 = rest" "live w2"
    using read_exact [OF r1(3), of ?n] r1(2,3) lp by (cases "?n = 0") auto
  have "zoo_smb_protocol_deserialize e True (Some (wire m)) (sizeof_header + ?n)
      (zoo_smb_default_message True) sizeof_msg = (ZOO_SMB_OK, Some (received m))"
    using deserialize_wire [OF good(1) good_msg_magic [OF assms(3)], of sizeof_msg e] length_wire [OF good(1)]
    by (simp add: zoo_smb_default_message_def smb_message_alloc_def sizeof_msg_def)
  then show ?thesis
    using r1(1) hdr good(2,3) r2
    by (auto simp: tcp_handle_incoming_data_def assms(4) Let_def tcp_process_received_message_def wire_def)
qed

lemma handle_short:
  assumes "live w" and "length (avail w) < sizeof_header" and "header_ok pool"
  shows "\<exists>w'. tcp_handle_incoming_data e cfg pool recv poll now observers tcp fd client w = ([], tcp, client, w')
    \<and> avail w' = [] \<and> live w'"
  using read_short [OF assms(1,2)] assms(3) by (auto simp: tcp_handle_incoming_data_def)

end

section \<open>A sink of bytes\<close>

text \<open>
  What the writer relies on: \<open>sent w\<close> are the bytes taken so far; before it takes more, \<open>send\<close> may be
  interrupted \<open>intr w\<close> times and report a full buffer \<open>stalls w\<close> times, the latter less often than
  the code retries.
\<close>

locale byte_sink =
  fixes send :: "'w \<Rightarrow> u8 list \<Rightarrow> send_result \<times> 'w"
    and poll :: "'w \<Rightarrow> 'w"
    and sent :: "'w \<Rightarrow> u8 list"
    and stalls :: "'w \<Rightarrow> nat"
    and intr :: "'w \<Rightarrow> nat"
    and live :: "'w \<Rightarrow> bool"
  assumes send_ready: "live w \<Longrightarrow> stalls w = 0 \<Longrightarrow> intr w = 0 \<Longrightarrow> bs \<noteq> [] \<Longrightarrow>
      \<exists>n w'. send w bs = (Sent n, w') \<and> 0 < n \<and> n \<le> length bs \<and> sent w' = sent w @ take n bs \<and> live w'"
    and send_stall: "live w \<Longrightarrow> 0 < stalls w \<Longrightarrow> intr w = 0 \<Longrightarrow>
      \<exists>w'. send w bs = (SendAgain, w') \<and> sent w' = sent w \<and> stalls w' = stalls w - 1 \<and> live w'"
    and send_intr: "live w \<Longrightarrow> 0 < intr w \<Longrightarrow>
      \<exists>w'. send w bs = (SendInterrupted, w') \<and> sent w' = sent w \<and> stalls w' = stalls w
        \<and> intr w' < intr w \<and> live w'"
    and poll: "live w \<Longrightarrow> sent (poll w) = sent w \<and> stalls (poll w) = stalls w \<and> live (poll w)"
    and patience: "live w \<Longrightarrow> stalls w < TCP_MAX_RETRY_COUNT"
begin

lemma write_loop_all:
  "live w \<Longrightarrow> tw \<le> length buf \<Longrightarrow> retry + stalls w < TCP_MAX_RETRY_COUNT \<Longrightarrow>
   \<exists>w'. tcp_write_loop send poll w buf tw retry = Some (int (length buf), w')
     \<and> sent w' = sent w @ drop tw buf \<and> live w'"
proof (induction "(w, tw, retry)" arbitrary: w tw retry rule: wf_induct_rule [OF wf_measures
      [of "[\<lambda>(w, tw, _). length buf - tw, \<lambda>(w, _, _). stalls w, \<lambda>(w, _, _). intr w]"]])
  case less: (1 w tw retry)
  note unfold = tcp_write_loop.simps [of send poll w buf tw retry]
  show ?case
  proof (cases "tw < length buf")
    case False
    then have "tw = length buf" using less.prems by simp
    then show ?thesis using less.prems by (simp add: tcp_write_loop.simps)
  next
    case True
    consider (intr) "0 < intr w" | (stall) "intr w = 0" "0 < stalls w" | (ready) "intr w = 0" "stalls w = 0"
      by auto
    then show ?thesis
    proof cases
      case intr
      from send_intr [OF less.prems(1) this] obtain w' where r: "send w (drop tw buf) = (SendInterrupted, w')"
        "sent w' = sent w" "stalls w' = stalls w" "intr w' < intr w" "live w'" by blast
      then show ?thesis using less.hyps [of w' tw retry] less.prems True by (simp add: unfold)
    next
      case stall
      from send_stall [OF less.prems(1) this(2,1)] obtain w' where r: "send w (drop tw buf) = (SendAgain, w')"
        "sent w' = sent w" "stalls w' = stalls w - 1" "live w'" by blast
      then show ?thesis
        using less.hyps [of "poll w'" tw "retry + 1"] less.prems True stall(2) poll [OF r(4)]
        by (simp add: unfold)
    next
      case ready
      have "drop tw buf \<noteq> []" using True by simp
      from send_ready [OF less.prems(1) ready(2,1) this] obtain n w' where r: "send w (drop tw buf) = (Sent n, w')"
        "0 < n" "n \<le> length (drop tw buf)" "sent w' = sent w @ take n (drop tw buf)" "live w'"
        by blast
      have split: "take n (drop tw buf) @ drop (tw + n) buf = drop tw buf"
        by (metis add.commute append_take_drop_id drop_drop)
      have "length buf - (tw + n) < length buf - tw" "tw + n \<le> length buf" using r(2,3) True by simp_all
      then have "\<exists>w''. tcp_write_loop send poll w' buf (tw + n) 0 = Some (int (length buf), w'')
          \<and> sent w'' = sent w' @ drop (tw + n) buf \<and> live w''"
        using less.hyps [of w' "tw + n" 0] r(5) patience [OF r(5)] by simp
      then show ?thesis using less.prems(3) True r split by (auto simp: unfold)
    qed
  qed
qed

lemma write_all:
  "live w \<Longrightarrow> \<exists>w'. tcp_write_with_retry send poll w buf = Some (int (length buf), w')
     \<and> sent w' = sent w @ buf \<and> live w'"
  using write_loop_all [of w 0 buf 0] patience [of w] by (simp add: tcp_write_with_retry_def)

lemma send_frame:
  assumes "live w" and "good_msg cfg m" and "length raw = sizeof_header + unat (payload_size (header m))"
  shows "\<exists>w'. tcp_send_complete_message e (Some raw) send poll w (Some m) = Some (ZOO_SMB_OK, w')
     \<and> sent w' = sent w @ wire m \<and> live w'"
proof -
  note good = good_msgD [OF assms(2)]
  from serialize_wire [OF good(1) assms(3), of e] length_wire [OF good(1)]
  obtain buf where "zoo_smb_protocol_serialize e (Some m) (Some raw)
      (sizeof_header + unat (payload_size (header m))) = (length (wire m), Some buf)"
    "take (length (wire m)) buf = wire m" by auto
  then show ?thesis
    using write_all [OF assms(1), of "wire m"] good(3) wire_not_Nil [OF good(1)]
    by (auto simp: tcp_send_complete_message_def Let_def)
qed

end

section \<open>A connection\<close>

text \<open>
  A connection that keeps both contracts: the bytes under way and a schedule. Each entry says how
  many bytes the next call moves at most (one more than its first number), and how often the call
  after it stalls and is interrupted.
\<close>

record tcp_link =
  bytes :: "u8 list"
  plan :: "(nat \<times> nat \<times> nat) list"
  stall_count :: nat
  intr_count :: nat

definition link_next :: "nat \<Rightarrow> tcp_link \<Rightarrow> nat \<times> tcp_link" where
  "link_next n l =
     (case plan l of
        [] \<Rightarrow> (n, l\<lparr>stall_count := 0, intr_count := 0\<rparr>)
      | (c, s, i) # p \<Rightarrow> (min n (Suc c), l\<lparr>plan := p, stall_count := s, intr_count := i\<rparr>))"

definition link_recv :: "tcp_link \<Rightarrow> nat \<Rightarrow> recv_result \<times> tcp_link" where
  "link_recv l n =
     (if 0 < stall_count l \<or> bytes l = [] then (RecvAgain, l\<lparr>stall_count := stall_count l - 1\<rparr>)
      else case link_next (min n (length (bytes l))) l of
        (k, l') \<Rightarrow> (Received (take k (bytes l)), l'\<lparr>bytes := drop k (bytes l)\<rparr>))"

definition link_send :: "tcp_link \<Rightarrow> u8 list \<Rightarrow> send_result \<times> tcp_link" where
  "link_send l bs =
     (if 0 < intr_count l then (SendInterrupted, l\<lparr>intr_count := intr_count l - 1\<rparr>)
      else if 0 < stall_count l then (SendAgain, l\<lparr>stall_count := stall_count l - 1\<rparr>)
      else case link_next (length bs) l of
        (k, l') \<Rightarrow> (Sent k, l'\<lparr>bytes := bytes l @ take k bs\<rparr>))"

definition link_live :: "tcp_link \<Rightarrow> bool" where
  "link_live l \<longleftrightarrow> stall_count l < TCP_MAX_RETRY_COUNT \<and> (\<forall>(c, s, i) \<in> set (plan l). s < TCP_MAX_RETRY_COUNT)"

lemma link_next_live:
  assumes "link_live l" and "link_next n l = (k, l')"
  shows "link_live (l'\<lparr>bytes := bs\<rparr>)" and "k \<le> n" and "0 < n \<Longrightarrow> 0 < k"
  using assms by (auto simp: link_next_def link_live_def TCP_MAX_RETRY_COUNT_def split: list.splits)

interpretation link_in: byte_stream link_recv id bytes stall_count link_live
proof unfold_locales
  fix l :: tcp_link and n :: nat
  assume l: "link_live l" "stall_count l = 0" "bytes l \<noteq> []" "0 < n"
  obtain k l' where k: "link_next (min n (length (bytes l))) l = (k, l')" by fastforce
  with link_next_live [OF l(1) k] l
  show "\<exists>bs l'. link_recv l n = (Received bs, l') \<and> bs \<noteq> [] \<and> length bs \<le> n \<and> bytes l = bs @ bytes l' \<and> link_live l'"
    by (auto simp: link_recv_def)
next
  fix l :: tcp_link and n :: nat
  assume "link_live l" "0 < stall_count l \<or> bytes l = []"
  then show "\<exists>l'. link_recv l n = (RecvAgain, l') \<and> bytes l' = bytes l \<and> stall_count l' = stall_count l - 1 \<and> link_live l'"
    by (auto simp: link_recv_def link_live_def)
qed (simp_all add: link_live_def)

interpretation link_out: byte_sink link_send id bytes stall_count intr_count link_live
proof unfold_locales
  fix l :: tcp_link and bs :: "u8 list"
  assume l: "link_live l" "stall_count l = 0" "intr_count l = 0" "bs \<noteq> []"
  obtain k l' where k: "link_next (length bs) l = (k, l')" by fastforce
  with link_next_live [OF l(1) k] l
  show "\<exists>n l'. link_send l bs = (Sent n, l') \<and> 0 < n \<and> n \<le> length bs \<and> bytes l' = bytes l @ take n bs \<and> link_live l'"
    by (auto simp: link_send_def)
qed (auto simp: link_live_def link_send_def)

section \<open>Properties\<close>

text \<open>
  C24. \<open>tcp_send_complete_message\<close> puts exactly the wire image of the message into the connection,
  however \<open>send\<close> splits it up, however often it is interrupted and as long as it does not stall
  three times in a row.
\<close>

theorem tcp_send_writes_frame:
  assumes "byte_sink send poll sent stalls intr live" and "live w" and "good_msg cfg m"
    and "length raw = sizeof_header + unat (payload_size (header m))"
  shows "\<exists>w'. tcp_send_complete_message e (Some raw) send poll w (Some m) = Some (ZOO_SMB_OK, w')
     \<and> sent w' = sent w @ wire m \<and> live w'"
  using assms by (rule byte_sink.send_frame)

theorem tcp_send_writes_frame_witness:
  "\<exists>l. tcp_send_complete_message Little (Some (replicate 109 0)) link_send id
      \<lparr>bytes = [], plan = [(40, 2, 5), (0, 1, 0)], stall_count = 2, intr_count = 7\<rparr> (Some sample_msg)
      = Some (ZOO_SMB_OK, l) \<and> bytes l = wire sample_msg"
  using tcp_send_writes_frame [OF link_out.byte_sink_axioms _ sample_msg_good,
      of "\<lparr>bytes = [], plan = [(40, 2, 5), (0, 1, 0)], stall_count = 2, intr_count = 7\<rparr>"
         "replicate 109 0" Little]
  by (auto simp: link_live_def TCP_MAX_RETRY_COUNT_def sample_msg_size sizeof_header_def)

text \<open>Both branches of \<open>tcp_notify_data_observers\<close> call every handler once, in registration order.\<close>

lemma notify_calls: "tcp_notify_data_observers b obs m = map (\<lambda>f. (f, m)) (handlers obs)"
  unfolding tcp_notify_data_observers_def Let_def
  by (induction obs rule: handlers.induct) (auto split: if_splits)

definition sample_tcp :: tcp_common where
  "sample_tcp = \<lparr>is_server = False, running = True, epoll_fd = 4, conn_fd = 5,
     conn_state = TRANSPORT_CONN_STATE_CONNECTED, reconnect_interval = 5, last_connect_attempt = 0,
     heartbeat_interval = 0, last_heartbeat = 0\<rparr>"

text \<open>The client's event loop calls the handler each time data arrives.\<close>

fun tcp_receive_n ::
  "endian \<Rightarrow> nat option \<Rightarrow> tcp_pool \<Rightarrow> ('w \<Rightarrow> nat \<Rightarrow> recv_result \<times> 'w) \<Rightarrow> ('w \<Rightarrow> 'w) \<Rightarrow> int
   \<Rightarrow> 'o option list \<Rightarrow> nat \<Rightarrow> tcp_common \<Rightarrow> 'w \<Rightarrow> ('o \<times> smb_msg) list \<times> 'w" where
  "tcp_receive_n e cfg pool recv poll now obs 0 tcp w = ([], w)"
| "tcp_receive_n e cfg pool recv poll now obs (Suc n) tcp w =
     (case tcp_handle_incoming_data e cfg pool recv poll now obs tcp (conn_fd tcp) None w of
        (calls, tcp', _, w') \<Rightarrow>
          let (more, w'') = tcp_receive_n e cfg pool recv poll now obs n tcp' w' in (calls @ more, w''))"


definition sample_pool :: tcp_pool where
  "sample_pool = \<lparr>header_ok = True, complete_ok = True, msg_ok = True, payload_ok = True, snapshot_ok = False\<rparr>"




end
