(* ===== verification/Zoo_List.thy ===== *)
theory Zoo_List
  imports SMB_Error "HOL-Library.Monad_Syntax"
begin

text \<open>
  The singly linked list of \<open>src/platform/buffer/zoo_list.c\<close>, on an explicit heap of nodes.

  An operation takes the outcome \<open>lk\<close> of taking the list's mutex, the heap, and the list structure
  (\<open>None\<close> for a \<open>NULL\<close> handle); where it allocates it takes the address \<open>malloc\<close> returned. Its result
  is \<open>None\<close> where the code would follow a pointer that is \<open>NULL\<close> or not allocated, or where a loop
  would not end; every claim below is that neither happens. Data pointers are values of a type
  \<open>'d\<close>, \<open>None\<close> for \<open>NULL\<close>. Each call holds the mutex from its first access to its last, so the calls
  are atomic.
\<close>

section \<open>Data\<close>

record 'd node =
  data :: 'd
  next_node :: "nat option"

type_synonym 'd heap = "nat \<rightharpoonup> 'd node"

record list_struct =
  head :: "nat option"
  tail :: "nat option"
  list_size :: nat
  max_list_length :: nat

type_synonym 'd list_state = "'d heap \<times> list_struct option"

section \<open>Operations\<close>

definition is_list_full :: "list_struct \<Rightarrow> bool" where
  "is_list_full l \<longleftrightarrow> list_size l \<ge> max_list_length l"

text \<open>\<open>zoo_list_create\<close>: \<open>ok\<close> tells whether \<open>malloc\<close> and both initialisations succeeded.\<close>

definition zoo_list_create :: "bool \<Rightarrow> nat \<Rightarrow> list_struct option" where
  "zoo_list_create ok max_length =
     (if max_length = 0 then None
      else if \<not> ok then None
      else Some \<lparr>head = None, tail = None, list_size = 0, max_list_length = max_length\<rparr>)"

definition zoo_list_push_back ::
  "bool \<Rightarrow> nat option \<Rightarrow> 'd list_state \<Rightarrow> 'd option \<Rightarrow> (zoo_error \<times> 'd list_state) option" where
  "zoo_list_push_back lk mem = (\<lambda>(h, ls) dat.
     case (ls, dat) of
       (Some l, Some d) \<Rightarrow>
         if \<not> lk then Some (ZOO_ERROR_MUTEX_LOCK_FAILED, h, ls)
         else if is_list_full l then Some (ZOO_ERROR_BUFFER_FULL, h, ls)
         else (case mem of
             None \<Rightarrow> Some (ZOO_ERROR_OUT_OF_MEMORY, h, ls)
           | Some a \<Rightarrow>
               let h1 = h(a \<mapsto> \<lparr>data = d, next_node = None\<rparr>)
               in if head l = None
                  then Some (ZOO_OK, h1, Some (l\<lparr>head := Some a, tail := Some a,
                               list_size := list_size l + 1\<rparr>))
                  else do {
                    t \<leftarrow> tail l;
                    nd \<leftarrow> h1 t;
                    Some (ZOO_OK, h1(t \<mapsto> nd\<lparr>next_node := Some a\<rparr>),
                          Some (l\<lparr>tail := Some a, list_size := list_size l + 1\<rparr>))
                  })
     | _ \<Rightarrow> Some (ZOO_ERROR_INVALID_PARAM, h, ls))"

definition zoo_list_push_front ::
  "bool \<Rightarrow> nat option \<Rightarrow> 'd list_state \<Rightarrow> 'd option \<Rightarrow> (zoo_error \<times> 'd list_state) option" where
  "zoo_list_push_front lk mem = (\<lambda>(h, ls) dat.
     case (ls, dat) of
       (Some l, Some d) \<Rightarrow>
         if \<not> lk then Some (ZOO_ERROR_MUTEX_LOCK_FAILED, h, ls)
         else if is_list_full l then Some (ZOO_ERROR_BUFFER_FULL, h, ls)
         else (case mem of
             None \<Rightarrow> Some (ZOO_ERROR_OUT_OF_MEMORY, h, ls)
           | Some a \<Rightarrow>
               Some (ZOO_OK, h(a \<mapsto> \<lparr>data = d, next_node = head l\<rparr>),
                     Some (l\<lparr>head := Some a,
                             tail := (if head l = None then Some a else tail l),
                             list_size := list_size l + 1\<rparr>)))
     | _ \<Rightarrow> Some (ZOO_ERROR_INVALID_PARAM, h, ls))"

text \<open>The loop of \<open>zoo_list_pop_back\<close> that finds the second-to-last node.\<close>

partial_function (option) pop_back_scan :: "'d heap \<Rightarrow> nat option \<Rightarrow> nat \<Rightarrow> nat option" where
  "pop_back_scan h last_node current = do {
     nd \<leftarrow> h current;
     if next_node nd = last_node then Some current
     else do { c \<leftarrow> next_node nd; pop_back_scan h last_node c }
   }"

definition zoo_list_pop_back :: "bool \<Rightarrow> 'd list_state \<Rightarrow> ('d option \<times> 'd list_state) option" where
  "zoo_list_pop_back lk = (\<lambda>(h, ls).
     case ls of
       None \<Rightarrow> Some (None, h, ls)
     | Some l \<Rightarrow>
         if \<not> lk then Some (None, h, ls)
         else (case head l of
             None \<Rightarrow> Some (None, h, ls)
           | Some hd_node \<Rightarrow>
               if head l = tail l
               then do {
                 nd \<leftarrow> h hd_node;
                 Some (Some (data nd), h(hd_node := None),
                       Some (l\<lparr>head := None, tail := None, list_size := list_size l - 1\<rparr>))
               }
               else do {
                 current \<leftarrow> pop_back_scan h (tail l) hd_node;
                 t \<leftarrow> tail l;
                 nd \<leftarrow> h t;
                 let h1 = h(t := None);
                 cnd \<leftarrow> h1 current;
                 Some (Some (data nd), h1(current \<mapsto> cnd\<lparr>next_node := None\<rparr>),
                       Some (l\<lparr>tail := Some current, list_size := list_size l - 1\<rparr>))
               }))"

definition zoo_list_pop_front :: "bool \<Rightarrow> 'd list_state \<Rightarrow> ('d option \<times> 'd list_state) option" where
  "zoo_list_pop_front lk = (\<lambda>(h, ls).
     case ls of
       None \<Rightarrow> Some (None, h, ls)
     | Some l \<Rightarrow>
         if \<not> lk then Some (None, h, ls)
         else (case head l of
             None \<Rightarrow> Some (None, h, ls)
           | Some a \<Rightarrow> do {
               nd \<leftarrow> h a;
               let l1 = l\<lparr>head := next_node nd\<rparr>;
               let l2 = (if head l1 = None then l1\<lparr>tail := None\<rparr> else l1);
               Some (Some (data nd), h(a := None), Some (l2\<lparr>list_size := list_size l - 1\<rparr>))
             }))"

partial_function (option) clear_loop :: "'d heap \<Rightarrow> nat option \<Rightarrow> 'd heap option" where
  "clear_loop h current =
     (case current of
        None \<Rightarrow> Some h
      | Some a \<Rightarrow> do { nd \<leftarrow> h a; clear_loop (h(a := None)) (next_node nd) })"

definition zoo_list_clear :: "bool \<Rightarrow> 'd list_state \<Rightarrow> 'd list_state option" where
  "zoo_list_clear lk = (\<lambda>(h, ls).
     case ls of
       None \<Rightarrow> Some (h, ls)
     | Some l \<Rightarrow>
         if \<not> lk then Some (h, ls)
         else do {
           h1 \<leftarrow> clear_loop h (head l);
           Some (h1, Some (l\<lparr>head := None, tail := None, list_size := 0\<rparr>))
         })"

text \<open>\<open>zoo_list_destroy\<close> clears the list and frees the structure.\<close>

definition zoo_list_destroy :: "bool \<Rightarrow> 'd list_state \<Rightarrow> 'd list_state option" where
  "zoo_list_destroy lk = (\<lambda>(h, ls).
     case ls of
       None \<Rightarrow> Some (h, ls)
     | Some l \<Rightarrow> do { (h1, _) \<leftarrow> zoo_list_clear lk (h, ls); Some (h1, None) })"

text \<open>\<open>node_at h p i\<close>: \<open>i\<close> steps along the chain from \<open>p\<close>.\<close>

fun node_at :: "'d heap \<Rightarrow> nat option \<Rightarrow> nat \<Rightarrow> nat option option" where
  "node_at h p 0 = Some p"
| "node_at h p (Suc i) = do { a \<leftarrow> p; nd \<leftarrow> h a; node_at h (next_node nd) i }"

definition zoo_list_at :: "bool \<Rightarrow> 'd list_state \<Rightarrow> nat \<Rightarrow> 'd option option" where
  "zoo_list_at lk = (\<lambda>(h, ls) index.
     case ls of
       None \<Rightarrow> Some None
     | Some l \<Rightarrow>
         if \<not> lk then Some None
         else if index \<ge> list_size l then Some None
         else do {
           current \<leftarrow> node_at h (head l) index;
           a \<leftarrow> current;
           nd \<leftarrow> h a;
           Some (Some (data nd))
         })"

definition zoo_list_back :: "bool \<Rightarrow> 'd list_state \<Rightarrow> 'd option option" where
  "zoo_list_back lk = (\<lambda>(h, ls).
     case ls of
       None \<Rightarrow> Some None
     | Some l \<Rightarrow>
         if \<not> lk then Some None
         else (case tail l of
             None \<Rightarrow> Some None
           | Some a \<Rightarrow> do { nd \<leftarrow> h a; Some (Some (data nd)) }))"

definition zoo_list_front :: "bool \<Rightarrow> 'd list_state \<Rightarrow> 'd option option" where
  "zoo_list_front lk = (\<lambda>(h, ls).
     case ls of
       None \<Rightarrow> Some None
     | Some l \<Rightarrow>
         if \<not> lk then Some None
         else (case head l of
             None \<Rightarrow> Some None
           | Some a \<Rightarrow> do { nd \<leftarrow> h a; Some (Some (data nd)) }))"

definition zoo_list_size :: "bool \<Rightarrow> 'd list_state \<Rightarrow> nat" where
  "zoo_list_size lk = (\<lambda>(h, ls). case ls of None \<Rightarrow> 0 | Some l \<Rightarrow> if \<not> lk then 0 else list_size l)"

definition zoo_list_capacity :: "bool \<Rightarrow> 'd list_state \<Rightarrow> nat" where
  "zoo_list_capacity lk =
     (\<lambda>(h, ls). case ls of None \<Rightarrow> 0 | Some l \<Rightarrow> if \<not> lk then 0 else max_list_length l)"

definition zoo_list_empty :: "bool \<Rightarrow> 'd list_state \<Rightarrow> bool" where
  "zoo_list_empty lk =
     (\<lambda>(h, ls). case ls of None \<Rightarrow> True | Some l \<Rightarrow> if \<not> lk then True else list_size l = 0)"

definition zoo_list_full :: "bool \<Rightarrow> 'd list_state \<Rightarrow> bool" where
  "zoo_list_full lk =
     (\<lambda>(h, ls). case ls of None \<Rightarrow> True | Some l \<Rightarrow> if \<not> lk then True else list_size l \<ge> max_list_length l)"

text \<open>
  The loop of \<open>zoo_list_insert\<close> that finds the insertion point; its last argument is \<open>index\<close> minus
  \<open>current_index\<close>. It returns \<open>prev\<close> and \<open>current\<close>.
\<close>

fun insert_scan :: "'d heap \<Rightarrow> nat option \<Rightarrow> nat option \<Rightarrow> nat \<Rightarrow> (nat option \<times> nat option) option" where
  "insert_scan h prev current 0 = Some (prev, current)"
| "insert_scan h prev current (Suc k) =
     (case current of
        None \<Rightarrow> Some (prev, None)
      | Some a \<Rightarrow> do { nd \<leftarrow> h a; insert_scan h (Some a) (next_node nd) k })"

definition zoo_list_insert ::
  "bool \<Rightarrow> nat option \<Rightarrow> 'd list_state \<Rightarrow> nat \<Rightarrow> 'd option \<Rightarrow> 'd list_state option" where
  "zoo_list_insert lk mem = (\<lambda>(h, ls) index dat.
     case (ls, dat) of
       (Some l, Some d) \<Rightarrow>
         if \<not> lk then Some (h, ls)
         else if is_list_full l then Some (h, ls)
         else (case mem of
             None \<Rightarrow> Some (h, ls)
           | Some a \<Rightarrow>
               if index = 0 \<or> head l = None
               then Some (h(a \<mapsto> \<lparr>data = d, next_node = head l\<rparr>),
                          Some (l\<lparr>head := Some a,
                                  tail := (if tail l = None then Some a else tail l),
                                  list_size := list_size l + 1\<rparr>))
               else do {
                 (prev, current) \<leftarrow> insert_scan h None (head l) index;
                 let h1 = h(a \<mapsto> \<lparr>data = d, next_node = current\<rparr>);
                 p \<leftarrow> prev;
                 nd \<leftarrow> h1 p;
                 Some (h1(p \<mapsto> nd\<lparr>next_node := Some a\<rparr>),
                       Some (l\<lparr>tail := (if current = None then Some a else tail l),
                               list_size := list_size l + 1\<rparr>))
               })
     | _ \<Rightarrow> Some (h, ls))"

text \<open>The loop of \<open>zoo_list_erase\<close>: \<open>index\<close> steps that keep the node before.\<close>

fun erase_scan :: "'d heap \<Rightarrow> nat option \<Rightarrow> nat option \<Rightarrow> nat \<Rightarrow> (nat option \<times> nat option) option" where
  "erase_scan h prev current 0 = Some (prev, current)"
| "erase_scan h prev current (Suc k) =
     do { a \<leftarrow> current; nd \<leftarrow> h a; erase_scan h (Some a) (next_node nd) k }"

definition zoo_list_erase :: "bool \<Rightarrow> 'd list_state \<Rightarrow> nat \<Rightarrow> (zoo_error \<times> 'd list_state) option" where
  "zoo_list_erase lk = (\<lambda>(h, ls) index.
     case ls of
       None \<Rightarrow> Some (ZOO_ERROR_INVALID_PARAM, h, ls)
     | Some l \<Rightarrow>
         if \<not> lk then Some (ZOO_ERROR_MUTEX_LOCK_FAILED, h, ls)
         else if index \<ge> list_size l then Some (ZOO_ERROR_BUFFER_OUT_OF_RANGE, h, ls)
         else if index = 0 then do {
           a \<leftarrow> head l;
           nd \<leftarrow> h a;
           let l1 = l\<lparr>head := next_node nd\<rparr>;
           let l2 = (if head l1 = None then l1\<lparr>tail := None\<rparr> else l1);
           Some (ZOO_OK, h(a := None), Some (l2\<lparr>list_size := list_size l - 1\<rparr>))
         }
         else do {
           (prev, current) \<leftarrow> erase_scan h None (head l) index;
           p \<leftarrow> prev;
           pnd \<leftarrow> h p;
           a \<leftarrow> current;
           nd \<leftarrow> h a;
           Some (ZOO_OK, (h(p \<mapsto> pnd\<lparr>next_node := next_node nd\<rparr>))(a := None),
                 Some (l\<lparr>tail := (if Some a = tail l then Some p else tail l),
                         list_size := list_size l - 1\<rparr>))
         })"

text \<open>
  The search loop \<open>zoo_list_remove\<close> and \<open>zoo_list_remove_if\<close> share: \<open>Some None\<close> if no node
  satisfies \<open>P\<close>, else the node before, the node and its contents.
\<close>

partial_function (option) remove_scan ::
  "'d heap \<Rightarrow> ('d \<Rightarrow> bool) \<Rightarrow> nat option \<Rightarrow> nat option \<Rightarrow> (nat option \<times> nat \<times> 'd node) option option" where
  "remove_scan h P prev current =
     (case current of
        None \<Rightarrow> Some None
      | Some a \<Rightarrow> do {
          nd \<leftarrow> h a;
          if P (data nd) then Some (Some (prev, a, nd))
          else remove_scan h P (Some a) (next_node nd)
        })"

text \<open>What both do with the node they found.\<close>

definition unlink_node ::
  "'d heap \<Rightarrow> list_struct \<Rightarrow> nat option \<Rightarrow> nat \<Rightarrow> 'd node \<Rightarrow> ('d heap \<times> list_struct) option" where
  "unlink_node h l prev a nd = do {
     (h1, l1) \<leftarrow> (case prev of
         Some p \<Rightarrow> do { pnd \<leftarrow> h p; Some (h(p \<mapsto> pnd\<lparr>next_node := next_node nd\<rparr>), l) }
       | None \<Rightarrow> Some (h, l\<lparr>head := next_node nd\<rparr>));
     let l2 = (if Some a = tail l1 then l1\<lparr>tail := prev\<rparr> else l1);
     Some (h1(a := None), l2\<lparr>list_size := list_size l - 1\<rparr>)
   }"

definition zoo_list_remove ::
  "bool \<Rightarrow> 'd list_state \<Rightarrow> 'd option \<Rightarrow> (zoo_error \<times> 'd list_state) option" where
  "zoo_list_remove lk = (\<lambda>(h, ls) dat.
     case (ls, dat) of
       (Some l, Some d) \<Rightarrow>
         if \<not> lk then Some (ZOO_ERROR_MUTEX_LOCK_FAILED, h, ls)
         else do {
           found \<leftarrow> remove_scan h (\<lambda>x. x = d) None (head l);
           (case found of
              None \<Rightarrow> Some (ZOO_ERROR_NOT_FOUND, h, ls)
            | Some (prev, a, nd) \<Rightarrow> do {
                (h1, l1) \<leftarrow> unlink_node h l prev a nd;
                Some (ZOO_OK, h1, Some l1)
              })
         }
     | _ \<Rightarrow> Some (ZOO_ERROR_INVALID_PARAM, h, ls))"

definition zoo_list_remove_if ::
  "bool \<Rightarrow> 'd list_state \<Rightarrow> ('d \<Rightarrow> 't \<Rightarrow> bool) option \<Rightarrow> 't option \<Rightarrow> ('d option \<times> 'd list_state) option" where
  "zoo_list_remove_if lk = (\<lambda>(h, ls) compare target.
     case (ls, compare, target) of
       (Some l, Some cmp, Some t) \<Rightarrow>
         if \<not> lk then Some (None, h, ls)
         else do {
           found \<leftarrow> remove_scan h (\<lambda>x. cmp x t) None (head l);
           (case found of
              None \<Rightarrow> Some (None, h, ls)
            | Some (prev, a, nd) \<Rightarrow> do {
                (h1, l1) \<leftarrow> unlink_node h l prev a nd;
                Some (Some (data nd), h1, Some l1)
              })
         }
     | _ \<Rightarrow> Some (None, h, ls))"

partial_function (option) find_scan :: "'d heap \<Rightarrow> ('d \<Rightarrow> bool) \<Rightarrow> nat option \<Rightarrow> 'd option option" where
  "find_scan h P current =
     (case current of
        None \<Rightarrow> Some None
      | Some a \<Rightarrow> do {
          nd \<leftarrow> h a;
          if P (data nd) then Some (Some (data nd)) else find_scan h P (next_node nd)
        })"

definition zoo_list_find_if ::
  "bool \<Rightarrow> 'd list_state \<Rightarrow> ('d \<Rightarrow> 't \<Rightarrow> bool) option \<Rightarrow> 't option \<Rightarrow> 'd option option" where
  "zoo_list_find_if lk = (\<lambda>(h, ls) compare target.
     case (ls, compare, target) of
       (Some l, Some cmp, Some t) \<Rightarrow>
         if \<not> lk then Some None else find_scan h (\<lambda>x. cmp x t) (head l)
     | _ \<Rightarrow> Some None)"

text \<open>\<open>zoo_list_foreach\<close>: the callback maps the data pointer and the user data to new user data.\<close>

partial_function (option) foreach_loop :: "'d heap \<Rightarrow> ('d \<Rightarrow> 'u \<Rightarrow> 'u) \<Rightarrow> nat option \<Rightarrow> 'u \<Rightarrow> 'u option" where
  "foreach_loop h f current u =
     (case current of
        None \<Rightarrow> Some u
      | Some a \<Rightarrow> do { nd \<leftarrow> h a; foreach_loop h f (next_node nd) (f (data nd) u) })"

definition zoo_list_foreach :: "bool \<Rightarrow> 'd list_state \<Rightarrow> ('d \<Rightarrow> 'u \<Rightarrow> 'u) option \<Rightarrow> 'u \<Rightarrow> 'u option" where
  "zoo_list_foreach lk = (\<lambda>(h, ls) callback u.
     case (ls, callback) of
       (Some l, Some f) \<Rightarrow> if \<not> lk then Some u else foreach_loop h f (head l) u
     | _ \<Rightarrow> Some u)"

section \<open>Chains of nodes\<close>

text \<open>\<open>chain h p as q\<close>: following the nodes \<open>as\<close> from \<open>p\<close> leads to \<open>q\<close>.\<close>

fun chain :: "'d heap \<Rightarrow> nat option \<Rightarrow> nat list \<Rightarrow> nat option \<Rightarrow> bool" where
  "chain h p [] q \<longleftrightarrow> p = q"
| "chain h p (a # as) q \<longleftrightarrow> p = Some a \<and> (\<exists>nd. h a = Some nd \<and> chain h (next_node nd) as q)"

definition chain_data :: "'d heap \<Rightarrow> nat list \<Rightarrow> 'd list" where
  "chain_data h as = map (\<lambda>a. data (the (h a))) as"

text \<open>A list structure stands for the data \<open>ds\<close>, stored in the nodes \<open>as\<close>.\<close>

definition list_rep :: "'d heap \<Rightarrow> list_struct \<Rightarrow> nat list \<Rightarrow> 'd list \<Rightarrow> bool" where
  "list_rep h l as ds \<longleftrightarrow>
     chain h (head l) as None \<and> distinct as \<and> chain_data h as = ds \<and>
     tail l = (if as = [] then None else Some (last as)) \<and>
     list_size l = length as \<and> length as \<le> max_list_length l"

lemma chain_append:
  "chain h p (as @ bs) q \<longleftrightarrow> (\<exists>m. chain h p as m \<and> chain h m bs q)"
  by (induction as arbitrary: p) auto

lemma chain_dom: "chain h p as q \<Longrightarrow> set as \<subseteq> dom h"
  by (induction as arbitrary: p) auto

lemma chain_frame: "a \<notin> set as \<Longrightarrow> chain (h(a := x)) p as q \<longleftrightarrow> chain h p as q"
  by (induction as arbitrary: p) auto

lemma chain_data_frame: "a \<notin> set as \<Longrightarrow> chain_data (h(a := x)) as = chain_data h as"
  by (auto simp: chain_data_def)

lemma chain_data_simps [simp]:
  "chain_data h [] = []" "chain_data h (a # as) = data (the (h a)) # chain_data h as"
  "chain_data h (as @ bs) = chain_data h as @ chain_data h bs"
  by (simp_all add: chain_data_def)

lemma length_chain_data [simp]: "length (chain_data h as) = length as"
  by (simp add: chain_data_def)

definition node_head :: "nat list \<Rightarrow> nat option" where
  "node_head as = (case as of [] \<Rightarrow> None | a # _ \<Rightarrow> Some a)"

definition node_before :: "nat option \<Rightarrow> nat list \<Rightarrow> nat option" where
  "node_before prev as = (if as = [] then prev else Some (last as))"

lemma node_head_simps [simp]: "node_head [] = None" "node_head (a # as) = Some a"
  by (simp_all add: node_head_def)

lemma node_before_simps [simp]:
  "node_before prev [] = prev" "node_before prev (a # as) = node_before (Some a) as"
  by (simp_all add: node_before_def)

lemma chain_head: "chain h p as None \<Longrightarrow> p = node_head as"
  by (cases as) auto

subsection \<open>The loops on a chain\<close>

lemma node_at_chain: "chain h p as None \<Longrightarrow> k \<le> length as \<Longrightarrow> node_at h p k = Some (node_head (drop k as))"
proof (induction k arbitrary: p as)
  case (Suc k)
  then show ?case by (cases as) auto
qed (simp add: chain_head)

lemma insert_scan_chain:
  "chain h cur as None \<Longrightarrow>
     insert_scan h prev cur k = Some (node_before prev (take k as), node_head (drop k as))"
proof (induction k arbitrary: prev cur as)
  case (Suc k)
  then show ?case by (cases as) auto
qed (simp add: chain_head)

lemma erase_scan_chain:
  "chain h cur as None \<Longrightarrow> k \<le> length as \<Longrightarrow>
     erase_scan h prev cur k = Some (node_before prev (take k as), node_head (drop k as))"
proof (induction k arbitrary: prev cur as)
  case (Suc k)
  then show ?case by (cases as) auto
qed (simp add: chain_head)

lemma pop_back_scan_chain:
  assumes "chain h (Some a) (a # as @ [b]) None" and "distinct (a # as @ [b])"
  shows "pop_back_scan h (Some b) a = node_before (Some a) as"
  using assms
proof (induction as arbitrary: a)
  case Nil
  then show ?case by (subst pop_back_scan.simps) auto
next
  case (Cons c as)
  then show ?case by (subst pop_back_scan.simps) auto
qed

lemma clear_loop_chain:
  "chain h p as None \<Longrightarrow> distinct as \<Longrightarrow> clear_loop h p = Some (\<lambda>x. if x \<in> set as then None else h x)"
proof (induction as arbitrary: h p)
  case Nil
  then show ?case by (subst clear_loop.simps) simp
next
  case (Cons a as)
  then obtain nd where nd: "p = Some a" "h a = Some nd" "chain h (next_node nd) as None" by auto
  then have "chain (h(a := None)) (next_node nd) as None"
    using Cons.prems(2) by (subst chain_frame) auto
  from Cons.IH [OF this] show ?case using nd Cons.prems(2) by (subst clear_loop.simps) (auto simp: fun_upd_def fun_eq_iff)
qed

lemma remove_scan_chain:
  "chain h cur as None \<Longrightarrow>
     remove_scan h P prev cur =
       Some (case List.extract (\<lambda>a. P (data (the (h a)))) as of
               None \<Rightarrow> None
             | Some (xs, a, ys) \<Rightarrow> Some (node_before prev xs, a, the (h a)))"
proof (induction as arbitrary: prev cur)
  case Nil
  then show ?case by (subst remove_scan.simps) (simp add: extract_Nil_code)
next
  case (Cons a as)
  then show ?case by (subst remove_scan.simps) (auto simp: extract_Cons_code split: option.splits)
qed

lemma find_scan_chain: "chain h cur as None \<Longrightarrow> find_scan h P cur = Some (find P (chain_data h as))"
proof (induction as arbitrary: cur)
  case Nil
  then show ?case by (subst find_scan.simps) simp
next
  case (Cons a as)
  then show ?case by (subst find_scan.simps) auto
qed

lemma foreach_loop_chain: "chain h cur as None \<Longrightarrow> foreach_loop h f cur u = Some (fold f (chain_data h as) u)"
proof (induction as arbitrary: cur u)
  case Nil
  then show ?case by (subst foreach_loop.simps) simp
next
  case (Cons a as)
  then show ?case by (subst foreach_loop.simps) auto
qed

section \<open>The operations on lists that stand for data\<close>

text \<open>
  Each lemma gives the result of an operation on a list that stands for \<open>ds\<close>, the data the list
  stands for afterwards, and that no node outside the list and the new node changed.
\<close>

definition same_outside :: "nat set \<Rightarrow> 'd heap \<Rightarrow> 'd heap \<Rightarrow> bool" where
  "same_outside A h h' \<longleftrightarrow> (\<forall>x. x \<notin> A \<longrightarrow> h' x = h x)"

lemma list_rep_dom: "list_rep h l as ds \<Longrightarrow> set as \<subseteq> dom h"
  by (meson chain_dom list_rep_def)

lemma list_rep_head: "list_rep h l as ds \<Longrightarrow> head l = node_head as"
  using chain_head by (auto simp: list_rep_def)

lemma list_rep_length: "list_rep h l as ds \<Longrightarrow> length ds = length as \<and> length as = list_size l"
  by (auto simp: list_rep_def)

lemma list_rep_Nil: "list_rep h l as [] \<Longrightarrow> as = [] \<and> head l = None \<and> tail l = None"
  by (auto simp: list_rep_def chain_data_def)

lemma push_front_rep:
  assumes "list_rep h l as ds" and "length ds < max_list_length l" and "a \<notin> dom h"
  shows "\<exists>h' l'. zoo_list_push_front True (Some a) (h, Some l) (Some d) = Some (ZOO_OK, h', Some l')
           \<and> list_rep h' l' (a # as) (d # ds) \<and> max_list_length l' = max_list_length l
           \<and> same_outside {a} h h'"
proof -
  have "a \<notin> set as" using assms(1,3) list_rep_dom by blast
  then show ?thesis
    using assms
    by (cases as) (auto simp: zoo_list_push_front_def is_list_full_def list_rep_def chain_frame
        chain_data_frame same_outside_def)
qed

lemma push_back_rep:
  assumes "list_rep h l as ds" and "length ds < max_list_length l" and "a \<notin> dom h"
  shows "\<exists>h' l'. zoo_list_push_back True (Some a) (h, Some l) (Some d) = Some (ZOO_OK, h', Some l')
           \<and> list_rep h' l' (as @ [a]) (ds @ [d]) \<and> max_list_length l' = max_list_length l
           \<and> same_outside (insert a (set as)) h h'"
proof (cases as rule: rev_cases)
  case Nil
  then show ?thesis using assms
    by (auto simp: zoo_list_push_back_def is_list_full_def list_rep_def same_outside_def Let_def)
next
  case (snoc bs t)
  have "a \<notin> set as" using assms(1,3) list_rep_dom by blast
  moreover obtain nd where "h t = Some nd" "chain h (head l) bs (Some t)" "next_node nd = None"
    using assms(1) snoc by (auto simp: list_rep_def chain_append)
  moreover have "head l \<noteq> None" using assms(1) snoc by (cases bs) (auto simp: list_rep_def)
  ultimately show ?thesis using assms snoc
    by (auto simp: zoo_list_push_back_def is_list_full_def list_rep_def same_outside_def Let_def
        chain_append chain_frame chain_data_frame)
qed

lemma pop_front_rep:
  assumes "list_rep h l as (d # ds)"
  shows "\<exists>a as' h' l'. as = a # as' \<and> zoo_list_pop_front True (h, Some l) = Some (Some d, h', Some l')
           \<and> list_rep h' l' as' ds \<and> max_list_length l' = max_list_length l
           \<and> same_outside {a} h h'"
proof -
  obtain a as' where as: "as = a # as'" using assms by (cases as) (auto simp: list_rep_def)
  with assms show ?thesis
    by (cases as') (auto simp: zoo_list_pop_front_def list_rep_def same_outside_def Let_def chain_frame
        chain_data_frame)
qed

lemma pop_front_empty: "list_rep h l as [] \<Longrightarrow> zoo_list_pop_front True (h, Some l) = Some (None, h, Some l)"
  by (auto simp: zoo_list_pop_front_def dest: list_rep_Nil)

lemma pop_back_rep:
  assumes "list_rep h l as (ds @ [d])"
  shows "\<exists>bs b h' l'. as = bs @ [b] \<and> zoo_list_pop_back True (h, Some l) = Some (Some d, h', Some l')
           \<and> list_rep h' l' bs ds \<and> max_list_length l' = max_list_length l
           \<and> same_outside (set as) h h'"
proof -
  obtain bs b where as: "as = bs @ [b]" using assms by (cases as rule: rev_cases) (auto simp: list_rep_def)
  show ?thesis
  proof (cases bs rule: rev_cases)
    case Nil
    with as assms show ?thesis by (auto simp: zoo_list_pop_back_def list_rep_def same_outside_def)
  next
    case (snoc cs c)
    obtain a xs where ax: "bs = a # xs" by (metis snoc append_is_Nil_conv list.exhaust not_Cons_self2)
    have rep: "chain h (head l) (a # xs @ [b]) None" "distinct (a # xs @ [b])" "head l = Some a"
      using assms as ax by (auto simp: list_rep_def)
    then have scan: "pop_back_scan h (Some b) a = Some c"
      using pop_back_scan_chain [of h a xs b] ax snoc by (cases xs rule: rev_cases) (auto simp: node_before_def)
    obtain nd cnd where nodes: "h b = Some nd" "h c = Some cnd" "data nd = d" "chain h (head l) cs (Some c)"
      using assms as snoc by (auto simp: list_rep_def chain_append)
    have ba: "b \<noteq> a" using rep(2) by auto
    have l: "tail l = Some b" "c \<noteq> b" "b \<notin> set cs" "c \<notin> set cs" "distinct cs"
      "length cs + 2 = list_size l" "length as \<le> max_list_length l" "chain_data h bs = ds"
      using assms as snoc by (auto simp: list_rep_def)
    let ?h = "(h(b := None))(c \<mapsto> cnd\<lparr>next_node := None\<rparr>)"
    have "zoo_list_pop_back True (h, Some l)
        = Some (Some d, ?h, Some (l\<lparr>tail := Some c, list_size := list_size l - 1\<rparr>))"
      using rep(3) l(1,2) ba scan nodes by (simp add: zoo_list_pop_back_def)
    moreover have "list_rep ?h (l\<lparr>tail := Some c, list_size := list_size l - 1\<rparr>) bs ds"
      using l nodes snoc as
      by (simp add: list_rep_def chain_append chain_frame chain_data_frame)
    moreover have "same_outside (set as) h ?h" using as snoc by (simp add: same_outside_def)
    ultimately show ?thesis using as by auto
  qed
qed

lemma pop_back_empty: "list_rep h l as [] \<Longrightarrow> zoo_list_pop_back True (h, Some l) = Some (None, h, Some l)"
  by (auto simp: zoo_list_pop_back_def dest: list_rep_Nil)

lemma clear_rep:
  assumes "list_rep h l as ds"
  shows "\<exists>h' l'. zoo_list_clear True (h, Some l) = Some (h', Some l') \<and> list_rep h' l' [] []
           \<and> max_list_length l' = max_list_length l \<and> same_outside (set as) h h'
           \<and> (\<forall>a \<in> set as. h' a = None)"
  using assms by (auto simp: zoo_list_clear_def list_rep_def clear_loop_chain same_outside_def)

lemma at_rep:
  assumes "list_rep h l as ds"
  shows "zoo_list_at True (h, Some l) i = Some (if i < length ds then Some (ds ! i) else None)"
proof (cases "i < length as")
  case True
  have "\<exists>nd. h (as ! i) = Some nd" using True list_rep_dom [OF assms] nth_mem by blast
  then show ?thesis
    using assms True node_at_chain [of h "head l" as i]
    by (auto simp: zoo_list_at_def list_rep_def chain_data_def Cons_nth_drop_Suc [symmetric])
next
  case False
  then show ?thesis using assms by (auto simp: zoo_list_at_def list_rep_def)
qed

lemma ends_rep:
  assumes "list_rep h l as ds"
  shows "zoo_list_front True (h, Some l) = Some (if ds = [] then None else Some (ds ! 0))"
    and "zoo_list_back True (h, Some l) = Some (if ds = [] then None else Some (last ds))"
    and "zoo_list_size True (h, Some l) = length ds"
    and "zoo_list_empty True (h, Some l) \<longleftrightarrow> ds = []"
    and "zoo_list_full True (h, Some l) \<longleftrightarrow> length ds = max_list_length l"
proof -
  show "zoo_list_front True (h, Some l) = Some (if ds = [] then None else Some (ds ! 0))"
    using assms by (cases as) (auto simp: zoo_list_front_def list_rep_def)
  show "zoo_list_back True (h, Some l) = Some (if ds = [] then None else Some (last ds))"
    using assms by (cases as rule: rev_cases) (auto simp: zoo_list_back_def list_rep_def chain_append)
  show "zoo_list_size True (h, Some l) = length ds"
    and "zoo_list_empty True (h, Some l) \<longleftrightarrow> ds = []"
    and "zoo_list_full True (h, Some l) \<longleftrightarrow> length ds = max_list_length l"
    using assms by (auto simp: zoo_list_size_def zoo_list_empty_def zoo_list_full_def list_rep_def chain_data_def)
qed

text \<open>Linking a new node in behind the node \<open>p\<close>, and taking the node behind \<open>p\<close> out.\<close>

lemma link_after:
  assumes "list_rep h l (xs @ p # ys) ds" and "length ds < max_list_length l" and "a \<notin> dom h"
    and "h p = Some nd"
  shows "list_rep ((h(a \<mapsto> \<lparr>data = d, next_node = node_head ys\<rparr>))(p \<mapsto> nd\<lparr>next_node := Some a\<rparr>))
           (l\<lparr>tail := (if node_head ys = None then Some a else tail l), list_size := list_size l + 1\<rparr>)
           (xs @ p # a # ys) (chain_data h (xs @ [p]) @ d # chain_data h ys)"
proof -
  have "a \<notin> set (xs @ p # ys)" using assms(1,3) list_rep_dom by blast
  moreover have "next_node nd = node_head ys"
    using assms(1,4) chain_head by (fastforce simp: list_rep_def chain_append)
  ultimately show ?thesis
    using assms
    by (cases ys) (auto simp: list_rep_def chain_append chain_frame chain_data_frame)
qed

lemma unlink_after:
  assumes "list_rep h l (xs @ p # a # ys) ds" and "h p = Some pnd" and "h a = Some nd"
  shows "list_rep ((h(p \<mapsto> pnd\<lparr>next_node := next_node nd\<rparr>))(a := None))
           (l\<lparr>tail := (if Some a = tail l then Some p else tail l), list_size := list_size l - 1\<rparr>)
           (xs @ p # ys) (chain_data h (xs @ [p]) @ chain_data h ys)"
  using assms
  by (cases ys rule: rev_cases) (auto simp: list_rep_def chain_append chain_frame chain_data_frame)

lemma unlink_head:
  assumes "list_rep h l (a # ys) ds" and "h a = Some nd"
  shows "list_rep (h(a := None))
           (l\<lparr>head := next_node nd, tail := (if ys = [] then None else tail l), list_size := list_size l - 1\<rparr>)
           ys (chain_data h ys)"
    and "next_node nd = node_head ys" and "Some a = tail l \<longleftrightarrow> ys = []"
  using assms chain_head
  by (auto simp: list_rep_def chain_append chain_frame chain_data_frame split: if_splits)

lemma insert_rep:
  assumes "list_rep h l as ds" and "length ds < max_list_length l" and "a \<notin> dom h"
  shows "\<exists>h' l'. zoo_list_insert True (Some a) (h, Some l) i (Some d) = Some (h', Some l')
           \<and> list_rep h' l' (take i as @ a # drop i as) (take i ds @ d # drop i ds)
           \<and> max_list_length l' = max_list_length l \<and> same_outside (insert a (set as)) h h'"
proof -
  have fresh: "a \<notin> set as" using assms(1,3) list_rep_dom by blast
  have ds: "take i ds = chain_data h (take i as)" "drop i ds = chain_data h (drop i as)"
    using assms(1) by (auto simp: list_rep_def chain_data_def take_map drop_map)
  have notfull: "\<not> is_list_full l" using assms(1,2) by (auto simp: is_list_full_def list_rep_def)
  show ?thesis
  proof (cases "i = 0 \<or> as = []")
    case True
    then show ?thesis using assms fresh notfull
      by (cases as) (auto simp: zoo_list_insert_def list_rep_def chain_frame chain_data_frame same_outside_def)
  next
    case False
    then obtain xs p where xs: "take i as = xs @ [p]" by (cases "take i as" rule: rev_cases) auto
    define ys where "ys = drop i as"
    have as: "as = xs @ p # ys" using xs ys_def append_take_drop_id [of i as] by simp
    obtain nd where nd: "h p = Some nd" using list_rep_dom [OF assms(1)] as by auto
    have "insert_scan h None (head l) i = Some (Some p, node_head ys)"
      using insert_scan_chain [of h "head l" as None i] assms(1) xs
      by (simp add: list_rep_def node_before_def ys_def)
    moreover have "p \<noteq> a" "head l \<noteq> None"
      using fresh as assms(1) by (auto simp: list_rep_head node_head_def split: list.splits)
    ultimately have op: "zoo_list_insert True (Some a) (h, Some l) i (Some d) =
        Some ((h(a \<mapsto> \<lparr>data = d, next_node = node_head ys\<rparr>))(p \<mapsto> nd\<lparr>next_node := Some a\<rparr>),
          Some (l\<lparr>tail := (if node_head ys = None then Some a else tail l), list_size := list_size l + 1\<rparr>))"
      using False notfull nd by (auto simp: zoo_list_insert_def)
    have "p \<in> set as" using as by simp
    then show ?thesis
      using link_after [OF assms(1) [unfolded as] assms(2,3) nd, of d] xs ds op
      by (auto simp: same_outside_def ys_def [symmetric])
  qed
qed

lemma erase_rep:
  assumes "list_rep h l as ds" and "i < length ds"
  shows "\<exists>h' l'. zoo_list_erase True (h, Some l) i = Some (ZOO_OK, h', Some l')
           \<and> list_rep h' l' (take i as @ drop (Suc i) as) (take i ds @ drop (Suc i) ds)
           \<and> max_list_length l' = max_list_length l \<and> same_outside (set as) h h'"
proof -
  define a where "a = as ! i"
  define ys where "ys = drop (Suc i) as"
  have i: "i < length as" "list_size l = length as" using assms by (auto simp: list_rep_def)
  have ds: "take i ds = chain_data h (take i as)" "drop (Suc i) ds = chain_data h ys"
    using assms(1) by (auto simp: list_rep_def chain_data_def take_map drop_map ys_def)
  have split: "as = take i as @ a # ys" using i(1) by (simp add: a_def ys_def id_take_nth_drop)
  have rep: "list_rep h l (take i as @ a # ys) ds" using assms(1) by (subst split [symmetric])
  then obtain nd where nd: "h a = Some nd" using list_rep_dom [OF rep] by auto
  show ?thesis
  proof (cases "take i as" rule: rev_cases)
    case Nil
    then have [simp]: "i = 0" using i(1) by (cases as) auto
    have rep: "list_rep h l (a # ys) ds" using rep Nil by simp
    have "drop (Suc 0) as = ys" by (simp add: ys_def)
    then show ?thesis
      using unlink_head [OF rep nd] list_rep_head [OF rep] nd i ds Nil a_def
      by (auto simp: zoo_list_erase_def same_outside_def Let_def node_head_def split: list.splits)
  next
    case (snoc xs p)
    then have pos: "0 < i" by (cases i) auto
    have rep: "list_rep h l (xs @ p # a # ys) ds" using rep snoc by simp
    obtain pnd where pnd: "h p = Some pnd" using list_rep_dom [OF rep] by auto
    have "erase_scan h None (head l) i = Some (Some p, Some a)"
      using erase_scan_chain [of h "head l" as i None] assms(1) i snoc
      by (simp add: list_rep_def node_before_def a_def Cons_nth_drop_Suc [symmetric])
    then show ?thesis
      using unlink_after [OF rep pnd nd] pos pnd nd i ds snoc nth_mem [OF i(1)]
        in_set_takeD [of p i as] by (auto simp: zoo_list_erase_def same_outside_def ys_def [symmetric] a_def)
  qed
qed

lemma unlink_rep:
  assumes "list_rep h l (xs @ a # ys) ds" and "h a = Some nd"
  shows "\<exists>h' l'. unlink_node h l (node_before None xs) a nd = Some (h', l')
           \<and> list_rep h' l' (xs @ ys) (chain_data h xs @ chain_data h ys)
           \<and> max_list_length l' = max_list_length l \<and> same_outside (set (xs @ [a])) h h'"
proof (cases xs rule: rev_cases)
  case Nil
  with assms unlink_head [of h l a ys ds nd] show ?thesis
    by (cases "ys = []") (auto simp: unlink_node_def same_outside_def)
next
  case (snoc zs p)
  have rep: "list_rep h l (zs @ p # a # ys) ds" using assms(1) snoc by simp
  obtain pnd where pnd: "h p = Some pnd" using list_rep_dom [OF rep] by auto
  show ?thesis
    using unlink_after [OF rep pnd assms(2)] snoc pnd
    by (auto simp: unlink_node_def same_outside_def node_before_def)
qed

lemma extract_map:
  "List.extract P (map f as) =
     map_option (\<lambda>(xs, a, ys). (map f xs, f a, map f ys)) (List.extract (\<lambda>a. P (f a)) as)"
  by (induction as) (auto simp: extract_Nil_code extract_Cons_code split: option.splits)

lemma remove_if_rep:
  assumes "list_rep h l as ds"
  shows "case List.extract (\<lambda>x. cmp x t) ds of
      None \<Rightarrow> zoo_list_remove_if True (h, Some l) (Some cmp) (Some t) = Some (None, h, Some l)
    | Some (xs, d, ys) \<Rightarrow>
        \<exists>h' l' as'. zoo_list_remove_if True (h, Some l) (Some cmp) (Some t) = Some (Some d, h', Some l')
          \<and> list_rep h' l' as' (xs @ ys) \<and> set as' \<subseteq> set as
          \<and> max_list_length l' = max_list_length l \<and> same_outside (set as) h h'"
proof -
  have ds: "ds = map (\<lambda>a. data (the (h a))) as" and ch: "chain h (head l) as None"
    using assms by (auto simp: list_rep_def chain_data_def)
  note scan = remove_scan_chain [OF ch, of "\<lambda>x. cmp x t" None]
  show ?thesis
  proof (cases "List.extract (\<lambda>a. cmp (data (the (h a))) t) as")
    case None
    then show ?thesis using scan by (simp add: zoo_list_remove_if_def ds extract_map)
  next
    case (Some r)
    then obtain xs a ys where r: "r = (xs, a, ys)" and as: "as = xs @ a # ys"
      by (cases r) (auto simp: extract_Some_iff)
    obtain nd where nd: "h a = Some nd" using list_rep_dom [OF assms] as by auto
    obtain h' l' where u: "unlink_node h l (node_before None xs) a nd = Some (h', l')"
      "list_rep h' l' (xs @ ys) (chain_data h xs @ chain_data h ys)"
      "max_list_length l' = max_list_length l" "same_outside (set as) h h'"
      using unlink_rep [OF assms [unfolded as] nd] as by (auto simp: same_outside_def)
    have ex: "List.extract (\<lambda>x. cmp x t) ds = Some (chain_data h xs, data nd, chain_data h ys)"
      using Some r nd unfolding ds by (simp add: extract_map chain_data_def)
    have "zoo_list_remove_if True (h, Some l) (Some cmp) (Some t) = Some (Some (data nd), h', Some l')"
      using scan Some r nd u(1) by (simp add: zoo_list_remove_if_def)
    moreover have "set (xs @ ys) \<subseteq> set as" using as by auto
    ultimately show ?thesis unfolding ex option.case prod.case using u(2-4) by blast
  qed
qed

lemma remove_rep:
  assumes "list_rep h l as ds"
  shows "if d \<in> set ds
     then \<exists>h' l' as'. zoo_list_remove True (h, Some l) (Some d) = Some (ZOO_OK, h', Some l')
            \<and> list_rep h' l' as' (remove1 d ds) \<and> set as' \<subseteq> set as
            \<and> max_list_length l' = max_list_length l \<and> same_outside (set as) h h'
     else zoo_list_remove True (h, Some l) (Some d) = Some (ZOO_ERROR_NOT_FOUND, h, Some l)"
proof -
  have ds: "ds = map (\<lambda>a. data (the (h a))) as" and ch: "chain h (head l) as None"
    using assms by (auto simp: list_rep_def chain_data_def)
  note scan = remove_scan_chain [OF ch, of "\<lambda>x. x = d" None]
  show ?thesis
  proof (cases "List.extract (\<lambda>a. data (the (h a)) = d) as")
    case None
    then have "d \<notin> set ds" by (auto simp: extract_None_iff ds)
    then show ?thesis using scan None by (simp add: zoo_list_remove_def)
  next
    case (Some r)
    then obtain xs a ys where r: "r = (xs, a, ys)" and as: "as = xs @ a # ys"
      and d: "data (the (h a)) = d" "\<forall>x \<in> set xs. data (the (h x)) \<noteq> d"
      by (cases r) (auto simp: extract_Some_iff)
    obtain nd where nd: "h a = Some nd" using list_rep_dom [OF assms] as by auto
    obtain h' l' where u: "unlink_node h l (node_before None xs) a nd = Some (h', l')"
      "list_rep h' l' (xs @ ys) (chain_data h xs @ chain_data h ys)"
      "max_list_length l' = max_list_length l" "same_outside (set as) h h'"
      using unlink_rep [OF assms [unfolded as] nd] as by (auto simp: same_outside_def)
    have mem: "d \<in> set ds" and rm: "remove1 d ds = chain_data h xs @ chain_data h ys"
      using d by (auto simp: ds as remove1_append chain_data_def)
    have "zoo_list_remove True (h, Some l) (Some d) = Some (ZOO_OK, h', Some l')"
      using scan Some r nd u(1) by (simp add: zoo_list_remove_def)
    moreover have "set (xs @ ys) \<subseteq> set as" using as by auto
    ultimately show ?thesis unfolding rm if_P [OF mem] using u(2-4) by blast
  qed
qed

lemma find_if_rep:
  "list_rep h l as ds \<Longrightarrow>
     zoo_list_find_if True (h, Some l) (Some cmp) (Some t) = Some (find (\<lambda>x. cmp x t) ds)"
  using find_scan_chain by (fastforce simp: zoo_list_find_if_def list_rep_def)

lemma foreach_rep:
  "list_rep h l as ds \<Longrightarrow> zoo_list_foreach True (h, Some l) (Some f) u = Some (fold f ds u)"
  using foreach_loop_chain by (fastforce simp: zoo_list_foreach_def list_rep_def)

section \<open>The list as a bounded sequence\<close>

datatype 'd list_op =
  PushBack 'd | PushFront 'd | PopBack | PopFront | Clear | At nat | Insert nat 'd | Erase nat
| Remove 'd | RemoveIf "'d \<Rightarrow> bool" | FindIf "'d \<Rightarrow> bool" | ListSize

datatype 'd list_result = Code zoo_error | Data "'d option" | Count nat | Done

text \<open>What the operations do to a sequence of at most \<open>cap\<close> elements.\<close>

fun seq_step :: "nat \<Rightarrow> 'd list \<Rightarrow> 'd list_op \<Rightarrow> 'd list_result \<times> 'd list" where
  "seq_step cap ds (PushBack d) =
     (if length ds \<ge> cap then (Code ZOO_ERROR_BUFFER_FULL, ds) else (Code ZOO_OK, ds @ [d]))"
| "seq_step cap ds (PushFront d) =
     (if length ds \<ge> cap then (Code ZOO_ERROR_BUFFER_FULL, ds) else (Code ZOO_OK, d # ds))"
| "seq_step cap ds PopBack =
     (if ds = [] then (Data None, []) else (Data (Some (last ds)), butlast ds))"
| "seq_step cap ds PopFront =
     (case ds of [] \<Rightarrow> (Data None, []) | d # ds' \<Rightarrow> (Data (Some d), ds'))"
| "seq_step cap ds Clear = (Done, [])"
| "seq_step cap ds (At i) = (Data (if i < length ds then Some (ds ! i) else None), ds)"
| "seq_step cap ds (Insert i d) =
     (Done, if length ds \<ge> cap then ds else take i ds @ d # drop i ds)"
| "seq_step cap ds (Erase i) =
     (if i < length ds then (Code ZOO_OK, take i ds @ drop (Suc i) ds)
      else (Code ZOO_ERROR_BUFFER_OUT_OF_RANGE, ds))"
| "seq_step cap ds (Remove d) =
     (if d \<in> set ds then (Code ZOO_OK, remove1 d ds) else (Code ZOO_ERROR_NOT_FOUND, ds))"
| "seq_step cap ds (RemoveIf P) =
     (case List.extract P ds of None \<Rightarrow> (Data None, ds) | Some (xs, d, ys) \<Rightarrow> (Data (Some d), xs @ ys))"
| "seq_step cap ds (FindIf P) = (Data (find P ds), ds)"
| "seq_step cap ds ListSize = (Count (length ds), ds)"

text \<open>
  The operations of the code as steps, with a mutex that can be taken and the address \<open>malloc\<close>
  returns for the heap it finds; the contract of \<open>malloc\<close> is that the address is not in use.
\<close>

definition malloc_ok :: "('d heap \<Rightarrow> nat) \<Rightarrow> bool" where
  "malloc_ok malloc \<longleftrightarrow> (\<forall>h. finite (dom h) \<longrightarrow> malloc h \<notin> dom h)"

fun list_step ::
  "('d heap \<Rightarrow> nat) \<Rightarrow> 'd list_state \<Rightarrow> 'd list_op \<Rightarrow> ('d list_result \<times> 'd list_state) option" where
  "list_step malloc s (PushBack d) =
     map_option (map_prod Code id) (zoo_list_push_back True (Some (malloc (fst s))) s (Some d))"
| "list_step malloc s (PushFront d) =
     map_option (map_prod Code id) (zoo_list_push_front True (Some (malloc (fst s))) s (Some d))"
| "list_step malloc s PopBack = map_option (map_prod Data id) (zoo_list_pop_back True s)"
| "list_step malloc s PopFront = map_option (map_prod Data id) (zoo_list_pop_front True s)"
| "list_step malloc s Clear = map_option (\<lambda>s'. (Done, s')) (zoo_list_clear True s)"
| "list_step malloc s (At i) = map_option (\<lambda>r. (Data r, s)) (zoo_list_at True s i)"
| "list_step malloc s (Insert i d) =
     map_option (\<lambda>s'. (Done, s')) (zoo_list_insert True (Some (malloc (fst s))) s i (Some d))"
| "list_step malloc s (Erase i) = map_option (map_prod Code id) (zoo_list_erase True s i)"
| "list_step malloc s (Remove d) = map_option (map_prod Code id) (zoo_list_remove True s (Some d))"
| "list_step malloc s (RemoveIf P) =
     map_option (map_prod Data id) (zoo_list_remove_if True s (Some (\<lambda>x _. P x)) (Some ()))"
| "list_step malloc s (FindIf P) =
     map_option (\<lambda>r. (Data r, s)) (zoo_list_find_if True s (Some (\<lambda>x _. P x)) (Some ()))"
| "list_step malloc s ListSize = Some (Count (zoo_list_size True s), s)"

definition list_refines :: "('d heap \<Rightarrow> nat) \<Rightarrow> nat \<Rightarrow> 'd list_state \<Rightarrow> 'd list \<Rightarrow> bool" where
  "list_refines malloc cap s ds \<longleftrightarrow>
     malloc_ok malloc \<and> finite (dom (fst s)) \<and>
     (\<exists>l as. snd s = Some l \<and> list_rep (fst s) l as ds \<and> max_list_length l = cap)"

lemma same_outside_finite: "same_outside A h h' \<Longrightarrow> finite A \<Longrightarrow> finite (dom h) \<Longrightarrow> finite (dom h')"
  by (rule finite_subset [of _ "A \<union> dom h"]) (auto simp: same_outside_def dom_def)

lemma list_refinesI:
  assumes "malloc_ok malloc" and "finite (dom h)" and "same_outside A h h'" and "finite A"
    and "list_rep h' l' as' ds'" and "max_list_length l' = cap"
  shows "list_refines malloc cap (h', Some l') ds'"
  using assms same_outside_finite by (auto simp: list_refines_def)

lemma list_refines_alloc:
  assumes "list_refines malloc cap (h, Some l) ds"
  shows "malloc h \<notin> dom h"
  using assms by (simp add: list_refines_def malloc_ok_def)

text \<open>Operations that allocate.\<close>

lemma step_alloc:
  assumes "list_refines malloc cap s ds"
  shows "\<exists>s'. list_step malloc s (PushBack d) = Some (fst (seq_step cap ds (PushBack d)), s')
           \<and> list_refines malloc cap s' (snd (seq_step cap ds (PushBack d)))"
    and "\<exists>s'. list_step malloc s (PushFront d) = Some (fst (seq_step cap ds (PushFront d)), s')
           \<and> list_refines malloc cap s' (snd (seq_step cap ds (PushFront d)))"
    and "\<exists>s'. list_step malloc s (Insert i d) = Some (fst (seq_step cap ds (Insert i d)), s')
           \<and> list_refines malloc cap s' (snd (seq_step cap ds (Insert i d)))"
proof -
  obtain h l as where s: "s = (h, Some l)" and rep: "list_rep h l as ds" "max_list_length l = cap"
    and m: "malloc_ok malloc" "finite (dom h)"
    using assms by (cases s) (auto simp: list_refines_def)
  have a: "malloc h \<notin> dom h" using list_refines_alloc assms s by blast
  note intro = list_refinesI [OF m]
  have full: "is_list_full l \<longleftrightarrow> length ds \<ge> cap"
    using rep list_rep_length [OF rep(1)] by (simp add: is_list_full_def)
  show "\<exists>s'. list_step malloc s (PushBack d) = Some (fst (seq_step cap ds (PushBack d)), s')
           \<and> list_refines malloc cap s' (snd (seq_step cap ds (PushBack d)))"
  proof (cases "length ds \<ge> cap")
    case True
    then show ?thesis using assms full by (simp add: s zoo_list_push_back_def)
  next
    case False
    with push_back_rep [OF rep(1) _ a, of d] rep(2) intro show ?thesis by (fastforce simp: s)
  qed
  show "\<exists>s'. list_step malloc s (PushFront d) = Some (fst (seq_step cap ds (PushFront d)), s')
           \<and> list_refines malloc cap s' (snd (seq_step cap ds (PushFront d)))"
  proof (cases "length ds \<ge> cap")
    case True
    then show ?thesis using assms full by (simp add: s zoo_list_push_front_def)
  next
    case False
    with push_front_rep [OF rep(1) _ a, of d] rep(2) intro show ?thesis by (fastforce simp: s)
  qed
  show "\<exists>s'. list_step malloc s (Insert i d) = Some (fst (seq_step cap ds (Insert i d)), s')
           \<and> list_refines malloc cap s' (snd (seq_step cap ds (Insert i d)))"
  proof (cases "length ds \<ge> cap")
    case True
    then show ?thesis using assms full by (simp add: s zoo_list_insert_def)
  next
    case False
    with insert_rep [OF rep(1) _ a, of i d] rep(2) intro show ?thesis by (fastforce simp: s)
  qed
qed

text \<open>Operations that free nodes.\<close>

lemma step_free:
  assumes "list_refines malloc cap s ds"
  shows "\<exists>s'. list_step malloc s PopBack = Some (fst (seq_step cap ds PopBack), s')
           \<and> list_refines malloc cap s' (snd (seq_step cap ds PopBack))"
    and "\<exists>s'. list_step malloc s PopFront = Some (fst (seq_step cap ds PopFront), s')
           \<and> list_refines malloc cap s' (snd (seq_step cap ds PopFront))"
    and "\<exists>s'. list_step malloc s Clear = Some (fst (seq_step cap ds Clear), s')
           \<and> list_refines malloc cap s' (snd (seq_step cap ds Clear))"
    and "\<exists>s'. list_step malloc s (Erase i) = Some (fst (seq_step cap ds (Erase i)), s')
           \<and> list_refines malloc cap s' (snd (seq_step cap ds (Erase i)))"
    and "\<exists>s'. list_step malloc s (Remove d) = Some (fst (seq_step cap ds (Remove d)), s')
           \<and> list_refines malloc cap s' (snd (seq_step cap ds (Remove d)))"
    and "\<exists>s'. list_step malloc s (RemoveIf P) = Some (fst (seq_step cap ds (RemoveIf P)), s')
           \<and> list_refines malloc cap s' (snd (seq_step cap ds (RemoveIf P)))"
proof -
  obtain h l as where s: "s = (h, Some l)" and rep: "list_rep h l as ds" "max_list_length l = cap"
    and m: "malloc_ok malloc" "finite (dom h)"
    using assms by (cases s) (auto simp: list_refines_def)
  note intro = list_refinesI [OF m]
  show "\<exists>s'. list_step malloc s PopBack = Some (fst (seq_step cap ds PopBack), s')
           \<and> list_refines malloc cap s' (snd (seq_step cap ds PopBack))"
    using pop_back_rep [of h l as "butlast ds" "last ds"] pop_back_empty [of h l as] rep assms intro
    by (cases "ds = []") (fastforce simp: s)+
  show "\<exists>s'. list_step malloc s PopFront = Some (fst (seq_step cap ds PopFront), s')
           \<and> list_refines malloc cap s' (snd (seq_step cap ds PopFront))"
    using pop_front_rep [of h l as] pop_front_empty [of h l as] rep assms intro
    by (cases ds) (fastforce simp: s)+
  show "\<exists>s'. list_step malloc s Clear = Some (fst (seq_step cap ds Clear), s')
           \<and> list_refines malloc cap s' (snd (seq_step cap ds Clear))"
    using clear_rep [OF rep(1)] rep(2) intro by (fastforce simp: s)
  show "\<exists>s'. list_step malloc s (Erase i) = Some (fst (seq_step cap ds (Erase i)), s')
           \<and> list_refines malloc cap s' (snd (seq_step cap ds (Erase i)))"
  proof (cases "i < length ds")
    case True
    with erase_rep [OF rep(1) True] rep(2) intro show ?thesis by (fastforce simp: s)
  next
    case False
    with list_rep_length [OF rep(1)] assms show ?thesis by (simp add: s zoo_list_erase_def)
  qed
  show "\<exists>s'. list_step malloc s (Remove d) = Some (fst (seq_step cap ds (Remove d)), s')
           \<and> list_refines malloc cap s' (snd (seq_step cap ds (Remove d)))"
    using remove_rep [OF rep(1), of d] rep(2) intro assms
    by (cases "d \<in> set ds") (fastforce simp: s)+
  show "\<exists>s'. list_step malloc s (RemoveIf P) = Some (fst (seq_step cap ds (RemoveIf P)), s')
           \<and> list_refines malloc cap s' (snd (seq_step cap ds (RemoveIf P)))"
    using remove_if_rep [OF rep(1), of "\<lambda>x _. P x" "()"] rep(2) intro assms
    by (cases "List.extract P ds") (fastforce simp: s)+
qed

text \<open>Operations that only look.\<close>

lemma step_query:
  assumes "list_refines malloc cap s ds"
  shows "list_step malloc s (At i) = Some (fst (seq_step cap ds (At i)), s)"
    and "list_step malloc s (FindIf P) = Some (fst (seq_step cap ds (FindIf P)), s)"
    and "list_step malloc s ListSize = Some (fst (seq_step cap ds ListSize), s)"
proof -
  obtain h l as where s: "s = (h, Some l)" and rep: "list_rep h l as ds"
    using assms by (cases s) (auto simp: list_refines_def)
  show "list_step malloc s (At i) = Some (fst (seq_step cap ds (At i)), s)"
    and "list_step malloc s (FindIf P) = Some (fst (seq_step cap ds (FindIf P)), s)"
    and "list_step malloc s ListSize = Some (fst (seq_step cap ds ListSize), s)"
    using at_rep [OF rep] find_if_rep [OF rep, of "\<lambda>x _. P x" "()"] ends_rep(3) [OF rep]
    by (simp_all add: s)
qed

interpretation zoo_list: refinement "list_refines malloc cap" "list_step malloc" "seq_step cap"
  for malloc cap
proof
  fix s and ds :: "'a list" and op r ds'
  assume rep: "list_refines malloc cap s ds" and step: "seq_step cap ds op = (r, ds')"
  have "\<exists>s'. list_step malloc s op = Some (fst (seq_step cap ds op), s')
      \<and> list_refines malloc cap s' (snd (seq_step cap ds op))"
  proof (cases op)
    case (PushBack d)
    show ?thesis unfolding PushBack by (rule step_alloc(1) [OF rep, of d])
  next
    case (PushFront d)
    show ?thesis unfolding PushFront by (rule step_alloc(2) [OF rep, of d])
  next
    case PopBack
    show ?thesis unfolding PopBack by (rule step_free(1) [OF rep])
  next
    case PopFront
    show ?thesis unfolding PopFront by (rule step_free(2) [OF rep])
  next
    case Clear
    show ?thesis unfolding Clear by (rule step_free(3) [OF rep])
  next
    case (At i)
    show ?thesis unfolding At using step_query(1) [OF rep, of i] rep by simp
  next
    case (Insert i d)
    show ?thesis unfolding Insert by (rule step_alloc(3) [OF rep, of i d])
  next
    case (Erase i)
    show ?thesis unfolding Erase by (rule step_free(4) [OF rep, of i])
  next
    case (Remove d)
    show ?thesis unfolding Remove by (rule step_free(5) [OF rep, of d])
  next
    case (RemoveIf P)
    show ?thesis unfolding RemoveIf by (rule step_free(6) [OF rep, of P])
  next
    case (FindIf P)
    show ?thesis unfolding FindIf using step_query(2) [OF rep, of P] rep by simp
  next
    case ListSize
    show ?thesis unfolding ListSize using step_query(3) [OF rep] rep by simp
  qed
  then show "\<exists>s'. list_step malloc s op = Some (r, s') \<and> list_refines malloc cap s' ds'"
    using step by simp
qed

lemma list_create_refines:
  assumes "malloc_ok malloc" and "finite (dom h)" and "zoo_list_create ok cap = Some l"
  shows "list_refines malloc cap (h, Some l) []"
  using assms
  by (auto simp: list_refines_def zoo_list_create_def list_rep_def split: if_splits intro!: exI [of _ "[]"])

text \<open>
  C19. A freshly created list behaves as a bounded sequence: for every sequence of operations the
  code runs to the end without following a bad pointer, returns what the sequence specification
  returns, and represents the specified sequence at the end, whatever unused addresses \<open>malloc\<close>
  hands out.
\<close>

theorem zoo_list_refines_sequence:
  assumes "malloc_ok malloc" and "finite (dom h)" and "zoo_list_create ok cap = Some l"
    and "run_abstract (seq_step cap) [] ops = (rs, ds)"
  shows "\<exists>s. run_concrete (list_step malloc) (h, Some l) ops = Some (rs, s) \<and> list_refines malloc cap s ds"
  using zoo_list.run_refines [OF list_create_refines [OF assms(1-3)] assms(4)] .

lemma malloc_above_ok: "malloc_ok (\<lambda>h. Suc (Max (insert 0 (dom h))))"
  unfolding malloc_ok_def
proof (intro allI impI notI)
  fix h :: "'a heap"
  assume "finite (dom h)" "Suc (Max (insert 0 (dom h))) \<in> dom h"
  then have "Suc (Max (insert 0 (dom h))) \<le> Max (insert 0 (dom h))" by (intro Max_ge) auto
  then show False by simp
qed

theorem zoo_list_refines_sequence_witness:
  "\<exists>s. run_concrete (list_step (\<lambda>h. Suc (Max (insert 0 (dom h)))))
         (Map.empty, zoo_list_create True 2)
         [PushBack (7 :: nat), PushFront 5, PushBack 9, Erase 0, At 0]
       = Some ([Code ZOO_OK, Code ZOO_OK, Code ZOO_ERROR_BUFFER_FULL, Code ZOO_OK, Data (Some 7)], s)
     \<and> list_refines (\<lambda>h. Suc (Max (insert 0 (dom h)))) 2 s [7]"
proof -
  obtain l where l: "zoo_list_create True 2 = Some l" by (simp add: zoo_list_create_def)
  have "run_abstract (seq_step 2) [] [PushBack (7 :: nat), PushFront 5, PushBack 9, Erase 0, At 0]
      = ([Code ZOO_OK, Code ZOO_OK, Code ZOO_ERROR_BUFFER_FULL, Code ZOO_OK, Data (Some 7)], [7])"
    by simp
  from zoo_list_refines_sequence [OF malloc_above_ok _ l this, of Map.empty] show ?thesis
    unfolding l using finite.emptyI dom_empty by metis
qed

end
