(* ===== verification/Tcp_Server.thy ===== *)
theory Tcp_Server
  imports Tcp_Transport Zoo_List
begin

text \<open>
  The TCP server \<open>src/kernal/transport/zoo_smb_transport_tcp_server.c\<close>. Its client list is a
  \<open>zoo_list\<close>, used through the sequence contract \<open>seq_step\<close> that theory \<open>Zoo_List\<close> proves of the
  code. Handler functions are numbers. A client structure has an address, because the list compares pointers. The kernel's list of
  watched descriptors is part of the state: adding a descriptor twice fails, closing one removes it.
\<close>

section \<open>State\<close>

record tcp_client_info =
  c_addr :: nat
  c_socket :: socket_info
  client_name :: "u8 list"
  connect_time :: int
  c_active :: bool

record tcp_server =
  common :: tcp_common
  srv_socket :: socket_info
  listen_fd :: int
  max_clients :: nat
  clients :: "tcp_client_info list"
  listen_backlog :: int
  accept_new_connections :: bool
  message_callback :: "nat option"
  srv_observers :: "nat option list"
  watched :: "int list"

definition TCP_MAX_CLIENTS :: nat where "TCP_MAX_CLIENTS = 1024"
definition TCP_DEFAULT_BACKLOG :: int where "TCP_DEFAULT_BACKLOG = 256"
definition TCP_RECEIVE_BUFFER_SIZE :: nat where "TCP_RECEIVE_BUFFER_SIZE = 8192"

text \<open>Structures after \<open>memset\<close> to zero.\<close>

definition zero_socket :: socket_info where
  "zero_socket = \<lparr>sock_fd = 0, sock_family = ZOO_AF_INET, sock_kind = ZOO_SOCK_STREAM,
     sock_protocol = ZOO_IPPROTO_TCP, is_connected = False, is_bound = False, is_listening = False,
     is_blocking = False\<rparr>"

definition zero_common :: tcp_common where
  "zero_common = \<lparr>is_server = False, running = False, epoll_fd = 0, conn_fd = 0,
     conn_state = TRANSPORT_CONN_STATE_DISCONNECTED, reconnect_interval = 0, last_connect_attempt = 0,
     heartbeat_interval = 0, last_heartbeat = 0\<rparr>"

definition zero_client :: "nat \<Rightarrow> tcp_client_info" where
  "zero_client a = \<lparr>c_addr = a, c_socket = zero_socket, client_name = [], connect_time = 0, c_active = False\<rparr>"

definition tcp_server_register_message_callback :: "tcp_server \<Rightarrow> nat option \<Rightarrow> tcp_server" where
  "tcp_server_register_message_callback server callback = server\<lparr>message_callback := callback\<rparr>"

section \<open>Life cycle\<close>

text \<open>\<open>config\<close> says whether the transport has one; \<open>ok1\<close>, \<open>ok2\<close> are the answers of the allocators.\<close>

definition tcp_server_init :: "bool \<Rightarrow> bool \<Rightarrow> bool \<Rightarrow> zoo_error \<times> tcp_server option" where
  "tcp_server_init config ok1 ok2 =
     (if \<not> config then (ZOO_SMB_ERROR_INVALID_PARAM, None)
      else if \<not> ok1 then (ZOO_SMB_ERROR_OUT_OF_MEMORY, None)
      else
        let server = \<lparr>common = zero_common\<lparr>is_server := True, running := False,
                conn_fd := INVALID_TRANSPORT_FD, epoll_fd := INVALID_TRANSPORT_FD,
                conn_state := TRANSPORT_CONN_STATE_DISCONNECTED\<rparr>,
              srv_socket = zero_socket, listen_fd = 0, max_clients = TCP_MAX_CLIENTS, clients = [],
              listen_backlog = TCP_DEFAULT_BACKLOG, accept_new_connections = True, message_callback = None,
              srv_observers = [], watched = []\<rparr>
        in if \<not> ok2 then (ZOO_SMB_ERROR_OUT_OF_MEMORY, None) else (ZOO_SMB_OK, Some server))"

text \<open>The address \<open>bind\<close> is given: the union zeroed, then the fields of \<open>in\<close> set.\<close>

definition tcp_server_bind_address :: "endian \<Rightarrow> u16 \<Rightarrow> sockaddr" where
  "tcp_server_bind_address e port =
     (let a0 = replicate sizeof_sockaddr_union 0;
          a1 = put32 e 0 (family_value ZOO_AF_INET) a0;
          a2 = put16 e 4 port a1
      in put32 e 8 0 a2)"

text \<open>\<open>bind_sys\<close> is a function of the address the kernel is given.\<close>

definition tcp_server_start ::
  "endian \<Rightarrow> bool \<Rightarrow> int sys \<Rightarrow> (u8 list \<Rightarrow> unit sys) \<Rightarrow> unit sys \<Rightarrow> u16 option \<Rightarrow> tcp_server option
   \<Rightarrow> zoo_error \<times> tcp_server option" where
  "tcp_server_start e initialized sock_sys bind_sys listen_sys port impl =
     (case impl of
        None \<Rightarrow> (ZOO_SMB_ERROR_INVALID_PARAM, None)
      | Some server \<Rightarrow>
          (case port of
             None \<Rightarrow> (ZOO_SMB_ERROR_INVALID_PARAM, impl)
           | Some p \<Rightarrow>
               (case zoo_socket_create initialized sock_sys ZOO_AF_INET ZOO_SOCK_STREAM ZOO_IPPROTO_TCP
                       (Some (srv_socket server)) of
                  (err, si) \<Rightarrow>
                    let server1 = server\<lparr>srv_socket := the si\<rparr>
                    in if err \<noteq> ZOO_SMB_OK then (err, Some server1)
                       else (case zoo_socket_bind (bind_sys (take 16 (tcp_server_bind_address e p)))
                                    (srv_socket server1) of
                           (err, s2) \<Rightarrow>
                             let server2 = server1\<lparr>srv_socket := s2\<rparr>
                             in if err \<noteq> ZOO_SMB_OK then (err, Some server2)
                                else (case zoo_socket_listen listen_sys s2 of
                                    (err, s3) \<Rightarrow>
                                      let server3 = server2\<lparr>srv_socket := s3\<rparr>
                                      in if err \<noteq> ZOO_SMB_OK then (err, Some server3)
                                         else (ZOO_SMB_OK, Some (server3\<lparr>listen_fd := sock_fd s3,
                                             common := (common server3)\<lparr>running := True,
                                               conn_state := TRANSPORT_CONN_STATE_CONNECTED\<rparr>\<rparr>)))))))"

text \<open>The descriptors closed are the last result.\<close>

definition closed_fd :: "socket_info \<Rightarrow> int list" where
  "closed_fd si = (case snd (snd (zoo_socket_close si)) of None \<Rightarrow> [] | Some fd \<Rightarrow> [fd])"

definition tcp_server_stop :: "tcp_server option \<Rightarrow> zoo_error \<times> tcp_server option \<times> int list" where
  "tcp_server_stop impl =
     (case impl of
        None \<Rightarrow> (ZOO_SMB_ERROR_INVALID_PARAM, None, [])
      | Some server \<Rightarrow>
          let gone = closed_fd (srv_socket server) @ concat (map (\<lambda>c. closed_fd (c_socket c)) (clients server));
              server1 = server\<lparr>srv_socket := fst (snd (zoo_socket_close (srv_socket server))),
                listen_fd := INVALID_TRANSPORT_FD,
                common := (common server)\<lparr>running := False, conn_state := TRANSPORT_CONN_STATE_DISCONNECTED\<rparr>\<rparr>;
              cs = snd (seq_step (max_clients server) (clients server1) Clear)
          in (ZOO_SMB_OK, Some (server1\<lparr>clients := cs, watched := filter (\<lambda>fd. fd \<notin> set gone) (watched server)\<rparr>), gone))"

definition tcp_server_destroy :: "tcp_server option \<Rightarrow> zoo_error \<times> int list" where
  "tcp_server_destroy impl =
     (case impl of
        None \<Rightarrow> (ZOO_SMB_ERROR_INVALID_PARAM, [])
      | Some server \<Rightarrow> (case tcp_server_stop (Some server) of (_, _, gone) \<Rightarrow> (ZOO_SMB_OK, gone)))"

definition tcp_server_is_started :: "tcp_server option \<Rightarrow> bool" where
  "tcp_server_is_started impl = (case impl of None \<Rightarrow> False | Some server \<Rightarrow> running (common server))"

section \<open>Clients\<close>

text \<open>
  \<open>addr\<close> is the address the pool returned. The new client goes to the end of the list if the list has room;
  the result of \<open>zoo_list_push_back\<close> is not looked at.
\<close>

definition tcp_server_accept_client ::
  "nat option \<Rightarrow> int sys \<Rightarrow> int \<Rightarrow> tcp_server \<Rightarrow> zoo_error \<times> tcp_server" where
  "tcp_server_accept_client addr accept_sys now server =
     (case addr of
        None \<Rightarrow> (ZOO_SMB_ERROR_OUT_OF_MEMORY, server)
      | Some a \<Rightarrow>
          let client = zero_client a
          in (case zoo_socket_accept accept_sys (srv_socket server) (c_socket client) of
              (err, si) \<Rightarrow>
                if err \<noteq> ZOO_SMB_OK then (err, server)
                else
                  let client' = client\<lparr>c_socket := si, c_active := True, connect_time := now\<rparr>
                  in (ZOO_SMB_OK, server\<lparr>clients :=
                        snd (seq_step (max_clients server) (clients server) (PushBack client'))\<rparr>)))"

definition tcp_server_add_client :: "nat option \<Rightarrow> int \<Rightarrow> int \<Rightarrow> bool \<Rightarrow> tcp_server \<Rightarrow> zoo_error \<times> tcp_server" where
  "tcp_server_add_client addr now client_fd has_addr server =
     (if \<not> has_addr then (ZOO_SMB_ERROR_INVALID_PARAM, server)
      else case addr of
        None \<Rightarrow> (ZOO_SMB_ERROR_OUT_OF_MEMORY, server)
      | Some a \<Rightarrow>
          let client = (zero_client a)\<lparr>c_socket := zero_socket\<lparr>sock_fd := client_fd\<rparr>, c_active := True,
                connect_time := now\<rparr>
          in (ZOO_SMB_OK, server\<lparr>clients :=
                snd (seq_step (max_clients server) (clients server) (PushBack client))\<rparr>))"

definition tcp_server_find_client :: "tcp_server \<Rightarrow> int \<Rightarrow> tcp_client_info option" where
  "tcp_server_find_client server client_fd = find (\<lambda>c. sock_fd (c_socket c) = client_fd) (clients server)"

text \<open>\<open>zoo_list_remove\<close> of a client compares addresses.\<close>

definition remove_by_address :: "tcp_client_info \<Rightarrow> tcp_server \<Rightarrow> tcp_server" where
  "remove_by_address client server =
     server\<lparr>clients := snd (seq_step (max_clients server) (clients server)
              (RemoveIf (\<lambda>c. c_addr c = c_addr client))),
            watched := filter (\<lambda>fd. fd \<notin> set (closed_fd (c_socket client))) (watched server)\<rparr>"

definition tcp_server_remove_client :: "tcp_server \<Rightarrow> int \<Rightarrow> zoo_error \<times> tcp_server \<times> int list" where
  "tcp_server_remove_client server client_fd =
     (case tcp_server_find_client server client_fd of
        Some client \<Rightarrow> (ZOO_SMB_OK, remove_by_address client server, closed_fd (c_socket client))
      | None \<Rightarrow> (ZOO_SMB_ERROR_INVALID_PARAM, server, []))"

lemma seq_remove_if:
  assumes "x \<in> set xs" and "P x"
  shows "\<exists>ys z zs. xs = ys @ z # zs \<and> P z \<and> (\<forall>y \<in> set ys. \<not> P y)
    \<and> seq_step cap xs (RemoveIf P) = (Data (Some z), ys @ zs)"
proof -
  have "List.extract P xs \<noteq> None" using assms by (auto simp: extract_None_iff)
  then obtain ys z zs where "List.extract P xs = Some (ys, z, zs)" by auto
  then show ?thesis using extract_SomeE by (fastforce)
qed

text \<open>The loop runs over the list as it is, from position \<open>i\<close> on.\<close>

function tcp_server_cleanup_from :: "nat \<Rightarrow> tcp_server \<Rightarrow> tcp_server" where
  "tcp_server_cleanup_from i server =
     (if i < length (clients server) then
        let client = clients server ! i
        in if \<not> c_active client then tcp_server_cleanup_from i (remove_by_address client server)
           else tcp_server_cleanup_from (i + 1) server
      else server)"
  by pat_completeness auto

lemma remove_by_address_length:
  assumes "c \<in> set (clients s)"
  shows "length (clients (remove_by_address c s)) < length (clients s)"
  using seq_remove_if [of c "clients s" "\<lambda>d. c_addr d = c_addr c" "max_clients s"] assms
  by (auto simp: remove_by_address_def)

termination tcp_server_cleanup_from
proof (relation "measure (\<lambda>(i, s). length (clients s) - i)")
  fix i :: nat and s :: tcp_server and c
  assume i: "i < length (clients s)" "c = clients s ! i"
  then have "length (clients (remove_by_address c s)) < length (clients s)"
    by (simp add: remove_by_address_length)
  then show "((i, remove_by_address c s), i, s) \<in> measure (\<lambda>(i, s). length (clients s) - i)"
    using i by auto
qed auto

declare tcp_server_cleanup_from.simps [simp del]

definition tcp_server_cleanup_disconnected_clients :: "tcp_server \<Rightarrow> tcp_server" where
  "tcp_server_cleanup_disconnected_clients server = tcp_server_cleanup_from 0 server"

section \<open>Sending\<close>

text \<open>
  \<open>send_sys fd\<close> is \<open>send\<close> on a descriptor. The bytes that went out are the last result, by
  descriptor.
\<close>

definition send_out ::
  "(int \<Rightarrow> u8 list \<Rightarrow> nat sys) \<Rightarrow> tcp_client_info \<Rightarrow> u8 list option \<Rightarrow> nat \<Rightarrow> zoo_error \<times> (int \<times> u8 list) list" where
  "send_out send_sys client buf len =
     (case zoo_socket_send (send_sys (sock_fd (c_socket client))) (c_socket client) buf len of
        (err, sent) \<Rightarrow>
          (err, case (sent, buf) of
                  (Some n, Some d) \<Rightarrow> if n > 0 then [(sock_fd (c_socket client), take n (take len d))] else []
                | _ \<Rightarrow> []))"

fun broadcast_loop ::
  "(int \<Rightarrow> u8 list \<Rightarrow> nat sys) \<Rightarrow> smb_msg \<Rightarrow> tcp_client_info list \<Rightarrow> zoo_error \<Rightarrow> zoo_error \<times> (int \<times> u8 list) list" where
  "broadcast_loop send_sys msg [] last_err = (last_err, [])"
| "broadcast_loop send_sys msg (client # cs) last_err =
     (if c_active client then
        case send_out send_sys client (payload msg) (unat (payload_size (header msg))) of
          (err, out) \<Rightarrow>
            let (le, more) = broadcast_loop send_sys msg cs (if err \<noteq> ZOO_SMB_OK then err else last_err)
            in (le, out @ more)
      else broadcast_loop send_sys msg cs last_err)"

definition tcp_server_broadcast_message ::
  "(int \<Rightarrow> u8 list \<Rightarrow> nat sys) \<Rightarrow> tcp_server \<Rightarrow> smb_msg option \<Rightarrow> zoo_error \<times> (int \<times> u8 list) list" where
  "tcp_server_broadcast_message send_sys server msg =
     (case msg of
        None \<Rightarrow> (ZOO_SMB_ERROR_INVALID_PARAM, [])
      | Some m \<Rightarrow> broadcast_loop send_sys m (clients server) ZOO_SMB_OK)"

definition tcp_server_send ::
  "(int \<Rightarrow> u8 list \<Rightarrow> nat sys) \<Rightarrow> tcp_server option \<Rightarrow> smb_msg option \<Rightarrow> u8 list option
   \<Rightarrow> zoo_error \<times> (int \<times> u8 list) list" where
  "tcp_server_send send_sys impl msg receiver =
     (case (impl, msg) of
        (Some server, Some m) \<Rightarrow>
          (case receiver of
             None \<Rightarrow> tcp_server_broadcast_message send_sys server msg
           | Some r \<Rightarrow>
               (case find (\<lambda>c. c_active c \<and> client_name c = c_str r) (clients server) of
                  Some client \<Rightarrow> send_out send_sys client (payload m) (unat (payload_size (header m)))
                | None \<Rightarrow> (ZOO_SMB_ERROR_INVALID_PARAM, [])))
      | _ \<Rightarrow> (ZOO_SMB_ERROR_INVALID_PARAM, []))"

definition tcp_server_send_to_client ::
  "(int \<Rightarrow> u8 list \<Rightarrow> nat sys) \<Rightarrow> tcp_server \<Rightarrow> int \<Rightarrow> u8 list option \<Rightarrow> nat \<Rightarrow> zoo_error \<times> (int \<times> u8 list) list" where
  "tcp_server_send_to_client send_sys server client_fd buf len =
     (if buf = None \<or> len = 0 then (ZOO_SMB_ERROR_INVALID_PARAM, [])
      else case tcp_server_find_client server client_fd of
        None \<Rightarrow> (ZOO_SMB_ERROR_INVALID_PARAM, [])
      | Some client \<Rightarrow>
          if \<not> c_active client then (ZOO_SMB_ERROR_INVALID_PARAM, [])
          else send_out send_sys client buf len)"

section \<open>Events\<close>

text \<open>
  The framing loop of \<open>tcp_server_handle_client_events\<close> over the bytes of one \<open>recv\<close>: \<open>rest\<close> are the
  bytes from \<open>offset\<close> on, \<open>payload_oks\<close> the answers of the pool for the payloads, in order. It
  returns the messages handed over and whether the client stays active.
\<close>

function tcp_server_frames ::
  "endian \<Rightarrow> nat option \<Rightarrow> (nat \<Rightarrow> bool) \<Rightarrow> nat \<Rightarrow> u8 list \<Rightarrow> smb_msg list \<times> bool" where
  "tcp_server_frames e cfg payload_oks i rest =
     (if length rest \<ge> sizeof_header then
        let host_header = zoo_smb_protocol_swap_header e (Some (read_header e rest))
        in if \<not> zoo_smb_protocol_is_header_valid cfg (Some host_header) then ([], False)
           else
             let total_msg_size = sizeof_header + unat (payload_size host_header)
             in if length rest < total_msg_size then ([], True)
                else
                  case zoo_smb_protocol_deserialize e (payload_oks i) (Some (take total_msg_size rest)) total_msg_size
                         (Some \<lparr>header = zero_header, payload = None\<rparr>) sizeof_msg of
                    (derr, msg) \<Rightarrow>
                      let (ms, active) = tcp_server_frames e cfg payload_oks (Suc i) (drop total_msg_size rest)
                      in (if derr \<noteq> ZOO_SMB_OK then ms else the msg # ms, active)
      else ([], True))"
  by pat_completeness auto

termination tcp_server_frames
  by (relation "measure (\<lambda>(_, _, _, _, rest). length rest)") (auto simp: sizeof_header_def)

declare tcp_server_frames.simps [simp del]

text \<open>What the server hands each message to: its callback, then the observers.\<close>

definition server_deliver :: "tcp_server \<Rightarrow> bool \<Rightarrow> smb_msg \<Rightarrow> (nat \<times> smb_msg) list" where
  "server_deliver server snapshot msg =
     (case message_callback server of None \<Rightarrow> [] | Some f \<Rightarrow> [(f, msg)])
     @ tcp_notify_data_observers snapshot (srv_observers server) msg"

text \<open>
  \<open>tcp_server_handle_client_events\<close>. The callbacks get the client structure but do not change the
  server here. Removal happens if the client is not active at the end.
\<close>

definition tcp_server_handle_client_events ::
  "endian \<Rightarrow> nat option \<Rightarrow> (nat \<Rightarrow> u8 list sys) \<Rightarrow> (nat \<Rightarrow> bool) \<Rightarrow> bool \<Rightarrow> tcp_server \<Rightarrow> int \<Rightarrow> u32
   \<Rightarrow> (nat \<times> smb_msg) list \<times> tcp_server" where
  "tcp_server_handle_client_events e cfg recv_sys payload_oks snapshot server client_fd events =
     (case tcp_server_find_client server client_fd of
        None \<Rightarrow> ([], server)
      | Some client \<Rightarrow>
          let (ms, active1) =
                (if events AND EPOLLIN \<noteq> 0 then
                   case zoo_socket_recv recv_sys (c_socket client) TCP_RECEIVE_BUFFER_SIZE of
                     (err, bs) \<Rightarrow>
                       if err \<noteq> ZOO_SMB_OK \<or> bs = [] then ([], False)
                       else case tcp_server_frames e cfg payload_oks 0 bs of
                         (ms, stays) \<Rightarrow> (ms, c_active client \<and> stays)
                 else ([], c_active client));
              active2 = (if events AND (EPOLLRDHUP OR EPOLLHUP OR EPOLLERR) \<noteq> 0 then False else active1);
              server' = server\<lparr>clients := map (\<lambda>c. if c_addr c = c_addr client then c\<lparr>c_active := active2\<rparr> else c)
                  (clients server)\<rparr>
          in (concat (map (server_deliver server snapshot) ms),
              if \<not> active2 then fst (snd (tcp_server_remove_client server' client_fd)) else server'))"

text \<open>
  \<open>epoll_ok\<close> is false if the kernel refuses to watch one more descriptor for another reason than
  that it is watched already.
\<close>

definition tcp_server_handle_listen_events ::
  "nat option \<Rightarrow> int sys \<Rightarrow> int \<Rightarrow> bool \<Rightarrow> tcp_server \<Rightarrow> u32 \<Rightarrow> tcp_server" where
  "tcp_server_handle_listen_events addr accept_sys now epoll_ok server events =
     (if events AND EPOLLIN = 0 then server
      else case tcp_server_accept_client addr accept_sys now server of
        (err, server1) \<Rightarrow>
          if err \<noteq> ZOO_SMB_OK then server1
          else if epoll_fd (common server1) = INVALID_TRANSPORT_FD \<or> clients server1 = [] then server1
          else
            let fd = sock_fd (c_socket (last (clients server1)))
            in if epoll_ok \<and> fd \<notin> set (watched server1) then server1\<lparr>watched := fd # watched server1\<rparr>
               else fst (snd (tcp_server_remove_client server1 fd)))"

text \<open>One event of \<open>epoll_wait\<close>, with what the system calls it causes answer.\<close>

record server_env =
  new_addr :: "nat option"
  accept_sys :: "int sys"
  now_time :: int
  epoll_add_ok :: bool
  recv_sys :: "nat \<Rightarrow> u8 list sys"
  payload_oks :: "nat \<Rightarrow> bool"
  snapshot_pool_ok :: bool

definition tcp_server_process_event ::
  "endian \<Rightarrow> nat option \<Rightarrow> tcp_server \<Rightarrow> server_env \<times> int \<times> u32 \<Rightarrow> (nat \<times> smb_msg) list \<times> tcp_server" where
  "tcp_server_process_event e cfg server ev =
     (case ev of (env, fd, events) \<Rightarrow>
        if fd = listen_fd server
        then ([], tcp_server_handle_listen_events (new_addr env) (accept_sys env) (now_time env)
                    (epoll_add_ok env) server events)
        else tcp_server_handle_client_events e cfg (recv_sys env) (payload_oks env) (snapshot_pool_ok env)
               server fd events)"

fun tcp_server_process_events ::
  "endian \<Rightarrow> nat option \<Rightarrow> tcp_server \<Rightarrow> (server_env \<times> int \<times> u32) list \<Rightarrow> (nat \<times> smb_msg) list \<times> tcp_server" where
  "tcp_server_process_events e cfg server [] = ([], server)"
| "tcp_server_process_events e cfg server (ev # evs) =
     (let (calls, server1) = tcp_server_process_event e cfg server ev;
          (more, server2) = tcp_server_process_events e cfg server1 evs
      in (calls @ more, server2))"

section \<open>Framing\<close>

text \<open>What \<open>recv\<close> may cut off at the end: fewer bytes than a header, or a frame without its end.\<close>

definition partial_frame :: "nat option \<Rightarrow> u8 list \<Rightarrow> bool" where
  "partial_frame cfg bs \<longleftrightarrow>
     length bs < sizeof_header \<or> (\<exists>m k. good_msg cfg m \<and> k < length (wire m) \<and> bs = take k (wire m))"

lemma frames_partial: "partial_frame cfg bs \<Longrightarrow> tcp_server_frames e cfg oks i bs = ([], True)"
proof (cases "length bs < sizeof_header")
  case True
  then show ?thesis by (simp add: tcp_server_frames.simps)
next
  case False
  assume "partial_frame cfg bs"
  with False obtain m k where m: "good_msg cfg m" "k < length (wire m)" "bs = take k (wire m)"
    by (auto simp: partial_frame_def)
  note good = good_msgD [OF m(1)]
  have wf: "wf_header (header m)" using good(1) by (simp add: wf_msg_def)
  have "bs = wire_header (header m) @ take (k - sizeof_header) (wire_payload m)"
    using m(3) False length_wire_header [OF wf] by (simp add: wire_def)
  then have "read_header Big bs = header m" by (simp add: read_wire_header wf)
  then have "zoo_smb_protocol_swap_header e (Some (read_header e bs)) = header m"
    using False by (simp add: swap_header_read)
  then show ?thesis
    using good(2) m(2,3) length_wire [OF good(1)] by (simp add: tcp_server_frames.simps Let_def)
qed

lemma frames_wire:
  assumes "\<forall>m \<in> set ms. good_msg cfg m" and "partial_frame cfg frag"
  shows "tcp_server_frames e cfg (\<lambda>_. True) i (concat (map wire ms) @ frag) = (map received ms, True)"
  using assms(1)
proof (induction ms arbitrary: i)
  case Nil
  then show ?case by (simp add: frames_partial assms(2))
next
  case (Cons m ms)
  then have good: "good_msg cfg m" and "\<forall>m \<in> set ms. good_msg cfg m" by simp_all
  note wf = good_msgD(1) [OF good] and valid = good_msgD(2) [OF good]
  let ?rest = "wire m @ concat (map wire ms) @ frag"
  have len: "sizeof_header \<le> length ?rest" using length_wire [OF wf] by simp
  have hdr: "zoo_smb_protocol_swap_header e (Some (read_header e ?rest)) = header m"
    using swap_header_read [OF len] read_wire [OF wf] by simp
  have des: "zoo_smb_protocol_deserialize e True (Some (wire m)) (length (wire m))
      (Some \<lparr>header = zero_header, payload = None\<rparr>) sizeof_msg = (ZOO_SMB_OK, Some (received m))"
    using deserialize_wire [OF wf good_msg_magic [OF good]] by simp
  have "tcp_server_frames e cfg (\<lambda>_. True) i ?rest = (received m # map received ms, True)"
    using len hdr valid des Cons.IH [of "Suc i"] \<open>\<forall>m \<in> set ms. good_msg cfg m\<close>
    by (simp add: tcp_server_frames.simps [of e cfg _ i ?rest] Let_def flip: length_wire [OF wf])
  then show ?case by simp
qed

lemma recv_ok: "0 \<le> sock_fd si \<Longrightarrow> 0 < n \<Longrightarrow> sys n = Inr bs \<Longrightarrow> zoo_socket_recv sys si n = (ZOO_SMB_OK, bs)"
  by (simp add: zoo_socket_recv_def ZOO_SMB_OK_def)

lemma find_clientD:
  "tcp_server_find_client server fd = Some c \<Longrightarrow> c \<in> set (clients server) \<and> sock_fd (c_socket c) = fd"
  by (auto simp: tcp_server_find_client_def find_Some_iff)

text \<open>An input event on an active client: the server changes nothing but the client's activity.\<close>

lemma handle_input:
  assumes "tcp_server_find_client server fd = Some c" and "c_active c" and "0 \<le> fd"
    and "distinct (map c_addr (clients server))" and "rsys TCP_RECEIVE_BUFFER_SIZE = Inr bs" and "bs \<noteq> []"
    and "tcp_server_frames e cfg oks 0 bs = (ms, True)"
  shows "tcp_server_handle_client_events e cfg rsys oks sn server fd EPOLLIN =
    (concat (map (server_deliver server sn) ms), server)"
proof -
  have "map (\<lambda>d. if c_addr d = c_addr c then d\<lparr>c_active := True\<rparr> else d) (clients server) = clients server"
  proof (rule map_idI)
    fix d assume d: "d \<in> set (clients server)"
    have "c \<in> set (clients server)" using assms(1) find_clientD by blast
    with d assms(4) have "c_addr d = c_addr c \<Longrightarrow> d = c" by (auto simp: distinct_map dest: inj_onD)
    then show "(if c_addr d = c_addr c then d\<lparr>c_active := True\<rparr> else d) = d" using assms(2) by auto
  qed
  moreover have "zoo_socket_recv rsys (c_socket c) TCP_RECEIVE_BUFFER_SIZE = (ZOO_SMB_OK, bs)"
    using recv_ok assms(3,5) find_clientD [OF assms(1)] by (auto simp: TCP_RECEIVE_BUFFER_SIZE_def)
  ultimately show ?thesis using assms(1,2,6,7)
    by (simp add: tcp_server_handle_client_events_def Let_def EPOLLIN_def EPOLLHUP_def EPOLLERR_def EPOLLRDHUP_def)
qed

section \<open>The states a server can reach\<close>

text \<open>Any sequence of calls of the interface, with any answers of the system.\<close>

inductive server_reach :: "tcp_server \<Rightarrow> bool" where
  init: "tcp_server_init config ok1 ok2 = (err, Some s) \<Longrightarrow> server_reach s"
| start: "server_reach s \<Longrightarrow> tcp_server_start e inited ss bs ls port (Some s) = (err, Some t) \<Longrightarrow> server_reach t"
| stop: "server_reach s \<Longrightarrow> tcp_server_stop (Some s) = (err, Some t, gone) \<Longrightarrow> server_reach t"
| callback: "server_reach s \<Longrightarrow> server_reach (tcp_server_register_message_callback s cb)"
| accept: "server_reach s \<Longrightarrow> tcp_server_accept_client addr as now s = (err, t) \<Longrightarrow> server_reach t"
| add: "server_reach s \<Longrightarrow> tcp_server_add_client addr now fd has_addr s = (err, t) \<Longrightarrow> server_reach t"
| remove: "server_reach s \<Longrightarrow> tcp_server_remove_client s fd = (err, t, gone) \<Longrightarrow> server_reach t"
| cleanup: "server_reach s \<Longrightarrow> server_reach (tcp_server_cleanup_disconnected_clients s)"
| events: "server_reach s \<Longrightarrow> tcp_server_process_events e cfg s evs = (calls, t) \<Longrightarrow> server_reach t"

text \<open>The invariant: a bounded list of clients without names, and no observers.\<close>

definition server_inv :: "tcp_server \<Rightarrow> bool" where
  "server_inv s \<longleftrightarrow> length (clients s) \<le> max_clients s \<and> max_clients s = TCP_MAX_CLIENTS
     \<and> (\<forall>c \<in> set (clients s). client_name c = []) \<and> srv_observers s = []"

lemma server_inv_push:
  assumes "server_inv s" and "client_name c = []"
  shows "server_inv (s\<lparr>clients := snd (seq_step (max_clients s) (clients s) (PushBack c))\<rparr>)"
  using assms by (auto simp: server_inv_def)

lemma remove_by_address_sub:
  "set (clients (remove_by_address c s)) \<subseteq> set (clients s)
   \<and> length (clients (remove_by_address c s)) \<le> length (clients s)"
proof (cases "\<exists>d \<in> set (clients s). c_addr d = c_addr c")
  case True
  then obtain d where "d \<in> set (clients s)" "c_addr d = c_addr c" by auto
  from seq_remove_if [of d "clients s" "\<lambda>d. c_addr d = c_addr c" "max_clients s", OF this]
  show ?thesis by (auto simp: remove_by_address_def)
next
  case False
  then have "List.extract (\<lambda>d. c_addr d = c_addr c) (clients s) = None" by (auto simp: extract_None_iff)
  then show ?thesis by (simp add: remove_by_address_def)
qed

lemma server_inv_remove: "server_inv s \<Longrightarrow> server_inv (remove_by_address c s)"
  using remove_by_address_sub [of c s]
  by (auto simp: server_inv_def remove_by_address_def)

lemma server_inv_remove_client: "server_inv s \<Longrightarrow> server_inv (fst (snd (tcp_server_remove_client s fd)))"
  by (simp add: tcp_server_remove_client_def server_inv_remove split: option.splits)

lemma server_inv_cleanup: "server_inv s \<Longrightarrow> server_inv (tcp_server_cleanup_from i s)"
proof (induction i s rule: tcp_server_cleanup_from.induct)
  case (1 i s)
  then show ?case
    by (subst tcp_server_cleanup_from.simps) (simp add: Let_def server_inv_remove)
qed

lemma server_inv_accept: "server_inv s \<Longrightarrow> server_inv (snd (tcp_server_accept_client addr as now s))"
  using server_inv_push
  by (auto simp: tcp_server_accept_client_def Let_def zero_client_def simp del: seq_step.simps
      split: option.splits prod.splits)

lemma server_inv_watched: "server_inv s \<Longrightarrow> server_inv (s\<lparr>watched := w\<rparr>)"
  by (simp add: server_inv_def)

lemma server_inv_active:
  "server_inv s \<Longrightarrow> server_inv (s\<lparr>clients := map (\<lambda>c. if P c then c\<lparr>c_active := b\<rparr> else c) (clients s)\<rparr>)"
  by (auto simp: server_inv_def)

lemma server_inv_event: "server_inv s \<Longrightarrow> server_inv (snd (tcp_server_process_event e cfg s ev))"
proof -
  assume s: "server_inv s"
  have "server_inv (tcp_server_handle_listen_events addr as now ok s evs)" for addr as now ok evs
    using s server_inv_accept [OF s, of addr as now]
    by (auto simp: tcp_server_handle_listen_events_def Let_def server_inv_watched server_inv_remove_client
        split: prod.splits)
  moreover have "server_inv (snd (tcp_server_handle_client_events e cfg rsys oks sn s fd evs))" for rsys oks sn fd evs
    using s by (auto simp: tcp_server_handle_client_events_def Let_def
        intro!: server_inv_remove_client server_inv_active split: prod.splits option.splits)
  ultimately show ?thesis by (auto simp: tcp_server_process_event_def split: prod.splits)
qed

lemma server_inv_events: "server_inv s \<Longrightarrow> server_inv (snd (tcp_server_process_events e cfg s evs))"
proof (induction evs arbitrary: s)
  case (Cons ev evs)
  from Cons.IH [OF server_inv_event [OF Cons.prems, of e cfg ev]] show ?case
    by (auto simp: Let_def split: prod.splits)
qed simp

lemma server_reach_inv: "server_reach s \<Longrightarrow> server_inv s"
proof (induction rule: server_reach.induct)
  case (init config ok1 ok2 err s)
  then show ?case by (auto simp: tcp_server_init_def server_inv_def Let_def split: if_splits)
next
  case (start s e inited ss bs ls port err t)
  then show ?case
    by (auto simp: tcp_server_start_def server_inv_def Let_def split: if_splits option.splits prod.splits)
next
  case (add s addr now fd has_addr err t)
  then show ?case using server_inv_push
    by (auto simp: tcp_server_add_client_def Let_def zero_client_def simp del: seq_step.simps
        split: if_splits option.splits)
next
  case (accept s addr as now err t)
  then show ?case using server_inv_accept by (metis snd_conv)
next
  case (remove s fd err t gone)
  then show ?case using server_inv_remove_client by (metis fst_conv snd_conv)
next
  case (events s e cfg evs calls t)
  then show ?case using server_inv_events by (metis snd_conv)
next
  case (cleanup s)
  then show ?case by (simp add: tcp_server_cleanup_disconnected_clients_def server_inv_cleanup)
qed (auto simp: tcp_server_stop_def server_inv_def Let_def tcp_server_register_message_callback_def)

lemma send_to_unknown_name:
  assumes "\<forall>c \<in> set (clients s). client_name c = []" and "c_str r \<noteq> []"
  shows "tcp_server_send send_sys (Some s) (Some m) (Some r) = (ZOO_SMB_ERROR_INVALID_PARAM, [])"
proof -
  have "find (\<lambda>c. c_active c \<and> client_name c = c_str r) (clients s) = None"
    using assms by (auto simp: find_None_iff)
  then show ?thesis by (simp add: tcp_server_send_def)
qed

section \<open>A full list\<close>

lemma find_last:
  assumes "xs \<noteq> []" and "distinct (map f xs)"
  shows "find (\<lambda>x. f x = f (last xs)) xs = Some (last xs)"
proof -
  obtain ys z where xs: "xs = ys @ [z]" using assms(1) by (cases xs rule: rev_cases) auto
  have skip: "\<forall>y \<in> set us. \<not> P y \<Longrightarrow> P v \<Longrightarrow> find P (us @ [v]) = Some v" for us and v :: 'a and P
    by (induction us) auto
  have "f y \<noteq> f z" if "y \<in> set ys" for y
    using assms(2) imageI [OF that, of f] unfolding xs by (auto simp del: imageI)
  with skip [of ys "\<lambda>x. f x = f z" z] show ?thesis using xs by simp
qed

lemma remove_last:
  assumes "clients s \<noteq> []" and "distinct (map c_addr (clients s))"
  shows "clients (remove_by_address (last (clients s)) s) = butlast (clients s)"
proof -
  let ?P = "\<lambda>c. c_addr c = c_addr (last (clients s))"
  obtain xs z ys where x: "clients s = xs @ z # ys" "?P z"
    "seq_step (max_clients s) (clients s) (RemoveIf ?P) = (Data (Some z), xs @ ys)"
    using seq_remove_if [of _ "clients s" ?P "max_clients s", OF last_in_set [OF assms(1)] refl] by blast
  have "ys = []"
  proof (rule ccontr)
    assume "ys \<noteq> []"
    then have "last (clients s) \<in> set ys" by (subst x(1)) simp
    then have "c_addr z \<in> c_addr ` set ys" unfolding x(2) by (rule imageI)
    moreover have "c_addr z \<notin> c_addr ` set ys" using assms(2) by (subst (asm) x(1)) simp
    ultimately show False by blast
  qed
  then have "clients s = xs @ [z]" using x(1) by simp
  then show ?thesis using x(3) \<open>ys = []\<close> by (simp add: remove_by_address_def del: seq_step.simps)
qed

section \<open>Replies\<close>

lemma send_out_prefix: "(fd, bs) \<in> set (snd (send_out sys c (Some p) n)) \<Longrightarrow> \<exists>k. bs = take k p"
  by (auto simp: send_out_def split: prod.splits option.splits if_splits)

lemma send_out_None: "snd (send_out sys c None n) = []"
  by (simp add: send_out_def zoo_socket_send_def)

lemma broadcast_prefix:
  "(fd, bs) \<in> set (snd (broadcast_loop sys m cs le)) \<Longrightarrow> \<exists>p k. payload m = Some p \<and> bs = take k p"
proof (induction cs arbitrary: le)
  case (Cons c cs)
  let ?out = "send_out sys c (payload m) (unat (payload_size (header m)))"
  have "(fd, bs) \<in> set (snd ?out) \<Longrightarrow> \<exists>p k. payload m = Some p \<and> bs = take k p"
    using send_out_prefix send_out_None by (cases "payload m") (fastforce, metis)
  with Cons.prems Cons.IH [of le] Cons.IH [of "fst ?out"] show ?case
    by (auto simp: Let_def split: if_splits prod.splits)
qed simp

text \<open>A client that reads bytes which do not start with the magic number delivers nothing.\<close>

lemma take_magic: "4 \<le> n \<Longrightarrow> magic (read_header Big (take n bs)) = magic (read_header Big bs)"
  by (simp add: read_header_def field_at_def min_absorb1)

lemma handle_foreign:
  assumes "byte_stream recv poll avail stalls live" and "live w" and "header_ok pool"
    and "magic (read_header Big (avail w)) \<noteq> ZOO_SMB_MSG_MAGIC_NUMBER"
  shows "fst (tcp_handle_incoming_data e cfg pool recv poll now obs tcp fd client w) = []"
proof (cases "length (avail w) < sizeof_header")
  case True
  with byte_stream.handle_short [OF assms(1,2) _ assms(3), of e cfg now obs tcp fd client] show ?thesis by auto
next
  case False
  then obtain w' where r: "tcp_read_with_retry recv poll w sizeof_header
      = (int sizeof_header, take sizeof_header (avail w), w')"
    using byte_stream.read_exact [OF assms(1,2), of sizeof_header] by auto
  have "zoo_smb_protocol_swap_header e (Some (read_header e (take sizeof_header (avail w))))
      = read_header Big (take sizeof_header (avail w))"
    using False by (simp add: swap_header_read)
  moreover have "magic (read_header Big (take sizeof_header (avail w))) \<noteq> ZOO_SMB_MSG_MAGIC_NUMBER"
    using assms(4) by (simp add: take_magic sizeof_header_def)
  ultimately show ?thesis using r assms(3)
    by (simp add: tcp_handle_incoming_data_def Let_def zoo_smb_protocol_is_header_valid_def validate_magic_number_def)
qed

section \<open>Properties\<close>

text \<open>
  C26. One input event delivers every complete message of what \<open>recv\<close> returned, in order and with
  the contents it was sent with, to the callback and the observers; a message cut off at the end is
  dropped without a trace, and the client stays.
\<close>

theorem tcp_server_delivers_frames:
  assumes "tcp_server_find_client server fd = Some c" and "c_active c" and "0 \<le> fd"
    and "distinct (map c_addr (clients server))"
    and "\<forall>m \<in> set ms. good_msg cfg m" and "partial_frame cfg frag"
    and "rsys TCP_RECEIVE_BUFFER_SIZE = Inr (concat (map wire ms) @ frag)"
    and "concat (map wire ms) @ frag \<noteq> []"
  shows "tcp_server_handle_client_events e cfg rsys (\<lambda>_. True) sn server fd EPOLLIN =
    (concat (map (\<lambda>m. server_deliver server sn (received m)) ms), server)"
  using handle_input [where rsys = rsys, OF assms(1-4,7,8) frames_wire [OF assms(5,6)]]
  by (simp add: comp_def)

definition sample_server :: tcp_server where
  "sample_server = \<lparr>common = zero_common\<lparr>is_server := True, running := True, epoll_fd := 3\<rparr>,
     srv_socket = zero_socket\<lparr>sock_fd := 4\<rparr>, listen_fd = 4, max_clients = TCP_MAX_CLIENTS,
     clients = [(zero_client 1)\<lparr>c_socket := zero_socket\<lparr>sock_fd := 9, is_connected := True\<rparr>, c_active := True\<rparr>],
     listen_backlog = 256, accept_new_connections = True, message_callback = Some 7, srv_observers = [],
     watched = [9]\<rparr>"

theorem tcp_server_delivers_frames_witness:
  "tcp_server_handle_client_events Little None (\<lambda>_. Inr (wire sample_msg @ wire sample_msg @ [1, 2])) (\<lambda>_. True)
     True sample_server 9 EPOLLIN = ([(7, received sample_msg), (7, received sample_msg)], sample_server)"
  using tcp_server_delivers_frames [of sample_server 9 "hd (clients sample_server)" "[sample_msg, sample_msg]" None
      "[1, 2]" "\<lambda>_. Inr (wire sample_msg @ wire sample_msg @ [1, 2])" Little True]
  by (simp add: sample_server_def tcp_server_find_client_def zero_client_def zero_socket_def sample_msg_good
      partial_frame_def sizeof_header_def server_deliver_def notify_calls)

text \<open>
  A message whose frame is larger than the receive buffer is never delivered by the server,
  although the sender accepts messages five times that size: one \<open>recv\<close> cannot hold it, what is
  there of it is dropped, and the next \<open>recv\<close> starts in its middle.
\<close>

theorem tcp_server_drops_large:
  assumes "tcp_server_find_client server fd = Some c" and "c_active c" and "0 \<le> fd"
    and "distinct (map c_addr (clients server))"
    and "good_msg cfg m" and "TCP_RECEIVE_BUFFER_SIZE < length (wire m)"
    and "rsys TCP_RECEIVE_BUFFER_SIZE = Inr bs" and "bs \<noteq> []"
    and "\<exists>n \<le> TCP_RECEIVE_BUFFER_SIZE. bs = take n (wire m @ rest)"
  shows "tcp_server_handle_client_events e cfg rsys oks sn server fd EPOLLIN = ([], server)"
proof -
  obtain n where n: "n \<le> TCP_RECEIVE_BUFFER_SIZE" "bs = take n (wire m @ rest)" using assms(9) by blast
  then have "n < length (wire m)" "bs = take n (wire m)" using assms(6) by simp_all
  with assms(5) have "partial_frame cfg bs" by (auto simp: partial_frame_def)
  from handle_input [where rsys = rsys, OF assms(1-4,7,8) frames_partial [OF this]] show ?thesis by simp
qed

definition large_msg :: smb_msg where
  "large_msg = \<lparr>header = zero_header\<lparr>magic := 0x12345678, version := 0x1001, payload_size := 9000\<rparr>,
     payload = Some (replicate 9000 0)\<rparr>"

lemma large_msg_good: "good_msg (Some 40960) large_msg" and large_msg_size: "payload_size (header large_msg) = 9000"
  by (simp_all add: large_msg_def good_msg_def wf_msg_def wf_header_def zero_header_def sizeof_header_def
      MAX_TRANSPORT_BUFFER_SIZE_def zoo_smb_protocol_is_header_valid_def validate_magic_number_def
      validate_protocol_version_def validate_payload_size_def ZOO_SMB_MSG_MAGIC_NUMBER_def ZOO_SMB_MSG_VERSION_def)

theorem tcp_server_drops_large_witness:
  "tcp_server_handle_client_events Little (Some 40960) (\<lambda>n. Inr (take n (wire large_msg))) (\<lambda>_. True)
     True sample_server 9 EPOLLIN = ([], sample_server)"
proof -
  have len: "length (wire large_msg) = 9106"
    using length_wire [of large_msg] good_msgD(1) [OF large_msg_good] large_msg_size by (simp add: sizeof_header_def)
  then have "take 8192 (wire large_msg) \<noteq> []" by auto
  with len show ?thesis
    by (intro tcp_server_drops_large [where c = "hd (clients sample_server)" and m = large_msg and rest = "[]"
          and bs = "take TCP_RECEIVE_BUFFER_SIZE (wire large_msg)"])
      (auto simp: sample_server_def tcp_server_find_client_def zero_client_def zero_socket_def large_msg_good
        TCP_RECEIVE_BUFFER_SIZE_def)
qed

text \<open>
  C39. A server never finds a client by name, and never notifies an observer: in every state it can
  reach its clients have empty names, there are no observers, and there are at most 1024 clients.
  Sending to a named receiver fails.
\<close>

theorem tcp_server_named_send_fails:
  assumes "server_reach s" and "c_str r \<noteq> []"
  shows "tcp_server_send send_sys (Some s) (Some m) (Some r) = (ZOO_SMB_ERROR_INVALID_PARAM, [])
    \<and> srv_observers s = [] \<and> length (clients s) \<le> 1024"
  using server_reach_inv [OF assms(1)] send_to_unknown_name [OF _ assms(2)]
  by (auto simp: server_inv_def TCP_MAX_CLIENTS_def)

theorem tcp_server_named_send_fails_witness:
  "\<exists>s c. server_reach s \<and> clients s = [c] \<and> c_active c
     \<and> tcp_server_send (\<lambda>_ bs. Inr (length bs)) (Some s) (Some sample_msg) (Some [65, 0])
       = (ZOO_SMB_ERROR_INVALID_PARAM, [])"
proof -
  obtain s where s: "tcp_server_init True True True = (ZOO_SMB_OK, Some s)" "clients s = []" "max_clients s = 1024"
    by (simp add: tcp_server_init_def Let_def TCP_MAX_CLIENTS_def)
  let ?t = "snd (tcp_server_accept_client (Some 1) (Inr 9) 0 s)"
  have r: "server_reach ?t"
    using server_reach.accept [OF server_reach.init [OF s(1)]] by (metis prod.collapse)
  have "\<exists>c. clients ?t = [c] \<and> c_active c"
    using s by (simp add: tcp_server_accept_client_def Let_def zoo_socket_accept_def ZOO_SMB_OK_def)
  with r tcp_server_named_send_fails [OF r, of "[65, 0]" "\<lambda>_ bs. Inr (length bs)" sample_msg]
  show ?thesis by (auto simp: c_str_def)
qed

text \<open>
  When the client list is full, one more connection disconnects an established client: the new
  client is not stored, so the handler watches the last client of the list a second time, which
  fails, and removes it. The accepted descriptor is neither watched nor kept.
\<close>

theorem tcp_server_full_drops_last:
  assumes "clients s \<noteq> []" and "length (clients s) = max_clients s"
    and "distinct (map c_addr (clients s))" and "distinct (map (\<lambda>c. sock_fd (c_socket c)) (clients s))"
    and "sock_fd (c_socket (last (clients s))) \<in> set (watched s)"
    and "epoll_fd (common s) \<noteq> INVALID_TRANSPORT_FD" and "nfd \<notin> set (watched s)"
  shows "clients (tcp_server_handle_listen_events (Some a) (Inr nfd) now ok s EPOLLIN) = butlast (clients s)
    \<and> nfd \<notin> set (watched (tcp_server_handle_listen_events (Some a) (Inr nfd) now ok s EPOLLIN))"
proof -
  have acc: "tcp_server_accept_client (Some a) (Inr nfd) now s = (ZOO_SMB_OK, s)"
    using assms(2) by (simp add: tcp_server_accept_client_def zoo_socket_accept_def Let_def ZOO_SMB_OK_def)
  have "tcp_server_find_client s (sock_fd (c_socket (last (clients s)))) = Some (last (clients s))"
    using find_last [OF assms(1,4)] by (simp add: tcp_server_find_client_def)
  then have "tcp_server_handle_listen_events (Some a) (Inr nfd) now ok s EPOLLIN
      = remove_by_address (last (clients s)) s"
    using acc assms(1,5,6)
    by (simp add: tcp_server_handle_listen_events_def Let_def tcp_server_remove_client_def EPOLLIN_def)
  then show ?thesis using remove_last [OF assms(1,3)] assms(7) by (simp add: remove_by_address_def)
qed

theorem tcp_server_full_drops_last_witness:
  "clients (tcp_server_handle_listen_events (Some 2) (Inr 10) 0 True (sample_server\<lparr>max_clients := 1\<rparr>) EPOLLIN) = []"
  using tcp_server_full_drops_last [of "sample_server\<lparr>max_clients := 1\<rparr>" 10 2 0 True]
  by (simp add: sample_server_def zero_client_def zero_socket_def zero_common_def INVALID_TRANSPORT_FD_def)

text \<open>
  What the server broadcasts is not a frame: it sends the bare payload, without a header. A
  client that receives it delivers nothing, unless the payload itself happens to start with the
  magic number.
\<close>

theorem tcp_server_reply_unreadable:
  assumes "byte_stream recv poll avail stalls live" and "live w" and "header_ok pool"
    and "(fd, bs) \<in> set (snd (tcp_server_broadcast_message send_sys server (Some m)))" and "avail w = bs"
    and "payload m = Some p" and "magic (read_header Big p) \<noteq> ZOO_SMB_MSG_MAGIC_NUMBER"
  shows "fst (tcp_handle_incoming_data e cfg pool recv poll now obs tcp cfd client w) = []"
proof (cases "length bs < sizeof_header")
  case True
  with byte_stream.handle_short [OF assms(1,2) _ assms(3), of e cfg now obs tcp cfd client] assms(5)
  show ?thesis by auto
next
  case False
  obtain k where k: "bs = take k p"
    using broadcast_prefix assms(4,6) by (fastforce simp: tcp_server_broadcast_message_def)
  then have "4 \<le> k" using False by (auto simp: sizeof_header_def)
  then have "magic (read_header Big (avail w)) \<noteq> ZOO_SMB_MSG_MAGIC_NUMBER"
    using assms(5,7) k by (simp add: take_magic)
  from handle_foreign [OF assms(1-3) this] show ?thesis .
qed

theorem tcp_server_reply_unreadable_witness:
  "(9, [1, 2, 3]) \<in> set (snd (tcp_server_broadcast_message (\<lambda>_ bs. Inr (length bs)) sample_server (Some sample_msg)))
   \<and> fst (tcp_handle_incoming_data Little None sample_pool link_recv id 0 [Some (1 :: nat)] sample_tcp 5 None
        \<lparr>bytes = [1, 2, 3], plan = [], stall_count = 0, intr_count = 0\<rparr>) = []"
proof -
  have out: "(9, [1, 2, 3]) \<in> set (snd (tcp_server_broadcast_message (\<lambda>_ bs. Inr (length bs)) sample_server (Some sample_msg)))"
    by (simp add: tcp_server_broadcast_message_def sample_server_def sample_msg_def send_out_def zoo_socket_send_def
        zero_client_def zero_socket_def zero_header_def)
  moreover have "magic (read_header Big [1, 2, 3]) \<noteq> ZOO_SMB_MSG_MAGIC_NUMBER"
    by (simp add: read_header_def field_at_def host_word_def ZOO_SMB_MSG_MAGIC_NUMBER_def)
  ultimately show ?thesis
    using tcp_server_reply_unreadable [OF link_in.byte_stream_axioms _ _ out,
        of "\<lparr>bytes = [1, 2, 3], plan = [], stall_count = 0, intr_count = 0\<rparr>" sample_pool "[1, 2, 3]"]
    by (simp add: link_live_def TCP_MAX_RETRY_COUNT_def sample_pool_def sample_msg_def)
qed

text \<open>
  A server never starts on a kernel whose \<open>bind\<close> refuses, for an IPv4 socket, every address
  that is not of family \<open>AF_INET\<close>: the address the server builds has family 0, whatever the port.
\<close>

theorem tcp_server_start_refused:
  assumes "\<forall>a. get16 e 0 a \<noteq> AF_INET \<longrightarrow> bind_sys a = Inl Other_errno"
  shows "fst (tcp_server_start e initialized sock_sys bind_sys listen_sys port (Some s)) \<noteq> ZOO_SMB_OK"
proof (cases port)
  case None
  then show ?thesis by (simp add: tcp_server_start_def)
next
  case (Some p)
  have "field_at 0 2 (take 16 (tcp_server_bind_address e p)) = [0, 0]"
    by (simp add: tcp_server_bind_address_def put16_def put32_def memcpy_at_def sizeof_sockaddr_union_def field_at_def)
  then have "get16 e 0 (take 16 (tcp_server_bind_address e p)) \<noteq> AF_INET"
    by (simp add: get16_def AF_INET_def)
  with assms have "bind_sys (take 16 (tcp_server_bind_address e p)) = Inl Other_errno" by blast
  then show ?thesis
    by (auto simp: Some tcp_server_start_def Let_def zoo_socket_create_def zoo_socket_bind_def ZOO_SMB_OK_def
        socket_error_codes zoo_error_codes split: sum.splits prod.splits)
qed

theorem tcp_server_start_refused_witness:
  "fst (tcp_server_start Little True (Inr 4) (\<lambda>a. if get16 Little 0 a = AF_INET then Inr () else Inl Other_errno)
     (Inr ()) (Some 8080) (Some sample_server)) \<noteq> ZOO_SMB_OK"
  by (rule tcp_server_start_refused) simp

end
