(* ===== verification/Tcp_Client.thy ===== *)
theory Tcp_Client
  imports Tcp_Transport
begin

text \<open>
  The TCP client \<open>src/kernal/transport/zoo_smb_transport_tcp_client.c\<close> and the reactor functions
  \<open>src/kernal/core/zoo_smb_reactor.c\<close> it uses: connecting, the event loop, reconnecting. The
  answers of the system during one attempt to connect are a record.
\<close>

section \<open>Reactor\<close>

text \<open>\<open>ctl op\<close> is \<open>epoll_ctl\<close> on the descriptor.\<close>

datatype epoll_op = EPOLL_CTL_ADD | EPOLL_CTL_MOD | EPOLL_CTL_DEL

definition zoo_smb_reactor_watch_fd :: "(epoll_op \<Rightarrow> unit sys) \<Rightarrow> zoo_error" where
  "zoo_smb_reactor_watch_fd ctl =
     (case ctl EPOLL_CTL_MOD of
        Inl en \<Rightarrow>
          if en = ENOENT then
            (case ctl EPOLL_CTL_ADD of
               Inl _ \<Rightarrow> ZOO_SMB_ERROR_TRANSPORT_INIT_FAILED
             | Inr _ \<Rightarrow> ZOO_SMB_OK)
          else ZOO_SMB_ERROR_TRANSPORT_INIT_FAILED
      | Inr _ \<Rightarrow> ZOO_SMB_OK)"

definition zoo_smb_reactor_unwatch_fd :: "(epoll_op \<Rightarrow> unit sys) \<Rightarrow> zoo_error" where
  "zoo_smb_reactor_unwatch_fd ctl =
     (case ctl EPOLL_CTL_DEL of
        Inl en \<Rightarrow> if en \<noteq> ENOENT then ZOO_SMB_ERROR_TRANSPORT_INIT_FAILED else ZOO_SMB_OK
      | Inr _ \<Rightarrow> ZOO_SMB_OK)"

text \<open>The events that are ready; the caller's counter is its length.\<close>

definition zoo_smb_reactor_wait :: "'ev list sys \<Rightarrow> zoo_error \<times> 'ev list" where
  "zoo_smb_reactor_wait wait_sys =
     (case wait_sys of
        Inl en \<Rightarrow> if en = EINTR then (ZOO_SMB_OK, []) else (ZOO_SMB_ERROR_NETWORK_IO_ERROR, [])
      | Inr evs \<Rightarrow> (ZOO_SMB_OK, evs))"

definition tcp_setup_epoll_monitoring :: "(epoll_op \<Rightarrow> unit sys) \<Rightarrow> zoo_error" where
  "tcp_setup_epoll_monitoring ctl =
     (let ret = zoo_smb_reactor_watch_fd ctl in if ret \<noteq> ZOO_SMB_OK then ret else ZOO_SMB_OK)"

definition tcp_remove_epoll_monitoring :: "(epoll_op \<Rightarrow> unit sys) \<Rightarrow> zoo_error" where
  "tcp_remove_epoll_monitoring ctl =
     (let ret = zoo_smb_reactor_unwatch_fd ctl in if ret \<noteq> ZOO_SMB_OK then ret else ZOO_SMB_OK)"

section \<open>Socket options\<close>

datatype socket_option = ZOO_SO_REUSEADDR | ZOO_SO_KEEPALIVE | ZOO_SO_RCVBUF | ZOO_SO_SNDBUF | Other_option
datatype socket_level = ZOO_SOL_SOCKET | Other_level

definition zoo_socket_setsockopt :: "unit sys \<Rightarrow> socket_level \<Rightarrow> socket_option \<Rightarrow> zoo_error" where
  "zoo_socket_setsockopt sys level option =
     (if level \<noteq> ZOO_SOL_SOCKET then ZOO_ERROR_NOT_SUPPORTED
      else if option = Other_option then ZOO_ERROR_NOT_SUPPORTED
      else case sys of Inr _ \<Rightarrow> ZOO_OK | Inl en \<Rightarrow> platform_to_zoo_error en)"

definition tcp_set_keepalive :: "unit sys \<Rightarrow> zoo_error" where
  "tcp_set_keepalive sys =
     (if zoo_socket_setsockopt sys ZOO_SOL_SOCKET ZOO_SO_KEEPALIVE \<noteq> ZOO_OK
      then ZOO_SMB_ERROR_TRANSPORT_INIT_FAILED else ZOO_SMB_OK)"

definition tcp_set_nonblocking :: "unit sys \<Rightarrow> unit sys \<Rightarrow> socket_info option \<Rightarrow> bool \<times> socket_info option" where
  "tcp_set_nonblocking getfl setfl info =
     (case info of
        None \<Rightarrow> (False, None)
      | Some si \<Rightarrow> (case zoo_socket_set_blocking getfl setfl info False of (r, info') \<Rightarrow> (r = ZOO_OK, info')))"

section \<open>State\<close>

record tcp_client =
  cl_common :: tcp_common
  cl_socket :: socket_info
  cl_observers :: "nat option list"
  max_reconnect_attempts :: int
  current_reconnect_count :: int
  auto_reconnect :: bool

definition TCP_DEFAULT_RECONNECT_INTERVAL :: int where "TCP_DEFAULT_RECONNECT_INTERVAL = 5"

text \<open>
  \<open>tcp_client_init\<close>: the configuration's address as text and its retry interval (\<open>None\<close> if there is
  no configuration); \<open>valid\<close> is whether \<open>inet_pton\<close> accepts the address.
\<close>

definition tcp_client_init ::
  "bool \<Rightarrow> bool \<Rightarrow> (u8 list \<times> int) option \<Rightarrow> nat option list \<Rightarrow> zoo_error \<times> tcp_client option" where
  "tcp_client_init ok valid config observers =
     (case config of
        None \<Rightarrow> (ZOO_SMB_ERROR_INVALID_PARAM, None)
      | Some (address, retry_interval_s) \<Rightarrow>
          if \<not> ok then (ZOO_SMB_ERROR_OUT_OF_MEMORY, None)
          else
            let client = \<lparr>cl_common =
                    \<lparr>is_server = False, running = False, epoll_fd = INVALID_TRANSPORT_FD,
                     conn_fd = INVALID_TRANSPORT_FD, conn_state = TRANSPORT_CONN_STATE_DISCONNECTED,
                     reconnect_interval = (if retry_interval_s > 0 then retry_interval_s
                       else TCP_DEFAULT_RECONNECT_INTERVAL),
                     last_connect_attempt = 0, heartbeat_interval = 0, last_heartbeat = 0\<rparr>,
                  cl_socket = \<lparr>sock_fd = 0, sock_family = ZOO_AF_INET, sock_kind = ZOO_SOCK_STREAM,
                     sock_protocol = ZOO_IPPROTO_TCP, is_connected = False, is_bound = False,
                     is_listening = False, is_blocking = False\<rparr>,
                  cl_observers = observers, max_reconnect_attempts = 5, current_reconnect_count = 0,
                  auto_reconnect = True\<rparr>
            in if c_str address = [] then (ZOO_SMB_ERROR_INVALID_PARAM, None)
               else if \<not> valid then (ZOO_SMB_ERROR_INVALID_PARAM, None)
               else (ZOO_SMB_OK, Some client))"

section \<open>Connecting\<close>

record connect_env =
  sockets_up :: bool
  socket_sys :: "int sys"
  keepalive_sys :: "unit sys"
  getfl_sys :: "unit sys"
  setfl_sys :: "unit sys"
  connect_sys :: "unit sys"
  epoll_sys :: "epoll_op \<Rightarrow> unit sys"
  clock :: int

definition tcp_client_connect_to_server :: "connect_env \<Rightarrow> tcp_client \<Rightarrow> zoo_error \<times> tcp_client" where
  "tcp_client_connect_to_server env client =
     (case zoo_socket_create (sockets_up env) (socket_sys env) ZOO_AF_INET ZOO_SOCK_STREAM ZOO_IPPROTO_TCP
             (Some (cl_socket client)) of
        (result, si) \<Rightarrow>
          let c1 = client\<lparr>cl_socket := the si\<rparr>
          in if result \<noteq> ZOO_OK then (ZOO_SMB_ERROR_SOCKET_CREATE_FAILED, c1)
             else
               let c2 = c1\<lparr>cl_common := (cl_common c1)\<lparr>conn_fd := sock_fd (cl_socket c1)\<rparr>\<rparr>;
                   close_socket = (\<lambda>c. c\<lparr>cl_socket := fst (snd (zoo_socket_close (cl_socket c)))\<rparr>)
               in if tcp_set_keepalive (keepalive_sys env) \<noteq> ZOO_SMB_OK
                  then (ZOO_SMB_ERROR_SOCKET_CONNECT_FAILED, close_socket c2)
                  else (case tcp_set_nonblocking (getfl_sys env) (setfl_sys env) (Some (cl_socket c2)) of
                      (ok, si') \<Rightarrow>
                        let c3 = c2\<lparr>cl_socket := the si'\<rparr>
                        in if \<not> ok then (ZOO_SMB_ERROR_SOCKET_CONNECT_FAILED, close_socket c3)
                           else (case zoo_socket_connect (connect_sys env) (cl_socket c3) of
                               (result, s4) \<Rightarrow>
                                 let c4 = c3\<lparr>cl_socket := s4\<rparr>;
                                     unset = (\<lambda>c. c\<lparr>cl_common := (cl_common c)\<lparr>conn_fd := INVALID_TRANSPORT_FD\<rparr>\<rparr>)
                                 in if result \<noteq> ZOO_OK \<and> result \<noteq> ZOO_ERROR_IN_PROGRESS
                                    then (ZOO_SMB_ERROR_SOCKET_CONNECT_FAILED, unset (close_socket c4))
                                    else if tcp_setup_epoll_monitoring (epoll_sys env) \<noteq> ZOO_SMB_OK
                                    then (ZOO_SMB_ERROR_SOCKET_CONNECT_FAILED, unset c4)
                                    else (ZOO_SMB_OK, c4\<lparr>cl_common := (cl_common c4)
                                            \<lparr>last_connect_attempt := clock env\<rparr>, current_reconnect_count := 0\<rparr>))))"

definition set_state :: "conn_state \<Rightarrow> tcp_client \<Rightarrow> tcp_client" where
  "set_state st client = client\<lparr>cl_common := tcp_update_connection_state (cl_common client) st\<rparr>"

definition tcp_client_auto_reconnect :: "connect_env \<Rightarrow> tcp_client \<Rightarrow> zoo_error \<times> tcp_client" where
  "tcp_client_auto_reconnect env client =
     (if current_reconnect_count client \<ge> max_reconnect_attempts client
      then (ZOO_SMB_ERROR_TRANSPORT_CONNECT_FAILED, client)
      else if clock env - last_connect_attempt (cl_common client) < reconnect_interval (cl_common client)
      then (ZOO_SMB_OK, client)
      else
        let c1 = client\<lparr>current_reconnect_count := current_reconnect_count client + 1\<rparr>
        in (case tcp_client_connect_to_server env c1 of
            (result, c2) \<Rightarrow>
              if result = ZOO_SMB_OK
              then (result, (set_state TRANSPORT_CONN_STATE_CONNECTED c2)\<lparr>current_reconnect_count := 0\<rparr>)
              else (result, c2)))"

section \<open>Life cycle and events\<close>

definition tcp_client_stop :: "tcp_client option \<Rightarrow> zoo_error \<times> tcp_client option" where
  "tcp_client_stop impl =
     (case impl of
        None \<Rightarrow> (ZOO_SMB_ERROR_INVALID_PARAM, None)
      | Some c \<Rightarrow> (ZOO_SMB_OK, Some (set_state TRANSPORT_CONN_STATE_DISCONNECTED
            (c\<lparr>cl_common := (cl_common c)\<lparr>running := False\<rparr>\<rparr>))))"

definition tcp_client_destroy :: "tcp_client option \<Rightarrow> zoo_error \<times> fd_call list" where
  "tcp_client_destroy impl =
     (case impl of
        None \<Rightarrow> (ZOO_SMB_ERROR_INVALID_PARAM, [])
      | Some c \<Rightarrow>
          let c1 = (if running (cl_common c) then the (snd (tcp_client_stop (Some c))) else c);
              (common2, calls) = tcp_cleanup_connection (cl_common c1) (conn_fd (cl_common c1))
          in (ZOO_SMB_OK, calls @ (if epoll_fd common2 \<noteq> INVALID_TRANSPORT_FD then [Close_fd (epoll_fd common2)] else [])))"

definition tcp_client_is_started :: "tcp_client option \<Rightarrow> bool" where
  "tcp_client_is_started impl =
     (case impl of
        None \<Rightarrow> False
      | Some c \<Rightarrow> running (cl_common c) \<and> conn_state (cl_common c) = TRANSPORT_CONN_STATE_CONNECTED)"

definition tcp_client_send ::
  "endian \<Rightarrow> u8 list option \<Rightarrow> ('w \<Rightarrow> u8 list \<Rightarrow> send_result \<times> 'w) \<Rightarrow> ('w \<Rightarrow> 'w) \<Rightarrow> 'w \<Rightarrow> tcp_client option
   \<Rightarrow> smb_msg option \<Rightarrow> (zoo_error \<times> 'w) option" where
  "tcp_client_send e raw send poll w impl msg =
     (case (impl, msg) of
        (Some c, Some m) \<Rightarrow>
          if \<not> running (cl_common c) \<or> conn_fd (cl_common c) = INVALID_TRANSPORT_FD
          then Some (ZOO_SMB_ERROR_TRANSPORT_CONNECT_FAILED, w)
          else tcp_send_complete_message e raw send poll w msg
      | _ \<Rightarrow> Some (ZOO_SMB_ERROR_INVALID_PARAM, w))"

text \<open>Up to the event loop; \<open>epoll\<close> is the result of \<open>epoll_create1\<close>.\<close>

definition tcp_client_start :: "int sys \<Rightarrow> connect_env \<Rightarrow> tcp_client option \<Rightarrow> zoo_error \<times> tcp_client option" where
  "tcp_client_start epoll env impl =
     (case impl of
        None \<Rightarrow> (ZOO_SMB_ERROR_INVALID_PARAM, None)
      | Some c \<Rightarrow>
          if running (cl_common c) then (ZOO_SMB_OK, impl)
          else (case epoll of
              Inl _ \<Rightarrow> (ZOO_SMB_ERROR_TRANSPORT_INIT_FAILED, Some (c\<lparr>cl_common := (cl_common c)\<lparr>epoll_fd := -1\<rparr>\<rparr>))
            | Inr ep \<Rightarrow>
                let c1 = c\<lparr>cl_common := (cl_common c)\<lparr>epoll_fd := ep\<rparr>\<rparr>
                in (case tcp_client_connect_to_server env c1 of
                    (result, c2) \<Rightarrow>
                      if result \<noteq> ZOO_SMB_OK
                      then (result, Some (c2\<lparr>cl_common := (cl_common c2)\<lparr>epoll_fd := INVALID_TRANSPORT_FD\<rparr>\<rparr>))
                      else (ZOO_SMB_OK, Some (set_state TRANSPORT_CONN_STATE_CONNECTED
                              (c2\<lparr>cl_common := (cl_common c2)\<lparr>running := True\<rparr>\<rparr>))))))"

definition tcp_client_handle_connection_events ::
  "endian \<Rightarrow> nat option \<Rightarrow> tcp_pool \<Rightarrow> ('w \<Rightarrow> nat \<Rightarrow> recv_result \<times> 'w) \<Rightarrow> ('w \<Rightarrow> 'w) \<Rightarrow> int \<Rightarrow> tcp_client \<Rightarrow> u32 \<Rightarrow> 'w
   \<Rightarrow> (nat \<times> smb_msg) list \<times> tcp_client \<times> 'w" where
  "tcp_client_handle_connection_events e cfg pool recv poll now client events w =
     (if tcp_is_connection_lost_event events then
        ([], set_state TRANSPORT_CONN_STATE_DISCONNECTED
           (client\<lparr>cl_common := fst (tcp_cleanup_connection (cl_common client) (conn_fd (cl_common client)))\<rparr>), w)
      else if events AND EPOLLIN \<noteq> 0 then
        (case tcp_handle_incoming_data e cfg pool recv poll now (cl_observers client) (cl_common client)
                (conn_fd (cl_common client)) None w of
           (calls, common, _, w') \<Rightarrow> (calls, client\<lparr>cl_common := common\<rparr>, w'))
      else ([], client, w))"

fun tcp_client_process_events ::
  "endian \<Rightarrow> nat option \<Rightarrow> tcp_pool \<Rightarrow> ('w \<Rightarrow> nat \<Rightarrow> recv_result \<times> 'w) \<Rightarrow> ('w \<Rightarrow> 'w) \<Rightarrow> int \<Rightarrow> tcp_client
   \<Rightarrow> (int \<times> u32) list \<Rightarrow> 'w \<Rightarrow> (nat \<times> smb_msg) list \<times> tcp_client \<times> 'w" where
  "tcp_client_process_events e cfg pool recv poll now client [] w = ([], client, w)"
| "tcp_client_process_events e cfg pool recv poll now client ((fd, ev_flags) # evs) w =
     (if fd = conn_fd (cl_common client) then
        case tcp_client_handle_connection_events e cfg pool recv poll now client ev_flags w of
          (calls, c1, w1) \<Rightarrow>
            (case tcp_client_process_events e cfg pool recv poll now c1 evs w1 of
               (calls2, c2, w2) \<Rightarrow> (calls @ calls2, c2, w2))
      else tcp_client_process_events e cfg pool recv poll now client evs w)"

text \<open>One round of \<open>tcp_client_event_loop\<close>.\<close>

definition tcp_client_event_round ::
  "endian \<Rightarrow> nat option \<Rightarrow> tcp_pool \<Rightarrow> ('w \<Rightarrow> nat \<Rightarrow> recv_result \<times> 'w) \<Rightarrow> ('w \<Rightarrow> 'w) \<Rightarrow> connect_env
   \<Rightarrow> (int \<times> u32) list sys \<Rightarrow> tcp_client \<Rightarrow> 'w \<Rightarrow> (nat \<times> smb_msg) list \<times> tcp_client \<times> 'w" where
  "tcp_client_event_round e cfg pool recv poll env wait_sys client w =
     (case zoo_smb_reactor_wait wait_sys of
        (wait_ret, evs) \<Rightarrow>
          if wait_ret \<noteq> ZOO_SMB_OK
          then ([], client\<lparr>cl_common := fst (tcp_cleanup_connection (cl_common client) (conn_fd (cl_common client)))\<rparr>, w)
          else (case tcp_client_process_events e cfg pool recv poll (clock env) client evs w of
              (calls, c1, w1) \<Rightarrow>
                (calls,
                 if conn_state (cl_common c1) = TRANSPORT_CONN_STATE_DISCONNECTED \<and> auto_reconnect c1
                 then snd (tcp_client_auto_reconnect env c1) else c1, w1)))"

definition tcp_client_reset_connection :: "tcp_client \<Rightarrow> tcp_client" where
  "tcp_client_reset_connection client =
     set_state TRANSPORT_CONN_STATE_DISCONNECTED
       (client\<lparr>current_reconnect_count := 0,
        cl_common := (cl_common client)\<lparr>last_connect_attempt := 0, last_heartbeat := 0\<rparr>\<rparr>)"

section \<open>Reconnecting\<close>

lemma update_state: "tcp_update_connection_state tcp st = tcp\<lparr>conn_state := st\<rparr>"
  by (simp add: tcp_update_connection_state_def)

lemma connect_codes [simp]:
  "ZOO_ERROR_NOT_INIT \<noteq> ZOO_OK" "ZOO_ERROR_INVALID_PARAM \<noteq> ZOO_ERROR_IN_PROGRESS"
  "ZOO_ERROR_CONNECTION_REFUSED \<noteq> ZOO_ERROR_IN_PROGRESS" "ZOO_ERROR_CONNECTION_REFUSED \<noteq> ZOO_OK"
  by (simp_all add: socket_error_codes zoo_error_codes)

text \<open>How an attempt can end, and what it keeps.\<close>

definition attempt_ok :: "connect_env \<Rightarrow> tcp_client \<Rightarrow> zoo_error \<times> tcp_client \<Rightarrow> bool" where
  "attempt_ok env c r \<longleftrightarrow>
     max_reconnect_attempts (snd r) = max_reconnect_attempts c
     \<and> reconnect_interval (cl_common (snd r)) = reconnect_interval (cl_common c)
     \<and> conn_state (cl_common (snd r)) = conn_state (cl_common c)
     \<and> is_server (cl_common (snd r)) = is_server (cl_common c)
     \<and> (if fst r = ZOO_SMB_OK
         then socket_sys env = Inr (conn_fd (cl_common (snd r))) \<and> 0 \<le> conn_fd (cl_common (snd r))
           \<and> connect_sys env \<noteq> Inl ECONNREFUSED
           \<and> last_connect_attempt (cl_common (snd r)) = clock env \<and> current_reconnect_count (snd r) = 0
         else last_connect_attempt (cl_common (snd r)) = last_connect_attempt (cl_common c)
           \<and> current_reconnect_count (snd r) = current_reconnect_count c)"

lemma connect_outcome: "attempt_ok env c (tcp_client_connect_to_server env c)"
proof (cases "sockets_up env")
  case False
  then show ?thesis
    by (simp add: tcp_client_connect_to_server_def zoo_socket_create_def Let_def attempt_ok_def)
next
  case up: True
  show ?thesis
  proof (cases "socket_sys env")
    case (Inl en)
    then show ?thesis using up
      by (simp add: tcp_client_connect_to_server_def zoo_socket_create_def Let_def attempt_ok_def)
  next
    case (Inr fd)
    note start = tcp_client_connect_to_server_def zoo_socket_create_def Let_def up Inr attempt_ok_def
      tcp_set_nonblocking_def zoo_socket_set_blocking_def
    show ?thesis
    proof (cases "tcp_set_keepalive (keepalive_sys env) = ZOO_SMB_OK \<and> getfl_sys env = Inr () \<and> setfl_sys env = Inr ()")
      case False
      then show ?thesis
        by (cases "getfl_sys env"; cases "setfl_sys env"; cases "tcp_set_keepalive (keepalive_sys env) = ZOO_SMB_OK")
          (simp_all add: start)
    next
      case True
      then show ?thesis
        by (cases "connect_sys env"; cases "fd < 0"; cases "fd = ZOO_INVALID_SOCKET";
            cases "tcp_setup_epoll_monitoring (epoll_sys env) = ZOO_SMB_OK")
          (auto simp: start zoo_socket_connect_def split: if_splits)
    qed
  qed
qed

lemma reconnect_attempt:
  assumes "current_reconnect_count c < max_reconnect_attempts c"
    and "reconnect_interval (cl_common c) \<le> clock env - last_connect_attempt (cl_common c)"
    and "connect_sys env = Inl ECONNREFUSED"
  shows "current_reconnect_count (snd (tcp_client_auto_reconnect env c)) = current_reconnect_count c + 1
    \<and> max_reconnect_attempts (snd (tcp_client_auto_reconnect env c)) = max_reconnect_attempts c
    \<and> reconnect_interval (cl_common (snd (tcp_client_auto_reconnect env c))) = reconnect_interval (cl_common c)
    \<and> last_connect_attempt (cl_common (snd (tcp_client_auto_reconnect env c))) = last_connect_attempt (cl_common c)"
proof -
  let ?c1 = "c\<lparr>current_reconnect_count := current_reconnect_count c + 1\<rparr>"
  obtain r c2 where r: "tcp_client_connect_to_server env ?c1 = (r, c2)" by fastforce
  then show ?thesis
    using connect_outcome [of env ?c1] assms
    by (auto simp: tcp_client_auto_reconnect_def Let_def attempt_ok_def split: if_splits)
qed

fun reconnect_all :: "connect_env list \<Rightarrow> tcp_client \<Rightarrow> tcp_client" where
  "reconnect_all [] c = c"
| "reconnect_all (env # envs) c = reconnect_all envs (snd (tcp_client_auto_reconnect env c))"

lemma reconnect_all_append: "reconnect_all (xs @ ys) c = reconnect_all ys (reconnect_all xs c)"
  by (induction xs arbitrary: c) auto

lemma reconnect_burst:
  assumes "connect_sys env = Inl ECONNREFUSED"
    and "reconnect_interval (cl_common c) \<le> clock env - last_connect_attempt (cl_common c)"
    and "current_reconnect_count c + int n \<le> max_reconnect_attempts c"
  shows "current_reconnect_count (reconnect_all (replicate n env) c) = current_reconnect_count c + int n
    \<and> max_reconnect_attempts (reconnect_all (replicate n env) c) = max_reconnect_attempts c"
  using assms
proof (induction n arbitrary: c)
  case (Suc n)
  have "current_reconnect_count c < max_reconnect_attempts c" using Suc.prems(3) by simp
  from reconnect_attempt [OF this Suc.prems(2,1)] show ?case
    using Suc.IH [of "snd (tcp_client_auto_reconnect env c)"] Suc.prems by simp
qed simp

lemma reconnect_exhausted:
  "max_reconnect_attempts c \<le> current_reconnect_count c \<Longrightarrow> reconnect_all envs c = c"
  by (induction envs) (simp_all add: tcp_client_auto_reconnect_def)

section \<open>The states a client can reach\<close>

inductive client_reach :: "tcp_client \<Rightarrow> bool" where
  init: "tcp_client_init ok valid config obs = (err, Some c) \<Longrightarrow> client_reach c"
| start: "client_reach c \<Longrightarrow> tcp_client_start epoll env (Some c) = (err, Some d) \<Longrightarrow> client_reach d"
| stop: "client_reach c \<Longrightarrow> tcp_client_stop (Some c) = (err, Some d) \<Longrightarrow> client_reach d"
| round: "client_reach c \<Longrightarrow> running (cl_common c) \<Longrightarrow>
    tcp_client_event_round e cfg pool (recv :: tcp_link \<Rightarrow> nat \<Rightarrow> recv_result \<times> tcp_link) poll env wait_sys c w = (calls, d, w') \<Longrightarrow>
    client_reach d"
| heartbeat: "client_reach c \<Longrightarrow>
    client_reach (c\<lparr>cl_common := fst (tcp_check_heartbeat_timeout (cl_common c) now)\<rparr>)"
| reset: "client_reach c \<Longrightarrow> client_reach (tcp_client_reset_connection c)"

definition client_inv :: "tcp_client \<Rightarrow> bool" where
  "client_inv c \<longleftrightarrow> \<not> is_server (cl_common c) \<and> max_reconnect_attempts c = 5
     \<and> 0 \<le> current_reconnect_count c \<and> current_reconnect_count c \<le> 5
     \<and> (conn_state (cl_common c) = TRANSPORT_CONN_STATE_CONNECTED \<longrightarrow>
          0 \<le> conn_fd (cl_common c) \<and> running (cl_common c))"

lemma connect_running:
  "running (cl_common (snd (tcp_client_connect_to_server env c))) = running (cl_common c)"
  by (simp add: tcp_client_connect_to_server_def Let_def split: prod.splits)

lemma client_inv_reconnect:
  assumes "client_inv c" and "running (cl_common c)"
    and "conn_state (cl_common c) = TRANSPORT_CONN_STATE_DISCONNECTED"
  shows "client_inv (snd (tcp_client_auto_reconnect env c))"
proof -
  let ?c1 = "c\<lparr>current_reconnect_count := current_reconnect_count c + 1\<rparr>"
  show ?thesis
    using connect_outcome [of env ?c1] connect_running [of env ?c1] assms
    by (auto simp: tcp_client_auto_reconnect_def Let_def attempt_ok_def client_inv_def set_state_def
        update_state split: prod.splits if_splits)
qed

lemma cleanup_own:
  "\<not> is_server tcp \<Longrightarrow> fst (tcp_cleanup_connection tcp (conn_fd tcp)) =
     tcp\<lparr>conn_fd := INVALID_TRANSPORT_FD, conn_state := TRANSPORT_CONN_STATE_DISCONNECTED\<rparr>"
  by (simp add: tcp_cleanup_connection_def Let_def update_state)

lemma client_inv_lost:
  "client_inv c \<Longrightarrow> client_inv (c\<lparr>cl_common := fst (tcp_cleanup_connection (cl_common c) (conn_fd (cl_common c)))\<rparr>)"
  by (simp add: client_inv_def cleanup_own)

lemma incoming_common:
  "fst (snd (tcp_handle_incoming_data e cfg pool recv poll now obs tcp fd info w)) \<in>
     {tcp, tcp\<lparr>last_heartbeat := now\<rparr>}"
  by (simp add: tcp_handle_incoming_data_def Let_def split_beta)

lemma client_inv_events:
  "client_inv c \<Longrightarrow> running (cl_common c) \<Longrightarrow> tcp_client_handle_connection_events e cfg pool recv poll now c ev w = (calls, d, w')
   \<Longrightarrow> client_inv d \<and> running (cl_common d)"
  using client_inv_lost [of c]
    incoming_common [of e cfg pool recv poll now "cl_observers c" "cl_common c" "conn_fd (cl_common c)" None w]
  by (auto simp: tcp_client_handle_connection_events_def set_state_def update_state client_inv_def
      cleanup_own split: if_splits prod.splits)

lemma client_inv_process:
  "client_inv c \<Longrightarrow> running (cl_common c) \<Longrightarrow> tcp_client_process_events e cfg pool recv poll now c evs w = (calls, d, w')
   \<Longrightarrow> client_inv d \<and> running (cl_common d)"
proof (induction evs arbitrary: c w calls)
  case (Cons ev evs)
  then show ?case
    by (cases ev) (auto split: if_splits prod.splits dest: client_inv_events)
qed simp

lemma client_reach_inv: "client_reach c \<Longrightarrow> client_inv c"
proof (induction rule: client_reach.induct)
  case (init ok valid config obs err c)
  then show ?case by (auto simp: tcp_client_init_def client_inv_def Let_def split: option.splits if_splits)
next
  case (start c epoll env err d)
  show ?case
  proof (cases epoll)
    case (Inl en)
    with start show ?thesis by (auto simp: tcp_client_start_def client_inv_def split: if_splits)
  next
    case (Inr ep)
    let ?c1 = "c\<lparr>cl_common := (cl_common c)\<lparr>epoll_fd := ep\<rparr>\<rparr>"
    show ?thesis
      using start Inr connect_outcome [of env ?c1] connect_running [of env ?c1]
      by (auto simp: tcp_client_start_def Let_def attempt_ok_def client_inv_def set_state_def
          update_state split: if_splits prod.splits)
  qed
next
  case (stop c err d)
  then show ?case by (auto simp: tcp_client_stop_def client_inv_def set_state_def update_state)
next
  case (round c e cfg pool recv poll env wait_sys w calls d w')
  obtain wr evs where wr: "zoo_smb_reactor_wait wait_sys = (wr, evs)" by fastforce
  obtain calls1 c1 w1 where pe: "tcp_client_process_events e cfg pool recv poll (clock env) c evs w = (calls1, c1, w1)"
    by (metis prod.exhaust)
  have inv: "client_inv c1" "running (cl_common c1)"
    using client_inv_process [OF round.IH round.hyps(2) pe] by auto
  show ?case
  proof (cases "wr = ZOO_SMB_OK")
    case False
    then show ?thesis using round.hyps(3) wr client_inv_lost [OF round.IH] by (auto simp: tcp_client_event_round_def)
  next
    case True
    then have "d = (if conn_state (cl_common c1) = TRANSPORT_CONN_STATE_DISCONNECTED \<and> auto_reconnect c1
        then snd (tcp_client_auto_reconnect env c1) else c1)"
      using round.hyps(3) wr pe by (simp add: tcp_client_event_round_def)
    then show ?thesis using client_inv_reconnect [OF inv] inv(1) by simp
  qed
next
  case (heartbeat c now)
  then show ?case using client_inv_lost [of c] by (simp add: tcp_check_heartbeat_timeout_def Let_def)
next
  case (reset c)
  then show ?case
    by (auto simp: tcp_client_reset_connection_def client_inv_def set_state_def update_state)
qed

section \<open>Properties\<close>

text \<open>
  The pause between attempts to reconnect is not kept: a failed attempt does not record its
  time, so five rounds of the event loop at the same moment use up all five attempts; and once they
  are used up the client never tries again, whatever happens later.
\<close>

theorem tcp_client_gives_up:
  assumes "current_reconnect_count c = 0" and "max_reconnect_attempts c = 5"
    and "connect_sys env = Inl ECONNREFUSED"
    and "reconnect_interval (cl_common c) \<le> clock env - last_connect_attempt (cl_common c)"
  shows "current_reconnect_count (reconnect_all (replicate 5 env) c) = 5
    \<and> reconnect_all (replicate 5 env @ later) c = reconnect_all (replicate 5 env) c"
  using reconnect_burst [OF assms(3,4), of 5] assms(1,2)
    reconnect_exhausted [of "reconnect_all (replicate 5 env) c" later]
  by (simp add: reconnect_all_append)

definition sample_env :: connect_env where
  "sample_env = \<lparr>sockets_up = True, socket_sys = Inr 5, keepalive_sys = Inr (), getfl_sys = Inr (), setfl_sys = Inr (),
     connect_sys = Inr (), epoll_sys = (\<lambda>_. Inr ()), clock = 100\<rparr>"

theorem tcp_client_gives_up_witness:
  "\<exists>c. tcp_client_init True True (Some ([49, 0], 0)) [] = (ZOO_SMB_OK, Some c)
     \<and> reconnect_all (replicate 5 (sample_env\<lparr>connect_sys := Inl ECONNREFUSED\<rparr>) @ [sample_env]) c
       = reconnect_all (replicate 5 (sample_env\<lparr>connect_sys := Inl ECONNREFUSED\<rparr>)) c"
proof -
  obtain c where c: "tcp_client_init True True (Some ([49, 0], 0)) [] = (ZOO_SMB_OK, Some c)"
    "current_reconnect_count c = 0" "max_reconnect_attempts c = 5" "reconnect_interval (cl_common c) = 5"
    "last_connect_attempt (cl_common c) = 0"
    by (simp add: tcp_client_init_def Let_def c_str_def TCP_DEFAULT_RECONNECT_INTERVAL_def)
  with tcp_client_gives_up [of c "sample_env\<lparr>connect_sys := Inl ECONNREFUSED\<rparr>" "[sample_env]"]
  show ?thesis by (simp add: sample_env_def)
qed


lemma sample_connects: "fst (tcp_client_connect_to_server sample_env c) = ZOO_SMB_OK"
  by (simp add: tcp_client_connect_to_server_def Let_def sample_env_def zoo_socket_create_def tcp_set_keepalive_def
      zoo_socket_setsockopt_def tcp_set_nonblocking_def zoo_socket_set_blocking_def zoo_socket_connect_def
      ZOO_INVALID_SOCKET_def tcp_setup_epoll_monitoring_def zoo_smb_reactor_watch_fd_def)


end
