(* ===== verification/Shm_Common.thy ===== *)
theory Shm_Common
  imports Wire Ring_Queue
begin

text \<open>
  What the two sides of the shared-memory transport have in common, from
  \<open>src/kernal/transport/zoo_smb_transport_shm_common.c\<close> and its header: the structures in shared
  memory, the keys of the segments, the table of notification descriptors, the segment of a client
  with its two rings, and the registration area through which a client introduces itself.

  The System V segments are a state of their own (\<open>shm_os\<close>): which key leads to which segment, and
  what the segments hold. A segment removed with \<open>IPC_RMID\<close> loses its key and stays with those who
  have it attached. Names are the characters of the C strings. Answers of the pool and of system
  calls are arguments.
\<close>

section \<open>Structures\<close>

definition ZOO_SMB_SHM_MAX_CLIENTS :: nat where "ZOO_SMB_SHM_MAX_CLIENTS = 1024"
definition ZOO_SMB_SHM_RING_BUFFER_SIZE :: nat where "ZOO_SMB_SHM_RING_BUFFER_SIZE = 2 * 1024 * 1024"
definition ZOO_SMB_SHM_CLIENT_SIZE :: nat where
  "ZOO_SMB_SHM_CLIENT_SIZE = ZOO_SMB_SHM_RING_BUFFER_SIZE * 2 + 4096"
definition ZOO_SMB_SHM_MAX_PENDING_REGISTRATIONS :: nat where "ZOO_SMB_SHM_MAX_PENDING_REGISTRATIONS = 16"
definition ZOO_SMB_SHM_KEY_BASE :: u32 where "ZOO_SMB_SHM_KEY_BASE = 0x12345000"
definition MAX_TRANSPORT_NAME_LENGTH :: nat where "MAX_TRANSPORT_NAME_LENGTH = 32"

text \<open>\<open>ZOO_SMB_PROTOCOL_VERSION\<close> as the 32-bit version field of the headers has it.\<close>

abbreviation shm_version :: u32 where "shm_version \<equiv> ucast ZOO_SMB_PROTOCOL_VERSION"

record shm_client_header =
  ch_magic :: u32
  ch_version :: u32
  ch_client_name :: "u8 list"
  ch_pid :: int

record shm_server_header =
  sh_magic :: u32
  sh_version :: u32
  client_count :: u32
  sh_max_clients :: u32
  server_start_time :: int
  server_running :: bool
  has_pending_messages :: bool
  sh_event_fd :: int
  next_available_id :: int

datatype reg_status =
  ZOO_SMB_REGISTRATION_EMPTY | ZOO_SMB_REGISTRATION_PENDING
  | ZOO_SMB_REGISTRATION_SUCCESS | ZOO_SMB_REGISTRATION_FAILED

record registration =
  reg_status :: reg_status
  reg_client_name :: "u8 list"
  reg_client_pid :: int
  reg_client_shm_key :: u32
  reg_client_shm_size :: nat
  reg_client_event_fd :: int
  reg_timestamp :: int

text \<open>The master segment: the server's header and the registration area behind it.\<close>

record shm_master =
  ms_header :: shm_server_header
  ms_slots :: "registration list"

definition zero_registration :: registration where
  "zero_registration = \<lparr>reg_status = ZOO_SMB_REGISTRATION_EMPTY, reg_client_name = [], reg_client_pid = 0,
     reg_client_shm_key = 0, reg_client_shm_size = 0, reg_client_event_fd = 0, reg_timestamp = 0\<rparr>"

text \<open>
  \<open>SHM_CLIENT_INFO_STRUCT\<close>, with the address of the structure: each process has its own for a
  client, and the server's lists hold pointers to it.
\<close>

record shm_client_info =
  ci_addr :: nat
  client_id :: int
  ci_name :: "u8 list"
  ci_pid :: int
  ci_state :: conn_state
  ci_last_heartbeat :: int
  ci_connect_time :: int
  ci_shm_key :: u32
  ci_shm_id :: int
  ci_shm_addr :: "nat option"
  ci_shm_size :: nat
  tx_ring :: "ring_handle option"
  rx_ring :: "ring_handle option"
  ci_event_fd :: int

text \<open>A client's segment: the header and the memory of the two rings.\<close>

record shm_segment =
  seg_size :: nat
  seg_header :: shm_client_header
  seg_tx :: ring_shm
  seg_rx :: ring_shm

record shm_os =
  shm_keys :: "u32 \<Rightarrow> int option"
  shm_segs :: "int \<Rightarrow> shm_segment option"

definition shm_remove :: "int \<Rightarrow> shm_os \<Rightarrow> shm_os" where
  "shm_remove i os = os\<lparr>shm_keys := (\<lambda>k. if shm_keys os k = Some i then None else shm_keys os k)\<rparr>"

definition update_seg :: "int \<Rightarrow> (shm_segment \<Rightarrow> shm_segment) \<Rightarrow> shm_os \<Rightarrow> shm_os" where
  "update_seg i f os = os\<lparr>shm_segs := (shm_segs os)(i := map_option f (shm_segs os i))\<rparr>"

text \<open>The bytes of a ring's memory; creating a ring overwrites the 192 bytes of its control structure.\<close>

definition ring_memory :: "ring_shm \<Rightarrow> u8 list" where
  "ring_memory shm = replicate sizeof_control 0 @ area shm"

definition sizeof_client_header :: nat where "sizeof_client_header = 96"

text \<open>The size of one ring of a segment, computed in \<open>size_t\<close>.\<close>

definition shm_ring_size :: "nat \<Rightarrow> nat" where
  "shm_ring_size n = unat ((word_of_nat n - word_of_nat sizeof_client_header :: u64) div 2)"

definition zero_control :: ring_control where
  "zero_control = \<lparr>rc_magic = 0, rc_version = 0, rc_total_size = 0, rc_data_size = 0, write_pos = 0,
     read_pos = 0, write_seq = 0, read_seq = 0, initialized = False, corrupted = False, total_writes = 0,
     total_reads = 0, write_bytes = 0, read_bytes = 0, overruns = 0, underruns = 0, active_writers = 0,
     active_readers = 0, allow_overwrite = False\<rparr>"

definition zero_segment :: "nat \<Rightarrow> shm_segment" where
  "zero_segment n =
     (let r = \<lparr>ctl = zero_control, area = replicate (shm_ring_size n - sizeof_control) 0\<rparr>
      in \<lparr>seg_size = n, seg_header = \<lparr>ch_magic = 0, ch_version = 0, ch_client_name = [], ch_pid = 0\<rparr>,
          seg_tx = r, seg_rx = r\<rparr>)"

section \<open>Notification descriptors\<close>

definition ZOO_SMB_EVENTFD_PAIR_CAPACITY :: nat where "ZOO_SMB_EVENTFD_PAIR_CAPACITY = 32"

definition shm_register_eventfd_pair :: "int \<Rightarrow> int \<Rightarrow> (int \<times> int) list \<Rightarrow> (int \<times> int) list" where
  "shm_register_eventfd_pair primary_fd peer_fd pairs =
     (if primary_fd < 0 \<or> peer_fd < 0 \<or> length pairs \<ge> ZOO_SMB_EVENTFD_PAIR_CAPACITY then pairs
      else pairs @ [(primary_fd, peer_fd)])"

text \<open>The loop from position \<open>i\<close> on; the last pair takes the place of the one removed. The closed descriptors come second.\<close>

function shm_unregister_from :: "int \<Rightarrow> (int \<times> int) list \<Rightarrow> nat \<Rightarrow> (int \<times> int) list \<times> int list" where
  "shm_unregister_from event_fd pairs i =
     (if i < length pairs then
        if fst (pairs ! i) = event_fd \<or> snd (pairs ! i) = event_fd then
          let closed = (if fst (pairs ! i) \<ge> 0 then [fst (pairs ! i)] else [])
                       @ (if snd (pairs ! i) \<ge> 0 then [snd (pairs ! i)] else []);
              pairs1 = pairs[i := (-1, -1)];
              pairs2 = (if i + 1 < length pairs then pairs1[i := pairs1 ! (length pairs - 1)] else pairs1)
          in (take (length pairs - 1) pairs2, closed)
        else shm_unregister_from event_fd pairs (i + 1)
      else (pairs, []))"
  by pat_completeness auto

termination shm_unregister_from
  by (relation "measure (\<lambda>(_, pairs, i). length pairs - i)") auto

declare shm_unregister_from.simps [simp del]

definition shm_unregister_eventfd_pair :: "int \<Rightarrow> (int \<times> int) list \<Rightarrow> (int \<times> int) list \<times> int list" where
  "shm_unregister_eventfd_pair event_fd pairs = shm_unregister_from event_fd pairs 0"

text \<open>
  \<open>event_sys\<close> is the answer of \<open>eventfd\<close> (\<open>None\<close> where there is none or it fails), \<open>pair_sys\<close> that of
  \<open>socketpair\<close>, the others those of \<open>fcntl\<close>. Returned are the descriptor, the table, and what was closed.
\<close>

definition shm_eventfd_create ::
  "int option \<Rightarrow> (int \<times> int) option \<Rightarrow> bool \<Rightarrow> bool \<Rightarrow> (int \<times> int) list \<Rightarrow> int \<times> (int \<times> int) list \<times> int list" where
  "shm_eventfd_create event_sys pair_sys getfl setfl pairs =
     (case event_sys of
        Some fd \<Rightarrow> (fd, pairs, [])
      | None \<Rightarrow>
          (case pair_sys of
             None \<Rightarrow> (-1, pairs, [])
           | Some (a, b) \<Rightarrow>
               if \<not> getfl then (-1, pairs, [a, b])
               else if \<not> setfl then (-1, pairs, [a, b])
               else (a, shm_register_eventfd_pair b a (shm_register_eventfd_pair a b pairs), [])))"

definition shm_eventfd_close :: "int \<Rightarrow> (int \<times> int) list \<Rightarrow> (int \<times> int) list \<times> int list" where
  "shm_eventfd_close event_fd pairs =
     (if event_fd < 0 then (pairs, []) else shm_unregister_eventfd_pair event_fd pairs)"

section \<open>The segment of a client\<close>

text \<open>
  \<open>excl\<close>, \<open>again\<close> are the identifiers the kernel gives to a new segment in the first and the second
  \<open>shmget\<close>, \<open>addr\<close> where \<open>shmat\<close> maps it. The first call fails where the key is taken.
\<close>

definition shm_create_client_segment ::
  "int option \<Rightarrow> int option \<Rightarrow> nat option \<Rightarrow> shm_os \<Rightarrow> shm_client_info option \<Rightarrow> zoo_error \<times> shm_os \<times> shm_client_info option" where
  "shm_create_client_segment excl again addr os client =
     (case client of
        None \<Rightarrow> (ZOO_SMB_ERROR_INVALID_PARAM, os, None)
      | Some c \<Rightarrow>
          let n = ZOO_SMB_SHM_CLIENT_SIZE; key = ci_shm_key c;
              (os1, shm_id) =
                (case shm_keys os key of
                   None \<Rightarrow> (os, excl)
                 | Some old_id \<Rightarrow> (shm_remove old_id os, again))
          in case shm_id of
               None \<Rightarrow> (ZOO_SMB_ERROR_SHM_CREATE_FAILED, os1, client)
             | Some i \<Rightarrow>
                 let os2 = os1\<lparr>shm_keys := (shm_keys os1)(key := Some i), shm_segs := (shm_segs os1)(i := Some (zero_segment n))\<rparr>
                 in case addr of
                      None \<Rightarrow> (ZOO_SMB_ERROR_SHM_ATTACH_FAILED, shm_remove i os2, client)
                    | Some a \<Rightarrow> (ZOO_SMB_OK, os2,
                        Some (c\<lparr>ci_shm_id := i, ci_shm_addr := Some a, ci_shm_size := n\<rparr>)))"

text \<open>
  \<open>fd\<close> is what \<open>shm_eventfd_create\<close> would return; \<open>ok1\<close>, \<open>ok2\<close> are the pool's answers for the two
  handles. The last result are the descriptors handed to \<open>shm_eventfd_close\<close>. A mapped address
  belongs to a segment, so the last case is that of a missing address.
\<close>

definition shm_init_client_resources ::
  "int \<Rightarrow> bool \<Rightarrow> bool \<Rightarrow> shm_os \<Rightarrow> shm_client_info option \<Rightarrow> zoo_error \<times> shm_os \<times> shm_client_info option \<times> int list" where
  "shm_init_client_resources fd ok1 ok2 os client =
     (case client of
        None \<Rightarrow> (ZOO_SMB_ERROR_INVALID_PARAM, os, None, [])
      | Some c \<Rightarrow>
          (case (ci_shm_addr c, shm_segs os (ci_shm_id c)) of
             (Some a, Some seg) \<Rightarrow>
               let c1 = (if ci_event_fd c < 0 then c\<lparr>ci_event_fd := fd\<rparr> else c)
               in if ci_event_fd c < 0 \<and> fd = -1 then (ZOO_SMB_ERROR_EVENTFD_CREATION_FAILED, os, Some c1, [])
                  else
                    let ring_size = shm_ring_size (ci_shm_size c)
                    in case zoo_smb_ring_buffer_create_in_memory ok1 (Some (a + sizeof_client_header))
                              (ring_memory (seg_tx seg)) ring_size True of
                         None \<Rightarrow> (ZOO_SMB_ERROR_RINGBUF_CREATE_FAILED, os,
                           Some (c1\<lparr>tx_ring := None, ci_event_fd := -1\<rparr>), [ci_event_fd c1])
                       | Some (tx, tx_shm) \<Rightarrow>
                           (case zoo_smb_ring_buffer_create_in_memory ok2 (Some (a + sizeof_client_header + ring_size))
                                   (ring_memory (seg_rx seg)) ring_size True of
                              None \<Rightarrow> (ZOO_SMB_ERROR_RINGBUF_CREATE_FAILED,
                                update_seg (ci_shm_id c) (\<lambda>s. s\<lparr>seg_tx := zoo_smb_ring_buffer_destroy (Some tx) tx_shm\<rparr>) os,
                                Some (c1\<lparr>tx_ring := None, rx_ring := None, ci_event_fd := -1\<rparr>), [ci_event_fd c1])
                            | Some (rx, rx_shm) \<Rightarrow> (ZOO_SMB_OK,
                                update_seg (ci_shm_id c) (\<lambda>s. s\<lparr>seg_tx := tx_shm, seg_rx := rx_shm\<rparr>) os,
                                Some (c1\<lparr>tx_ring := Some tx, rx_ring := Some rx\<rparr>), []))
           | _ \<Rightarrow> (ZOO_SMB_ERROR_INVALID_PARAM, os, client, [])))"

definition shm_cleanup_client_resources ::
  "shm_os \<Rightarrow> (int \<times> int) list \<Rightarrow> shm_client_info \<Rightarrow> shm_os \<times> (int \<times> int) list \<times> int list \<times> shm_client_info" where
  "shm_cleanup_client_resources os pairs c =
     (let os1 = update_seg (ci_shm_id c) (\<lambda>s. s\<lparr>seg_tx := zoo_smb_ring_buffer_destroy (tx_ring c) (seg_tx s)\<rparr>) os;
          os2 = update_seg (ci_shm_id c) (\<lambda>s. s\<lparr>seg_rx := zoo_smb_ring_buffer_destroy (rx_ring c) (seg_rx s)\<rparr>) os1;
          c1 = c\<lparr>tx_ring := None, rx_ring := None\<rparr>;
          (pairs', closed) = (if ci_event_fd c \<ge> 0 then shm_eventfd_close (ci_event_fd c) pairs else (pairs, []));
          c2 = (if ci_event_fd c \<ge> 0 then c1\<lparr>ci_event_fd := -1\<rparr> else c1);
          c3 = c2\<lparr>ci_shm_addr := None\<rparr>
      in if ci_shm_id c > 0 then (shm_remove (ci_shm_id c) os2, pairs', closed, c3\<lparr>ci_shm_id := -1\<rparr>)
         else (os2, pairs', closed, c3))"

section \<open>Headers and keys\<close>

definition shm_validate_header :: "u32 \<Rightarrow> u32 \<Rightarrow> zoo_error" where
  "shm_validate_header mg ver =
     (if mg \<noteq> ZOO_SMB_MSG_MAGIC_NUMBER then ZOO_SMB_ERROR_SHM_DATA_INVALID_MAGIC
      else if ver \<noteq> shm_version then ZOO_SMB_ERROR_SHM_DATA_VERSION_MISMATCH
      else ZOO_SMB_OK)"

definition shm_validate_server_header :: "shm_server_header option \<Rightarrow> zoo_error" where
  "shm_validate_server_header hdr =
     (case hdr of
        None \<Rightarrow> ZOO_SMB_ERROR_INVALID_PARAM
      | Some h \<Rightarrow>
          let result = shm_validate_header (sh_magic h) (sh_version h)
          in if ZOO_SMB_IS_ERROR result then result
             else if sh_max_clients h = 0 \<or> unat (sh_max_clients h) > ZOO_SMB_SHM_MAX_CLIENTS
             then ZOO_SMB_ERROR_SHM_DATA_CORRUPTED
             else if client_count h > sh_max_clients h then ZOO_SMB_ERROR_SHM_DATA_CORRUPTED
             else ZOO_SMB_OK)"

definition shm_validate_client_header :: "shm_client_header option \<Rightarrow> zoo_error" where
  "shm_validate_client_header hdr =
     (case hdr of
        None \<Rightarrow> ZOO_SMB_ERROR_INVALID_PARAM
      | Some h \<Rightarrow>
          let result = shm_validate_header (ch_magic h) (ch_version h)
          in if ZOO_SMB_IS_ERROR result then result
             else if ch_client_name h = [] then ZOO_SMB_ERROR_INVALID_NAME
             else if ch_pid h \<le> 0 then ZOO_SMB_ERROR_PROCESS_NOT_FOUND
             else ZOO_SMB_OK)"

text \<open>\<open>char\<close> is signed, so a character is sign-extended.\<close>

definition shm_hash :: "u8 list \<Rightarrow> u32" where
  "shm_hash cs = foldl (\<lambda>hash c. (push_bit 5 hash + hash) + scast c) 0 cs"

definition shm_generate_key :: "u8 list option \<Rightarrow> u32 \<Rightarrow> u32" where
  "shm_generate_key name segment_id =
     (case name of
        None \<Rightarrow> -1
      | Some s \<Rightarrow> ZOO_SMB_SHM_KEY_BASE + (shm_hash (c_str s) AND 0xFFFF) + push_bit 16 segment_id)"

section \<open>Registration\<close>

text \<open>The answers of \<open>kill (pid, 0)\<close>.\<close>

datatype kill_answer = Kill_ok | Kill_ESRCH | Kill_EPERM | Kill_other

definition shm_is_process_alive :: "(int \<Rightarrow> kill_answer) \<Rightarrow> int \<Rightarrow> bool" where
  "shm_is_process_alive kill_sys pid = (if pid \<le> 0 then False else kill_sys pid = Kill_ok)"

definition name_char :: "u8 \<Rightarrow> bool" where
  "name_char c \<longleftrightarrow> (97 \<le> c \<and> c \<le> 122) \<or> (65 \<le> c \<and> c \<le> 90) \<or> (48 \<le> c \<and> c \<le> 57) \<or> c = 95 \<or> c = 45"

definition shm_validate_client_registration ::
  "(int \<Rightarrow> kill_answer) \<Rightarrow> shm_os \<Rightarrow> shm_server_header option \<Rightarrow> u8 list option \<Rightarrow> int \<Rightarrow> u32 \<Rightarrow> zoo_error" where
  "shm_validate_client_registration kill_sys os hdr name client_pid client_shm_key =
     (case (hdr, name) of
        (Some h, Some s) \<Rightarrow>
          if \<not> server_running h then ZOO_SMB_ERROR_SERVICE_UNAVAILABLE
          else if client_count h \<ge> sh_max_clients h then ZOO_SMB_ERROR_SHM_BUFFER_FULL
          else if length (c_str s) = 0 \<or> length (c_str s) \<ge> MAX_TRANSPORT_NAME_LENGTH then ZOO_SMB_ERROR_INVALID_NAME
          else if \<not> list_all name_char (c_str s) then ZOO_SMB_ERROR_INVALID_NAME
          else if client_pid \<le> 0 then ZOO_SMB_ERROR_INVALID_PARAM
          else if kill_sys client_pid = Kill_ESRCH then ZOO_SMB_ERROR_PROCESS_NOT_FOUND
          else if kill_sys client_pid = Kill_other then ZOO_SMB_ERROR_PROCESS_CHECK_FAILED
          else if client_shm_key = 0 \<or> client_shm_key = -1 then ZOO_SMB_ERROR_INVALID_PARAM
          else if shm_keys os client_shm_key = None then ZOO_SMB_ERROR_SHM_NOT_FOUND
          else ZOO_SMB_OK
      | _ \<Rightarrow> ZOO_SMB_ERROR_INVALID_PARAM)"

text \<open>The registration lock: \<open>free i\<close> says whether the compare-and-swap of attempt \<open>i\<close> succeeds.\<close>

function acquire_lock :: "(nat \<Rightarrow> bool) \<Rightarrow> nat \<Rightarrow> nat" where
  "acquire_lock free attempts =
     (if attempts < 100 then if free attempts then attempts else acquire_lock free (attempts + 1) else attempts)"
  by pat_completeness auto

termination acquire_lock
  by (relation "measure (\<lambda>(_, n). 100 - n)") auto

declare acquire_lock.simps [simp del]

text \<open>The first empty slot.\<close>

fun empty_slot :: "registration list \<Rightarrow> nat option" where
  "empty_slot [] = None"
| "empty_slot (r # rs) =
     (if reg_status r = ZOO_SMB_REGISTRATION_EMPTY then Some 0 else map_option Suc (empty_slot rs))"

definition shm_request_client_registration ::
  "(int \<Rightarrow> kill_answer) \<Rightarrow> (nat \<Rightarrow> bool) \<Rightarrow> int \<Rightarrow> shm_os \<Rightarrow> shm_master option \<Rightarrow> u8 list option \<Rightarrow> int \<Rightarrow> u32 \<Rightarrow> int
   \<Rightarrow> int \<times> shm_master option" where
  "shm_request_client_registration kill_sys free now os master name client_pid client_shm_key client_event_fd =
     (case (master, name) of
        (Some ms, Some s) \<Rightarrow>
          if ZOO_SMB_IS_ERROR (shm_validate_client_registration kill_sys os (Some (ms_header ms)) name client_pid client_shm_key)
          then (-1, master)
          else if acquire_lock free 0 \<ge> 100 then (-1, master)
          else (case empty_slot (ms_slots ms) of
              None \<Rightarrow> (-1, master)
            | Some slot \<Rightarrow>
                let h = ms_header ms;
                    r = zero_registration\<lparr>reg_status := ZOO_SMB_REGISTRATION_PENDING,
                          reg_client_name := take (MAX_TRANSPORT_NAME_LENGTH - 1) (c_str s),
                          reg_client_pid := client_pid, reg_client_shm_key := client_shm_key,
                          reg_client_shm_size := ZOO_SMB_SHM_CLIENT_SIZE,
                          reg_client_event_fd := client_event_fd, reg_timestamp := now\<rparr>
                in (next_available_id h,
                    Some (ms\<lparr>ms_header := h\<lparr>next_available_id := next_available_id h + 1,
                                client_count := client_count h + 1\<rparr>,
                             ms_slots := (ms_slots ms)[slot := r]\<rparr>)))
      | _ \<Rightarrow> (-1, master))"

section \<open>Lemmas: segments and rings\<close>

lemma segs_update [simp]:
  "shm_segs (update_seg i f os) j = (if j = i then map_option f (shm_segs os i) else shm_segs os j)"
  by (simp add: update_seg_def)

lemma keys_update [simp]: "shm_keys (update_seg i f os) = shm_keys os"
  by (simp add: update_seg_def)

lemma segs_remove [simp]: "shm_segs (shm_remove i os) = shm_segs os"
  by (simp add: shm_remove_def)

lemma shm_ring_size_eq:
  assumes "sizeof_client_header \<le> n" and "n < 2 ^ 64"
  shows "shm_ring_size n = (n - sizeof_client_header) div 2"
proof -
  have n: "unat (word_of_nat n :: u64) = n" and h: "unat (word_of_nat sizeof_client_header :: u64) = sizeof_client_header"
    using assms by (simp_all add: unat_of_nat sizeof_client_header_def)
  have "unat (word_of_nat n - word_of_nat sizeof_client_header :: u64) = n - sizeof_client_header"
    using unat_sub [of "word_of_nat sizeof_client_header :: u64" "word_of_nat n"] n h assms(1)
    by (simp add: word_le_nat_alt)
  then show ?thesis unfolding shm_ring_size_def by (simp add: unat_div)
qed

lemma client_ring_size: "shm_ring_size ZOO_SMB_SHM_CLIENT_SIZE = 2099152"
  by (subst shm_ring_size_eq) (simp_all add: ZOO_SMB_SHM_CLIENT_SIZE_def ZOO_SMB_SHM_RING_BUFFER_SIZE_def sizeof_client_header_def)

text \<open>What a ring holds is the same through every handle of the right size.\<close>

lemma ring_holds_handle:
  assumes "ring_holds e rb shm ps" and "h_data_size rb' = h_data_size rb" and "h_control rb' \<noteq> None" and "h_data rb' \<noteq> None"
  shows "ring_holds e rb' shm ps"
  using assms by (simp add: ring_holds_def ring_valid_iff ring_contents_def)

text \<open>A write uses the first \<open>n\<close> bytes of the caller's block only.\<close>

lemma ring_write_take:
  assumes "n \<le> length d"
  shows "zoo_smb_ring_buffer_write e now rb shm (Some d) n = zoo_smb_ring_buffer_write e now rb shm (Some (take n d)) n"
proof -
  have t: "take n (take n d) = take n d" by simp
  have c: "ring_commit e now sz s (take n d) n = ring_commit e now sz s d n" for sz s
    unfolding ring_commit_def create_ring_header_def zoo_calc_crc32_def option.case t ..
  show ?thesis by (cases rb) (simp_all add: zoo_smb_ring_buffer_write_def Let_def c)
qed

lemma ring_create_handle:
  assumes "zoo_smb_ring_buffer_create_in_memory ok memory mem n ovr = Some (rb, shm)"
  shows "h_control rb \<noteq> None" and "h_data rb \<noteq> None" and "is_owner rb"
  using assms
  by (auto simp: zoo_smb_ring_buffer_create_in_memory_def Let_def split: option.splits if_splits)

lemma length_ring_memory [simp]: "length (ring_memory shm) = sizeof_control + length (area shm)"
  by (simp add: ring_memory_def)

section \<open>A ring that overwrites, as a queue of messages\<close>

text \<open>
  The rings of this transport overwrite old messages. \<open>lossy_put cap q m\<close> appends \<open>m\<close> and gives up as
  many of the oldest messages as it needs room for.
\<close>

fun evict_msgs :: "nat \<Rightarrow> smb_msg list \<Rightarrow> smb_msg list" where
  "evict_msgs need [] = []"
| "evict_msgs need (m # q) = (if need = 0 then m # q else evict_msgs (need - frame_size (wire m)) q)"

definition lossy_put :: "nat \<Rightarrow> smb_msg list \<Rightarrow> smb_msg \<Rightarrow> smb_msg list" where
  "lossy_put cap q m = evict_msgs (frames_size (map wire q) + frame_size (wire m) - (cap - 1)) q @ [m]"

lemma map_evict: "map wire (evict_msgs need q) = evict need (map wire q)"
  by (induction need q rule: evict_msgs.induct) auto

lemma evict_msgs_suffix: "\<exists>old. q = old @ evict_msgs need q"
  by (induction need q rule: evict_msgs.induct) (simp_all, metis append_Cons)

lemma evict_msgs_subset: "set (evict_msgs need q) \<subseteq> set q"
  using evict_msgs_suffix [of q need] by (metis Un_iff set_append subsetI)

text \<open>Frames are not small, so little has to go.\<close>

lemma evict_few:
  "\<forall>p \<in> set ps. k \<le> frame_size p \<Longrightarrow> 0 < k \<Longrightarrow> k * length ps \<le> k * length (evict need ps) + need + (k - 1)"
proof (induction need ps rule: evict.induct)
  case (2 need p ps)
  show ?case
  proof (cases "need = 0")
    case False
    then have "k * length ps \<le> k * length (evict (need - frame_size p) ps) + (need - frame_size p) + (k - 1)"
      using 2 by simp
    moreover have "k \<le> frame_size p" using 2 by simp
    moreover have "evict need (p # ps) = evict (need - frame_size p) ps" using False by simp
    ultimately show ?thesis
      by (cases "frame_size p \<le> need") (use False 2 in \<open>auto simp: le_diff_conv\<close>)
  qed simp
qed simp

lemma ring_holds_room:
  assumes "ring_holds e rb shm ps"
  shows "frames_size ps < unat (h_data_size rb)"
proof -
  have "write_pos (ctl shm) < h_data_size rb" "read_pos (ctl shm) < h_data_size rb"
    using assms by (simp_all add: ring_holds_def ring_valid_iff)
  from ring_used_props(1) [OF this] show ?thesis using ring_holds_used(1) [OF assms] by simp
qed

lemma frame_bounds:
  assumes "good_msg cfg m"
  shows "212 \<le> frame_size (wire m)" and "frame_size (wire m) \<le> 41066"
  using good_msgD [OF assms]
  by (simp_all add: frame_size_def length_wire sizeof_header_def MAX_TRANSPORT_BUFFER_SIZE_def)

lemma ring_write_lossy:
  assumes "ring_holds e rb shm (map wire q)" and "allow_overwrite (ctl shm)" and "\<forall>m \<in> set q. good_msg cfg m"
    and "good_msg cfg m" and "100000 \<le> unat (h_data_size rb)"
  shows "\<exists>shm'. zoo_smb_ring_buffer_write e now (Some rb) shm (Some (wire m)) (length (wire m)) = (ZOO_SMB_OK, shm')
           \<and> ring_holds e rb shm' (map wire (lossy_put (unat (h_data_size rb)) q m)) \<and> allow_overwrite (ctl shm')"
proof -
  let ?cap = "unat (h_data_size rb)" and ?ps = "map wire q"
  let ?need = "frames_size ?ps + frame_size (wire m) - (?cap - 1)"
  note fb = frame_bounds [OF assms(4)]
  have q: "queue_write ?cap (allow_overwrite (ctl shm)) ?ps (wire m) = (ZOO_SMB_OK, map wire (lossy_put ?cap q m))"
    using assms(2,5) fb wire_not_Nil [OF good_msgD(1) [OF assms(4)]]
    by (simp add: queue_write_def lossy_put_def map_evict)
  have "?need \<le> frame_size (wire m)" using ring_holds_room [OF assms(1)] by simp
  moreover have "\<forall>p \<in> set ?ps. 212 \<le> frame_size p" using assms(3) frame_bounds(1) by auto
  ultimately have "212 * length ?ps \<le> 212 * length (evict ?need ?ps) + 41066 + 211"
    using evict_few [of ?ps 212 ?need] fb(2) by simp
  then have "length (?ps @ [wire m]) \<le> length (map wire (lossy_put ?cap q m)) + 1000"
    by (simp add: lossy_put_def map_evict)
  with ring_write_queue [OF assms(1) q, of now] assms(2,5) fb(2) show ?thesis by simp
qed

text \<open>Serialising into a transport buffer and writing it to such a ring.\<close>

lemma serialize_write:
  assumes "good_msg cfg m" and "length buf = MAX_TRANSPORT_BUFFER_SIZE" and "ring_holds e rb shm (map wire q)"
    and "allow_overwrite (ctl shm)" and "\<forall>m \<in> set q. good_msg cfg m" and "100000 \<le> unat (h_data_size rb)"
  obtains b' shm' where
    "zoo_smb_protocol_serialize e (Some m) (Some buf) MAX_TRANSPORT_BUFFER_SIZE = (length (wire m), Some b')"
    and "zoo_smb_ring_buffer_write e now (Some rb) shm (Some b') (length (wire m)) = (ZOO_SMB_OK, shm')"
    and "ring_holds e rb shm' (map wire (lossy_put (unat (h_data_size rb)) q m))" and "allow_overwrite (ctl shm')"
proof -
  note g = good_msgD [OF assms(1)]
  have le: "length (wire m) \<le> MAX_TRANSPORT_BUFFER_SIZE" using g by (simp add: length_wire)
  from serialize_wire [OF g(1) assms(2) le, of e] obtain b' where
    b: "zoo_smb_protocol_serialize e (Some m) (Some buf) MAX_TRANSPORT_BUFFER_SIZE = (length (wire m), Some b')"
    "take (length (wire m)) b' = wire m" by auto
  from b(2) have "length (wire m) \<le> length b'" by (metis length_take min.cobounded1)
  then have w: "zoo_smb_ring_buffer_write e now (Some rb) shm (Some b') (length (wire m))
      = zoo_smb_ring_buffer_write e now (Some rb) shm (Some (wire m)) (length (wire m))"
    using ring_write_take b(2) by metis
  from ring_write_lossy [OF assms(3-5,1,6), of now] that [OF b(1)] w
  show ?thesis by auto
qed

text \<open>Reading the oldest message of a ring and deserialising it gives the message as received.\<close>

lemma read_deserialize:
  assumes "good_msg cfg m" and "ring_holds e rb shm (wire m # ps)"
  obtains shm' where
    "zoo_smb_ring_buffer_get_next_message_size e (Some rb) shm = length (wire m)"
    and "zoo_smb_ring_buffer_read e (Some rb) shm (Some (replicate (length (wire m)) 0)) (length (wire m))
           = (ZOO_SMB_OK, shm', Some (wire m))"
    and "zoo_smb_protocol_deserialize e True (Some (wire m)) (length (wire m))
           (Some \<lparr>header = zero_header, payload = None\<rparr>) sizeof_msg = (ZOO_SMB_OK, Some (received m))"
    and "ring_holds e rb shm' ps" and "allow_overwrite (ctl shm') = allow_overwrite (ctl shm)"
proof -
  note g = good_msgD [OF assms(1)]
  have "queue_read (wire m # ps) (length (wire m)) = (ZOO_SMB_OK, ps, Some (wire m))" by simp
  from ring_read_queue [OF assms(2) this, of "replicate (length (wire m)) 0"] obtain shm' where
    "zoo_smb_ring_buffer_read e (Some rb) shm (Some (replicate (length (wire m)) 0)) (length (wire m))
       = (ZOO_SMB_OK, shm', Some (wire m))" "ring_holds e rb shm' ps"
    "allow_overwrite (ctl shm') = allow_overwrite (ctl shm)" by auto
  then show ?thesis
    using that ring_next_size [OF assms(2)] deserialize_wire [OF g(1) good_msg_magic [OF assms(1)]] by simp
qed

lemma wire_size:
  assumes "good_msg cfg m"
  shows "0 < length (wire m)" and "length (wire m) \<le> MAX_TRANSPORT_BUFFER_SIZE"
  using good_msgD [OF assms] by (simp_all add: length_wire sizeof_header_def)

section \<open>Lemmas: keys\<close>

lemma key_parts:
  "(h AND 0xFFFF) + push_bit 16 i = (take_bit 16 h OR push_bit 16 i)" for h i :: u32
proof -
  have "(h AND 0xFFFF) = take_bit 16 h" by (simp add: take_bit_eq_mask mask_eq_exp_minus_1)
  moreover have "take_bit 16 h AND push_bit 16 i = 0"
    by (rule bit_word_eqI) (auto simp: bit_and_iff bit_take_bit_iff bit_push_bit_iff)
  ultimately show ?thesis by (simp add: disjunctive_add_eq_or)
qed

lemma key_parts_eq_iff:
  "take_bit 16 h OR push_bit 16 i = take_bit 16 h' OR push_bit 16 i'
     \<longleftrightarrow> take_bit 16 h = take_bit 16 h' \<and> take_bit 16 i = take_bit 16 i'" for h i h' i' :: u32
proof
  assume eq: "take_bit 16 h OR push_bit 16 i = take_bit 16 h' OR push_bit 16 i'"
  have b: "bit (take_bit 16 h OR push_bit 16 i) n = bit (take_bit 16 h' OR push_bit 16 i') n" for n
    using eq by simp
  have "bit h n = bit h' n" if "n < 16" for n
    using b [of n] that by (simp add: bit_or_iff bit_take_bit_iff bit_push_bit_iff)
  moreover have "bit i n = bit i' n" if "n < 16" for n
    using b [of "n + 16"] that by (simp add: bit_or_iff bit_take_bit_iff bit_push_bit_iff)
  ultimately show "take_bit 16 h = take_bit 16 h' \<and> take_bit 16 i = take_bit 16 i'"
    by (auto intro!: bit_word_eqI simp: bit_take_bit_iff)
next
  assume a: "take_bit 16 h = take_bit 16 h' \<and> take_bit 16 i = take_bit 16 i'"
  have "push_bit 16 i = push_bit 16 i'"
  proof (rule bit_word_eqI)
    fix n assume n: "n < LENGTH(32)"
    have "bit (take_bit 16 i) (n - 16) = bit (take_bit 16 i') (n - 16)" using a by simp
    then show "bit (push_bit 16 i) n = bit (push_bit 16 i') n"
      using n by (auto simp: bit_push_bit_iff bit_take_bit_iff)
  qed
  with a show "take_bit 16 h OR push_bit 16 i = take_bit 16 h' OR push_bit 16 i'" by simp
qed

text \<open>
  Two keys are the same exactly if the hashes of the names agree in their low sixteen bits and
  the segment numbers agree modulo 65536.
\<close>

theorem shm_generate_key_eq_iff:
  "shm_generate_key (Some s) i = shm_generate_key (Some t) j \<longleftrightarrow>
     take_bit 16 (shm_hash (c_str s)) = take_bit 16 (shm_hash (c_str t)) \<and> unat i mod 65536 = unat j mod 65536"
proof -
  have "take_bit 16 i = take_bit 16 j \<longleftrightarrow> unat i mod 65536 = unat j mod 65536"
    by (simp add: word_unat_eq_iff take_bit_eq_mod unat_mod)
  then show ?thesis
    using key_parts_eq_iff [of "shm_hash (c_str s)" i "shm_hash (c_str t)" j]
    by (simp add: shm_generate_key_def add.assoc key_parts)
qed

section \<open>Lemmas: registration slots\<close>

lemma empty_slot_Some:
  "empty_slot rs = Some i \<Longrightarrow> i < length rs \<and> reg_status (rs ! i) = ZOO_SMB_REGISTRATION_EMPTY"
  by (induction rs arbitrary: i) (auto split: if_splits)

lemma empty_slot_None:
  "empty_slot rs = None \<longleftrightarrow> (\<forall>r \<in> set rs. reg_status r \<noteq> ZOO_SMB_REGISTRATION_EMPTY)"
  by (induction rs) auto

end
