(* ===== verification/Shm_Server.thy ===== *)
theory Shm_Server
  imports Shm_Common Zoo_List
begin

text \<open>
  The server of the shared-memory transport, \<open>src/kernal/transport/zoo_smb_transport_shm_server.c\<close>:
  the table of clients, the table that leads from the names of senders to clients, the registration
  of clients, sending, and one round of the server's loop.

  The two tables are \<open>zoo_list\<close>s, used through the sequence contract of theory \<open>Zoo_List\<close>. They
  hold pointers: a client structure has an address, and a mapping refers to a client by it. The
  handlers of observers are numbers and do not call back into the transport here.
\<close>

section \<open>State\<close>

definition MAX_MESSAGES_PER_CYCLE :: nat where "MAX_MESSAGES_PER_CYCLE = 10"
definition HEARTBEAT_TIMEOUT_SECONDS :: int where "HEARTBEAT_TIMEOUT_SECONDS = 30"

record sender_mapping =
  sm_sender_name :: "u8 list"
  sm_client_info :: nat
  sm_registration_time :: int
  sm_last_message_time :: int
  sm_message_count :: u32

text \<open>
  \<open>sv_master\<close> is the master segment behind \<open>server_header\<close>, \<open>None\<close> for a null pointer; \<open>sv_bad_header\<close> says
  that the pointer is the error value of \<open>shmat\<close> instead. \<open>sv_pairs\<close> is the descriptor table of the process.
\<close>

record shm_server =
  sv_is_started :: bool
  sv_should_stop :: bool
  sv_master_key :: u32
  sv_master_id :: int
  sv_master :: "shm_master option"
  sv_bad_header :: bool
  sv_clients :: "shm_client_info list"
  sv_mappings :: "sender_mapping list"
  sv_next_client_id :: u32
  sv_event_fd :: int
  sv_pairs :: "(int \<times> int) list"

abbreviation client_cap :: nat where "client_cap \<equiv> ZOO_SMB_SHM_MAX_CLIENTS"
abbreviation mapping_cap :: nat where "mapping_cap \<equiv> ZOO_SMB_SHM_MAX_CLIENTS * 4"

text \<open>Following a pointer to a client, and changing what it points to.\<close>

definition client_at :: "shm_server \<Rightarrow> nat \<Rightarrow> shm_client_info option" where
  "client_at server a = find (\<lambda>c. ci_addr c = a) (sv_clients server)"

definition update_client :: "nat \<Rightarrow> (shm_client_info \<Rightarrow> shm_client_info) \<Rightarrow> shm_server \<Rightarrow> shm_server" where
  "update_client a f server =
     server\<lparr>sv_clients := map (\<lambda>c. if ci_addr c = a then f c else c) (sv_clients server)\<rparr>"

fun update_first :: "('a \<Rightarrow> bool) \<Rightarrow> ('a \<Rightarrow> 'a) \<Rightarrow> 'a list \<Rightarrow> 'a list" where
  "update_first P f [] = []"
| "update_first P f (x # xs) = (if P x then f x # xs else x # update_first P f xs)"

section \<open>Senders and clients\<close>

definition shm_find_sender_mapping :: "shm_server \<Rightarrow> u8 list \<Rightarrow> sender_mapping option" where
  "shm_find_sender_mapping server sender_name = find (\<lambda>m. sm_sender_name m = sender_name) (sv_mappings server)"

text \<open>\<open>a\<close> is the address of the client, \<open>ok\<close> the pool's answer.\<close>

definition shm_register_sender_mapping ::
  "bool \<Rightarrow> int \<Rightarrow> shm_server \<Rightarrow> u8 list \<Rightarrow> nat \<Rightarrow> zoo_error \<times> shm_server" where
  "shm_register_sender_mapping ok now server sender_name a =
     (case shm_find_sender_mapping server sender_name of
        Some _ \<Rightarrow> (ZOO_SMB_OK, server\<lparr>sv_mappings := update_first (\<lambda>m. sm_sender_name m = sender_name)
            (\<lambda>m. m\<lparr>sm_client_info := a, sm_last_message_time := now, sm_message_count := sm_message_count m + 1\<rparr>)
            (sv_mappings server)\<rparr>)
      | None \<Rightarrow>
          if \<not> ok then (ZOO_SMB_ERROR_ALLOCATION_FAILED, server)
          else
            let new_mapping = \<lparr>sm_sender_name = take (MAX_TRANSPORT_NAME_LENGTH - 1) sender_name, sm_client_info = a,
                  sm_registration_time = now, sm_last_message_time = now, sm_message_count = 1\<rparr>
            in (case seq_step mapping_cap (sv_mappings server) (PushBack new_mapping) of
                (Code result, ms) \<Rightarrow>
                  if ZOO_SMB_IS_ERROR result then (result, server) else (ZOO_SMB_OK, server\<lparr>sv_mappings := ms\<rparr>)
              | _ \<Rightarrow> (ZOO_SMB_OK, server)))"

text \<open>The loop erases at position \<open>i\<close> or moves on.\<close>

function cleanup_mappings_from :: "nat \<Rightarrow> nat \<Rightarrow> sender_mapping list \<Rightarrow> sender_mapping list" where
  "cleanup_mappings_from a i ms =
     (if i < length ms then
        if sm_client_info (ms ! i) = a then cleanup_mappings_from a i (snd (seq_step mapping_cap ms (Erase i)))
        else cleanup_mappings_from a (i + 1) ms
      else ms)"
  by pat_completeness auto

termination cleanup_mappings_from
  by (relation "measure (\<lambda>(_, i, ms). length ms - i)") auto

declare cleanup_mappings_from.simps [simp del]

definition shm_cleanup_sender_mappings_for_client :: "shm_server \<Rightarrow> nat \<Rightarrow> shm_server" where
  "shm_cleanup_sender_mappings_for_client server a =
     server\<lparr>sv_mappings := cleanup_mappings_from a 0 (sv_mappings server)\<rparr>"

definition shm_find_target_client :: "shm_server \<Rightarrow> u8 list \<Rightarrow> shm_client_info option" where
  "shm_find_target_client server receiver =
     (let by_name = find (\<lambda>c. ci_state c = TRANSPORT_CONN_STATE_CONNECTED \<and> ci_name c = receiver) (sv_clients server)
      in case shm_find_sender_mapping server receiver of
           None \<Rightarrow> by_name
         | Some m \<Rightarrow>
             (case client_at server (sm_client_info m) of
                None \<Rightarrow> by_name
              | Some c \<Rightarrow> if ci_state c = TRANSPORT_CONN_STATE_CONNECTED then Some c else by_name))"

definition shm_server_update_client_state :: "shm_client_info \<Rightarrow> conn_state \<Rightarrow> shm_client_info" where
  "shm_server_update_client_state c new_state = (if ci_state c = new_state then c else c\<lparr>ci_state := new_state\<rparr>)"

section \<open>Sending\<close>

text \<open>
  \<open>buf\<close> is the block of \<open>MAX_TRANSPORT_BUFFER_SIZE\<close> bytes the pool gives, if it does. Writing goes
  to the memory of the client's segment; the notification that follows has no effect here.
\<close>

definition write_tx :: "endian \<Rightarrow> u64 \<Rightarrow> shm_os \<Rightarrow> shm_client_info \<Rightarrow> u8 list \<Rightarrow> nat \<Rightarrow> zoo_error \<times> shm_os" where
  "write_tx e now os c d n =
     (case shm_segs os (ci_shm_id c) of
        None \<Rightarrow> (ZOO_SMB_ERROR_INVALID_PARAM, os)
      | Some seg \<Rightarrow>
          (case zoo_smb_ring_buffer_write e now (tx_ring c) (seg_tx seg) (Some d) n of
             (result, shm) \<Rightarrow> (result, update_seg (ci_shm_id c) (\<lambda>s. s\<lparr>seg_tx := shm\<rparr>) os)))"

definition shm_send_to_target_client ::
  "endian \<Rightarrow> u64 \<Rightarrow> u8 list option \<Rightarrow> shm_os \<Rightarrow> shm_server \<Rightarrow> smb_msg \<Rightarrow> u8 list \<Rightarrow> zoo_error \<times> shm_os" where
  "shm_send_to_target_client e now buf os server msg receiver =
     (case shm_find_target_client server receiver of
        None \<Rightarrow> (ZOO_SMB_ERROR_SERVICE_NOT_FOUND, os)
      | Some target \<Rightarrow>
          (case buf of
             None \<Rightarrow> (ZOO_SMB_ERROR_ALLOCATION_FAILED, os)
           | Some b \<Rightarrow>
               (case zoo_smb_protocol_serialize e (Some msg) (Some b) MAX_TRANSPORT_BUFFER_SIZE of
                  (msg_size, b') \<Rightarrow>
                    if msg_size = 0 then (ZOO_SMB_ERROR_TRANSPORT_SEND_FAILED, os)
                    else write_tx e now os target (the b') msg_size)))"

fun shm_broadcast_loop ::
  "endian \<Rightarrow> u64 \<Rightarrow> u8 list \<Rightarrow> nat \<Rightarrow> shm_client_info list \<Rightarrow> shm_os \<Rightarrow> nat \<Rightarrow> nat \<times> shm_os" where
  "shm_broadcast_loop e now d n [] os sent_count = (sent_count, os)"
| "shm_broadcast_loop e now d n (c # cs) os sent_count =
     (if ci_state c = TRANSPORT_CONN_STATE_CONNECTED then
        case write_tx e now os c d n of
          (result, os') \<Rightarrow>
            shm_broadcast_loop e now d n cs os' (if ZOO_SMB_IS_SUCCESS result then sent_count + 1 else sent_count)
      else shm_broadcast_loop e now d n cs os sent_count)"

definition shm_broadcast_to_all_clients ::
  "endian \<Rightarrow> u64 \<Rightarrow> u8 list option \<Rightarrow> shm_os \<Rightarrow> shm_server \<Rightarrow> smb_msg \<Rightarrow> zoo_error \<times> shm_os" where
  "shm_broadcast_to_all_clients e now buf os server msg =
     (case buf of
        None \<Rightarrow> (ZOO_SMB_ERROR_ALLOCATION_FAILED, os)
      | Some b \<Rightarrow>
          (case zoo_smb_protocol_serialize e (Some msg) (Some b) MAX_TRANSPORT_BUFFER_SIZE of
             (msg_size, b') \<Rightarrow>
               if msg_size = 0 then (ZOO_SMB_ERROR_TRANSPORT_SEND_FAILED, os)
               else (case shm_broadcast_loop e now (the b') msg_size (sv_clients server) os 0 of
                   (sent_count, os') \<Rightarrow>
                     (if sent_count > 0 then ZOO_SMB_OK else ZOO_SMB_ERROR_PUBLICATION_NO_SUBSCRIBERS, os'))))"

definition shm_server_send ::
  "endian \<Rightarrow> u64 \<Rightarrow> u8 list option \<Rightarrow> shm_os \<Rightarrow> shm_server option \<Rightarrow> smb_msg option \<Rightarrow> u8 list option \<Rightarrow> zoo_error \<times> shm_os" where
  "shm_server_send e now buf os impl msg receiver =
     (case (impl, msg) of
        (Some server, Some m) \<Rightarrow>
          if \<not> sv_is_started server then (ZOO_SMB_ERROR_NOT_STARTED, os)
          else (case receiver of
              Some r \<Rightarrow> shm_send_to_target_client e now buf os server m (c_str r)
            | None \<Rightarrow> shm_broadcast_to_all_clients e now buf os server m)
      | _ \<Rightarrow> (ZOO_SMB_ERROR_INVALID_PARAM, os))"

section \<open>Receiving\<close>

text \<open>The pool's answers while one message is processed (buffer, message structure, payload, mapping, snapshot), and the time.\<close>

record shm_msg_env =
  buffer_ok :: bool
  default_ok :: bool
  deser_ok :: bool
  mapping_ok :: bool
  snap_ok :: bool
  env_now :: int

definition shm_process_single_message ::
  "endian \<Rightarrow> shm_msg_env \<Rightarrow> nat option list \<Rightarrow> shm_os \<Rightarrow> shm_server \<Rightarrow> shm_client_info
   \<Rightarrow> zoo_error \<times> shm_os \<times> shm_server \<times> (nat \<times> smb_msg) list" where
  "shm_process_single_message e env observers os server client =
     (case (rx_ring client, shm_segs os (ci_shm_id client)) of
        (Some rb, Some seg) \<Rightarrow>
          let msg_size = zoo_smb_ring_buffer_get_next_message_size e (Some rb) (seg_rx seg)
          in if msg_size = 0 then (ZOO_SMB_OK, os, server, [])
             else if msg_size > MAX_TRANSPORT_BUFFER_SIZE then
               (case zoo_smb_ring_buffer_clear (Some rb) (seg_rx seg) of
                  (_, rb', shm) \<Rightarrow> (ZOO_SMB_ERROR_INVALID_SIZE,
                     update_seg (ci_shm_id client) (\<lambda>s. s\<lparr>seg_rx := shm\<rparr>) os,
                     update_client (ci_addr client) (\<lambda>c. c\<lparr>rx_ring := rb'\<rparr>) server, []))
             else if \<not> buffer_ok env then (ZOO_SMB_ERROR_ALLOCATION_FAILED, os, server, [])
             else (case zoo_smb_ring_buffer_read e (Some rb) (seg_rx seg) (Some (replicate msg_size 0)) msg_size of
                 (result, shm, msg_buffer) \<Rightarrow>
                   let os1 = update_seg (ci_shm_id client) (\<lambda>s. s\<lparr>seg_rx := shm\<rparr>) os
                   in if ZOO_SMB_IS_ERROR result then (result, os1, server, [])
                      else (case zoo_smb_default_message (default_ok env) of
                          None \<Rightarrow> (ZOO_SMB_ERROR_ALLOCATION_FAILED, os1, server, [])
                        | Some msg0 \<Rightarrow>
                            (case zoo_smb_protocol_deserialize e (deser_ok env) msg_buffer msg_size (Some msg0) sizeof_msg of
                               (result, msg_out) \<Rightarrow>
                                 if ZOO_SMB_IS_ERROR result then (result, os1, server, [])
                                 else
                                   let m = the msg_out;
                                       server1 = update_client (ci_addr client) (\<lambda>c. c\<lparr>ci_last_heartbeat := env_now env\<rparr>) server;
                                       (_, server2) = shm_register_sender_mapping (mapping_ok env) (env_now env) server1
                                                        (c_str (sender (header m))) (ci_addr client)
                                   in if observers \<noteq> [] \<and> \<not> snap_ok env then (ZOO_SMB_ERROR_OUT_OF_MEMORY, os1, server2, [])
                                      else (ZOO_SMB_OK, os1, server2, map (\<lambda>f. (f, m)) (handlers observers)))))
      | _ \<Rightarrow> (ZOO_SMB_ERROR_INVALID_PARAM, os, server, []))"

text \<open>
  The loop of \<open>shm_server_process_client_messages\<close>, with the number of messages it may still process.
  The client structure is read again each time, because processing changes it.
\<close>

fun shm_messages_loop ::
  "endian \<Rightarrow> (nat \<Rightarrow> shm_msg_env) \<Rightarrow> nat option list \<Rightarrow> nat \<Rightarrow> nat \<Rightarrow> shm_os \<Rightarrow> shm_server
   \<Rightarrow> shm_os \<times> shm_server \<times> (nat \<times> smb_msg) list" where
  "shm_messages_loop e envs observers a 0 os server = (os, server, [])"
| "shm_messages_loop e envs observers a (Suc n) os server =
     (case client_at server a of
        None \<Rightarrow> (os, server, [])
      | Some client \<Rightarrow>
          (case shm_segs os (ci_shm_id client) of
             None \<Rightarrow> (os, server, [])
           | Some seg \<Rightarrow>
               if zoo_smb_ring_buffer_is_empty (rx_ring client) (seg_rx seg) then (os, server, [])
               else (case shm_process_single_message e (envs n) observers os server client of
                   (result, os1, server1, calls) \<Rightarrow>
                     if ZOO_SMB_IS_ERROR result then (os1, server1, calls)
                     else (case shm_messages_loop e envs observers a n os1 server1 of
                         (os2, server2, rest) \<Rightarrow> (os2, server2, calls @ rest)))))"

definition shm_server_process_client_messages ::
  "endian \<Rightarrow> (nat \<Rightarrow> shm_msg_env) \<Rightarrow> nat option list \<Rightarrow> shm_os \<Rightarrow> shm_server \<Rightarrow> shm_client_info
   \<Rightarrow> zoo_error \<times> shm_os \<times> shm_server \<times> (nat \<times> smb_msg) list" where
  "shm_server_process_client_messages e envs observers os server client =
     (case (rx_ring client, shm_segs os (ci_shm_id client)) of
        (Some rb, Some seg) \<Rightarrow>
          if \<not> zoo_smb_ring_buffer_is_valid (Some rb) (seg_rx seg) then (ZOO_SMB_ERROR_RINGBUF_CORRUPTED, os, server, [])
          else if zoo_smb_ring_buffer_is_empty (Some rb) (seg_rx seg) then (ZOO_SMB_OK, os, server, [])
          else (case shm_messages_loop e envs observers (ci_addr client) MAX_MESSAGES_PER_CYCLE os server of
              (os1, server1, calls) \<Rightarrow> (ZOO_SMB_OK, os1, server1, calls))
      | _ \<Rightarrow> (ZOO_SMB_ERROR_INVALID_PARAM, os, server, []))"

section \<open>Registration of clients\<close>

text \<open>
  The environment of one registration: \<open>kill\<close>, the address \<open>shmat\<close> returns, whether \<open>shmctl\<close>
  succeeds, the address of the new structure, the pool's answers for the rings, the time.
\<close>

record shm_reg_env =
  reg_kill :: "int \<Rightarrow> kill_answer"
  reg_attach :: "nat option"
  reg_stat_ok :: bool
  reg_info :: "nat option"
  reg_tx_ok :: bool
  reg_rx_ok :: bool
  reg_now :: int

definition new_client :: "nat \<Rightarrow> shm_server \<Rightarrow> registration \<Rightarrow> int \<Rightarrow> nat \<Rightarrow> nat \<Rightarrow> int \<Rightarrow> shm_client_info" where
  "new_client a server r shm_id addr n now =
     \<lparr>ci_addr = a, client_id = sint (sv_next_client_id server), ci_name = reg_client_name r,
      ci_pid = reg_client_pid r, ci_state = TRANSPORT_CONN_STATE_CONNECTING, ci_last_heartbeat = now,
      ci_connect_time = 0, ci_shm_key = 0, ci_shm_id = shm_id, ci_shm_addr = Some addr, ci_shm_size = n,
      tx_ring = None, rx_ring = None, ci_event_fd = -1\<rparr>"

text \<open>
  \<open>shm_validate_and_register_client\<close> on the request \<open>r\<close>, which is returned as the call leaves it. The
  request is in the master segment, so the server header is there.
\<close>

definition shm_validate_and_register_client ::
  "shm_reg_env \<Rightarrow> shm_os \<Rightarrow> shm_server \<Rightarrow> registration \<Rightarrow> zoo_error \<times> shm_os \<times> shm_server \<times> registration" where
  "shm_validate_and_register_client env os server r =
     (let failed = r\<lparr>reg_status := ZOO_SMB_REGISTRATION_FAILED\<rparr>
      in if \<exists>c \<in> set (sv_clients server). ci_pid c = reg_client_pid r \<and> ci_name c = reg_client_name r
         then (ZOO_SMB_OK, os, server, r\<lparr>reg_status := ZOO_SMB_REGISTRATION_SUCCESS\<rparr>)
         else
           let v = shm_validate_client_registration (reg_kill env) os (map_option ms_header (sv_master server))
                     (Some (reg_client_name r)) (reg_client_pid r) (reg_client_shm_key r)
           in if ZOO_SMB_IS_ERROR v then (v, os, server, failed)
              else case shm_keys os (reg_client_shm_key r) of
                None \<Rightarrow> (ZOO_SMB_ERROR_SHM_NOT_FOUND, os, server, failed)
              | Some shm_id \<Rightarrow>
                  (case (reg_attach env, shm_segs os shm_id) of
                     (Some addr, Some seg) \<Rightarrow>
                       if \<not> reg_stat_ok env then (ZOO_SMB_ERROR_SHM_DATA_CORRUPTED, os, server, failed)
                       else (case reg_info env of
                           None \<Rightarrow> (ZOO_SMB_ERROR_ALLOCATION_FAILED, os, server, failed)
                         | Some a \<Rightarrow>
                             let ci = new_client a server r shm_id addr (seg_size seg) (reg_now env);
                                 server1 = server\<lparr>sv_next_client_id := sv_next_client_id server + 1\<rparr>;
                                 os1 = update_seg shm_id (\<lambda>s. s\<lparr>seg_header := (seg_header s)
                                         \<lparr>ch_magic := ZOO_SMB_MSG_MAGIC_NUMBER, ch_version := shm_version,
                                          ch_client_name := reg_client_name r\<rparr>\<rparr>) os;
                                 ring_size = shm_ring_size (seg_size seg)
                             in (case zoo_smb_ring_buffer_create_in_memory (reg_tx_ok env) (Some (addr + sizeof_client_header))
                                        (ring_memory (seg_tx seg)) ring_size True of
                                 None \<Rightarrow> (ZOO_SMB_ERROR_RINGBUF_INIT_FAILED, os1, server1, failed)
                               | Some (tx, tx_shm) \<Rightarrow>
                                   (case zoo_smb_ring_buffer_create_in_memory (reg_rx_ok env)
                                           (Some (addr + sizeof_client_header + ring_size)) (ring_memory (seg_rx seg)) ring_size True of
                                      None \<Rightarrow> (ZOO_SMB_ERROR_RINGBUF_INIT_FAILED,
                                        update_seg shm_id (\<lambda>s. s\<lparr>seg_tx := zoo_smb_ring_buffer_destroy (Some tx) tx_shm\<rparr>) os1,
                                        server1, failed)
                                    | Some (rx, rx_shm) \<Rightarrow>
                                        let os2 = update_seg shm_id (\<lambda>s. s\<lparr>seg_tx := tx_shm, seg_rx := rx_shm\<rparr>) os1;
                                            ci' = shm_server_update_client_state (ci\<lparr>tx_ring := Some tx, rx_ring := Some rx\<rparr>)
                                                    TRANSPORT_CONN_STATE_CONNECTED
                                        in (case seq_step client_cap (sv_clients server1) (PushBack ci') of
                                            (Code result, cs) \<Rightarrow>
                                              if ZOO_SMB_IS_ERROR result
                                              then (result, fst (shm_cleanup_client_resources os2 (sv_pairs server1) ci'), server1, failed)
                                              else (ZOO_SMB_OK, os2,
                                                server1\<lparr>sv_clients := cs, sv_master := map_option (\<lambda>ms. ms\<lparr>ms_header :=
                                                   (ms_header ms)\<lparr>client_count := word_of_nat (length cs)\<rparr>\<rparr>) (sv_master server1)\<rparr>,
                                                zero_registration)
                                          | _ \<Rightarrow> (ZOO_SMB_OK, os2, server1, failed)))))
                   | _ \<Rightarrow> (ZOO_SMB_ERROR_SHM_ATTACH_FAILED, os, server, failed)))"

text \<open>The loop over the registration area, from slot \<open>i\<close> on.\<close>

definition set_slot :: "nat \<Rightarrow> registration \<Rightarrow> shm_server \<Rightarrow> shm_server" where
  "set_slot i r server = server\<lparr>sv_master := map_option (\<lambda>ms. ms\<lparr>ms_slots := (ms_slots ms)[i := r]\<rparr>) (sv_master server)\<rparr>"

function accept_from :: "(nat \<Rightarrow> shm_reg_env) \<Rightarrow> nat \<Rightarrow> shm_os \<Rightarrow> shm_server \<Rightarrow> shm_os \<times> shm_server" where
  "accept_from envs i os server =
     (if i < ZOO_SMB_SHM_MAX_PENDING_REGISTRATIONS then
        case sv_master server of
          None \<Rightarrow> (os, server)
        | Some ms \<Rightarrow>
            let r = ms_slots ms ! i
            in if reg_status r \<noteq> ZOO_SMB_REGISTRATION_PENDING then accept_from envs (i + 1) os server
               else (case shm_validate_and_register_client (envs i) os server r of
                   (_, os1, server1, r') \<Rightarrow> accept_from envs (i + 1) os1 (set_slot i r' server1))
      else (os, server))"
  by pat_completeness auto

termination accept_from
  by (relation "measure (\<lambda>(_, i, _, _). ZOO_SMB_SHM_MAX_PENDING_REGISTRATIONS - i)") auto

declare accept_from.simps [simp del]

definition shm_server_accept_new_clients ::
  "(nat \<Rightarrow> shm_reg_env) \<Rightarrow> shm_os \<Rightarrow> shm_server \<Rightarrow> zoo_error \<times> shm_os \<times> shm_server" where
  "shm_server_accept_new_clients envs os server =
     (case sv_master server of
        None \<Rightarrow> (ZOO_SMB_ERROR_INVALID_PARAM, os, server)
      | Some ms \<Rightarrow>
          if client_count (ms_header ms) \<ge> sh_max_clients (ms_header ms) then (ZOO_SMB_OK, os, server)
          else (ZOO_SMB_OK, accept_from envs 0 os server))"

section \<open>Disconnected clients\<close>

definition needs_cleanup :: "int \<Rightarrow> shm_client_info \<Rightarrow> bool" where
  "needs_cleanup now c \<longleftrightarrow>
     ci_state c = TRANSPORT_CONN_STATE_DISCONNECTED
     \<or> ci_last_heartbeat c > 0 \<and> now - ci_last_heartbeat c > HEARTBEAT_TIMEOUT_SECONDS"

text \<open>What happens to the client at position \<open>i\<close>: its mappings go, its resources are released, it leaves the list.\<close>

definition drop_client :: "nat \<Rightarrow> shm_os \<Rightarrow> shm_server \<Rightarrow> shm_os \<times> shm_server" where
  "drop_client i os server =
     (let c = sv_clients server ! i;
          server1 = shm_cleanup_sender_mappings_for_client server (ci_addr c);
          (os1, pairs, _, _) = shm_cleanup_client_resources os (sv_pairs server1) c
      in (os1, server1\<lparr>sv_pairs := pairs, sv_clients := snd (seq_step client_cap (sv_clients server1) (Erase i))\<rparr>))"

function cleanup_from :: "int \<Rightarrow> nat \<Rightarrow> shm_os \<Rightarrow> shm_server \<Rightarrow> shm_os \<times> shm_server" where
  "cleanup_from now i os server =
     (if i < length (sv_clients server) then
        if needs_cleanup now (sv_clients server ! i) then
          case drop_client i os server of (os1, server1) \<Rightarrow> cleanup_from now i os1 server1
        else cleanup_from now (i + 1) os server
      else (os, server))"
  by pat_completeness auto

lemma drop_client_clients:
  "sv_clients (snd (drop_client i os server)) = snd (seq_step client_cap (sv_clients server) (Erase i))"
  by (simp add: drop_client_def Let_def shm_cleanup_sender_mappings_for_client_def split: prod.split)

termination cleanup_from
proof (relation "measure (\<lambda>(_, i, _, s). length (sv_clients s) - i)", goal_cases)
  case (2 now i os server x y)
  then show ?case using drop_client_clients [of i os server] by (auto simp: 2(3) [symmetric])
qed auto

declare cleanup_from.simps [simp del]

definition shm_server_cleanup_disconnected_clients :: "int \<Rightarrow> shm_os \<Rightarrow> shm_server \<Rightarrow> shm_os \<times> shm_server" where
  "shm_server_cleanup_disconnected_clients now os server =
     (case cleanup_from now 0 os server of
        (os1, server1) \<Rightarrow> (os1, server1\<lparr>sv_master := map_option (\<lambda>ms. ms\<lparr>ms_header :=
           (ms_header ms)\<lparr>client_count := word_of_nat (length (sv_clients server1))\<rparr>\<rparr>) (sv_master server1)\<rparr>))"

section \<open>Life cycle\<close>

text \<open>\<open>ok\<close>, \<open>ok1\<close>, \<open>ok2\<close>: the pool's answer for the structure and for the two lists.\<close>

definition shm_server_init :: "bool \<Rightarrow> bool \<Rightarrow> bool \<Rightarrow> u8 list option \<Rightarrow> zoo_error \<times> shm_server option" where
  "shm_server_init ok ok1 ok2 config_name =
     (case config_name of
        None \<Rightarrow> (ZOO_SMB_ERROR_INVALID_PARAM, None)
      | Some name \<Rightarrow>
          if \<not> ok then (ZOO_SMB_ERROR_ALLOCATION_FAILED, None)
          else if \<not> ok1 then (ZOO_SMB_ERROR_ALLOCATION_FAILED, None)
          else if \<not> ok2 then (ZOO_SMB_ERROR_ALLOCATION_FAILED, None)
          else (ZOO_SMB_OK, Some \<lparr>sv_is_started = False, sv_should_stop = False,
             sv_master_key = shm_generate_key (Some name) 0, sv_master_id = 0, sv_master = None, sv_bad_header = False, sv_clients = [],
             sv_mappings = [], sv_next_client_id = 1, sv_event_fd = -1, sv_pairs = []\<rparr>))"

text \<open>
  \<open>shm_server_create_master_segment\<close>: \<open>excl\<close> and \<open>again\<close> answer the two calls of \<open>shmget\<close>, \<open>attached\<close> says
  whether \<open>shmat\<close> succeeds. The segment itself is \<open>sv_master\<close>.
\<close>

definition shm_server_create_master_segment ::
  "int option \<Rightarrow> int option \<Rightarrow> bool \<Rightarrow> int \<Rightarrow> shm_os \<Rightarrow> shm_server \<Rightarrow> zoo_error \<times> shm_os \<times> shm_server" where
  "shm_server_create_master_segment excl again attached now os server =
     (let key = sv_master_key server;
          (os1, shm_id) = (case shm_keys os key of None \<Rightarrow> (os, excl) | Some old_id \<Rightarrow> (shm_remove old_id os, again))
      in case shm_id of
           None \<Rightarrow> (ZOO_SMB_ERROR_SHM_CREATE_FAILED, os1, server\<lparr>sv_master_id := -1\<rparr>)
         | Some i \<Rightarrow>
             let os2 = os1\<lparr>shm_keys := (shm_keys os1)(key := Some i)\<rparr>
             in if \<not> attached then (ZOO_SMB_ERROR_SHM_ATTACH_FAILED, shm_remove i os2,
                  server\<lparr>sv_master_id := i, sv_master := None, sv_bad_header := True\<rparr>)
                else (ZOO_SMB_OK, os2, server\<lparr>sv_master_id := i, sv_bad_header := False, sv_master := Some
                  \<lparr>ms_header = \<lparr>sh_magic = ZOO_SMB_MSG_MAGIC_NUMBER, sh_version = shm_version, client_count = 0,
                     sh_max_clients = word_of_nat ZOO_SMB_SHM_MAX_CLIENTS, server_start_time = now,
                     server_running = True, has_pending_messages = False, sh_event_fd = -1, next_available_id = 0\<rparr>,
                   ms_slots = replicate ZOO_SMB_SHM_MAX_PENDING_REGISTRATIONS zero_registration\<rparr>\<rparr>))"

definition set_running :: "bool \<Rightarrow> shm_server \<Rightarrow> shm_server" where
  "set_running b server = server\<lparr>sv_master := map_option (\<lambda>ms. ms\<lparr>ms_header := (ms_header ms)\<lparr>server_running := b\<rparr>\<rparr>)
     (sv_master server)\<rparr>"

text \<open>\<open>fd\<close> and \<open>pairs\<close> are the descriptor \<open>shm_eventfd_create\<close> returns and the table it leaves.\<close>

definition shm_server_init_event_fd :: "int \<Rightarrow> (int \<times> int) list \<Rightarrow> shm_server \<Rightarrow> zoo_error \<times> shm_server" where
  "shm_server_init_event_fd fd pairs server =
     (let server1 = server\<lparr>sv_event_fd := fd, sv_pairs := pairs\<rparr>
      in if fd = -1 then (ZOO_SMB_ERROR_EVENTFD_CREATION_FAILED, server1)
         else (ZOO_SMB_OK, server1\<lparr>sv_master := map_option (\<lambda>ms. ms\<lparr>ms_header := (ms_header ms)\<lparr>sh_event_fd := fd\<rparr>\<rparr>)
                 (sv_master server1)\<rparr>))"

text \<open>\<open>shm_server_start\<close> up to its loop.\<close>

definition shm_server_start ::
  "int option \<Rightarrow> int option \<Rightarrow> bool \<Rightarrow> int \<Rightarrow> int \<Rightarrow> (int \<times> int) list \<Rightarrow> shm_os \<Rightarrow> shm_server option
   \<Rightarrow> zoo_error \<times> shm_os \<times> shm_server option" where
  "shm_server_start excl again attached now fd pairs os impl =
     (case impl of
        None \<Rightarrow> (ZOO_SMB_ERROR_INVALID_PARAM, os, None)
      | Some server \<Rightarrow>
          if sv_is_started server then (ZOO_SMB_ERROR_ALREADY_STARTED, os, impl)
          else (case shm_server_create_master_segment excl again attached now os server of
              (result, os1, server1) \<Rightarrow>
                if ZOO_SMB_IS_ERROR result then (result, os1, Some server1)
                else (case shm_server_init_event_fd fd pairs server1 of
                    (result, server2) \<Rightarrow>
                      if ZOO_SMB_IS_ERROR result then
                        (result, if sv_master_id server2 \<noteq> -1 then shm_remove (sv_master_id server2) os1 else os1,
                         Some (server2\<lparr>sv_master := None, sv_master_id := -1\<rparr>))
                      else (ZOO_SMB_OK, os1,
                        Some (set_running True (server2\<lparr>sv_is_started := True, sv_should_stop := False\<rparr>))))))"

text \<open>One round of the loop, at the time \<open>now\<close>: every connected client is served once, in the order of the list.\<close>

fun serve_clients ::
  "endian \<Rightarrow> (nat \<Rightarrow> nat \<Rightarrow> shm_msg_env) \<Rightarrow> nat option list \<Rightarrow> nat list \<Rightarrow> shm_os \<Rightarrow> shm_server
   \<Rightarrow> shm_os \<times> shm_server \<times> (nat \<times> smb_msg) list" where
  "serve_clients e envs observers [] os server = (os, server, [])"
| "serve_clients e envs observers (i # is) os server =
     (case (if i < length (sv_clients server) \<and> ci_state (sv_clients server ! i) = TRANSPORT_CONN_STATE_CONNECTED
            then snd (shm_server_process_client_messages e (envs i) observers os server (sv_clients server ! i))
            else (os, server, [])) of
        (os1, server1, calls) \<Rightarrow>
          (case serve_clients e envs observers is os1 server1 of (os2, server2, rest) \<Rightarrow> (os2, server2, calls @ rest)))"

definition shm_server_round ::
  "endian \<Rightarrow> int \<Rightarrow> (nat \<Rightarrow> shm_reg_env) \<Rightarrow> (nat \<Rightarrow> nat \<Rightarrow> shm_msg_env) \<Rightarrow> nat option list \<Rightarrow> shm_os \<Rightarrow> shm_server
   \<Rightarrow> shm_os \<times> shm_server \<times> (nat \<times> smb_msg) list" where
  "shm_server_round e now regs envs observers os server =
     (case shm_server_cleanup_disconnected_clients now os server of
        (os1, server1) \<Rightarrow>
          (case shm_server_accept_new_clients regs os1 server1 of
             (_, os2, server2) \<Rightarrow> serve_clients e envs observers [0..<length (sv_clients server2)] os2 server2))"

text \<open>\<open>shm_server_stop\<close>; \<open>ended\<close> says whether the loop ended while the call waited for it.\<close>

definition shm_server_stop :: "bool \<Rightarrow> shm_server option \<Rightarrow> zoo_error \<times> shm_server option" where
  "shm_server_stop ended impl =
     (case impl of
        None \<Rightarrow> (ZOO_SMB_ERROR_INVALID_PARAM, None)
      | Some server \<Rightarrow>
          if \<not> sv_is_started server then (ZOO_SMB_OK, impl)
          else
            let server1 = set_running False (server\<lparr>sv_should_stop := True\<rparr>);
                server2 = (if ended then set_running False (server1\<lparr>sv_is_started := False\<rparr>) else server1)
            in (ZOO_SMB_OK, Some (server2\<lparr>sv_clients := map (\<lambda>c.
                  if ci_state c = TRANSPORT_CONN_STATE_CONNECTED
                  then shm_server_update_client_state c TRANSPORT_CONN_STATE_DISCONNECTED else c) (sv_clients server2),
                  sv_should_stop := False\<rparr>)))"

definition shm_server_is_started :: "shm_server option \<Rightarrow> bool" where
  "shm_server_is_started impl =
     (case impl of None \<Rightarrow> False | Some server \<Rightarrow> sv_is_started server \<and> \<not> sv_should_stop server)"

text \<open>\<open>shm_server_destroy\<close>: the segments and descriptors it leaves, or \<open>None\<close> if it follows a bad pointer.\<close>

definition shm_server_destroy :: "bool \<Rightarrow> shm_os \<Rightarrow> shm_server option \<Rightarrow> (shm_os \<times> (int \<times> int) list) option" where
  "shm_server_destroy ended os impl =
     (case impl of
        None \<Rightarrow> Some (os, [])
      | Some server0 \<Rightarrow>
          let server = the (snd (shm_server_stop ended impl));
              pairs = (if sv_event_fd server \<ge> 0 then fst (shm_eventfd_close (sv_event_fd server) (sv_pairs server))
                       else sv_pairs server);
              (os1, pairs1) = fold (\<lambda>c (os, ps). case shm_cleanup_client_resources os ps c of (os', ps', _, _) \<Rightarrow> (os', ps'))
                                (sv_clients server) (os, pairs)
          in if sv_bad_header server then None
             else Some (if sv_master server \<noteq> None then shm_remove (sv_master_id server) os1 else os1, pairs1))"

section \<open>Lemmas: one message\<close>

lemma is_error_ok [simp]: "\<not> ZOO_SMB_IS_ERROR ZOO_OK"
  by (simp add: ZOO_SMB_IS_ERROR_def ZOO_OK_def ZOO_SMB_OK_def)

lemma find_map_keep:
  "(\<And>x. P (f x) = P x) \<Longrightarrow> find P (map f xs) = map_option f (find P xs)"
  by (induction xs) auto

lemma client_at_update:
  assumes "\<And>c. ci_addr (f c) = ci_addr c"
  shows "client_at (update_client a f s) b = map_option (\<lambda>c. if ci_addr c = a then f c else c) (client_at s b)"
  unfolding client_at_def update_client_def
  by (simp, rule find_map_keep) (simp add: assms)

lemma client_atD: "client_at s a = Some c \<Longrightarrow> c \<in> set (sv_clients s) \<and> ci_addr c = a"
  unfolding client_at_def by (metis (mono_tags, lifting) find_Some_iff nth_mem)

lemma register_keeps [simp]:
  "sv_clients (snd (shm_register_sender_mapping ok now s name a)) = sv_clients s"
  "sv_master (snd (shm_register_sender_mapping ok now s name a)) = sv_master s"
  "sv_is_started (snd (shm_register_sender_mapping ok now s name a)) = sv_is_started s"
  by (auto simp: shm_register_sender_mapping_def Let_def split: option.split)

lemma update_client_keeps [simp]:
  "sv_mappings (update_client a f s) = sv_mappings s" "sv_master (update_client a f s) = sv_master s"
  "sv_is_started (update_client a f s) = sv_is_started s" "length (sv_clients (update_client a f s)) = length (sv_clients s)"
  by (simp_all add: update_client_def)

lemma client_at_cong: "sv_clients s = sv_clients t \<Longrightarrow> client_at s = client_at t"
  by (simp add: client_at_def fun_eq_iff)

definition env_ok :: "shm_msg_env \<Rightarrow> bool" where
  "env_ok env \<longleftrightarrow> buffer_ok env \<and> default_ok env \<and> deser_ok env \<and> mapping_ok env \<and> snap_ok env"

text \<open>What serving one message from client \<open>a\<close> makes of the server.\<close>

definition served :: "shm_msg_env \<Rightarrow> smb_msg \<Rightarrow> nat \<Rightarrow> shm_server \<Rightarrow> shm_server" where
  "served env m a s = snd (shm_register_sender_mapping (mapping_ok env) (env_now env)
     (update_client a (\<lambda>c. c\<lparr>ci_last_heartbeat := env_now env\<rparr>) s) (c_str (sender (header m))) a)"

lemma process_message:
  assumes "rx_ring c = Some rb" and "shm_segs os (ci_shm_id c) = Some seg"
    and "ring_holds e rb (seg_rx seg) (wire m # ps)" and "good_msg cfg m" and "env_ok env"
  obtains shm where "ring_holds e rb shm ps" and "allow_overwrite (ctl shm) = allow_overwrite (ctl (seg_rx seg))"
    and "shm_process_single_message e env obs os s c =
       (ZOO_SMB_OK, update_seg (ci_shm_id c) (\<lambda>s. s\<lparr>seg_rx := shm\<rparr>) os, served env m (ci_addr c) s,
        map (\<lambda>f. (f, received m)) (handlers obs))"
proof -
  obtain shm where r:
    "zoo_smb_ring_buffer_get_next_message_size e (Some rb) (seg_rx seg) = length (wire m)"
    "zoo_smb_ring_buffer_read e (Some rb) (seg_rx seg) (Some (replicate (length (wire m)) 0)) (length (wire m))
       = (ZOO_SMB_OK, shm, Some (wire m))"
    "zoo_smb_protocol_deserialize e True (Some (wire m)) (length (wire m))
       (Some \<lparr>header = zero_header, payload = None\<rparr>) sizeof_msg = (ZOO_SMB_OK, Some (received m))"
    "ring_holds e rb shm ps" "allow_overwrite (ctl shm) = allow_overwrite (ctl (seg_rx seg))"
    using read_deserialize [OF assms(4,3)] by metis
  have d: "zoo_smb_default_message True = Some \<lparr>header = zero_header, payload = None\<rparr>"
    by (simp add: zoo_smb_default_message_def smb_message_alloc_def sizeof_msg_def)
  have "header (received m) = header m" by (simp add: received_def)
  then have "shm_process_single_message e env obs os s c =
       (ZOO_SMB_OK, update_seg (ci_shm_id c) (\<lambda>s. s\<lparr>seg_rx := shm\<rparr>) os, served env m (ci_addr c) s,
        map (\<lambda>f. (f, received m)) (handlers obs))"
    using assms(1,2,5) r(1-3) d wire_size [OF assms(4)]
    by (simp add: shm_process_single_message_def Let_def env_ok_def served_def split_beta)
  then show ?thesis using that r(4,5) by blast
qed

section \<open>Lemmas: the messages of a client\<close>

text \<open>
  The server's side of a connection: client \<open>a\<close> is connected and has segment \<open>i\<close>, whose rings, through
  the handles \<open>srx\<close> and \<open>stx\<close>, hold the payloads \<open>ups\<close> (from the client) and \<open>downs\<close> (to it).
\<close>

definition server_link ::
  "endian \<Rightarrow> shm_os \<Rightarrow> shm_server \<Rightarrow> nat \<Rightarrow> int \<Rightarrow> ring_handle \<Rightarrow> ring_handle \<Rightarrow> u8 list list \<Rightarrow> u8 list list \<Rightarrow> bool" where
  "server_link e os s a i srx stx ups downs \<longleftrightarrow>
     (\<exists>c seg. client_at s a = Some c \<and> ci_state c = TRANSPORT_CONN_STATE_CONNECTED
        \<and> rx_ring c = Some srx \<and> tx_ring c = Some stx \<and> ci_shm_id c = i \<and> shm_segs os i = Some seg
        \<and> ring_holds e srx (seg_rx seg) ups \<and> allow_overwrite (ctl (seg_rx seg))
        \<and> ring_holds e stx (seg_tx seg) downs \<and> allow_overwrite (ctl (seg_tx seg)))"

lemma client_at_served:
  "client_at (served env m a s) b =
     map_option (\<lambda>c. if ci_addr c = a then c\<lparr>ci_last_heartbeat := env_now env\<rparr> else c) (client_at s b)"
proof -
  have "client_at (served env m a s) b = client_at (update_client a (\<lambda>c. c\<lparr>ci_last_heartbeat := env_now env\<rparr>) s) b"
    by (rule fun_cong [OF client_at_cong]) (simp add: served_def)
  then show ?thesis by (simp add: client_at_update)
qed

lemma server_link_served:
  assumes "server_link e os s a i srx stx ups downs" and "ring_holds e srx shm ups'" and "allow_overwrite (ctl shm)"
  shows "server_link e (update_seg i (\<lambda>s. s\<lparr>seg_rx := shm\<rparr>) os) (served env m a s) a i srx stx ups' downs"
proof -
  obtain c seg where c: "client_at s a = Some c" "ci_state c = TRANSPORT_CONN_STATE_CONNECTED"
    "rx_ring c = Some srx" "tx_ring c = Some stx" "ci_shm_id c = i" "shm_segs os i = Some seg"
    "ring_holds e stx (seg_tx seg) downs" "allow_overwrite (ctl (seg_tx seg))"
    using assms(1) by (auto simp: server_link_def)
  then have "client_at (served env m a s) a = Some (c\<lparr>ci_last_heartbeat := env_now env\<rparr>)"
    using client_atD [OF c(1)] by (simp add: client_at_served)
  then show ?thesis using c assms(2,3) by (simp add: server_link_def)
qed

text \<open>Whom a name leads to.\<close>

definition reaches :: "shm_server \<Rightarrow> u8 list \<Rightarrow> nat \<Rightarrow> bool" where
  "reaches s name a \<longleftrightarrow> map_option ci_addr (shm_find_target_client s name) = Some a"

lemma find_update_first:
  assumes "\<And>m. sm_sender_name (f m) = sm_sender_name m"
  shows "find (\<lambda>m. sm_sender_name m = nm) (update_first (\<lambda>m. sm_sender_name m = n) f ms) =
     (if nm = n then map_option f (find (\<lambda>m. sm_sender_name m = n) ms) else find (\<lambda>m. sm_sender_name m = nm) ms)"
  by (induction ms) (auto simp: assms)

lemma find_append_one: "find P (xs @ [y]) = (case find P xs of Some x \<Rightarrow> Some x | None \<Rightarrow> if P y then Some y else None)"
  by (induction xs) auto

text \<open>Serving a message changes where a name leads only by leading it to the sending client.\<close>

lemma mapping_served:
  "shm_find_sender_mapping (served env m a s) nm = shm_find_sender_mapping s nm
     \<or> (\<exists>mp. shm_find_sender_mapping (served env m a s) nm = Some mp \<and> sm_client_info mp = a)"
proof -
  let ?n = "c_str (sender (header m))"
  show ?thesis
  proof (cases "shm_find_sender_mapping s ?n")
    case None
    then show ?thesis
      by (auto simp: served_def shm_register_sender_mapping_def shm_find_sender_mapping_def find_append_one Let_def
          split: option.split)
  next
    case (Some mp)
    then show ?thesis
      by (auto simp: served_def shm_register_sender_mapping_def shm_find_sender_mapping_def find_update_first)
  qed
qed

lemma find_by_name_served:
  "map_option ci_addr (find (\<lambda>c. ci_state c = st \<and> ci_name c = nm) (sv_clients (served env m a s)))
     = map_option ci_addr (find (\<lambda>c. ci_state c = st \<and> ci_name c = nm) (sv_clients s))"
proof -
  have "sv_clients (served env m a s) = map (\<lambda>c. if ci_addr c = a then c\<lparr>ci_last_heartbeat := env_now env\<rparr> else c) (sv_clients s)"
    by (simp add: served_def update_client_def)
  then show ?thesis
    by (simp add: find_map_keep option.map_comp comp_def if_distrib cong: if_cong)
qed

lemma reaches_served:
  assumes "reaches s nm a" and "client_at s a = Some c" and "ci_state c = TRANSPORT_CONN_STATE_CONNECTED"
  shows "reaches (served env m a s) nm a"
proof -
  have c: "client_at (served env m a s) a = Some (c\<lparr>ci_last_heartbeat := env_now env\<rparr>)" "ci_addr c = a"
    using client_atD [OF assms(2)] assms(2) by (simp_all add: client_at_served)
  show ?thesis
  proof (cases "\<exists>mp. shm_find_sender_mapping (served env m a s) nm = Some mp \<and> sm_client_info mp = a")
    case True
    then show ?thesis using c assms(3) by (auto simp: reaches_def shm_find_target_client_def)
  next
    case False
    then have same: "shm_find_sender_mapping (served env m a s) nm = shm_find_sender_mapping s nm"
      using mapping_served [of env m a s nm] by blast
    note bn = find_by_name_served [of TRANSPORT_CONN_STATE_CONNECTED nm env m a s]
    show ?thesis
    proof (cases "shm_find_sender_mapping s nm")
      case None
      then show ?thesis using assms(1) same bn by (simp add: reaches_def shm_find_target_client_def)
    next
      case (Some mp)
      show ?thesis
      proof (cases "client_at s (sm_client_info mp)")
        case None
        then show ?thesis using Some assms(1) same bn
          by (simp add: reaches_def shm_find_target_client_def client_at_served)
      next
        case (Some d)
        then show ?thesis using \<open>shm_find_sender_mapping s nm = Some mp\<close> assms(1) same bn
          by (auto simp: reaches_def shm_find_target_client_def client_at_served split: if_splits)
      qed
    qed
  qed
qed

text \<open>And a client that has sent a message can be reached under the name of the sender.\<close>

lemma reaches_sender:
  assumes "client_at s a = Some c" and "ci_state c = TRANSPORT_CONN_STATE_CONNECTED" and "mapping_ok env"
    and "length (sv_mappings s) < mapping_cap" and "length (c_str (sender (header m))) < MAX_TRANSPORT_NAME_LENGTH"
  shows "reaches (served env m a s) (c_str (sender (header m))) a"
proof -
  let ?n = "c_str (sender (header m))"
  have "\<exists>mp. shm_find_sender_mapping (served env m a s) ?n = Some mp \<and> sm_client_info mp = a"
  proof (cases "shm_find_sender_mapping s ?n")
    case None
    then show ?thesis using assms(3-5)
      by (auto simp: served_def shm_register_sender_mapping_def shm_find_sender_mapping_def find_append_one Let_def)
  next
    case (Some mp)
    then show ?thesis
      by (auto simp: served_def shm_register_sender_mapping_def shm_find_sender_mapping_def find_update_first)
  qed
  moreover have "client_at (served env m a s) a = Some (c\<lparr>ci_last_heartbeat := env_now env\<rparr>)" "ci_addr c = a"
    using client_atD [OF assms(1)] assms(1) by (simp_all add: client_at_served)
  ultimately show ?thesis using assms(2) by (auto simp: reaches_def shm_find_target_client_def)
qed

definition delivered :: "nat option list \<Rightarrow> smb_msg list \<Rightarrow> (nat \<times> smb_msg) list" where
  "delivered obs ms = concat (map (\<lambda>m. map (\<lambda>f. (f, received m)) (handlers obs)) ms)"

lemma delivered_simps [simp]:
  "delivered obs [] = []" "delivered obs (m # ms) = map (\<lambda>f. (f, received m)) (handlers obs) @ delivered obs ms"
  "delivered obs (ms @ ns) = delivered obs ms @ delivered obs ns"
  by (simp_all add: delivered_def)

lemma messages_loop:
  assumes "server_link e os s a i srx stx (map wire ms) downs" and "\<forall>m \<in> set ms. good_msg cfg m"
    and "\<forall>k. env_ok (envs k)" and "reaches s nm a" and "sv_is_started s"
  shows "\<exists>os' s'. shm_messages_loop e envs obs a n os s = (os', s', delivered obs (take n ms))
           \<and> server_link e os' s' a i srx stx (map wire (drop n ms)) downs \<and> reaches s' nm a
           \<and> sv_is_started s' \<and> sv_master s' = sv_master s \<and> map ci_addr (sv_clients s') = map ci_addr (sv_clients s)"
  using assms(1,2,4,5)
proof (induction n arbitrary: os s ms)
  case (Suc n)
  obtain c seg where c: "client_at s a = Some c" "rx_ring c = Some srx" "ci_shm_id c = i" "shm_segs os i = Some seg"
    "ring_holds e srx (seg_rx seg) (map wire ms)" "allow_overwrite (ctl (seg_rx seg))"
    "ci_state c = TRANSPORT_CONN_STATE_CONNECTED"
    using Suc.prems(1) by (auto simp: server_link_def)
  have a: "ci_addr c = a" using client_atD [OF c(1)] by simp
  show ?case
  proof (cases ms)
    case Nil
    then show ?thesis using c Suc.prems by (auto simp: ring_has_data_iff)
  next
    case (Cons m ms')
    then have g: "good_msg cfg m" "\<forall>m \<in> set ms'. good_msg cfg m" using Suc.prems(2) by auto
    have h: "ring_holds e srx (seg_rx seg) (wire m # map wire ms')" using c(5) Cons by simp
    have "shm_segs os (ci_shm_id c) = Some seg" using c by simp
    from process_message [OF c(2) this h g(1), of "envs n" obs s] assms(3) obtain shm where p:
      "ring_holds e srx shm (map wire ms')" "allow_overwrite (ctl shm)"
      "shm_process_single_message e (envs n) obs os s c =
         (ZOO_SMB_OK, update_seg i (\<lambda>s. s\<lparr>seg_rx := shm\<rparr>) os, served (envs n) m a s,
          map (\<lambda>f. (f, received m)) (handlers obs))"
      using c(3,6) a by metis
    have "sv_is_started (served (envs n) m a s)" "sv_master (served (envs n) m a s) = sv_master s"
      "map ci_addr (sv_clients (served (envs n) m a s)) = map ci_addr (sv_clients s)"
      using Suc.prems(4) by (simp_all add: served_def update_client_def)
    with Suc.IH [OF server_link_served [OF Suc.prems(1) p(1,2), of "envs n" m] g(2)
        reaches_served [OF Suc.prems(3) c(1,7)]] obtain os' s' where
      "shm_messages_loop e envs obs a n (update_seg i (\<lambda>s. s\<lparr>seg_rx := shm\<rparr>) os) (served (envs n) m a s)
         = (os', s', delivered obs (take n ms'))" "server_link e os' s' a i srx stx (map wire (drop n ms')) downs"
      "reaches s' nm a" "sv_is_started s'" "sv_master s' = sv_master s"
      "map ci_addr (sv_clients s') = map ci_addr (sv_clients s)" by auto
    then show ?thesis using c h p Cons by (simp add: ring_has_data_iff(2) [OF h])
  qed
qed simp

text \<open>One call of \<open>shm_server_process_client_messages\<close> handles at most ten messages.\<close>

lemma process_client:
  assumes "server_link e os s a i srx stx (map wire ms) downs" and "\<forall>m \<in> set ms. good_msg cfg m"
    and "\<forall>k. env_ok (envs k)" and "reaches s nm a" and "sv_is_started s" and "client_at s a = Some c"
  shows "\<exists>os' s'. shm_server_process_client_messages e envs obs os s c = (ZOO_SMB_OK, os', s', delivered obs (take 10 ms))
           \<and> server_link e os' s' a i srx stx (map wire (drop 10 ms)) downs \<and> reaches s' nm a
           \<and> sv_is_started s' \<and> sv_master s' = sv_master s \<and> map ci_addr (sv_clients s') = map ci_addr (sv_clients s)"
proof -
  obtain seg where c: "rx_ring c = Some srx" "shm_segs os (ci_shm_id c) = Some seg"
    "ring_holds e srx (seg_rx seg) (map wire ms)" "ci_addr c = a"
    using assms(1,6) client_atD [OF assms(6)] by (auto simp: server_link_def)
  have v: "zoo_smb_ring_buffer_is_valid (Some srx) (seg_rx seg)" using c(3) by (simp add: ring_holds_def)
  show ?thesis
  proof (cases "ms = []")
    case True
    then show ?thesis using c v assms(1,4,5) by (auto simp: shm_server_process_client_messages_def ring_has_data_iff)
  next
    case False
    then have "\<not> zoo_smb_ring_buffer_is_empty (Some srx) (seg_rx seg)" using ring_has_data_iff(2) [OF c(3)] by simp
    with messages_loop [OF assms(1-5), of obs 10] c v show ?thesis
      by (auto simp: shm_server_process_client_messages_def MAX_MESSAGES_PER_CYCLE_def)
  qed
qed

text \<open>A message sent to a name that leads to client \<open>a\<close> is in its ring.\<close>

lemma server_send_link:
  assumes "server_link e os s a i srx stx ups (map wire q)" and "\<forall>m \<in> set q. good_msg cfg m" and "good_msg cfg m"
    and "100000 \<le> unat (h_data_size stx)" and "length b = MAX_TRANSPORT_BUFFER_SIZE"
    and "reaches s (c_str nm) a" and "sv_is_started s" and "distinct (map ci_addr (sv_clients s))"
  shows "\<exists>os'. shm_server_send e now (Some b) os (Some s) (Some m) (Some nm) = (ZOO_SMB_OK, os')
           \<and> server_link e os' s a i srx stx ups (map wire (lossy_put (unat (h_data_size stx)) q m))"
proof -
  obtain c seg where c: "client_at s a = Some c" "ci_state c = TRANSPORT_CONN_STATE_CONNECTED"
    "rx_ring c = Some srx" "tx_ring c = Some stx" "ci_shm_id c = i" "shm_segs os i = Some seg"
    "ring_holds e srx (seg_rx seg) ups" "allow_overwrite (ctl (seg_rx seg))"
    "ring_holds e stx (seg_tx seg) (map wire q)" "allow_overwrite (ctl (seg_tx seg))"
    using assms(1) by (auto simp: server_link_def)
  obtain d where d: "shm_find_target_client s (c_str nm) = Some d" "ci_addr d = a"
    using assms(6) by (auto simp: reaches_def)
  have "d \<in> set (sv_clients s)"
    using d(1) client_atD [of s] unfolding shm_find_target_client_def Let_def
    by (auto split: option.splits if_splits simp: find_Some_iff)
  then have "d = c" using assms(8) client_atD [OF c(1)] d(2) by (auto simp: distinct_map dest: inj_onD)
  obtain b' shm where w:
    "zoo_smb_protocol_serialize e (Some m) (Some b) MAX_TRANSPORT_BUFFER_SIZE = (length (wire m), Some b')"
    "zoo_smb_ring_buffer_write e now (Some stx) (seg_tx seg) (Some b') (length (wire m)) = (ZOO_SMB_OK, shm)"
    "ring_holds e stx shm (map wire (lossy_put (unat (h_data_size stx)) q m))" "allow_overwrite (ctl shm)"
    using serialize_write [OF assms(3,5) c(9,10) assms(2,4)] by metis
  have "shm_server_send e now (Some b) os (Some s) (Some m) (Some nm)
      = (ZOO_SMB_OK, update_seg i (\<lambda>s. s\<lparr>seg_tx := shm\<rparr>) os)"
    using assms(7) d(1) \<open>d = c\<close> c(4-6) w(1,2) wire_size(1) [OF assms(3)]
    by (simp add: shm_server_send_def shm_send_to_target_client_def write_tx_def)
  then show ?thesis using c w(3,4) by (auto simp: server_link_def)
qed

section \<open>Lemmas: cleaning up\<close>

lemma cleanup_mappings:
  "i \<le> length ms \<Longrightarrow> cleanup_mappings_from a i ms = take i ms @ filter (\<lambda>m. sm_client_info m \<noteq> a) (drop i ms)"
proof (induction a i ms rule: cleanup_mappings_from.induct)
  case (1 a i ms)
  show ?case
  proof (cases "i < length ms")
    case True
    then have d: "drop i ms = ms ! i # drop (Suc i) ms" by (simp add: Cons_nth_drop_Suc)
    show ?thesis
    proof (cases "sm_client_info (ms ! i) = a")
      case gone: True
      then have "cleanup_mappings_from a i ms = cleanup_mappings_from a i (take i ms @ drop (Suc i) ms)"
        using True by (subst cleanup_mappings_from.simps) simp
      then show ?thesis using 1(1) [OF True gone] True gone d by simp
    next
      case False
      then have "cleanup_mappings_from a i ms = cleanup_mappings_from a (i + 1) ms"
        using True by (subst cleanup_mappings_from.simps) simp
      then show ?thesis using 1(2) [OF True False] True False d by (simp add: take_Suc_conv_app_nth)
    qed
  next
    case False
    then show ?thesis using 1(3) by (subst cleanup_mappings_from.simps) simp
  qed
qed

lemma drop_client_eqs:
  assumes "i < length (sv_clients s)"
  shows "sv_clients (snd (drop_client i os s)) = take i (sv_clients s) @ drop (Suc i) (sv_clients s)"
    and "sv_mappings (snd (drop_client i os s)) = filter (\<lambda>m. sm_client_info m \<noteq> ci_addr (sv_clients s ! i)) (sv_mappings s)"
    and "sv_master (snd (drop_client i os s)) = sv_master s"
    and "sv_is_started (snd (drop_client i os s)) = sv_is_started s"
  using assms
  by (simp_all add: drop_client_clients)
    (simp_all add: drop_client_def Let_def shm_cleanup_sender_mappings_for_client_def cleanup_mappings split: prod.split)

lemma cleanup_from_result:
  "i \<le> length (sv_clients s) \<Longrightarrow>
     sv_clients (snd (cleanup_from now i os s)) = take i (sv_clients s) @ filter (\<lambda>c. \<not> needs_cleanup now c) (drop i (sv_clients s))
   \<and> sv_master (snd (cleanup_from now i os s)) = sv_master s
   \<and> sv_mappings (snd (cleanup_from now i os s)) = filter (\<lambda>m. \<forall>c \<in> set (drop i (sv_clients s)).
         needs_cleanup now c \<longrightarrow> sm_client_info m \<noteq> ci_addr c) (sv_mappings s)"
proof (induction now i os s rule: cleanup_from.induct)
  case (1 now i os s)
  show ?case
  proof (cases "i < length (sv_clients s)")
    case True
    then have d: "drop i (sv_clients s) = sv_clients s ! i # drop (Suc i) (sv_clients s)" by (simp add: Cons_nth_drop_Suc)
    show ?thesis
    proof (cases "needs_cleanup now (sv_clients s ! i)")
      case n: True
      obtain os1 s1 where dc: "drop_client i os s = (os1, s1)" by fastforce
      note e = drop_client_eqs [OF True, of os, unfolded dc snd_conv]
      have "cleanup_from now i os s = cleanup_from now i os1 s1"
        using True n dc by (subst cleanup_from.simps) simp
      then show ?thesis
        using 1(1) [OF True n dc [symmetric]] True n d e by (auto intro!: filter_cong)
    next
      case False
      then have "cleanup_from now i os s = cleanup_from now (i + 1) os s"
        using True by (subst cleanup_from.simps) simp
      then show ?thesis using 1(2) [OF True False] True False d by (auto simp: take_Suc_conv_app_nth)
    qed
  next
    case False
    then show ?thesis using 1(3) by (subst cleanup_from.simps) (simp add: cleanup_from.simps)
  qed
qed

text \<open>A segment whose rx ring can no longer be used.\<close>

definition rx_dead :: "shm_os \<Rightarrow> int \<Rightarrow> bool" where
  "rx_dead os j \<longleftrightarrow> (\<forall>seg. shm_segs os j = Some seg \<longrightarrow> corrupted (ctl (seg_rx seg)))"

lemma destroy_corrupted: "corrupted (ctl shm) \<Longrightarrow> corrupted (ctl (zoo_smb_ring_buffer_destroy rb shm))"
  by (simp add: zoo_smb_ring_buffer_destroy_def split: option.split)

lemma cleanup_resources_segs:
  "shm_segs (fst (shm_cleanup_client_resources os ps c)) j =
     (if j = ci_shm_id c then map_option (\<lambda>s. s\<lparr>seg_tx := zoo_smb_ring_buffer_destroy (tx_ring c) (seg_tx s),
          seg_rx := zoo_smb_ring_buffer_destroy (rx_ring c) (seg_rx s)\<rparr>) (shm_segs os j) else shm_segs os j)"
  by (simp add: shm_cleanup_client_resources_def Let_def split_beta option.map_comp comp_def)

lemma drop_client_segs: "fst (drop_client i os s) = fst (shm_cleanup_client_resources os (sv_pairs s) (sv_clients s ! i))"
  by (simp add: drop_client_def Let_def shm_cleanup_sender_mappings_for_client_def split_beta)

lemma drop_client_dead:
  "rx_dead os j \<Longrightarrow> rx_dead (fst (drop_client i os s)) j"
  "rx_ring (sv_clients s ! i) = Some rb \<Longrightarrow> is_owner rb \<Longrightarrow> h_control rb \<noteq> None \<Longrightarrow>
     rx_dead (fst (drop_client i os s)) (ci_shm_id (sv_clients s ! i))"
  by (auto simp: rx_dead_def drop_client_segs cleanup_resources_segs destroy_corrupted)
    (simp add: zoo_smb_ring_buffer_destroy_def)

lemma cleanup_from_dead: "rx_dead os j \<Longrightarrow> rx_dead (fst (cleanup_from now i os s)) j"
proof (induction now i os s rule: cleanup_from.induct)
  case (1 now i os s)
  obtain os1 s1 where dc: "drop_client i os s = (os1, s1)" by fastforce
  then have "rx_dead os1 j" using drop_client_dead(1) [OF 1(3), of i s] by simp
  then show ?case using 1 dc by (subst cleanup_from.simps) simp
qed

lemma cleanup_from_segs: "shm_segs os j \<noteq> None \<Longrightarrow> shm_segs (fst (cleanup_from now i os s)) j \<noteq> None"
proof (induction now i os s rule: cleanup_from.induct)
  case (1 now i os s)
  obtain os1 s1 where dc: "drop_client i os s = (os1, s1)" by fastforce
  then have "shm_segs os1 j \<noteq> None"
    using 1(3) drop_client_segs [of i os s] cleanup_resources_segs [of os "sv_pairs s" "sv_clients s ! i" j] by auto
  then show ?case using 1 dc by (subst cleanup_from.simps) simp
qed

lemma cleanup_from_kills:
  "c \<in> set (drop i (sv_clients s)) \<Longrightarrow> needs_cleanup now c \<Longrightarrow> rx_ring c = Some rb \<Longrightarrow> is_owner rb \<Longrightarrow>
     h_control rb \<noteq> None \<Longrightarrow> rx_dead (fst (cleanup_from now i os s)) (ci_shm_id c)"
proof (induction now i os s rule: cleanup_from.induct)
  case (1 now i os s)
  have i: "i < length (sv_clients s)" using 1(3) by (cases "i < length (sv_clients s)") auto
  then have d: "drop i (sv_clients s) = sv_clients s ! i # drop (Suc i) (sv_clients s)" by (simp add: Cons_nth_drop_Suc)
  show ?case
  proof (cases "needs_cleanup now (sv_clients s ! i)")
    case True
    obtain os1 s1 where dc: "drop_client i os s = (os1, s1)" by fastforce
    have step: "cleanup_from now i os s = cleanup_from now i os1 s1" using i True dc by (subst cleanup_from.simps) simp
    show ?thesis
    proof (cases "c = sv_clients s ! i")
      case True
      then have "rx_dead os1 (ci_shm_id c)" using drop_client_dead(2) [of s i rb os] 1(5-7) dc by simp
      then show ?thesis using cleanup_from_dead step by simp
    next
      case False
      then have "c \<in> set (drop i (sv_clients s1))"
        using 1(3) d drop_client_eqs(1) [OF i, of os] dc i by simp
      then show ?thesis using 1(1) [OF i True dc [symmetric] _ 1(4-7)] step by simp
    qed
  next
    case False
    then have "cleanup_from now i os s = cleanup_from now (i + 1) os s" "c \<in> set (drop (i + 1) (sv_clients s))"
      using i 1(3,4) d by (subst cleanup_from.simps, auto)
    then show ?thesis using 1(2) [OF i False _ 1(4-7)] by simp
  qed
qed

section \<open>What the server and the others do\<close>

text \<open>Addresses the pool hands out for the slots from \<open>i\<close> on are not in use.\<close>

definition fresh_regs :: "(nat \<Rightarrow> shm_reg_env) \<Rightarrow> nat \<Rightarrow> shm_server \<Rightarrow> bool" where
  "fresh_regs regs i s \<longleftrightarrow>
     (\<forall>j a. i \<le> j \<and> reg_info (regs j) = Some a \<longrightarrow> a \<notin> ci_addr ` set (sv_clients s))
     \<and> (\<forall>j k a. i \<le> j \<and> i \<le> k \<and> reg_info (regs j) = Some a \<and> reg_info (regs k) = Some a \<longrightarrow> j = k)"

text \<open>
  The steps of a started server and of its environment: the parts of a round of its loop, a stop, a
  client's request in the registration area, and any change other processes make to the segments.
\<close>

inductive shm_step :: "shm_os \<times> shm_server \<Rightarrow> shm_os \<times> shm_server \<Rightarrow> bool" where
  cleanup: "shm_server_cleanup_disconnected_clients now os s = (os', s') \<Longrightarrow> shm_step (os, s) (os', s')"
| accept: "fresh_regs regs 0 s \<Longrightarrow> shm_server_accept_new_clients regs os s = (r, os', s') \<Longrightarrow> shm_step (os, s) (os', s')"
| serve: "c \<in> set (sv_clients s) \<Longrightarrow>
    shm_server_process_client_messages e envs obs os s c = (r, os', s', calls) \<Longrightarrow> shm_step (os, s) (os', s')"
| stop: "shm_server_stop ended (Some s) = (r, Some s') \<Longrightarrow> shm_step (os, s) (os, s')"
| request: "sv_master s = Some ms \<Longrightarrow>
    shm_request_client_registration kill_sys free now os (Some ms) name pid key fd = (cid, Some ms') \<Longrightarrow>
    shm_step (os, s) (os, s\<lparr>sv_master := Some ms'\<rparr>)"
| world: "shm_step (os, s) (os', s)"

inductive shm_reach :: "shm_os \<times> shm_server \<Rightarrow> bool" where
  init: "shm_server_init ok ok1 ok2 name = (r, Some s) \<Longrightarrow> shm_reach (os, s)"
| start: "shm_reach (os, s) \<Longrightarrow> shm_server_start excl again attached now fd pairs os (Some s) = (r, os', Some s')
    \<Longrightarrow> shm_reach (os', s')"
| step: "shm_reach y \<Longrightarrow> shm_step y y' \<Longrightarrow> shm_reach y'"

subsection \<open>The tables stay consistent\<close>

text \<open>
  Clients have different addresses and both rings, every mapping leads to a client of the list, and
  the lists stay within their capacities.
\<close>

definition tables_ok :: "shm_server \<Rightarrow> bool" where
  "tables_ok s \<longleftrightarrow>
     distinct (map ci_addr (sv_clients s))
     \<and> (\<forall>c \<in> set (sv_clients s). rx_ring c \<noteq> None \<and> tx_ring c \<noteq> None)
     \<and> (\<forall>m \<in> set (sv_mappings s). sm_client_info m \<in> ci_addr ` set (sv_clients s))
     \<and> length (sv_clients s) \<le> client_cap \<and> length (sv_mappings s) \<le> mapping_cap"

lemma set_update_first: "x \<in> set (update_first P f xs) \<Longrightarrow> x \<in> set xs \<or> (\<exists>y \<in> set xs. x = f y)"
  by (induction xs) (auto split: if_splits)

lemma length_update_first [simp]: "length (update_first P f xs) = length xs"
  by (induction xs) auto

lemma tables_register:
  assumes "tables_ok s" and "a \<in> ci_addr ` set (sv_clients s)"
  shows "tables_ok (snd (shm_register_sender_mapping ok now s name a))"
proof -
  let ?s' = "snd (shm_register_sender_mapping ok now s name a)"
  have "sm_client_info m = a \<or> m \<in> set (sv_mappings s) \<or> (\<exists>k \<in> set (sv_mappings s). sm_client_info m = sm_client_info k)"
    if "m \<in> set (sv_mappings ?s')" for m
    using that by (auto simp: shm_register_sender_mapping_def Let_def split: option.splits if_splits
        dest!: set_update_first)
  moreover have "length (sv_mappings ?s') \<le> mapping_cap"
    using assms(1) by (auto simp: tables_ok_def shm_register_sender_mapping_def Let_def split: option.splits if_splits)
  ultimately show ?thesis
    using assms unfolding tables_ok_def register_keeps by metis
qed

lemma update_client_map:
  "(\<And>c. ci_addr (f c) = ci_addr c) \<Longrightarrow> map ci_addr (sv_clients (update_client a f s)) = map ci_addr (sv_clients s)"
  by (simp add: update_client_def)

lemma update_client_addrs:
  assumes "\<And>c. ci_addr (f c) = ci_addr c"
  shows "ci_addr ` set (sv_clients (update_client a f s)) = ci_addr ` set (sv_clients s)"
  using arg_cong [OF update_client_map [of f a s, OF assms], of set] by simp

lemma tables_map:
  assumes "tables_ok s" and "sv_clients s' = map f (sv_clients s)" and "sv_mappings s' = sv_mappings s"
    and "\<And>c. ci_addr (f c) = ci_addr c"
    and "\<And>c. rx_ring c \<noteq> None \<Longrightarrow> rx_ring (f c) \<noteq> None" and "\<And>c. tx_ring c \<noteq> None \<Longrightarrow> tx_ring (f c) \<noteq> None"
  shows "tables_ok s'"
proof -
  have m: "map ci_addr (sv_clients s') = map ci_addr (sv_clients s)" using assms(2,4) by simp
  then have "ci_addr ` set (sv_clients s') = ci_addr ` set (sv_clients s)" by (metis set_map)
  moreover have "\<forall>c \<in> set (sv_clients s'). rx_ring c \<noteq> None \<and> tx_ring c \<noteq> None"
    using assms(1,2,5,6) by (auto simp: tables_ok_def)
  moreover have "length (sv_clients s') = length (sv_clients s)" using assms(2) by simp
  ultimately show ?thesis using assms(1,3) m unfolding tables_ok_def by presburger
qed

lemma tables_update:
  assumes "tables_ok s" and "\<And>c. ci_addr (f c) = ci_addr c"
    and "\<And>c. rx_ring c \<noteq> None \<Longrightarrow> rx_ring (f c) \<noteq> None" and "\<And>c. tx_ring c \<noteq> None \<Longrightarrow> tx_ring (f c) \<noteq> None"
  shows "tables_ok (update_client a f s)"
  by (rule tables_map [OF assms(1), of _ "\<lambda>c. if ci_addr c = a then f c else c"]) (use assms in \<open>auto simp: update_client_def\<close>)

text \<open>The changes one message makes to the server, whatever the outcome.\<close>

lemma process_single_cases:
  assumes "shm_process_single_message e env obs os s c = (r, os', s', calls)"
  obtains (same) "s' = s"
  | (clear) rb where "s' = update_client (ci_addr c) (\<lambda>c. c\<lparr>rx_ring := Some rb\<rparr>) s"
  | (msg) ok now name where "s' = snd (shm_register_sender_mapping ok now
        (update_client (ci_addr c) (\<lambda>c. c\<lparr>ci_last_heartbeat := now\<rparr>) s) name (ci_addr c))"
  using assms
  by (auto simp: shm_process_single_message_def Let_def zoo_smb_ring_buffer_clear_def split_beta
      split: option.splits if_splits prod.splits)

lemma tables_process_single:
  assumes "tables_ok s" and "ci_addr c \<in> ci_addr ` set (sv_clients s)"
    and "shm_process_single_message e env obs os s c = (r, os', s', calls)"
  shows "tables_ok s' \<and> sv_master s' = sv_master s \<and> ci_addr ` set (sv_clients s') = ci_addr ` set (sv_clients s)"
  using assms(3)
proof (cases rule: process_single_cases)
  case same
  then show ?thesis using assms(1) by simp
next
  case (clear rb)
  then show ?thesis using tables_update [OF assms(1)] by (simp add: update_client_addrs)
next
  case (msg ok now name)
  let ?t = "update_client (ci_addr c) (\<lambda>c. c\<lparr>ci_last_heartbeat := now\<rparr>) s"
  have "tables_ok ?t" "ci_addr c \<in> ci_addr ` set (sv_clients ?t)"
    using tables_update [OF assms(1), of "\<lambda>c. c\<lparr>ci_last_heartbeat := now\<rparr>"] assms(2)
    by (simp_all add: update_client_addrs)
  from tables_register [OF this] msg show ?thesis by (simp add: update_client_addrs)
qed

lemma process_single_master:
  "shm_process_single_message e env obs os s c = (r, os', s', calls) \<Longrightarrow> sv_master s' = sv_master s"
  by (erule process_single_cases) simp_all

lemma loop_master: "shm_messages_loop e envs obs a n os s = (os', s', calls) \<Longrightarrow> sv_master s' = sv_master s"
proof (induction n arbitrary: os s calls)
  case (Suc n)
  then show ?case
    by (auto split: option.splits if_splits prod.splits dest!: process_single_master)
qed simp

lemma serve_master:
  "shm_server_process_client_messages e envs obs os s c = (r, os', s', calls) \<Longrightarrow> sv_master s' = sv_master s"
  by (auto simp: shm_server_process_client_messages_def split: option.splits if_splits prod.splits dest: loop_master)

lemma tables_loop:
  assumes "tables_ok s" and "shm_messages_loop e envs obs a n os s = (os', s', calls)"
  shows "tables_ok s' \<and> sv_master s' = sv_master s"
  using assms
proof (induction n arbitrary: os s calls)
  case (Suc n)
  show ?case
  proof (cases "\<exists>c seg. client_at s a = Some c \<and> shm_segs os (ci_shm_id c) = Some seg
      \<and> \<not> zoo_smb_ring_buffer_is_empty (rx_ring c) (seg_rx seg)")
    case True
    then obtain c seg where c: "client_at s a = Some c" "shm_segs os (ci_shm_id c) = Some seg"
      "\<not> zoo_smb_ring_buffer_is_empty (rx_ring c) (seg_rx seg)" by blast
    obtain r os1 s1 calls1 where p: "shm_process_single_message e (envs n) obs os s c = (r, os1, s1, calls1)"
      using prod_cases4 by blast
    have "ci_addr c \<in> ci_addr ` set (sv_clients s)" using client_atD [OF c(1)] by auto
    from tables_process_single [OF Suc.prems(1) this p] have t: "tables_ok s1" "sv_master s1 = sv_master s" by auto
    show ?thesis
    proof (cases "ZOO_SMB_IS_ERROR r")
      case True
      then show ?thesis using Suc.prems(2) c p t by simp
    next
      case False
      then obtain calls2 where "shm_messages_loop e envs obs a n os1 s1 = (os', s', calls2)"
        using Suc.prems(2) c p by (auto split: prod.splits)
      from Suc.IH [OF t(1) this] t(2) show ?thesis by simp
    qed
  next
    case False
    then have "s' = s" using Suc.prems(2) by (auto split: option.splits if_splits)
    then show ?thesis using Suc.prems(1) by simp
  qed
qed simp

lemma tables_serve:
  assumes "tables_ok s" and "shm_server_process_client_messages e envs obs os s c = (r, os', s', calls)"
  shows "tables_ok s' \<and> sv_master s' = sv_master s"
  using assms tables_loop
  by (fastforce simp: shm_server_process_client_messages_def split: option.splits if_splits prod.splits)

lemma register_client_added:
  assumes "shm_validate_and_register_client env os s r = (x, os', s', r')"
  shows "sv_mappings s' = sv_mappings s \<and> map_option ms_slots (sv_master s') = map_option ms_slots (sv_master s)
    \<and> take (length (sv_clients s)) (sv_clients s') = sv_clients s
    \<and> length (drop (length (sv_clients s)) (sv_clients s')) \<le> 1
    \<and> (\<forall>c \<in> set (drop (length (sv_clients s)) (sv_clients s')).
         reg_info env = Some (ci_addr c) \<and> rx_ring c \<noteq> None \<and> tx_ring c \<noteq> None \<and> length (sv_clients s) < client_cap)"
proof -
  have full: "ZOO_SMB_IS_ERROR ZOO_ERROR_BUFFER_FULL" by (simp add: ZOO_SMB_IS_ERROR_def ZOO_ERROR_BUFFER_FULL_def)
  show ?thesis
    using assms
    by (auto simp: shm_validate_and_register_client_def Let_def full shm_server_update_client_state_def new_client_def
        option.map_comp comp_def split: option.splits if_splits)
qed

lemma register_client_cases:
  assumes "shm_validate_and_register_client env os s r = (x, os', s', r')"
  shows "sv_mappings s' = sv_mappings s \<and> map_option ms_slots (sv_master s') = map_option ms_slots (sv_master s)
    \<and> (sv_clients s' = sv_clients s
       \<or> (\<exists>c. reg_info env = Some (ci_addr c) \<and> rx_ring c \<noteq> None \<and> tx_ring c \<noteq> None
            \<and> length (sv_clients s) < client_cap \<and> sv_clients s' = sv_clients s @ [c]))"
proof -
  let ?cs = "drop (length (sv_clients s)) (sv_clients s')"
  note a = register_client_added [OF assms]
  have s': "sv_clients s' = sv_clients s @ ?cs" using a append_take_drop_id [of "length (sv_clients s)" "sv_clients s'"] by metis
  consider "?cs = []" | c where "?cs = [c]" using a by (cases ?cs) auto
  then show ?thesis
  proof cases
    case 1
    then show ?thesis using a s' by simp
  next
    case (2 c)
    then have "sv_clients s' = sv_clients s @ [c]" using s' by simp
    then show ?thesis using a 2 by auto
  qed
qed

lemma tables_register_client:
  assumes "tables_ok s" and "shm_validate_and_register_client env os s r = (x, os', s', r')"
    and "\<forall>a. reg_info env = Some a \<longrightarrow> a \<notin> ci_addr ` set (sv_clients s)"
  shows "tables_ok s'"
  using register_client_cases [OF assms(2)] assms(1,3) by (auto simp: tables_ok_def)

lemma tables_set_slot [simp]: "tables_ok (set_slot i r s) = tables_ok s"
  by (simp add: tables_ok_def set_slot_def)

lemma fresh_set_slot [simp]: "fresh_regs regs i (set_slot j r s) = fresh_regs regs i s"
  by (simp add: fresh_regs_def set_slot_def)

lemma fresh_register:
  assumes "fresh_regs regs i s" and "shm_validate_and_register_client (regs i) os s r = (x, os', s', r')"
  shows "fresh_regs regs (i + 1) s'"
proof -
  consider "sv_clients s' = sv_clients s"
    | c where "reg_info (regs i) = Some (ci_addr c)" "sv_clients s' = sv_clients s @ [c]"
    using register_client_cases [OF assms(2)] by blast
  then show ?thesis
  proof cases
    case 1
    then show ?thesis using assms(1) unfolding fresh_regs_def by (metis Suc_eq_plus1 Suc_leD)
  next
    case (2 c)
    have "a \<noteq> ci_addr c" if "i + 1 \<le> j" "reg_info (regs j) = Some a" for j a
    proof
      assume "a = ci_addr c"
      then have "i = j" using assms(1) 2(1) that unfolding fresh_regs_def by (metis add_leD1 order_refl)
      then show False using that by simp
    qed
    moreover have "fresh_regs regs (i + 1) s" using assms(1) unfolding fresh_regs_def by (metis add_leD1)
    ultimately show ?thesis using 2(2) unfolding fresh_regs_def by auto
  qed
qed

lemma tables_accept_from:
  "tables_ok s \<Longrightarrow> fresh_regs regs i s \<Longrightarrow> tables_ok (snd (accept_from regs i os s))"
proof (induction regs i os s rule: accept_from.induct)
  case (1 regs i os s)
  show ?case
  proof (cases "i < ZOO_SMB_SHM_MAX_PENDING_REGISTRATIONS \<and> sv_master s \<noteq> None")
    case True
    then obtain ms where ms: "i < ZOO_SMB_SHM_MAX_PENDING_REGISTRATIONS" "sv_master s = Some ms" by auto
    have fresh: "fresh_regs regs (i + 1) s" using 1(4) unfolding fresh_regs_def by (metis Suc_eq_plus1 Suc_leD)
    show ?thesis
    proof (cases "reg_status (ms_slots ms ! i) = ZOO_SMB_REGISTRATION_PENDING")
      case True
      obtain x os1 s1 r' where v: "shm_validate_and_register_client (regs i) os s (ms_slots ms ! i) = (x, os1, s1, r')"
        using prod_cases4 by blast
      have "tables_ok s1" using tables_register_client [OF 1(3) v] 1(4) unfolding fresh_regs_def by blast
      moreover have "fresh_regs regs (i + 1) s1" using fresh_register [OF 1(4) v] .
      ultimately have "tables_ok (snd (accept_from regs (i + 1) os1 (set_slot i r' s1)))"
        using 1(2) [OF ms refl _ v [symmetric] refl refl] True by simp
      then show ?thesis using ms True v by (subst accept_from.simps) (simp add: Let_def)
    next
      case False
      then have "tables_ok (snd (accept_from regs (i + 1) os s))" using 1(1) [OF ms refl] 1(3) fresh by simp
      then show ?thesis using ms False by (subst accept_from.simps) (simp add: Let_def)
    qed
  next
    case False
    then show ?thesis using 1(3) by (subst accept_from.simps) (auto split: option.split)
  qed
qed

lemma tables_cleanup:
  assumes "tables_ok s" and "shm_server_cleanup_disconnected_clients now os s = (os', s')"
  shows "tables_ok s'"
proof -
  obtain os1 s1 where c: "cleanup_from now 0 os s = (os1, s1)" by fastforce
  from cleanup_from_result [of 0 s now os, unfolded c] have
    s1: "sv_clients s1 = filter (\<lambda>c. \<not> needs_cleanup now c) (sv_clients s)"
    "sv_mappings s1 = filter (\<lambda>m. \<forall>c \<in> set (sv_clients s). needs_cleanup now c \<longrightarrow> sm_client_info m \<noteq> ci_addr c) (sv_mappings s)"
    by simp_all
  have "sm_client_info m \<in> ci_addr ` set (sv_clients s1)" if "m \<in> set (sv_mappings s1)" for m
    using that assms(1) s1 by (fastforce simp: tables_ok_def)
  moreover have "length (sv_clients s1) \<le> client_cap" "length (sv_mappings s1) \<le> mapping_cap"
    unfolding s1 using assms(1) by (auto simp: tables_ok_def intro: order_trans [OF length_filter_le])
  moreover have "distinct (map ci_addr (sv_clients s1))"
    using assms(1) s1(1) by (simp add: tables_ok_def distinct_map_filter)
  ultimately have "tables_ok s1" using assms(1) s1(1) by (auto simp: tables_ok_def)
  then show ?thesis using assms(2) c by (auto simp: shm_server_cleanup_disconnected_clients_def tables_ok_def)
qed

lemma tables_stop:
  assumes "tables_ok s" and "shm_server_stop ended (Some s) = (r, Some s')"
  shows "tables_ok s'"
proof -
  let ?f = "\<lambda>c. if ci_state c = TRANSPORT_CONN_STATE_CONNECTED
      then shm_server_update_client_state c TRANSPORT_CONN_STATE_DISCONNECTED else c"
  have "sv_mappings s' = sv_mappings s" "s' = s \<or> sv_clients s' = map ?f (sv_clients s)"
    using assms(2) by (auto simp: shm_server_stop_def Let_def set_running_def split: if_splits)
  then show ?thesis
    using assms(1) tables_map [OF assms(1), of s' ?f] by (auto simp: shm_server_update_client_state_def)
qed

lemma tables_step: "shm_step y y' \<Longrightarrow> tables_ok (snd y) \<Longrightarrow> tables_ok (snd y')"
proof (induction rule: shm_step.induct)
  case (accept regs s os r os' s')
  then show ?case using tables_accept_from [OF accept.prems, of regs 0 os]
    by (auto simp: shm_server_accept_new_clients_def split: option.splits if_splits)
next
  case (cleanup now os s os' s')
  then show ?case using tables_cleanup [OF _ cleanup.hyps] by simp
next
  case (serve c s e envs obs os r os' s' calls)
  then show ?case using tables_serve [OF _ serve.hyps(2)] by simp
next
  case (stop ended s r s' os)
  then show ?case using tables_stop [OF _ stop.hyps] by simp
qed (simp_all add: tables_ok_def)

lemma reach_tables: "shm_reach y \<Longrightarrow> tables_ok (snd y)"
proof (induction rule: shm_reach.induct)
  case (init ok ok1 ok2 name r s os)
  then show ?case by (auto simp: shm_server_init_def tables_ok_def split: option.splits if_splits)
next
  case (start os s excl again attached now fd pairs r os' s')
  then have "sv_clients s' = sv_clients s" "sv_mappings s' = sv_mappings s"
    by (auto simp: shm_server_start_def shm_server_create_master_segment_def shm_server_init_event_fd_def Let_def
        set_running_def split: option.splits if_splits)
  then show ?case using start by (simp add: tables_ok_def)
qed (rule tables_step)

subsection \<open>Registration slots\<close>

definition slot_dead :: "nat \<Rightarrow> shm_server \<Rightarrow> bool" where
  "slot_dead i s \<longleftrightarrow> (\<exists>ms. sv_master s = Some ms \<and> length (ms_slots ms) = 16 \<and> i < 16
     \<and> reg_status (ms_slots ms ! i) \<in> {ZOO_SMB_REGISTRATION_FAILED, ZOO_SMB_REGISTRATION_SUCCESS})"

lemma slot_dead_slots:
  "map_option ms_slots (sv_master s') = map_option ms_slots (sv_master s) \<Longrightarrow> slot_dead i s' = slot_dead i s"
  by (cases "sv_master s"; cases "sv_master s'") (simp_all add: slot_dead_def)

lemma slot_dead_set: "slot_dead i s \<Longrightarrow> j \<noteq> i \<Longrightarrow> slot_dead i (set_slot j r s)"
  by (auto simp: slot_dead_def set_slot_def)

lemma accept_dead: "slot_dead k s \<Longrightarrow> slot_dead k (snd (accept_from regs i os s))"
proof (induction regs i os s rule: accept_from.induct)
  case (1 regs i os s)
  obtain ms where ms: "sv_master s = Some ms" using 1(3) by (auto simp: slot_dead_def)
  show ?case
  proof (cases "i < ZOO_SMB_SHM_MAX_PENDING_REGISTRATIONS")
    case i: True
    show ?thesis
    proof (cases "reg_status (ms_slots ms ! i) = ZOO_SMB_REGISTRATION_PENDING")
      case True
      then have "k \<noteq> i" using 1(3) ms by (auto simp: slot_dead_def)
      obtain x os1 s1 r' where v: "shm_validate_and_register_client (regs i) os s (ms_slots ms ! i) = (x, os1, s1, r')"
        using prod_cases4 by blast
      have "slot_dead k s1" using register_client_cases [OF v] slot_dead_slots 1(3) by blast
      then have "slot_dead k (snd (accept_from regs (i + 1) os1 (set_slot i r' s1)))"
        using 1(2) [OF i ms refl _ v [symmetric] refl refl] True slot_dead_set \<open>k \<noteq> i\<close> by simp
      then show ?thesis using i ms True v by (subst accept_from.simps) (simp add: Let_def)
    next
      case False
      then have "slot_dead k (snd (accept_from regs (i + 1) os s))" using 1(1) [OF i ms refl] 1(3) by simp
      then show ?thesis using i ms False by (subst accept_from.simps) (simp add: Let_def)
    qed
  next
    case False
    then show ?thesis using 1(3) by (subst accept_from.simps) simp
  qed
qed

lemma step_dead: "shm_step y y' \<Longrightarrow> slot_dead i (snd y) \<Longrightarrow> slot_dead i (snd y')"
proof (induction rule: shm_step.induct)
  case (cleanup now os s os' s')
  obtain os1 s1 where c: "cleanup_from now 0 os s = (os1, s1)" by fastforce
  then have m: "sv_master s1 = sv_master s" using cleanup_from_result [of 0 s now os] by simp
  have "map_option ms_slots (sv_master s') = map_option ms_slots (sv_master s)"
  proof -
    have "s' = s1\<lparr>sv_master := map_option (\<lambda>ms. ms\<lparr>ms_header :=
        (ms_header ms)\<lparr>client_count := word_of_nat (length (sv_clients s1))\<rparr>\<rparr>) (sv_master s1)\<rparr>"
      using cleanup.hyps unfolding shm_server_cleanup_disconnected_clients_def c prod.case by (rule Pair_inject) (erule sym)
    then show ?thesis by (cases "sv_master s") (simp_all add: m)
  qed
  from slot_dead_slots [OF this, of i] cleanup.prems show ?case by simp
next
  case (accept regs s os r os' s')
  then show ?case using accept_dead [of i s regs 0 os]
    by (auto simp: shm_server_accept_new_clients_def split: option.splits if_splits)
next
  case (serve c s e envs obs os r os' s' calls)
  then show ?case using serve_master [OF serve.hyps(2)] by (simp add: slot_dead_def)
next
  case (stop ended s r s' os)
  then have "map_option ms_slots (sv_master s') = map_option ms_slots (sv_master s)"
    by (auto simp: shm_server_stop_def Let_def set_running_def option.map_comp comp_def split: if_splits)
  from slot_dead_slots [OF this, of i] stop.prems show ?case by simp
next
  case (request s ms kill_sys free now os name pid key fd cid ms')
  have "ms' = ms \<or> (\<exists>slot r. empty_slot (ms_slots ms) = Some slot \<and> ms_slots ms' = (ms_slots ms)[slot := r])"
    using request.hyps(2) by (auto simp: shm_request_client_registration_def Let_def split: option.splits if_splits)
  then show ?case
    using request.prems request.hyps(1) empty_slot_Some [of "ms_slots ms"]
    by (auto simp: slot_dead_def nth_list_update split: if_splits)
qed simp

text \<open>
  A registration slot whose request failed, or was answered as already registered, is never
  used again while the server runs: once all sixteen are in that state every request for registration
  fails, whatever happens later.
\<close>

theorem shm_slots_never_recovered:
  assumes "shm_step\<^sup>*\<^sup>* (os, s) (os', s')" and "sv_master s = Some ms" and "length (ms_slots ms) = 16"
    and "\<forall>i < 16. reg_status (ms_slots ms ! i) \<in> {ZOO_SMB_REGISTRATION_FAILED, ZOO_SMB_REGISTRATION_SUCCESS}"
    and "sv_master s' = Some ms'"
  shows "shm_request_client_registration kill_sys free now os' (Some ms') name pid key fd = (-1, Some ms')"
proof -
  have "slot_dead i (snd y')" if "shm_step\<^sup>*\<^sup>* y y'" "slot_dead i (snd y)" for i y y'
    using that by (induction rule: rtranclp_induct) (auto dest: step_dead)
  then have "slot_dead i s'" if "i < 16" for i
    using that assms(1-4) by (force simp: slot_dead_def)
  moreover from this [of 0] have slots: "length (ms_slots ms') = 16" using assms(5) by (simp add: slot_dead_def)
  ultimately have "empty_slot (ms_slots ms') = None"
    using assms(5) by (fastforce simp: empty_slot_None slot_dead_def in_set_conv_nth)
  then show ?thesis by (simp add: shm_request_client_registration_def split: option.split)
qed

definition idle_server :: shm_server where
  "idle_server = \<lparr>sv_is_started = True, sv_should_stop = False, sv_master_key = 7, sv_master_id = 3,
     sv_master = Some \<lparr>ms_header = \<lparr>sh_magic = ZOO_SMB_MSG_MAGIC_NUMBER, sh_version = shm_version, client_count = 0,
         sh_max_clients = 1024, server_start_time = 0, server_running = True, has_pending_messages = False,
         sh_event_fd = 4, next_available_id = 0\<rparr>,
       ms_slots = replicate ZOO_SMB_SHM_MAX_PENDING_REGISTRATIONS zero_registration\<rparr>,
     sv_bad_header = False, sv_clients = [], sv_mappings = [], sv_next_client_id = 1, sv_event_fd = 4, sv_pairs = []\<rparr>"

definition no_segments :: shm_os where
  "no_segments = \<lparr>shm_keys = (\<lambda>_. None), shm_segs = (\<lambda>_. None)\<rparr>"

theorem shm_slots_never_recovered_witness:
  "let os = no_segments; used = replicate 16 (zero_registration\<lparr>reg_status := ZOO_SMB_REGISTRATION_FAILED\<rparr>);
       s = idle_server\<lparr>sv_master := Some ((the (sv_master idle_server))\<lparr>ms_slots := used\<rparr>)\<rparr>;
       s' = snd (shm_server_cleanup_disconnected_clients 5 os s)
   in shm_request_client_registration (\<lambda>_. Kill_ok) (\<lambda>_. True) 9 os (sv_master s') (Some [65]) 17 5 6 = (-1, sv_master s')"
proof -
  let ?used = "replicate 16 (zero_registration\<lparr>reg_status := ZOO_SMB_REGISTRATION_FAILED\<rparr>)"
  let ?os = no_segments and ?ms = "(the (sv_master idle_server))\<lparr>ms_slots := ?used\<rparr>"
  let ?s = "idle_server\<lparr>sv_master := Some ?ms\<rparr>"
  obtain os' s' where c: "shm_server_cleanup_disconnected_clients 5 ?os ?s = (os', s')" by fastforce
  then have "shm_step\<^sup>*\<^sup>* (?os, ?s) (os', s')" by (blast intro: shm_step.cleanup)
  then have st: "shm_step\<^sup>*\<^sup>* (?os, ?s) (?os, s')" using shm_step.world by (rule rtranclp.rtrancl_into_rtrancl)
  obtain ms' where "sv_master s' = Some ms'"
    using c by (auto simp: shm_server_cleanup_disconnected_clients_def idle_server_def cleanup_from.simps)
  with shm_slots_never_recovered [OF st, of ?ms ms' "\<lambda>_. Kill_ok" "\<lambda>_. True" 9 "Some [65]" 17 5 6] c
  show ?thesis by (simp add: Let_def)
qed

end
