(* ===== verification/Shm_Client.thy ===== *)
theory Shm_Client
  imports Shm_Server
begin

text \<open>
  The client of the shared-memory transport, \<open>src/kernal/transport/zoo_smb_transport_shm_client.c\<close>,
  and the properties of both sides together: what a client sends the server's observers get, a reply
  finds its way back, and where messages are lost.

  The master segment is shared with the server and is an argument of the functions that use it.
\<close>

section \<open>State\<close>

definition CLIENT_MAX_MESSAGE_SIZE :: nat where "CLIENT_MAX_MESSAGE_SIZE = 64 * 1024"
definition CLIENT_HEARTBEAT_INTERVAL_CYCLES :: u32 where "CLIENT_HEARTBEAT_INTERVAL_CYCLES = 100"
definition MAX_ATTACH_RETRIES :: nat where "MAX_ATTACH_RETRIES = 10"

text \<open>\<open>cl_attached\<close>: \<open>server_header\<close> points to the master segment.\<close>

record shm_client =
  cl_is_started :: bool
  cl_should_stop :: bool
  cl_config_name :: "u8 list"
  cl_master_key :: u32
  cl_attached :: bool
  cl_server_event_fd :: int
  cl_client_id :: int
  cl_info :: "shm_client_info option"
  cl_pairs :: "(int \<times> int) list"

definition shm_client_init :: "bool \<Rightarrow> u8 list option \<Rightarrow> zoo_error \<times> shm_client option" where
  "shm_client_init ok config_name =
     (case config_name of
        None \<Rightarrow> (ZOO_SMB_ERROR_INVALID_PARAM, None)
      | Some name \<Rightarrow>
          if \<not> ok then (ZOO_SMB_ERROR_OUT_OF_MEMORY, None)
          else (ZOO_SMB_OK, Some \<lparr>cl_is_started = False, cl_should_stop = False, cl_config_name = c_str name,
             cl_master_key = shm_generate_key (Some name) 0, cl_attached = False, cl_server_event_fd = -1,
             cl_client_id = -1, cl_info = None, cl_pairs = []\<rparr>))"

definition set_info :: "(shm_client_info \<Rightarrow> shm_client_info) \<Rightarrow> shm_client \<Rightarrow> shm_client" where
  "set_info f cl = cl\<lparr>cl_info := map_option f (cl_info cl)\<rparr>"

text \<open>\<open>ended\<close> says whether the event loop ended while the call waited.\<close>

definition shm_client_stop :: "bool \<Rightarrow> shm_client option \<Rightarrow> zoo_error \<times> shm_client option" where
  "shm_client_stop ended impl =
     (case impl of
        None \<Rightarrow> (ZOO_SMB_ERROR_INVALID_PARAM, None)
      | Some cl \<Rightarrow>
          if \<not> cl_is_started cl then (ZOO_SMB_OK, impl)
          else
            let cl1 = set_info (\<lambda>ci. if ci_state ci = TRANSPORT_CONN_STATE_CONNECTED
                  then ci\<lparr>ci_state := TRANSPORT_CONN_STATE_RECONNECTING\<rparr> else ci) (cl\<lparr>cl_should_stop := True\<rparr>);
                cl2 = (if ended then set_info (\<lambda>ci. ci\<lparr>ci_state := TRANSPORT_CONN_STATE_DISCONNECTED\<rparr>) cl1 else cl1)
            in (ZOO_SMB_OK, Some (cl2\<lparr>cl_is_started := False\<rparr>)))"

section \<open>Attaching and registering\<close>

text \<open>\<open>look i\<close> is the master segment as attempt \<open>i\<close> finds it, \<open>None\<close> where \<open>shmget\<close> or \<open>shmat\<close> fails.\<close>

fun attach_loop :: "(nat \<Rightarrow> shm_master option) \<Rightarrow> nat \<Rightarrow> bool" where
  "attach_loop look 0 = False"
| "attach_loop look (Suc n) =
     (case look (MAX_ATTACH_RETRIES - Suc n) of
        Some ms \<Rightarrow>
          if ZOO_SMB_IS_SUCCESS (shm_validate_header (sh_magic (ms_header ms)) (sh_version (ms_header ms)))
             \<and> server_running (ms_header ms)
          then True else attach_loop look n
      | None \<Rightarrow> attach_loop look n)"

definition client_attach_to_server :: "(nat \<Rightarrow> shm_master option) \<Rightarrow> shm_client \<Rightarrow> zoo_error \<times> shm_client" where
  "client_attach_to_server look cl =
     (if attach_loop look MAX_ATTACH_RETRIES then (ZOO_SMB_OK, cl\<lparr>cl_attached := True\<rparr>)
      else (ZOO_SMB_ERROR_SHM_NOT_FOUND, cl\<lparr>cl_attached := False\<rparr>))"

text \<open>The environment of a registration, in the order of the calls.\<close>

record shm_join_env =
  join_info :: "nat option"
  join_pid :: int
  join_now :: int
  join_fd :: int
  join_pairs :: "(int \<times> int) list"
  join_excl :: "int option"
  join_again :: "int option"
  join_addr :: "nat option"
  join_tx_ok :: bool
  join_rx_ok :: bool
  join_kill :: "int \<Rightarrow> kill_answer"
  join_free :: "nat \<Rightarrow> bool"

definition join_client_info :: "shm_join_env \<Rightarrow> nat \<Rightarrow> u8 list \<Rightarrow> shm_client_info" where
  "join_client_info env a name =
     (let nm = take (MAX_TRANSPORT_NAME_LENGTH - 1) name
      in \<lparr>ci_addr = a, client_id = 0, ci_name = nm, ci_pid = join_pid env,
          ci_state = TRANSPORT_CONN_STATE_CONNECTING, ci_last_heartbeat = join_now env,
          ci_connect_time = join_now env, ci_shm_key = shm_generate_key (Some nm) (word_of_int (join_pid env)),
          ci_shm_id = 0, ci_shm_addr = None, ci_shm_size = 0, tx_ring = None, rx_ring = None,
          ci_event_fd = INVALID_TRANSPORT_FD\<rparr>)"

definition client_register_with_server ::
  "shm_join_env \<Rightarrow> shm_os \<Rightarrow> shm_master \<Rightarrow> shm_client \<Rightarrow> zoo_error \<times> shm_os \<times> shm_master \<times> shm_client" where
  "client_register_with_server env os ms cl =
     (case join_info env of
        None \<Rightarrow> (ZOO_SMB_ERROR_OUT_OF_MEMORY, os, ms, cl\<lparr>cl_info := None\<rparr>)
      | Some a \<Rightarrow>
          let ci = join_client_info env a (cl_config_name cl);
              cl1 = cl\<lparr>cl_pairs := join_pairs env\<rparr>;
              none = (\<lambda>pairs. cl1\<lparr>cl_info := None, cl_pairs := pairs\<rparr>)
          in if join_fd env = -1 then (ZOO_SMB_ERROR_EVENTFD_CREATION_FAILED, os, ms, none (join_pairs env))
             else
               let ci1 = ci\<lparr>ci_event_fd := join_fd env\<rparr>
               in (case shm_create_client_segment (join_excl env) (join_again env) (join_addr env) os (Some ci1) of
                   (result, os1, ci2) \<Rightarrow>
                     if ZOO_SMB_IS_ERROR result
                     then (result, os1, ms, none (fst (shm_eventfd_close (join_fd env) (join_pairs env))))
                     else (case shm_init_client_resources (-1) (join_tx_ok env) (join_rx_ok env) os1 ci2 of
                         (result, os2, ci3, fds) \<Rightarrow>
                           let pairs = fold (\<lambda>fd ps. fst (shm_eventfd_close fd ps)) fds (join_pairs env)
                           in if ZOO_SMB_IS_ERROR result
                              then (case shm_cleanup_client_resources os2 pairs (the ci3) of
                                  (os3, pairs', _, _) \<Rightarrow> (result, os3, ms, none pairs'))
                              else
                                let c = the ci3
                                in (case shm_request_client_registration (join_kill env) (join_free env) (join_now env) os2
                                           (Some ms) (Some (ci_name c)) (ci_pid c) (ci_shm_key c) (ci_event_fd c) of
                                    (cid, ms') \<Rightarrow>
                                      if cid < 0 then
                                        (case shm_cleanup_client_resources os2 pairs c of
                                           (os3, pairs', _, _) \<Rightarrow> (ZOO_SMB_ERROR_SHM_BUFFER_FULL, os3, the ms', none pairs'))
                                      else (ZOO_SMB_OK, os2, the ms',
                                        cl1\<lparr>cl_pairs := pairs, cl_client_id := cid, cl_server_event_fd := -1,
                                          cl_info := Some (c\<lparr>client_id := cid, ci_state := TRANSPORT_CONN_STATE_CONNECTED\<rparr>)\<rparr>)))))"

text \<open>\<open>shm_client_start\<close> up to its event loop.\<close>

definition shm_client_start ::
  "(nat \<Rightarrow> shm_master option) \<Rightarrow> shm_join_env \<Rightarrow> shm_os \<Rightarrow> shm_master \<Rightarrow> shm_client option
   \<Rightarrow> zoo_error \<times> shm_os \<times> shm_master \<times> shm_client option" where
  "shm_client_start look env os ms impl =
     (case impl of
        None \<Rightarrow> (ZOO_SMB_ERROR_INVALID_PARAM, os, ms, None)
      | Some cl \<Rightarrow>
          if cl_is_started cl then (ZOO_SMB_ERROR_ALREADY_STARTED, os, ms, impl)
          else (case client_attach_to_server look cl of
              (result, cl1) \<Rightarrow>
                if ZOO_SMB_IS_ERROR result then (result, os, ms, Some cl1)
                else (case client_register_with_server env os ms cl1 of
                    (result, os1, ms1, cl2) \<Rightarrow>
                      if ZOO_SMB_IS_ERROR result then (result, os1, ms1, Some cl2)
                      else (ZOO_SMB_OK, os1, ms1, Some (cl2\<lparr>cl_is_started := True, cl_should_stop := False\<rparr>)))))"

section \<open>Sending\<close>

text \<open>\<open>wrote\<close> says whether the write to the server's descriptor succeeds, where the client has one.\<close>

definition client_notify_server :: "bool \<Rightarrow> shm_client \<Rightarrow> shm_master \<Rightarrow> zoo_error \<times> shm_master" where
  "client_notify_server wrote cl ms =
     (if cl_server_event_fd cl \<ge> 0 \<and> wrote then (ZOO_SMB_OK, ms)
      else if cl_attached cl then (ZOO_SMB_OK, ms\<lparr>ms_header := (ms_header ms)\<lparr>has_pending_messages := True\<rparr>\<rparr>)
      else (ZOO_SMB_ERROR_SERVICE_UNAVAILABLE, ms))"

text \<open>\<open>now\<close> is the time for the ring's header and the heartbeat.\<close>

definition shm_client_send ::
  "endian \<Rightarrow> u64 \<Rightarrow> u8 list option \<Rightarrow> bool \<Rightarrow> shm_os \<Rightarrow> shm_master \<Rightarrow> shm_client option \<Rightarrow> smb_msg option
   \<Rightarrow> zoo_error \<times> shm_os \<times> shm_master \<times> shm_client option" where
  "shm_client_send e now buf wrote os ms impl msg =
     (case (impl, msg) of
        (Some cl, Some m) \<Rightarrow>
          if \<not> cl_is_started cl then (ZOO_SMB_ERROR_NOT_STARTED, os, ms, impl)
          else (case Option.bind (cl_info cl) (\<lambda>ci. Option.bind (rx_ring ci) (\<lambda>rb.
                       map_option (\<lambda>seg. (ci, rb, seg)) (shm_segs os (ci_shm_id ci)))) of
              None \<Rightarrow> (ZOO_SMB_ERROR_SERVICE_UNAVAILABLE, os, ms, impl)
            | Some (ci, rb, seg) \<Rightarrow>
                (case buf of
                   None \<Rightarrow> (ZOO_SMB_ERROR_ALLOCATION_FAILED, os, ms, impl)
                 | Some b \<Rightarrow>
                     (case zoo_smb_protocol_serialize e (Some m) (Some b) MAX_TRANSPORT_BUFFER_SIZE of
                        (msg_size, b') \<Rightarrow>
                          if msg_size = 0 then (ZOO_SMB_ERROR_TRANSPORT_SEND_FAILED, os, ms, impl)
                          else (case zoo_smb_ring_buffer_write e now (Some rb) (seg_rx seg) b' msg_size of
                              (result, shm) \<Rightarrow>
                                let os1 = update_seg (ci_shm_id ci) (\<lambda>s. s\<lparr>seg_rx := shm\<rparr>) os
                                in if ZOO_SMB_IS_ERROR result then (result, os1, ms, impl)
                                   else (ZOO_SMB_OK, os1, snd (client_notify_server wrote cl ms),
                                     Some (set_info (\<lambda>ci. ci\<lparr>ci_last_heartbeat := uint now\<rparr>) cl))))))
      | _ \<Rightarrow> (ZOO_SMB_ERROR_INVALID_PARAM, os, ms, impl))"

definition shm_client_is_started :: "shm_client option \<Rightarrow> bool" where
  "shm_client_is_started impl = (case impl of None \<Rightarrow> False | Some cl \<Rightarrow> cl_is_started cl)"

section \<open>Receiving\<close>

definition client_validate_message_size :: "nat \<Rightarrow> bool" where
  "client_validate_message_size n \<longleftrightarrow> n > 0 \<and> n \<le> CLIENT_MAX_MESSAGE_SIZE"

definition client_notify_observers ::
  "bool \<Rightarrow> nat option list \<Rightarrow> smb_msg \<Rightarrow> zoo_error \<times> (nat \<times> smb_msg) list" where
  "client_notify_observers ok observers msg =
     (if observers \<noteq> [] \<and> \<not> ok then (ZOO_SMB_ERROR_OUT_OF_MEMORY, [])
      else (ZOO_SMB_OK, map (\<lambda>f. (f, msg)) (handlers observers)))"

text \<open>The body of the loop of \<open>client_process_server_messages\<close>: one message. Only the ring changes.\<close>

definition client_message_step ::
  "endian \<Rightarrow> shm_msg_env \<Rightarrow> nat option list \<Rightarrow> ring_handle \<Rightarrow> ring_shm
   \<Rightarrow> zoo_error \<times> ring_handle \<times> ring_shm \<times> (nat \<times> smb_msg) list" where
  "client_message_step e env observers rb shm =
     (let msg_size = zoo_smb_ring_buffer_get_next_message_size e (Some rb) shm
      in if \<not> client_validate_message_size msg_size then
           (case zoo_smb_ring_buffer_clear (Some rb) shm of
              (_, rb', shm') \<Rightarrow> (ZOO_SMB_ERROR_RINGBUF_CORRUPTED, the rb', shm', []))
         else if \<not> buffer_ok env then (ZOO_SMB_ERROR_OUT_OF_MEMORY, rb, shm, [])
         else
           (case zoo_smb_ring_buffer_read e (Some rb) shm (Some (replicate msg_size 0)) msg_size of
              (result, shm1, msg_buffer) \<Rightarrow>
                if ZOO_SMB_IS_ERROR result then (result, rb, shm1, [])
                else (case zoo_smb_default_message (default_ok env) of
                    None \<Rightarrow> (ZOO_SMB_ERROR_OUT_OF_MEMORY, rb, shm1, [])
                  | Some msg0 \<Rightarrow>
                      (case zoo_smb_protocol_deserialize e (deser_ok env) msg_buffer msg_size (Some msg0) sizeof_msg of
                         (result, msg_out) \<Rightarrow>
                           (case (if result = ZOO_SMB_OK then client_notify_observers (snap_ok env) observers (the msg_out)
                                  else (result, [])) of
                              (result, calls) \<Rightarrow> (result, rb, shm1, calls))))))"

text \<open>
  The loop runs for as long as the ring has data, so not coming to an end is the value \<open>None\<close>.
  \<open>envs i\<close> are the answers of the pool for message \<open>i\<close>.
\<close>

partial_function (option) client_messages_loop ::
  "endian \<Rightarrow> (nat \<Rightarrow> shm_msg_env) \<Rightarrow> nat option list \<Rightarrow> ring_handle \<Rightarrow> nat \<Rightarrow> ring_shm
   \<Rightarrow> (zoo_error \<times> ring_handle \<times> ring_shm \<times> (nat \<times> smb_msg) list) option" where
  "client_messages_loop e envs observers rb i shm =
     (if \<not> zoo_smb_ring_buffer_has_data (Some rb) shm then Some (ZOO_SMB_OK, rb, shm, [])
      else (case client_message_step e (envs i) observers rb shm of
          (result, rb1, shm1, calls) \<Rightarrow>
            if ZOO_SMB_IS_ERROR result then Some (result, rb1, shm1, calls)
            else Option.bind (client_messages_loop e envs observers rb1 (i + 1) shm1)
                   (\<lambda>(r, rb2, shm2, rest). Some (r, rb2, shm2, calls @ rest))))"

definition client_process_server_messages ::
  "endian \<Rightarrow> (nat \<Rightarrow> shm_msg_env) \<Rightarrow> nat option list \<Rightarrow> shm_os \<Rightarrow> shm_client
   \<Rightarrow> (zoo_error \<times> shm_os \<times> shm_client \<times> (nat \<times> smb_msg) list) option" where
  "client_process_server_messages e envs observers os cl =
     (if cl_should_stop cl then Some (ZOO_SMB_OK, os, cl, [])
      else (case Option.bind (cl_info cl) (\<lambda>ci. Option.bind (tx_ring ci) (\<lambda>rb.
                   map_option (\<lambda>seg. (ci, rb, seg)) (shm_segs os (ci_shm_id ci)))) of
          None \<Rightarrow> Some (ZOO_SMB_ERROR_INVALID_PARAM, os, cl, [])
        | Some (ci, rb, seg) \<Rightarrow>
            map_option (\<lambda>(result, rb', shm, calls).
                (result, update_seg (ci_shm_id ci) (\<lambda>s. s\<lparr>seg_tx := shm\<rparr>) os,
                 set_info (\<lambda>ci. ci\<lparr>tx_ring := Some rb'\<rparr>) cl, calls))
              (client_messages_loop e envs observers rb 0 (seg_tx seg))))"

section \<open>Heartbeat and the event loop\<close>

definition client_validate_server_connection :: "shm_client \<Rightarrow> shm_master \<Rightarrow> bool" where
  "client_validate_server_connection cl ms \<longleftrightarrow> cl_attached cl \<and> sh_magic (ms_header ms) = ZOO_SMB_MSG_MAGIC_NUMBER"

definition client_validate_registration_status :: "shm_client \<Rightarrow> bool" where
  "client_validate_registration_status cl =
     (case cl_info cl of
        None \<Rightarrow> False
      | Some ci \<Rightarrow> \<not> cl_client_id cl < 0 \<and> \<not> cl_client_id cl \<ge> int ZOO_SMB_SHM_MAX_CLIENTS
          \<and> rx_ring ci \<noteq> None \<and> tx_ring ci \<noteq> None)"

definition client_handle_heartbeat :: "int \<Rightarrow> shm_master \<Rightarrow> shm_client \<Rightarrow> zoo_error \<times> shm_client" where
  "client_handle_heartbeat now ms cl =
     (if cl_should_stop cl then (ZOO_SMB_OK, cl)
      else if cl_info cl = None then (ZOO_SMB_ERROR_INVALID_PARAM, cl)
      else if \<not> client_validate_server_connection cl ms then (ZOO_SMB_ERROR_TRANSPORT_CONNECTION_LOST, cl)
      else if \<not> server_running (ms_header ms) then (ZOO_SMB_ERROR_TRANSPORT_CONNECTION_LOST, cl)
      else if \<not> client_validate_registration_status cl then (ZOO_SMB_ERROR_TRANSPORT_CONNECTION_LOST, cl)
      else (ZOO_SMB_OK, set_info (\<lambda>ci.
          let ci1 = ci\<lparr>ci_last_heartbeat := now\<rparr>
          in if ci_state ci1 \<noteq> TRANSPORT_CONN_STATE_CONNECTED \<and> ci_state ci1 \<noteq> TRANSPORT_CONN_STATE_RECONNECTING
             then ci1\<lparr>ci_state := TRANSPORT_CONN_STATE_CONNECTED\<rparr> else ci1) cl))"

text \<open>The answer of \<open>select\<close>; reading the descriptor empty has no effect here.\<close>

datatype select_answer = Select_ok | Select_EINTR | Select_error

definition client_listen_for_server_messages :: "select_answer \<Rightarrow> zoo_error" where
  "client_listen_for_server_messages sel =
     (if sel = Select_error then ZOO_SMB_ERROR_SHM_SYNCHRONIZATION_FAILED else ZOO_SMB_OK)"

text \<open>One round of \<open>client_process_event_loop\<close>: the result, whether the loop ends, the new counter.\<close>

definition client_event_round ::
  "endian \<Rightarrow> select_answer \<Rightarrow> (nat \<Rightarrow> shm_msg_env) \<Rightarrow> nat option list \<Rightarrow> int \<Rightarrow> shm_os \<Rightarrow> shm_master \<Rightarrow> u32 \<Rightarrow> shm_client
   \<Rightarrow> (zoo_error \<times> bool \<times> u32 \<times> shm_os \<times> shm_client \<times> (nat \<times> smb_msg) list) option" where
  "client_event_round e sel envs observers now os ms counter cl =
     (let result = client_listen_for_server_messages sel
      in if result \<noteq> ZOO_SMB_OK
         then Some (if result = ZOO_SMB_ERROR_SHM_SYNCHRONIZATION_FAILED \<and> cl_should_stop cl then ZOO_SMB_OK else result,
                    True, counter, os, cl, [])
         else (case (if cl_should_stop cl then Some (ZOO_SMB_OK, os, cl, [])
                     else client_process_server_messages e envs observers os cl) of
             None \<Rightarrow> None
           | Some (result, os1, cl1, calls) \<Rightarrow>
               if result \<noteq> ZOO_SMB_OK then Some (result, True, counter, os1, cl1, calls)
               else if cl_should_stop cl1 then Some (ZOO_SMB_OK, False, counter, os1, cl1, calls)
               else
                 let counter1 = counter + 1
                 in if counter1 \<ge> CLIENT_HEARTBEAT_INTERVAL_CYCLES then
                      (case client_handle_heartbeat now ms cl1 of
                         (result, cl2) \<Rightarrow> Some (result, result \<noteq> ZOO_SMB_OK, 0, os1, cl2, calls))
                    else Some (ZOO_SMB_OK, False, counter1, os1, cl1, calls)))"

section \<open>Leaving\<close>

text \<open>The disconnect notice is the bare header in the order of the host.\<close>

definition disconnect_header :: "u64 \<Rightarrow> u8 list \<Rightarrow> msg_header" where
  "disconnect_header now name =
     zero_header\<lparr>magic := ZOO_SMB_MSG_MAGIC_NUMBER, msg_type := 0x20, payload_size := 0, timestamp := now,
       sender := take 31 name @ replicate (32 - length (take 31 name)) 0\<rparr>"

definition client_cleanup_all_resources ::
  "endian \<Rightarrow> u64 \<Rightarrow> shm_os \<Rightarrow> shm_client \<Rightarrow> shm_os \<times> shm_client" where
  "client_cleanup_all_resources e now os cl =
     (let os1 = (case Option.bind (cl_info cl) (\<lambda>ci. Option.bind (rx_ring ci) (\<lambda>rb.
                        map_option (\<lambda>seg. (ci, rb, seg)) (shm_segs os (ci_shm_id ci)))) of
                   Some (ci, rb, seg) \<Rightarrow>
                     if cl_client_id cl \<ge> 0
                     then update_seg (ci_shm_id ci) (\<lambda>s. s\<lparr>seg_rx := snd (zoo_smb_ring_buffer_write e now (Some rb) (seg_rx seg)
                            (Some (header_bytes e (disconnect_header now (ci_name ci)))) sizeof_header)\<rparr>) os
                     else os
                 | None \<Rightarrow> os);
          (os2, pairs) = (case cl_info cl of
                   None \<Rightarrow> (os1, cl_pairs cl)
                 | Some ci \<Rightarrow> (case shm_cleanup_client_resources os1 (cl_pairs cl) ci of (os', ps, _, _) \<Rightarrow> (os', ps)))
      in (os2, cl\<lparr>cl_info := None, cl_pairs := pairs, cl_attached := False, cl_server_event_fd := -1, cl_client_id := -1\<rparr>))"

definition shm_client_destroy :: "endian \<Rightarrow> u64 \<Rightarrow> bool \<Rightarrow> shm_os \<Rightarrow> shm_client option \<Rightarrow> shm_os" where
  "shm_client_destroy e now ended os impl =
     (case impl of
        None \<Rightarrow> os
      | Some cl \<Rightarrow>
          let cl1 = (if cl_is_started cl then the (snd (shm_client_stop ended impl)) else cl)
          in fst (client_cleanup_all_resources e now os cl1))"

section \<open>Lemmas: the client's side of a connection\<close>

text \<open>Handle \<open>rb\<close> is another handle for the ring that \<open>rb'\<close> is a handle for.\<close>

definition same_ring :: "ring_handle \<Rightarrow> ring_handle \<Rightarrow> bool" where
  "same_ring rb rb' \<longleftrightarrow> h_data_size rb = h_data_size rb' \<and> h_control rb \<noteq> None \<and> h_data rb \<noteq> None
     \<and> h_control rb' \<noteq> None \<and> h_data rb' \<noteq> None"

lemma same_ring_holds: "same_ring rb rb' \<Longrightarrow> ring_holds e rb shm ps \<longleftrightarrow> ring_holds e rb' shm ps"
  using ring_holds_handle [of e rb shm ps rb'] ring_holds_handle [of e rb' shm ps rb] by (auto simp: same_ring_def)

definition client_link :: "shm_client \<Rightarrow> int \<Rightarrow> ring_handle \<Rightarrow> ring_handle \<Rightarrow> bool" where
  "client_link cl i srx stx \<longleftrightarrow>
     cl_is_started cl \<and> \<not> cl_should_stop cl
     \<and> (\<exists>ci crx ctx. cl_info cl = Some ci \<and> ci_shm_id ci = i \<and> rx_ring ci = Some crx \<and> tx_ring ci = Some ctx
          \<and> same_ring crx srx \<and> same_ring ctx stx)"

lemma client_send_link:
  assumes "client_link cl i srx stx" and "server_link e os s a i srx stx (map wire q) downs"
    and "\<forall>m \<in> set q. good_msg cfg m" and "good_msg cfg m" and "100000 \<le> unat (h_data_size srx)"
    and "length b = MAX_TRANSPORT_BUFFER_SIZE"
  shows "\<exists>os' cl'. shm_client_send e now (Some b) wrote os ms (Some cl) (Some m)
             = (ZOO_SMB_OK, os', snd (client_notify_server wrote cl ms), Some cl')
           \<and> client_link cl' i srx stx
           \<and> server_link e os' s a i srx stx (map wire (lossy_put (unat (h_data_size srx)) q m)) downs"
proof -
  obtain ci crx ctx where cl: "cl_is_started cl" "\<not> cl_should_stop cl" "cl_info cl = Some ci" "ci_shm_id ci = i"
    "rx_ring ci = Some crx" "tx_ring ci = Some ctx" "same_ring crx srx" "same_ring ctx stx"
    using assms(1) by (auto simp: client_link_def)
  obtain c seg where c: "client_at s a = Some c" "ci_state c = TRANSPORT_CONN_STATE_CONNECTED"
    "rx_ring c = Some srx" "tx_ring c = Some stx" "ci_shm_id c = i" "shm_segs os i = Some seg"
    "ring_holds e srx (seg_rx seg) (map wire q)" "allow_overwrite (ctl (seg_rx seg))"
    "ring_holds e stx (seg_tx seg) downs" "allow_overwrite (ctl (seg_tx seg))"
    using assms(2) by (auto simp: server_link_def)
  have sz: "h_data_size crx = h_data_size srx" using cl(7) by (simp add: same_ring_def)
  have h: "ring_holds e crx (seg_rx seg) (map wire q)" using c(7) same_ring_holds [OF cl(7)] by simp
  obtain b' shm where w:
    "zoo_smb_protocol_serialize e (Some m) (Some b) MAX_TRANSPORT_BUFFER_SIZE = (length (wire m), Some b')"
    "zoo_smb_ring_buffer_write e now (Some crx) (seg_rx seg) (Some b') (length (wire m)) = (ZOO_SMB_OK, shm)"
    "ring_holds e crx shm (map wire (lossy_put (unat (h_data_size crx)) q m))" "allow_overwrite (ctl shm)"
    using serialize_write [OF assms(4,6) h c(8) assms(3)] assms(5) sz by metis
  have "shm_client_send e now (Some b) wrote os ms (Some cl) (Some m)
      = (ZOO_SMB_OK, update_seg i (\<lambda>s. s\<lparr>seg_rx := shm\<rparr>) os, snd (client_notify_server wrote cl ms),
         Some (set_info (\<lambda>ci. ci\<lparr>ci_last_heartbeat := uint now\<rparr>) cl))"
    using cl(1,3-5) c(6) w(1,2) wire_size(1) [OF assms(4)] by (simp add: shm_client_send_def)
  moreover have "client_link (set_info (\<lambda>ci. ci\<lparr>ci_last_heartbeat := uint now\<rparr>) cl) i srx stx"
    using cl by (simp add: client_link_def set_info_def)
  moreover have "server_link e (update_seg i (\<lambda>s. s\<lparr>seg_rx := shm\<rparr>) os) s a i srx stx
      (map wire (lossy_put (unat (h_data_size srx)) q m)) downs"
    using c w(3,4) sz same_ring_holds [OF cl(7)] by (auto simp: server_link_def)
  ultimately show ?thesis by blast
qed

lemma client_step:
  assumes "good_msg cfg m" and "ring_holds e rb shm (wire m # ps)" and "env_ok env"
  obtains shm' where "client_message_step e env obs rb shm
      = (ZOO_SMB_OK, rb, shm', map (\<lambda>f. (f, received m)) (handlers obs))"
    and "ring_holds e rb shm' ps" and "allow_overwrite (ctl shm') = allow_overwrite (ctl shm)"
proof -
  obtain shm' where r:
    "zoo_smb_ring_buffer_get_next_message_size e (Some rb) shm = length (wire m)"
    "zoo_smb_ring_buffer_read e (Some rb) shm (Some (replicate (length (wire m)) 0)) (length (wire m))
       = (ZOO_SMB_OK, shm', Some (wire m))"
    "zoo_smb_protocol_deserialize e True (Some (wire m)) (length (wire m))
       (Some \<lparr>header = zero_header, payload = None\<rparr>) sizeof_msg = (ZOO_SMB_OK, Some (received m))"
    "ring_holds e rb shm' ps" "allow_overwrite (ctl shm') = allow_overwrite (ctl shm)"
    using read_deserialize [OF assms(1,2)] by metis
  have "client_validate_message_size (length (wire m))"
    using wire_size [OF assms(1)]
    by (simp add: client_validate_message_size_def CLIENT_MAX_MESSAGE_SIZE_def MAX_TRANSPORT_BUFFER_SIZE_def)
  then show ?thesis
    using that [of shm'] r assms(3)
    by (simp add: client_message_step_def Let_def env_ok_def zoo_smb_default_message_def smb_message_alloc_def
        sizeof_msg_def client_notify_observers_def)
qed

text \<open>A frame that need not be a message: either the step fails or the frame is gone.\<close>

lemma client_step_any:
  assumes "ring_holds e rb shm (p # ps)" and "client_message_step e env obs rb shm = (r, rb1, shm1, calls)"
  shows "ZOO_SMB_IS_ERROR r \<or> rb1 = rb \<and> ring_holds e rb shm1 ps"
proof (cases "client_validate_message_size (length p) \<and> buffer_ok env")
  case True
  have "queue_read (p # ps) (length p) = (ZOO_SMB_OK, ps, Some p)" by simp
  from ring_read_queue [OF assms(1) this, of "replicate (length p) 0"] obtain shm' where
    "zoo_smb_ring_buffer_read e (Some rb) shm (Some (replicate (length p) 0)) (length p) = (ZOO_SMB_OK, shm', Some p)"
    "ring_holds e rb shm' ps" by auto
  then show ?thesis
    using assms(2) True ring_next_size [OF assms(1)]
    by (auto simp: client_message_step_def Let_def split: option.splits prod.splits)
next
  case False
  have "ZOO_SMB_IS_ERROR ZOO_SMB_ERROR_OUT_OF_MEMORY" by (simp add: zoo_error_codes ZOO_SMB_IS_ERROR_def)
  then show ?thesis
    using assms(2) False ring_next_size [OF assms(1)]
    by (auto simp: client_message_step_def Let_def split: prod.splits if_splits)
qed

lemma client_loop:
  assumes "ring_holds e rb shm (map wire ms)" and "\<forall>m \<in> set ms. good_msg cfg m" and "\<forall>k. env_ok (envs k)"
  shows "\<exists>shm'. client_messages_loop e envs obs rb i shm = Some (ZOO_SMB_OK, rb, shm', delivered obs ms)
           \<and> ring_holds e rb shm' [] \<and> allow_overwrite (ctl shm') = allow_overwrite (ctl shm)"
  using assms(1,2)
proof (induction ms arbitrary: i shm)
  case Nil
  then show ?case by (subst client_messages_loop.simps) (simp add: ring_has_data_iff)
next
  case (Cons m ms)
  have h: "ring_holds e rb shm (wire m # map wire ms)" using Cons.prems(1) by simp
  from client_step [OF _ h, of cfg "envs i" obs] Cons.prems(2) assms(3) obtain shm1 where s:
    "client_message_step e (envs i) obs rb shm = (ZOO_SMB_OK, rb, shm1, map (\<lambda>f. (f, received m)) (handlers obs))"
    "ring_holds e rb shm1 (map wire ms)" "allow_overwrite (ctl shm1) = allow_overwrite (ctl shm)" by auto
  from Cons.IH [OF s(2), of "i + 1"] Cons.prems(2) obtain shm2 where
    "client_messages_loop e envs obs rb (i + 1) shm1 = Some (ZOO_SMB_OK, rb, shm2, delivered obs ms)"
    "ring_holds e rb shm2 []" "allow_overwrite (ctl shm2) = allow_overwrite (ctl shm1)" by auto
  then show ?case using s ring_has_data_iff(1) [OF h] by (subst client_messages_loop.simps) simp
qed

lemma client_receive_link:
  assumes "client_link cl i srx stx" and "server_link e os s a i srx stx ups (map wire q)"
    and "\<forall>m \<in> set q. good_msg cfg m" and "\<forall>k. env_ok (envs k)"
  shows "\<exists>os' cl'. client_process_server_messages e envs obs os cl = Some (ZOO_SMB_OK, os', cl', delivered obs q)
           \<and> client_link cl' i srx stx \<and> server_link e os' s a i srx stx ups []"
proof -
  obtain ci crx ctx where cl: "cl_is_started cl" "\<not> cl_should_stop cl" "cl_info cl = Some ci" "ci_shm_id ci = i"
    "rx_ring ci = Some crx" "tx_ring ci = Some ctx" "same_ring crx srx" "same_ring ctx stx"
    using assms(1) by (auto simp: client_link_def)
  obtain c seg where c: "client_at s a = Some c" "ci_state c = TRANSPORT_CONN_STATE_CONNECTED"
    "rx_ring c = Some srx" "tx_ring c = Some stx" "ci_shm_id c = i" "shm_segs os i = Some seg"
    "ring_holds e srx (seg_rx seg) ups" "allow_overwrite (ctl (seg_rx seg))"
    "ring_holds e stx (seg_tx seg) (map wire q)" "allow_overwrite (ctl (seg_tx seg))"
    using assms(2) by (auto simp: server_link_def)
  have "ring_holds e ctx (seg_tx seg) (map wire q)" using c(9) same_ring_holds [OF cl(8)] by simp
  from client_loop [OF this assms(3,4), of obs 0] obtain shm where l:
    "client_messages_loop e envs obs ctx 0 (seg_tx seg) = Some (ZOO_SMB_OK, ctx, shm, delivered obs q)"
    "ring_holds e ctx shm []" "allow_overwrite (ctl shm)" using c(10) by auto
  have "client_process_server_messages e envs obs os cl = Some (ZOO_SMB_OK, update_seg i (\<lambda>s. s\<lparr>seg_tx := shm\<rparr>) os,
      set_info (\<lambda>ci. ci\<lparr>tx_ring := Some ctx\<rparr>) cl, delivered obs q)"
    using cl c(6) l(1) by (simp add: client_process_server_messages_def)
  moreover have "client_link (set_info (\<lambda>ci. ci\<lparr>tx_ring := Some ctx\<rparr>) cl) i srx stx"
    using cl by (simp add: client_link_def set_info_def)
  moreover have "server_link e (update_seg i (\<lambda>s. s\<lparr>seg_tx := shm\<rparr>) os) s a i srx stx ups []"
    using c l(2,3) same_ring_holds [OF cl(8)] by (auto simp: server_link_def)
  ultimately show ?thesis by blast
qed

section \<open>The connection as two queues\<close>

datatype shm_op = ClientSend smb_msg | ServerServe | ServerSend smb_msg | ClientReceive

text \<open>
  The specification: the messages under way in each direction. Sending appends, giving up the oldest
  messages when there is no room; serving hands up to ten to the server's observers \<open>obs_s\<close>; receiving
  hands all to the client's observers \<open>obs_c\<close>.
\<close>

fun duplex_step ::
  "nat \<Rightarrow> nat option list \<Rightarrow> nat option list \<Rightarrow> smb_msg list \<times> smb_msg list \<Rightarrow> shm_op
   \<Rightarrow> (zoo_error \<times> (nat \<times> smb_msg) list) \<times> (smb_msg list \<times> smb_msg list)" where
  "duplex_step cap obs_s obs_c (ups, downs) (ClientSend m) = ((ZOO_SMB_OK, []), (lossy_put cap ups m, downs))"
| "duplex_step cap obs_s obs_c (ups, downs) ServerServe = ((ZOO_SMB_OK, delivered obs_s (take 10 ups)), (drop 10 ups, downs))"
| "duplex_step cap obs_s obs_c (ups, downs) (ServerSend m) = ((ZOO_SMB_OK, []), (ups, lossy_put cap downs m))"
| "duplex_step cap obs_s obs_c (ups, downs) ClientReceive = ((ZOO_SMB_OK, delivered obs_c downs), (ups, []))"

text \<open>
  The code: one operation of either side, on the segments, the server and one client. The server
  knows the client by the address \<open>a\<close> and sends to it under the name \<open>nm\<close>.
\<close>

fun shm_op_step ::
  "endian \<Rightarrow> u64 \<Rightarrow> u8 list \<Rightarrow> (nat \<Rightarrow> shm_msg_env) \<Rightarrow> nat option list \<Rightarrow> nat option list \<Rightarrow> nat \<Rightarrow> u8 list
   \<Rightarrow> shm_os \<times> shm_server \<times> shm_client \<Rightarrow> shm_op
   \<Rightarrow> ((zoo_error \<times> (nat \<times> smb_msg) list) \<times> (shm_os \<times> shm_server \<times> shm_client)) option" where
  "shm_op_step e now b envs obs_s obs_c a nm (os, s, cl) (ClientSend m) =
     (case sv_master s of
        None \<Rightarrow> None
      | Some ms \<Rightarrow>
          (case shm_client_send e now (Some b) False os ms (Some cl) (Some m) of
             (r, os', ms', cl') \<Rightarrow> map_option (\<lambda>cl'. ((r, []), (os', s\<lparr>sv_master := Some ms'\<rparr>, cl'))) cl'))"
| "shm_op_step e now b envs obs_s obs_c a nm (os, s, cl) ServerServe =
     map_option (\<lambda>c. case shm_server_process_client_messages e envs obs_s os s c of
        (r, os', s', calls) \<Rightarrow> ((r, calls), (os', s', cl))) (client_at s a)"
| "shm_op_step e now b envs obs_s obs_c a nm (os, s, cl) (ServerSend m) =
     (case shm_server_send e now (Some b) os (Some s) (Some m) (Some nm) of (r, os') \<Rightarrow> Some ((r, []), (os', s, cl)))"
| "shm_op_step e now b envs obs_s obs_c a nm (os, s, cl) ClientReceive =
     map_option (\<lambda>(r, os', cl', calls). ((r, calls), (os', s, cl'))) (client_process_server_messages e envs obs_c os cl)"

fun good_op :: "nat option \<Rightarrow> shm_op \<Rightarrow> bool" where
  "good_op cfg (ClientSend m) = good_msg cfg m"
| "good_op cfg (ServerSend m) = good_msg cfg m"
| "good_op cfg ServerServe = True"
| "good_op cfg ClientReceive = True"

text \<open>When the state of the code stands for the two queues.\<close>

definition shm_rep ::
  "endian \<Rightarrow> nat option \<Rightarrow> nat \<Rightarrow> nat \<Rightarrow> u8 list \<Rightarrow> shm_os \<times> shm_server \<times> shm_client \<Rightarrow> smb_msg list \<times> smb_msg list \<Rightarrow> bool" where
  "shm_rep e cfg cap a nm y q \<longleftrightarrow>
     (case (y, q) of ((os, s, cl), (ups, downs)) \<Rightarrow>
        (\<forall>m \<in> set ups \<union> set downs. good_msg cfg m) \<and> 100000 \<le> cap
        \<and> reaches s (c_str nm) a \<and> sv_is_started s \<and> sv_master s \<noteq> None \<and> distinct (map ci_addr (sv_clients s))
        \<and> (\<exists>i srx stx. unat (h_data_size srx) = cap \<and> unat (h_data_size stx) = cap \<and> client_link cl i srx stx
             \<and> server_link e os s a i srx stx (map wire ups) (map wire downs)))"

lemma good_lossy: "\<forall>m \<in> set q. good_msg cfg m \<Longrightarrow> good_msg cfg m \<Longrightarrow> \<forall>k \<in> set (lossy_put cap q m). good_msg cfg k"
  using evict_msgs_subset by (fastforce simp: lossy_put_def)

lemma client_at_master [simp]: "client_at (s\<lparr>sv_master := ms\<rparr>) = client_at s"
  by (simp add: client_at_def fun_eq_iff)

lemma link_master [simp]:
  "server_link e os (s\<lparr>sv_master := ms\<rparr>) a i srx stx ups downs = server_link e os s a i srx stx ups downs"
  "reaches (s\<lparr>sv_master := ms\<rparr>) nm a = reaches s nm a"
  by (simp_all add: server_link_def reaches_def shm_find_target_client_def shm_find_sender_mapping_def Let_def
      cong: option.case_cong)

interpretation shm_channel:
  refinement_on "shm_rep e cfg cap a nm" "shm_op_step e now (replicate MAX_TRANSPORT_BUFFER_SIZE 0) (\<lambda>_. env) obs_s obs_c a nm"
    "duplex_step cap obs_s obs_c" "\<lambda>op. good_op cfg op \<and> env_ok env"
  for e cfg cap a nm now env obs_s obs_c
proof unfold_locales
  fix y :: "shm_os \<times> shm_server \<times> shm_client" and q op r q'
  assume rep: "shm_rep e cfg cap a nm y q" and ok: "good_op cfg op \<and> env_ok env"
    and st: "duplex_step cap obs_s obs_c q op = (r, q')"
  obtain os s cl ups downs where y: "y = (os, s, cl)" "q = (ups, downs)" by (metis prod_cases3 surj_pair)
  obtain i srx stx where l: "unat (h_data_size srx) = cap" "unat (h_data_size stx) = cap" "client_link cl i srx stx"
    "server_link e os s a i srx stx (map wire ups) (map wire downs)"
    and g: "\<forall>m \<in> set ups. good_msg cfg m" "\<forall>m \<in> set downs. good_msg cfg m" "100000 \<le> cap"
    and s: "reaches s (c_str nm) a" "sv_is_started s" "sv_master s \<noteq> None" "distinct (map ci_addr (sv_clients s))"
    using rep y by (auto simp: shm_rep_def)
  let ?step = "shm_op_step e now (replicate MAX_TRANSPORT_BUFFER_SIZE 0) (\<lambda>_. env) obs_s obs_c a nm"
  show "\<exists>c'. ?step y op = Some (r, c') \<and> shm_rep e cfg cap a nm c' q'"
  proof (cases op)
    case (ClientSend m)
    then show ?thesis
      using client_send_link [OF l(3,4) g(1), of m "replicate MAX_TRANSPORT_BUFFER_SIZE 0" now False "the (sv_master s)"]
        ok st y s g l good_lossy [OF g(1)]
      by (fastforce simp: shm_rep_def)
  next
    case ServerServe
    obtain c where "client_at s a = Some c" using l(4) by (auto simp: server_link_def)
    then show ?thesis
      using process_client [OF l(4) g(1) _ s(1,2), of "\<lambda>_. env" c obs_s] ServerServe ok st y s g l
      by (fastforce simp: shm_rep_def dest: in_set_dropD)
  next
    case (ServerSend m)
    then show ?thesis
      using server_send_link [OF l(4) g(2), of m "replicate MAX_TRANSPORT_BUFFER_SIZE 0" nm now]
        ok st y s g l good_lossy [OF g(2)]
      by (fastforce simp: shm_rep_def)
  next
    case ClientReceive
    then show ?thesis
      using client_receive_link [OF l(3,4) g(2), of "\<lambda>_. env" obs_c] ok st y s g l
      by (fastforce simp: shm_rep_def)
  qed
qed

section \<open>Lemmas: joining\<close>

lemma ring_make:
  assumes "length (area shm) = n - 192" and "1216 \<le> n" and "n \<le> 67109056"
  shows "\<exists>rb shm'. zoo_smb_ring_buffer_create_in_memory True (Some x) (ring_memory shm) n True = Some (rb, shm')
    \<and> ring_holds e rb shm' [] \<and> allow_overwrite (ctl shm') \<and> unat (h_data_size rb) = n - 192
    \<and> h_control rb \<noteq> None \<and> h_data rb \<noteq> None \<and> length (area shm') = n - 192 \<and> is_owner rb"
proof -
  have n: "length (ring_memory shm) = n" using assms by (simp add: sizeof_control_def)
  obtain rb shm' where c: "zoo_smb_ring_buffer_create_in_memory True (Some x) (ring_memory shm) n True = Some (rb, shm')"
    using ring_create_succeeds [of "ring_memory shm" x True] n assms(2) by auto
  then have h: "ring_holds e rb shm' []" "allow_overwrite (ctl shm')" "unat (h_data_size rb) = n - 192"
    using ring_create_holds [of True "Some x" "ring_memory shm" True rb shm'] n assms(3) by simp_all
  moreover have "length (area shm') = n - 192" using h(1,3) by (simp add: ring_holds_def)
  ultimately show ?thesis using c ring_create_handle [OF c] by blast
qed

text \<open>The conditions under which a client can join, and the environment that lets it.\<close>

definition join_ok :: "shm_join_env \<Rightarrow> shm_os \<Rightarrow> shm_master \<Rightarrow> u8 list \<Rightarrow> bool" where
  "join_ok env os ms nm \<longleftrightarrow>
     join_info env \<noteq> None \<and> join_fd env \<ge> 0 \<and> join_excl env \<noteq> None \<and> join_addr env \<noteq> None
     \<and> join_tx_ok env \<and> join_rx_ok env \<and> join_kill env (join_pid env) = Kill_ok \<and> join_free env 0 \<and> join_pid env > 0
     \<and> nm \<noteq> [] \<and> length nm < MAX_TRANSPORT_NAME_LENGTH \<and> list_all name_char nm
     \<and> (let key = shm_generate_key (Some nm) (word_of_int (join_pid env))
        in shm_keys os key = None \<and> key \<noteq> 0 \<and> key \<noteq> -1)
     \<and> sh_magic (ms_header ms) = ZOO_SMB_MSG_MAGIC_NUMBER \<and> sh_version (ms_header ms) = shm_version
     \<and> server_running (ms_header ms) \<and> client_count (ms_header ms) + 1 < sh_max_clients (ms_header ms)
     \<and> client_count (ms_header ms) < sh_max_clients (ms_header ms)
     \<and> next_available_id (ms_header ms) \<ge> 0
     \<and> length (ms_slots ms) = ZOO_SMB_SHM_MAX_PENDING_REGISTRATIONS
     \<and> (\<forall>r \<in> set (ms_slots ms). reg_status r = ZOO_SMB_REGISTRATION_EMPTY)"

text \<open>The request a client leaves in the registration area.\<close>

definition join_request :: "shm_join_env \<Rightarrow> u8 list \<Rightarrow> registration" where
  "join_request env nm = zero_registration\<lparr>reg_status := ZOO_SMB_REGISTRATION_PENDING, reg_client_name := nm,
     reg_client_pid := join_pid env, reg_client_shm_key := shm_generate_key (Some nm) (word_of_int (join_pid env)),
     reg_client_shm_size := ZOO_SMB_SHM_CLIENT_SIZE, reg_client_event_fd := join_fd env, reg_timestamp := join_now env\<rparr>"

definition join_master :: "shm_join_env \<Rightarrow> u8 list \<Rightarrow> shm_master \<Rightarrow> shm_master" where
  "join_master env nm ms = ms\<lparr>ms_header := (ms_header ms)\<lparr>next_available_id := next_available_id (ms_header ms) + 1,
       client_count := client_count (ms_header ms) + 1\<rparr>, ms_slots := (ms_slots ms)[0 := join_request env nm]\<rparr>"

lemma c_str_name: "list_all name_char nm \<Longrightarrow> c_str nm = nm"
  unfolding c_str_def by (rule takeWhile_eq_all_conv [THEN iffD2]) (auto simp: list_all_iff name_char_def)

lemma request_ok:
  assumes "join_ok env os0 ms nm" and "shm_keys os (shm_generate_key (Some nm) (word_of_int (join_pid env))) \<noteq> None"
  shows "shm_request_client_registration (join_kill env) (join_free env) (join_now env) os (Some ms) (Some nm)
      (join_pid env) (shm_generate_key (Some nm) (word_of_int (join_pid env))) (join_fd env)
    = (next_available_id (ms_header ms), Some (join_master env nm ms))"
proof -
  note j = assms(1) [unfolded join_ok_def Let_def]
  have nm: "c_str nm = nm" "take (MAX_TRANSPORT_NAME_LENGTH - 1) nm = nm" using j by (auto intro: c_str_name)
  have "acquire_lock (join_free env) 0 = 0" using j by (simp add: acquire_lock.simps)
  moreover have "empty_slot (ms_slots ms) = Some 0"
    using j by (cases "ms_slots ms") (auto simp: ZOO_SMB_SHM_MAX_PENDING_REGISTRATIONS_def)
  moreover have "shm_validate_client_registration (join_kill env) os (Some (ms_header ms)) (Some nm) (join_pid env)
      (shm_generate_key (Some nm) (word_of_int (join_pid env))) = ZOO_SMB_OK"
    using j assms(2) nm by (simp add: shm_validate_client_registration_def not_le)
  ultimately show ?thesis
    using nm by (simp add: shm_request_client_registration_def Let_def join_master_def join_request_def)
qed

lemma client_start_ok:
  assumes "join_ok env os ms (cl_config_name cl)" and "\<not> cl_is_started cl" and "\<exists>r < 10. look r = Some ms"
    and "\<forall>r. look r = None \<or> look r = Some ms" and "join_excl env = Some i"
  obtains os1 cl1 seg ci crx ctx where
    "shm_client_start look env os ms (Some cl) = (ZOO_SMB_OK, os1, join_master env (cl_config_name cl) ms, Some cl1)"
    and "cl_is_started cl1" and "\<not> cl_should_stop cl1" and "cl_info cl1 = Some ci" and "ci_shm_id ci = i"
    and "rx_ring ci = Some crx" and "tx_ring ci = Some ctx" and "unat (h_data_size crx) = 2098960"
    and "unat (h_data_size ctx) = 2098960" and "h_control crx \<noteq> None" and "h_data crx \<noteq> None"
    and "h_control ctx \<noteq> None" and "h_data ctx \<noteq> None" and "shm_segs os1 i = Some seg"
    and "seg_size seg = ZOO_SMB_SHM_CLIENT_SIZE" and "length (area (seg_tx seg)) = 2098960"
    and "length (area (seg_rx seg)) = 2098960"
    and "shm_keys os1 (shm_generate_key (Some (cl_config_name cl)) (word_of_int (join_pid env))) = Some i"
    and "ring_holds e crx (seg_rx seg) []" and "allow_overwrite (ctl (seg_rx seg))"
proof -
  note j = assms(1) [unfolded join_ok_def Let_def]
  let ?nm = "cl_config_name cl" and ?key = "shm_generate_key (Some (cl_config_name cl)) (word_of_int (join_pid env))"
  obtain a addr where ja: "join_info env = Some a" "join_addr env = Some addr" using j by auto
  have nm: "take (MAX_TRANSPORT_NAME_LENGTH - 1) ?nm = ?nm" using j by auto
  have att: "attach_loop look 10"
  proof -
    obtain r where r: "r < 10" "look r = Some ms" using assms(3) by auto
    have "attach_loop look n" if "10 - n \<le> r" "n \<le> 10" for n
      using that
    proof (induction n)
      case (Suc n)
      then show ?case using r assms(4) j
        by (cases "r = 10 - Suc n") (auto simp: MAX_ATTACH_RETRIES_def shm_validate_header_def ZOO_SMB_IS_SUCCESS_def
            ZOO_SMB_OK_def ZOO_OK_def split: option.split)
    qed (use r in simp)
    then show ?thesis by simp
  qed
  let ?seg0 = "zero_segment ZOO_SMB_SHM_CLIENT_SIZE"
  have len: "length (area (seg_tx ?seg0)) = 2099152 - 192" "length (area (seg_rx ?seg0)) = 2099152 - 192"
    by (simp_all add: zero_segment_def Let_def client_ring_size sizeof_control_def)
  obtain tx tx_shm where tx: "zoo_smb_ring_buffer_create_in_memory True (Some (addr + sizeof_client_header))
      (ring_memory (seg_tx ?seg0)) 2099152 True = Some (tx, tx_shm)" "unat (h_data_size tx) = 2098960"
      "h_control tx \<noteq> None" "h_data tx \<noteq> None" "length (area tx_shm) = 2098960"
    using ring_make [OF len(1), of "addr + sizeof_client_header" e] by auto
  obtain rx rx_shm where rx: "zoo_smb_ring_buffer_create_in_memory True (Some (addr + sizeof_client_header + 2099152))
      (ring_memory (seg_rx ?seg0)) 2099152 True = Some (rx, rx_shm)" "unat (h_data_size rx) = 2098960"
      "h_control rx \<noteq> None" "h_data rx \<noteq> None" "length (area rx_shm) = 2098960"
      "ring_holds e rx rx_shm []" "allow_overwrite (ctl rx_shm)"
    using ring_make [OF len(2), of "addr + sizeof_client_header + 2099152" e] by auto
  define os1 where "os1 = os\<lparr>shm_keys := (shm_keys os)(?key := Some i), shm_segs := (shm_segs os)(i := Some ?seg0)\<rparr>"
  define os2 where "os2 = update_seg i (\<lambda>s. s\<lparr>seg_tx := tx_shm, seg_rx := rx_shm\<rparr>) os1"
  define ci where "ci = (join_client_info env a ?nm)\<lparr>ci_event_fd := join_fd env, ci_shm_id := i, ci_shm_addr := Some addr,
      ci_shm_size := ZOO_SMB_SHM_CLIENT_SIZE, tx_ring := Some tx, rx_ring := Some rx\<rparr>"
  have fd: "join_fd env \<noteq> -1" "\<not> join_fd env < 0" using j by auto
  have r: "shm_request_client_registration (join_kill env) (join_free env) (join_now env) os2 (Some ms) (Some ?nm)
      (join_pid env) ?key (join_fd env) = (next_available_id (ms_header ms), Some (join_master env ?nm ms))"
    by (rule request_ok [OF assms(1)]) (simp add: os2_def os1_def)
  define cl1 where "cl1 = cl\<lparr>cl_attached := True, cl_pairs := join_pairs env, cl_client_id := next_available_id (ms_header ms),
      cl_server_event_fd := -1, cl_info := Some (ci\<lparr>client_id := next_available_id (ms_header ms),
      ci_state := TRANSPORT_CONN_STATE_CONNECTED\<rparr>), cl_is_started := True, cl_should_stop := False\<rparr>"
  have "shm_client_start look env os ms (Some cl) = (ZOO_SMB_OK, os2, join_master env ?nm ms, Some cl1)"
    using assms(2,5) att ja fd nm j tx(1) rx(1) r
    by (simp add: shm_client_start_def client_attach_to_server_def MAX_ATTACH_RETRIES_def client_register_with_server_def
        Let_def shm_create_client_segment_def shm_init_client_resources_def client_ring_size join_client_info_def
        os1_def os2_def ci_def cl1_def)
  moreover have "shm_segs os2 i = Some (?seg0\<lparr>seg_tx := tx_shm, seg_rx := rx_shm\<rparr>)" "shm_keys os2 ?key = Some i"
    by (simp_all add: os2_def os1_def)
  moreover have "seg_size ?seg0 = ZOO_SMB_SHM_CLIENT_SIZE" by (simp add: zero_segment_def Let_def)
  ultimately show ?thesis
    using that [of os2 cl1 "ci\<lparr>client_id := next_available_id (ms_header ms), ci_state := TRANSPORT_CONN_STATE_CONNECTED\<rparr>"
        rx tx "?seg0\<lparr>seg_tx := tx_shm, seg_rx := rx_shm\<rparr>"] tx rx
    by (simp add: cl1_def ci_def)
qed

text \<open>The server's environment when it accepts the request in slot 0 and makes client \<open>a\<close> of it.\<close>

definition accept_ok :: "shm_reg_env \<Rightarrow> shm_server \<Rightarrow> shm_join_env \<Rightarrow> u8 list \<Rightarrow> nat \<Rightarrow> bool" where
  "accept_ok reg s env nm a \<longleftrightarrow>
     reg_kill reg (join_pid env) = Kill_ok \<and> reg_attach reg \<noteq> None \<and> reg_stat_ok reg \<and> reg_info reg = Some a
     \<and> reg_tx_ok reg \<and> reg_rx_ok reg \<and> length (sv_clients s) < ZOO_SMB_SHM_MAX_CLIENTS
     \<and> a \<notin> ci_addr ` set (sv_clients s) \<and> distinct (map ci_addr (sv_clients s))
     \<and> (\<forall>c \<in> set (sv_clients s). ci_name c \<noteq> nm) \<and> shm_find_sender_mapping s nm = None
     \<and> sv_is_started s"

lemma accept_none:
  assumes "sv_master s = Some ms"
    and "\<forall>j < ZOO_SMB_SHM_MAX_PENDING_REGISTRATIONS. i \<le> j \<longrightarrow> reg_status (ms_slots ms ! j) \<noteq> ZOO_SMB_REGISTRATION_PENDING"
  shows "accept_from regs i os s = (os, s)"
  using assms(2)
proof (induction "ZOO_SMB_SHM_MAX_PENDING_REGISTRATIONS - i" arbitrary: i)
  case (Suc n)
  then have "accept_from regs (i + 1) os s = (os, s)" by (intro Suc.hyps(1)) auto
  then show ?case using assms(1) Suc.prems by (subst accept_from.simps) (auto simp: Let_def)
qed (subst accept_from.simps, simp)

lemma validate_and_register_ok:
  assumes "join_ok env os ms nm" and "sv_master s = Some (join_master env nm ms)" and "accept_ok reg s env nm a"
    and "shm_keys os1 (shm_generate_key (Some nm) (word_of_int (join_pid env))) = Some i" and "shm_segs os1 i = Some seg"
    and "seg_size seg = ZOO_SMB_SHM_CLIENT_SIZE" and "length (area (seg_tx seg)) = 2098960"
    and "length (area (seg_rx seg)) = 2098960"
  shows "\<exists>os2 c srx stx seg' ms'. shm_validate_and_register_client reg os1 s (join_request env nm)
      = (ZOO_SMB_OK, os2, s\<lparr>sv_next_client_id := sv_next_client_id s + 1, sv_clients := sv_clients s @ [c],
           sv_master := Some ms'\<rparr>, zero_registration)
    \<and> ms_slots ms' = ms_slots (join_master env nm ms)
    \<and> ci_addr c = a \<and> ci_name c = nm \<and> ci_state c = TRANSPORT_CONN_STATE_CONNECTED \<and> ci_shm_id c = i
    \<and> rx_ring c = Some srx \<and> tx_ring c = Some stx \<and> shm_segs os2 i = Some seg'
    \<and> unat (h_data_size srx) = 2098960 \<and> unat (h_data_size stx) = 2098960
    \<and> h_control srx \<noteq> None \<and> h_data srx \<noteq> None \<and> h_control stx \<noteq> None \<and> h_data stx \<noteq> None
    \<and> ring_holds e srx (seg_rx seg') [] \<and> allow_overwrite (ctl (seg_rx seg'))
    \<and> ring_holds e stx (seg_tx seg') [] \<and> allow_overwrite (ctl (seg_tx seg'))
    \<and> is_owner srx \<and> ci_last_heartbeat c = reg_now reg"
proof -
  note j = assms(1) [unfolded join_ok_def Let_def] and k = assms(3) [unfolded accept_ok_def]
  let ?key = "shm_generate_key (Some nm) (word_of_int (join_pid env))" and ?r = "join_request env nm"
  obtain addr where addr: "reg_attach reg = Some addr" using k by auto
  have fresh: "\<not> (\<exists>c \<in> set (sv_clients s). ci_pid c = reg_client_pid ?r \<and> ci_name c = reg_client_name ?r)"
    using k by (auto simp: join_request_def)
  have valid: "shm_validate_client_registration (reg_kill reg) os1 (Some (ms_header (join_master env nm ms)))
      (Some (reg_client_name ?r)) (reg_client_pid ?r) (reg_client_shm_key ?r) = ZOO_SMB_OK"
    using j k assms(4) c_str_name [of nm]
    by (simp add: shm_validate_client_registration_def join_request_def join_master_def not_le)
  have len: "length (area (seg_tx seg)) = 2099152 - 192" "length (area (seg_rx seg)) = 2099152 - 192"
    using assms(7,8) by simp_all
  obtain tx tx_shm where tx: "zoo_smb_ring_buffer_create_in_memory True (Some (addr + sizeof_client_header))
      (ring_memory (seg_tx seg)) 2099152 True = Some (tx, tx_shm)" "unat (h_data_size tx) = 2098960"
      "h_control tx \<noteq> None" "h_data tx \<noteq> None" "ring_holds e tx tx_shm []" "allow_overwrite (ctl tx_shm)"
    using ring_make [OF len(1), of "addr + sizeof_client_header" e] by auto
  obtain rx rx_shm where rx: "zoo_smb_ring_buffer_create_in_memory True (Some (addr + sizeof_client_header + 2099152))
      (ring_memory (seg_rx seg)) 2099152 True = Some (rx, rx_shm)" "unat (h_data_size rx) = 2098960"
      "h_control rx \<noteq> None" "h_data rx \<noteq> None" "ring_holds e rx rx_shm []" "allow_overwrite (ctl rx_shm)" "is_owner rx"
    using ring_make [OF len(2), of "addr + sizeof_client_header + 2099152" e] by auto
  have key: "reg_client_shm_key ?r = ?key" by (simp add: join_request_def)
  define c where "c = (new_client a s ?r i addr ZOO_SMB_SHM_CLIENT_SIZE (reg_now reg))
      \<lparr>tx_ring := Some tx, rx_ring := Some rx, ci_state := TRANSPORT_CONN_STATE_CONNECTED\<rparr>"
  define os2 where "os2 = update_seg i (\<lambda>s. s\<lparr>seg_tx := tx_shm, seg_rx := rx_shm\<rparr>) (update_seg i (\<lambda>s. s\<lparr>seg_header :=
      (seg_header s)\<lparr>ch_magic := ZOO_SMB_MSG_MAGIC_NUMBER, ch_version := shm_version,
        ch_client_name := reg_client_name ?r\<rparr>\<rparr>) os1)"
  define ms' where "ms' = (join_master env nm ms)\<lparr>ms_header := (ms_header (join_master env nm ms))
      \<lparr>client_count := word_of_nat (length (sv_clients s @ [c]))\<rparr>\<rparr>"
  have "shm_validate_and_register_client reg os1 s ?r
      = (ZOO_SMB_OK, os2, s\<lparr>sv_next_client_id := sv_next_client_id s + 1, sv_clients := sv_clients s @ [c],
           sv_master := Some ms'\<rparr>, zero_registration)"
    unfolding shm_validate_and_register_client_def Let_def if_not_P [OF fresh]
    using assms(2,4,5,6) addr k valid tx rx
    by (simp add: key client_ring_size ZOO_SMB_SHM_MAX_CLIENTS_def new_client_def shm_server_update_client_state_def
        c_def os2_def ms'_def)
  moreover have "shm_segs os2 i = Some (seg\<lparr>seg_header := (seg_header seg)\<lparr>ch_magic := ZOO_SMB_MSG_MAGIC_NUMBER,
      ch_version := shm_version, ch_client_name := reg_client_name ?r\<rparr>, seg_tx := tx_shm, seg_rx := rx_shm\<rparr>)"
    using assms(5) by (simp add: os2_def)
  moreover have "ms_slots ms' = ms_slots (join_master env nm ms)" by (simp add: ms'_def)
  moreover have "ci_addr c = a" "ci_name c = nm" "ci_state c = TRANSPORT_CONN_STATE_CONNECTED" "ci_shm_id c = i"
    "rx_ring c = Some rx" "tx_ring c = Some tx" "ci_last_heartbeat c = reg_now reg"
    by (simp_all add: c_def new_client_def join_request_def)
  ultimately show ?thesis
    using tx(2-6) rx(2-7)
    by (intro exI [of _ os2] exI [of _ c] exI [of _ rx] exI [of _ tx] exI [of _ ms'] exI [of _ "seg\<lparr>seg_header :=
      (seg_header seg)\<lparr>ch_magic := ZOO_SMB_MSG_MAGIC_NUMBER, ch_version := shm_version, ch_client_name := reg_client_name ?r\<rparr>,
      seg_tx := tx_shm, seg_rx := rx_shm\<rparr>"]) simp
qed

lemma server_accepts:
  assumes "join_ok env os ms nm" and "sv_master s = Some (join_master env nm ms)" and "accept_ok (regs 0) s env nm a"
    and "shm_keys os1 (shm_generate_key (Some nm) (word_of_int (join_pid env))) = Some i" and "shm_segs os1 i = Some seg"
    and "seg_size seg = ZOO_SMB_SHM_CLIENT_SIZE" and "length (area (seg_tx seg)) = 2098960"
    and "length (area (seg_rx seg)) = 2098960"
  shows "\<exists>os2 s2 srx stx. shm_server_accept_new_clients regs os1 s = (ZOO_SMB_OK, os2, s2)
    \<and> server_link e os2 s2 a i srx stx [] [] \<and> reaches s2 nm a \<and> sv_is_started s2 \<and> sv_master s2 \<noteq> None
    \<and> distinct (map ci_addr (sv_clients s2)) \<and> sv_mappings s2 = sv_mappings s
    \<and> unat (h_data_size srx) = 2098960 \<and> unat (h_data_size stx) = 2098960
    \<and> h_control srx \<noteq> None \<and> h_data srx \<noteq> None \<and> h_control stx \<noteq> None \<and> h_data stx \<noteq> None
    \<and> is_owner srx \<and> (\<exists>c. client_at s2 a = Some c \<and> rx_ring c = Some srx \<and> ci_last_heartbeat c = reg_now (regs 0))"
proof -
  note j = assms(1) [unfolded join_ok_def Let_def] and k = assms(3) [unfolded accept_ok_def]
  obtain os2 c srx stx seg' ms' where v: "shm_validate_and_register_client (regs 0) os1 s (join_request env nm)
      = (ZOO_SMB_OK, os2, s\<lparr>sv_next_client_id := sv_next_client_id s + 1, sv_clients := sv_clients s @ [c],
           sv_master := Some ms'\<rparr>, zero_registration)"
    "ms_slots ms' = ms_slots (join_master env nm ms)"
    and c: "ci_addr c = a" "ci_name c = nm" "ci_state c = TRANSPORT_CONN_STATE_CONNECTED" "ci_shm_id c = i"
    "rx_ring c = Some srx" "tx_ring c = Some stx" "shm_segs os2 i = Some seg'"
    "unat (h_data_size srx) = 2098960" "unat (h_data_size stx) = 2098960"
    "h_control srx \<noteq> None" "h_data srx \<noteq> None" "h_control stx \<noteq> None" "h_data stx \<noteq> None"
    "ring_holds e srx (seg_rx seg') []" "allow_overwrite (ctl (seg_rx seg'))"
    "ring_holds e stx (seg_tx seg') []" "allow_overwrite (ctl (seg_tx seg'))"
    "is_owner srx" "ci_last_heartbeat c = reg_now (regs 0)"
    using validate_and_register_ok [OF assms(1-8), of e] by blast
  let ?s1 = "s\<lparr>sv_next_client_id := sv_next_client_id s + 1, sv_clients := sv_clients s @ [c], sv_master := Some ms'\<rparr>"
  let ?s2 = "set_slot 0 zero_registration ?s1"
  have slots: "ms_slots ms' = (ms_slots ms)[0 := join_request env nm]" "length (ms_slots ms) = 16"
    using v(2) j by (simp_all add: join_master_def ZOO_SMB_SHM_MAX_PENDING_REGISTRATIONS_def)
  have "accept_from regs 1 os2 ?s2 = (os2, ?s2)"
    by (rule accept_none [of _ "ms'\<lparr>ms_slots := (ms_slots ms')[0 := zero_registration]\<rparr>"])
      (use j slots in \<open>auto simp: set_slot_def ZOO_SMB_SHM_MAX_PENDING_REGISTRATIONS_def nth_list_update\<close>)
  moreover have "ms_slots (join_master env nm ms) ! 0 = join_request env nm"
    using slots by (simp add: join_master_def)
  moreover have "\<not> sh_max_clients (ms_header (join_master env nm ms)) \<le> client_count (ms_header (join_master env nm ms))"
    using j by (simp add: join_master_def not_le)
  moreover have "reg_status (join_request env nm) = ZOO_SMB_REGISTRATION_PENDING" by (simp add: join_request_def)
  ultimately have acc: "shm_server_accept_new_clients regs os1 s = (ZOO_SMB_OK, os2, ?s2)"
    using assms(2) v(1)
    by (simp add: shm_server_accept_new_clients_def accept_from.simps [of regs 0]
        ZOO_SMB_SHM_MAX_PENDING_REGISTRATIONS_def Let_def)
  have cl: "sv_clients ?s2 = sv_clients s @ [c]" by (simp add: set_slot_def)
  then have at: "client_at ?s2 a = Some c"
  proof -
    have "find (\<lambda>c. ci_addr c = a) (sv_clients s) = None" using k by (auto simp: find_None_iff)
    then show ?thesis using cl c(1) by (simp add: client_at_def find_append_one)
  qed
  have mp: "sv_mappings ?s2 = sv_mappings s" by (simp add: set_slot_def)
  have "find (\<lambda>c. ci_state c = TRANSPORT_CONN_STATE_CONNECTED \<and> ci_name c = nm) (sv_clients s) = None"
    using k by (auto simp: find_None_iff)
  then have "reaches ?s2 nm a"
    using k c mp cl by (simp add: reaches_def shm_find_target_client_def shm_find_sender_mapping_def find_append_one)
  moreover have "server_link e os2 ?s2 a i srx stx [] []" using at c by (simp add: server_link_def)
  moreover have "distinct (map ci_addr (sv_clients ?s2))" using k cl c(1) by auto
  moreover have "sv_is_started ?s2" "sv_master ?s2 \<noteq> None" using k by (simp_all add: set_slot_def)
  ultimately show ?thesis using acc c(5,8-13,18,19) mp at by blast
qed

lemma accept_ok_master [simp]: "accept_ok reg (s\<lparr>sv_master := ms\<rparr>) env nm a = accept_ok reg s env nm a"
  by (simp add: accept_ok_def shm_find_sender_mapping_def)

lemma same_ringI:
  assumes "unat (h_data_size rb) = n" and "unat (h_data_size rb') = n" and "h_control rb \<noteq> None" and "h_data rb \<noteq> None"
    and "h_control rb' \<noteq> None" and "h_data rb' \<noteq> None"
  shows "same_ring rb rb'"
  using assms by (simp add: same_ring_def word_unat_eq_iff)

lemma join_rep:
  assumes "join_ok env os ms (cl_config_name cl)" and "\<not> cl_is_started cl"
    and "accept_ok (regs 0) s env (cl_config_name cl) a" and "c_str (cl_config_name cl) = cl_config_name cl"
  shows "\<exists>os1 cl1 os2 s2. shm_client_start (\<lambda>_. Some ms) env os ms (Some cl)
        = (ZOO_SMB_OK, os1, join_master env (cl_config_name cl) ms, Some cl1)
      \<and> shm_server_accept_new_clients regs os1 (s\<lparr>sv_master := Some (join_master env (cl_config_name cl) ms)\<rparr>)
        = (ZOO_SMB_OK, os2, s2)
      \<and> shm_rep e cfg 2098960 a (cl_config_name cl) (os2, s2, cl1) ([], []) \<and> sv_mappings s2 = sv_mappings s
      \<and> (\<exists>c rb. client_at s2 a = Some c \<and> rx_ring c = Some rb \<and> is_owner rb \<and> ci_last_heartbeat c = reg_now (regs 0))"
proof -
  let ?nm = "cl_config_name cl" and ?s = "s\<lparr>sv_master := Some (join_master env (cl_config_name cl) ms)\<rparr>"
  obtain i where i: "join_excl env = Some i" using assms(1) by (auto simp: join_ok_def)
  have look: "\<exists>r < 10. (\<lambda>_ :: nat. Some ms) r = Some ms" "\<forall>r :: nat. Some ms = None \<or> Some ms = Some ms"
    by (auto intro: exI [of _ "0 :: nat"])
  obtain os1 cl1 seg ci crx ctx where st:
    "shm_client_start (\<lambda>_. Some ms) env os ms (Some cl) = (ZOO_SMB_OK, os1, join_master env ?nm ms, Some cl1)"
    and cl: "cl_is_started cl1" "\<not> cl_should_stop cl1" "cl_info cl1 = Some ci" "ci_shm_id ci = i"
    "rx_ring ci = Some crx" "tx_ring ci = Some ctx" "unat (h_data_size crx) = 2098960"
    "unat (h_data_size ctx) = 2098960" "h_control crx \<noteq> None" "h_data crx \<noteq> None"
    "h_control ctx \<noteq> None" "h_data ctx \<noteq> None" and seg: "shm_segs os1 i = Some seg"
    "seg_size seg = ZOO_SMB_SHM_CLIENT_SIZE" "length (area (seg_tx seg)) = 2098960" "length (area (seg_rx seg)) = 2098960"
    and key: "shm_keys os1 (shm_generate_key (Some ?nm) (word_of_int (join_pid env))) = Some i"
    using client_start_ok [OF assms(1,2) look i] by metis
  have m: "sv_master ?s = Some (join_master env ?nm ms)" and acc: "accept_ok (regs 0) ?s env ?nm a"
    using assms(3) by simp_all
  obtain os2 s2 srx stx where ac: "shm_server_accept_new_clients regs os1 ?s = (ZOO_SMB_OK, os2, s2)"
    and sl: "server_link e os2 s2 a i srx stx [] []" "reaches s2 ?nm a" "sv_is_started s2" "sv_master s2 \<noteq> None"
    "distinct (map ci_addr (sv_clients s2))" "unat (h_data_size srx) = 2098960" "unat (h_data_size stx) = 2098960"
    "h_control srx \<noteq> None" "h_data srx \<noteq> None" "h_control stx \<noteq> None" "h_data stx \<noteq> None"
    and mp: "sv_mappings s2 = sv_mappings ?s" and own: "is_owner srx"
      "\<exists>c. client_at s2 a = Some c \<and> rx_ring c = Some srx \<and> ci_last_heartbeat c = reg_now (regs 0)"
    using server_accepts [where regs = regs, OF assms(1) m acc key seg, of e] by blast
  have "client_link cl1 i srx stx"
    using cl sl same_ringI [of crx 2098960 srx] same_ringI [of ctx 2098960 stx] by (simp add: client_link_def)
  then have "shm_rep e cfg 2098960 a ?nm (os2, s2, cl1) ([], [])"
    using sl assms(4) by (auto simp: shm_rep_def)
  moreover have "sv_mappings s2 = sv_mappings s" using mp by simp
  ultimately show ?thesis using st ac own by blast
qed

lemma early_send:
  assumes "join_ok env os ms (cl_config_name cl)" and "\<not> cl_is_started cl"
    and "accept_ok (regs 0) s env (cl_config_name cl) a" and "good_msg cfg m"
  shows "\<exists>os1 ms1 cl1 os2 ms2 cl2 os3 s3 srx stx i.
      shm_client_start (\<lambda>_. Some ms) env os ms (Some cl) = (ZOO_SMB_OK, os1, ms1, Some cl1)
    \<and> shm_client_send e now (Some (replicate MAX_TRANSPORT_BUFFER_SIZE 0)) wrote os1 ms1 (Some cl1) (Some m)
        = (ZOO_SMB_OK, os2, ms2, Some cl2)
    \<and> shm_server_accept_new_clients regs os2 (s\<lparr>sv_master := Some ms2\<rparr>) = (ZOO_SMB_OK, os3, s3)
    \<and> server_link e os3 s3 a i srx stx [] [] \<and> reaches s3 (cl_config_name cl) a \<and> sv_is_started s3"
proof -
  let ?nm = "cl_config_name cl" and ?b = "replicate MAX_TRANSPORT_BUFFER_SIZE (0 :: u8)"
  obtain i where i: "join_excl env = Some i" using assms(1) by (auto simp: join_ok_def)
  have look: "\<exists>r < 10. (\<lambda>_ :: nat. Some ms) r = Some ms" "\<forall>r :: nat. Some ms = None \<or> Some ms = Some ms"
    by (auto intro: exI [of _ "0 :: nat"])
  obtain os1 cl1 seg ci crx ctx where st:
    "shm_client_start (\<lambda>_. Some ms) env os ms (Some cl) = (ZOO_SMB_OK, os1, join_master env ?nm ms, Some cl1)"
    and cl: "cl_is_started cl1" "\<not> cl_should_stop cl1" "cl_info cl1 = Some ci" "ci_shm_id ci = i"
    "rx_ring ci = Some crx" "unat (h_data_size crx) = 2098960" and seg: "shm_segs os1 i = Some seg"
    "seg_size seg = ZOO_SMB_SHM_CLIENT_SIZE" "length (area (seg_tx seg)) = 2098960"
    "ring_holds e crx (seg_rx seg) (map wire [])" "allow_overwrite (ctl (seg_rx seg))"
    and key: "shm_keys os1 (shm_generate_key (Some ?nm) (word_of_int (join_pid env))) = Some i"
    using client_start_ok [OF assms(1,2) look i, of e] by (simp, metis)
  obtain b' shm where w:
    "zoo_smb_protocol_serialize e (Some m) (Some ?b) MAX_TRANSPORT_BUFFER_SIZE = (length (wire m), Some b')"
    "zoo_smb_ring_buffer_write e now (Some crx) (seg_rx seg) (Some b') (length (wire m)) = (ZOO_SMB_OK, shm)"
    "ring_holds e crx shm (map wire (lossy_put (unat (h_data_size crx)) [] m))"
    using serialize_write [OF assms(4) _ seg(4,5), of ?b now] cl(6) by (simp, metis)
  define ms0 where "ms0 = snd (client_notify_server wrote cl1 ms)"
  define os2 where "os2 = update_seg i (\<lambda>s. s\<lparr>seg_rx := shm\<rparr>) os1"
  have ms0: "snd (client_notify_server wrote cl1 (join_master env ?nm ms)) = join_master env ?nm ms0"
    "join_ok env os ms0 ?nm"
    using assms(1) by (auto simp: ms0_def client_notify_server_def join_master_def join_ok_def Let_def)
  have snd: "shm_client_send e now (Some ?b) wrote os1 (join_master env ?nm ms) (Some cl1) (Some m)
      = (ZOO_SMB_OK, os2, join_master env ?nm ms0, Some (set_info (\<lambda>ci. ci\<lparr>ci_last_heartbeat := uint now\<rparr>) cl1))"
    using cl(1,3-5) seg(1) w(1,2) wire_size(1) [OF assms(4)] by (simp add: shm_client_send_def os2_def ms0)
  let ?s = "s\<lparr>sv_master := Some (join_master env ?nm ms0)\<rparr>" and ?seg = "seg\<lparr>seg_rx := shm\<rparr>"
  have "sv_master ?s = Some (join_master env ?nm ms0)" "accept_ok (regs 0) ?s env ?nm a" using assms(3) by simp_all
  moreover have "shm_segs os2 i = Some ?seg" "seg_size ?seg = ZOO_SMB_SHM_CLIENT_SIZE"
    "length (area (seg_tx ?seg)) = 2098960" "length (area (seg_rx ?seg)) = 2098960"
    "shm_keys os2 (shm_generate_key (Some ?nm) (word_of_int (join_pid env))) = Some i"
    using seg key w(3) cl(6) by (simp_all add: os2_def ring_holds_def update_seg_def)
  ultimately obtain os3 s3 srx stx where "shm_server_accept_new_clients regs os2 ?s = (ZOO_SMB_OK, os3, s3)"
    "server_link e os3 s3 a i srx stx [] []" "reaches s3 ?nm a" "sv_is_started s3"
    using server_accepts [where regs = regs and s = ?s, OF ms0(2)] by blast
  with st snd show ?thesis by blast
qed

text \<open>A client and a server on an empty system.\<close>

definition sample_join :: shm_join_env where
  "sample_join = \<lparr>join_info = Some 1, join_pid = 1000, join_now = 100, join_fd = 6, join_pairs = [], join_excl = Some 8,
     join_again = None, join_addr = Some 4096, join_tx_ok = True, join_rx_ok = True, join_kill = (\<lambda>_. Kill_ok),
     join_free = (\<lambda>_. True)\<rparr>"

definition sample_reg :: "nat \<Rightarrow> shm_reg_env" where
  "sample_reg i = \<lparr>reg_kill = (\<lambda>_. Kill_ok), reg_attach = Some 8192, reg_stat_ok = True, reg_info = Some (i + 1),
     reg_tx_ok = True, reg_rx_ok = True, reg_now = 101\<rparr>"

definition sample_client :: shm_client where
  "sample_client = the (snd (shm_client_init True (Some [97])))"

definition sample_msg_env :: shm_msg_env where
  "sample_msg_env = \<lparr>buffer_ok = True, default_ok = True, deser_ok = True, mapping_ok = True, snap_ok = True, env_now = 102\<rparr>"

abbreviation idle_master :: shm_master where "idle_master \<equiv> the (sv_master idle_server)"

lemma sample_client_simps [simp]: "cl_config_name sample_client = [97]" "\<not> cl_is_started sample_client"
  by (simp_all add: sample_client_def shm_client_init_def c_str_def)

lemma sample_key: "shm_generate_key (Some [97]) 1000 = 0x161C5061"
  by (simp add: shm_generate_key_def shm_hash_def c_str_def ZOO_SMB_SHM_KEY_BASE_def)

lemma sample_join_ok: "join_ok sample_join no_segments idle_master [97]"
  by (simp add: join_ok_def Let_def sample_join_def no_segments_def idle_server_def sample_key name_char_def
      MAX_TRANSPORT_NAME_LENGTH_def zero_registration_def)

lemma sample_accept_ok: "accept_ok (sample_reg 0) idle_server sample_join [97] 1"
  by (simp add: accept_ok_def sample_reg_def idle_server_def ZOO_SMB_SHM_MAX_CLIENTS_def shm_find_sender_mapping_def)

lemma sample_env_ok: "env_ok sample_msg_env"
  by (simp add: env_ok_def sample_msg_env_def)

section \<open>Properties\<close>



text \<open>
  C22. A reply finds the client the request came from: after the server has served a request, a
  message sent to the name in the sender field of the request is put into the ring of the client that
  sent it, whatever the name, and the client hands it to its observers.
\<close>

theorem shm_reply_reaches_sender:
  assumes "shm_rep e cfg cap a nm (os, s, cl) ([m], [])" and "env_ok menv" and "good_msg cfg r"
    and "length (sv_mappings s) < mapping_cap" and "length (c_str (sender (header m))) < MAX_TRANSPORT_NAME_LENGTH"
  shows "\<exists>c os1 s1 os2 os3 cl3.
      client_at s a = Some c
    \<and> shm_server_process_client_messages e (\<lambda>_. menv) obs_s os s c = (ZOO_SMB_OK, os1, s1, delivered obs_s [m])
    \<and> shm_server_send e now (Some (replicate MAX_TRANSPORT_BUFFER_SIZE 0)) os1 (Some s1) (Some r) (Some (sender (header m)))
        = (ZOO_SMB_OK, os2)
    \<and> client_process_server_messages e (\<lambda>_. menv) obs_c os2 cl = Some (ZOO_SMB_OK, os3, cl3, delivered obs_c [r])"
proof -
  let ?b = "replicate MAX_TRANSPORT_BUFFER_SIZE (0 :: u8)"
  obtain i srx stx where l: "unat (h_data_size srx) = cap" "unat (h_data_size stx) = cap" "client_link cl i srx stx"
    "server_link e os s a i srx stx [wire m] []" and g: "good_msg cfg m" "100000 \<le> cap"
    and s: "sv_is_started s" "distinct (map ci_addr (sv_clients s))"
    using assms(1) by (auto simp: shm_rep_def)
  obtain c seg where c: "client_at s a = Some c" "ci_state c = TRANSPORT_CONN_STATE_CONNECTED" "rx_ring c = Some srx"
    "shm_segs os (ci_shm_id c) = Some seg" "ring_holds e srx (seg_rx seg) [wire m]" "ci_addr c = a" "ci_shm_id c = i"
    "allow_overwrite (ctl (seg_rx seg))"
    using l(4) by (auto simp: server_link_def dest: client_atD)
  obtain shm where p: "ring_holds e srx shm []" "allow_overwrite (ctl shm) = allow_overwrite (ctl (seg_rx seg))"
    "shm_process_single_message e menv obs_s os s c =
       (ZOO_SMB_OK, update_seg (ci_shm_id c) (\<lambda>s. s\<lparr>seg_rx := shm\<rparr>) os, served menv m (ci_addr c) s,
        map (\<lambda>f. (f, received m)) (handlers obs_s))"
    using process_message [OF c(3,4,5) g(1) assms(2)] by metis
  let ?os1 = "update_seg i (\<lambda>s. s\<lparr>seg_rx := shm\<rparr>) os" and ?s1 = "served menv m a s"
  have l1: "server_link e ?os1 ?s1 a i srx stx [] (map wire [])"
    using server_link_served [OF l(4) p(1)] p(2) c(8) by simp
  have at1: "client_at ?s1 a = Some (c\<lparr>ci_last_heartbeat := env_now menv\<rparr>)"
    using c by (simp add: client_at_served)
  have "shm_messages_loop e (\<lambda>_. menv) obs_s a (Suc (Suc n)) os s = (?os1, ?s1, delivered obs_s [m])" for n
    using c p ring_has_data_iff(2) [OF c(5)] ring_has_data_iff(2) [OF p(1)] at1 by simp
  from this [of 8] have "shm_server_process_client_messages e (\<lambda>_. menv) obs_s os s c = (ZOO_SMB_OK, ?os1, ?s1, delivered obs_s [m])"
    using c ring_has_data_iff(2) [OF c(5)] ring_holds_def [of e srx "seg_rx seg"]
    by (simp add: shm_server_process_client_messages_def MAX_MESSAGES_PER_CYCLE_def)
  note serve = this
  have "mapping_ok menv" using assms(2) by (simp add: env_ok_def)
  then have "reaches ?s1 (c_str (sender (header m))) a"
    using reaches_sender [OF c(1,2) _ assms(4,5)] by simp
  moreover have "map ci_addr (sv_clients ?s1) = map ci_addr (sv_clients s)" "sv_is_started ?s1 = sv_is_started s"
    by (simp_all add: served_def update_client_def)
  ultimately obtain os2 where "shm_server_send e now (Some ?b) ?os1 (Some ?s1) (Some r) (Some (sender (header m))) = (ZOO_SMB_OK, os2)"
    "server_link e os2 ?s1 a i srx stx [] (map wire [r])"
    using server_send_link [OF l1 _ assms(3), of ?b "sender (header m)" now] l(2) g(2) s
    by (auto simp: lossy_put_def)
  moreover from client_receive_link [OF l(3) this(2), of cfg "\<lambda>_. menv" obs_c] assms(2,3) obtain os3 cl3 where
    "client_process_server_messages e (\<lambda>_. menv) obs_c os2 cl = Some (ZOO_SMB_OK, os3, cl3, delivered obs_c [r])" by auto
  ultimately show ?thesis using c(1) serve by blast
qed

lemma sample_connected:
  "\<exists>os s cl c rb. shm_rep Little None 2098960 1 [97] (os, s, cl) ([], []) \<and> sv_mappings s = []
    \<and> client_at s 1 = Some c \<and> rx_ring c = Some rb \<and> is_owner rb \<and> ci_last_heartbeat c = 101"
proof -
  have c: "c_str [97] = [97 :: u8]" by (simp add: c_str_def)
  have "sv_mappings idle_server = []" "reg_now (sample_reg 0) = 101" by (simp_all add: idle_server_def sample_reg_def)
  with join_rep [where regs = sample_reg and cl = sample_client and e = Little and cfg = None,
      unfolded sample_client_simps, OF sample_join_ok _ sample_accept_ok c]
  show ?thesis by fastforce
qed

text \<open>The same connection with a message under way in each direction.\<close>

lemma sample_connected_busy:
  "\<exists>os s cl. shm_rep Little None 2098960 1 [97] (os, s, cl) ([sample_msg], downs) \<and> sv_mappings s = []"
  if "downs = [] \<or> downs = [sample_msg]"
proof -
  obtain os s cl where r: "shm_rep Little None 2098960 1 [97] (os, s, cl) ([], [])" "sv_mappings s = []"
    using sample_connected by blast
  let ?step = "shm_op_step Little 5 (replicate MAX_TRANSPORT_BUFFER_SIZE 0) (\<lambda>_. sample_msg_env) [] [] 1 [97]"
  have "duplex_step 2098960 [] [] ([], []) (ClientSend sample_msg) = ((ZOO_SMB_OK, []), ([sample_msg], []))"
    by (simp add: lossy_put_def)
  from shm_channel.step_on [OF r(1) _ this, of sample_msg_env 5] obtain os1 s1 cl1 where
    s1: "?step (os, s, cl) (ClientSend sample_msg) = Some ((ZOO_SMB_OK, []), (os1, s1, cl1))"
    "shm_rep Little None 2098960 1 [97] (os1, s1, cl1) ([sample_msg], [])"
    by (auto simp: sample_msg_good sample_env_ok)
  then have m: "sv_mappings s1 = []" using r(2) by (auto split: option.splits prod.splits)
  have "duplex_step 2098960 [] [] ([sample_msg], []) (ServerSend sample_msg) = ((ZOO_SMB_OK, []), ([sample_msg], [sample_msg]))"
    by (simp add: lossy_put_def)
  from shm_channel.step_on [OF s1(2) _ this, of sample_msg_env 5] obtain os2 s2 cl2 where
    "?step (os1, s1, cl1) (ServerSend sample_msg) = Some ((ZOO_SMB_OK, []), (os2, s2, cl2))"
    "shm_rep Little None 2098960 1 [97] (os2, s2, cl2) ([sample_msg], [sample_msg])"
    by (auto simp: sample_msg_good sample_env_ok)
  moreover from this have "sv_mappings s2 = []" using m by (auto split: prod.splits)
  ultimately show ?thesis using s1(2) m that by blast
qed

theorem shm_reply_reaches_sender_witness:
  "\<exists>os s cl. shm_rep Little None 2098960 1 [97] (os, s, cl) ([sample_msg], [])
    \<and> (\<exists>c os1 s1 os2 os3 cl3.
      client_at s 1 = Some c
    \<and> shm_server_process_client_messages Little (\<lambda>_. sample_msg_env) [Some 7] os s c
        = (ZOO_SMB_OK, os1, s1, delivered [Some 7] [sample_msg])
    \<and> shm_server_send Little 5 (Some (replicate MAX_TRANSPORT_BUFFER_SIZE 0)) os1 (Some s1) (Some sample_msg)
        (Some (sender (header sample_msg))) = (ZOO_SMB_OK, os2)
    \<and> client_process_server_messages Little (\<lambda>_. sample_msg_env) [Some 8] os2 cl
        = Some (ZOO_SMB_OK, os3, cl3, delivered [Some 8] [sample_msg]))"
proof -
  obtain os s cl where r: "shm_rep Little None 2098960 1 [97] (os, s, cl) ([sample_msg], [])" "sv_mappings s = []"
    using sample_connected_busy [of "[]"] by blast
  then have m: "length (sv_mappings s) < mapping_cap" by (simp add: ZOO_SMB_SHM_MAX_CLIENTS_def)
  have "length (c_str (sender (header sample_msg))) < MAX_TRANSPORT_NAME_LENGTH"
    by (simp add: sample_msg_def zero_header_def c_str_def MAX_TRANSPORT_NAME_LENGTH_def)
  from shm_reply_reaches_sender [OF r(1) sample_env_ok sample_msg_good m this, of "[Some 7]" 5 "[Some 8]"] r(1)
  show ?thesis by blast
qed

text \<open>
  C21. In every state the server can reach, whatever clients and other processes do to the shared
  memory: no sender's name leads to a client that was freed, every client has its two rings, and the
  tables stay within their capacities.
\<close>

theorem shm_server_tables_safe:
  assumes "shm_reach (os, s)"
  shows "(\<forall>m \<in> set (sv_mappings s). \<exists>c \<in> set (sv_clients s). ci_addr c = sm_client_info m)
    \<and> (\<forall>c \<in> set (sv_clients s). rx_ring c \<noteq> None \<and> tx_ring c \<noteq> None)
    \<and> length (sv_clients s) \<le> 1024 \<and> length (sv_mappings s) \<le> 4096"
  using reach_tables [OF assms] by (fastforce simp: tables_ok_def ZOO_SMB_SHM_MAX_CLIENTS_def)

text \<open>The server of the example, started on an empty system.\<close>

lemma idle_reached: "shm_reach (\<lparr>shm_keys = (shm_keys no_segments)(shm_generate_key (Some [98]) 0 := Some 3),
    shm_segs = shm_segs no_segments\<rparr>, idle_server\<lparr>sv_master_key := shm_generate_key (Some [98]) 0\<rparr>)"
proof -
  obtain s where s: "shm_server_init True True True (Some [98]) = (ZOO_SMB_OK, Some s)" "\<not> sv_is_started s"
    by (simp add: shm_server_init_def)
  have "shm_server_start (Some 3) None True 0 4 [] no_segments (Some s) = (ZOO_SMB_OK,
      \<lparr>shm_keys = (shm_keys no_segments)(shm_generate_key (Some [98]) 0 := Some 3), shm_segs = shm_segs no_segments\<rparr>,
      Some (idle_server\<lparr>sv_master_key := shm_generate_key (Some [98]) 0\<rparr>))"
    using s by (auto simp: shm_server_init_def shm_server_start_def shm_server_create_master_segment_def no_segments_def
        shm_server_init_event_fd_def set_running_def idle_server_def Let_def ZOO_SMB_SHM_MAX_CLIENTS_def)
  with shm_reach.start [OF shm_reach.init [OF s(1)]] show ?thesis by metis
qed

lemma sample_reached:
  "\<exists>os s c. shm_reach (os, s) \<and> client_at s 1 = Some c"
proof -
  let ?s = "idle_server\<lparr>sv_master_key := shm_generate_key (Some [98]) 0\<rparr>"
  have acc: "accept_ok (sample_reg 0) ?s sample_join [97] 1"
    using sample_accept_ok by (simp add: accept_ok_def shm_find_sender_mapping_def)
  have c: "c_str [97] = [97 :: u8]" by (simp add: c_str_def)
  from join_rep [where regs = sample_reg and cl = sample_client and e = Little and cfg = None,
      unfolded sample_client_simps, OF sample_join_ok _ acc c]
  obtain os1 cl1 os2 s2 where a: "shm_server_accept_new_clients sample_reg os1
      (?s\<lparr>sv_master := Some (join_master sample_join [97] idle_master)\<rparr>) = (ZOO_SMB_OK, os2, s2)"
    and r: "shm_rep Little None 2098960 1 [97] (os2, s2, cl1) ([], [])" by fastforce
  let ?key = "shm_generate_key (Some [97]) (word_of_int (join_pid sample_join))"
  let ?os = "no_segments\<lparr>shm_keys := (shm_keys no_segments)(?key := Some 8)\<rparr>"
  have m: "sv_master ?s = Some idle_master" by (simp add: idle_server_def)
  have "shm_reach (?os, ?s)" by (rule shm_reach.step [OF idle_reached shm_step.world])
  from shm_reach.step [OF this shm_step.request [OF m request_ok [OF sample_join_ok]]]
  have "shm_reach (?os, ?s\<lparr>sv_master := Some (join_master sample_join [97] idle_master)\<rparr>)" by simp
  from shm_reach.step [OF this shm_step.world]
  have q: "shm_reach (os1, ?s\<lparr>sv_master := Some (join_master sample_join [97] idle_master)\<rparr>)" .
  have "fresh_regs sample_reg 0 (?s\<lparr>sv_master := Some (join_master sample_join [97] idle_master)\<rparr>)"
    by (simp add: fresh_regs_def sample_reg_def idle_server_def)
  from shm_reach.step [OF q shm_step.accept [OF this a]] r show ?thesis
    by (auto simp: shm_rep_def server_link_def)
qed

theorem shm_server_tables_safe_witness:
  "\<exists>os s c. shm_reach (os, s) \<and> client_at s 1 = Some c \<and> rx_ring c \<noteq> None \<and> tx_ring c \<noteq> None \<and> length (sv_clients s) \<le> 1024"
proof -
  obtain os s c where r: "shm_reach (os, s)" "client_at s 1 = Some c" using sample_reached by blast
  with shm_server_tables_safe [OF r(1)] client_atD [OF r(2)] show ?thesis by blast
qed

text \<open>
  C36. A client may send as soon as its start has succeeded, and is told that the message was sent. If the
  server has not yet accepted it, the message is lost: accepting sets up the rings anew, and the server
  then finds nothing to deliver.
\<close>

theorem shm_early_message_lost:
  assumes "join_ok env os ms (cl_config_name cl)" and "\<not> cl_is_started cl"
    and "accept_ok (regs 0) s env (cl_config_name cl) a" and "good_msg cfg m" and "env_ok menv"
  shows "\<exists>os1 ms1 cl1 os2 ms2 cl2 os3 s3 c os4 s4.
      shm_client_start (\<lambda>_. Some ms) env os ms (Some cl) = (ZOO_SMB_OK, os1, ms1, Some cl1)
    \<and> shm_client_send e now (Some (replicate MAX_TRANSPORT_BUFFER_SIZE 0)) wrote os1 ms1 (Some cl1) (Some m)
        = (ZOO_SMB_OK, os2, ms2, Some cl2)
    \<and> shm_server_accept_new_clients regs os2 (s\<lparr>sv_master := Some ms2\<rparr>) = (ZOO_SMB_OK, os3, s3)
    \<and> client_at s3 a = Some c
    \<and> shm_server_process_client_messages e (\<lambda>_. menv) obs os3 s3 c = (ZOO_SMB_OK, os4, s4, [])"
proof -
  obtain os1 ms1 cl1 os2 ms2 cl2 os3 s3 srx stx i where j:
    "shm_client_start (\<lambda>_. Some ms) env os ms (Some cl) = (ZOO_SMB_OK, os1, ms1, Some cl1)"
    "shm_client_send e now (Some (replicate MAX_TRANSPORT_BUFFER_SIZE 0)) wrote os1 ms1 (Some cl1) (Some m)
        = (ZOO_SMB_OK, os2, ms2, Some cl2)"
    "shm_server_accept_new_clients regs os2 (s\<lparr>sv_master := Some ms2\<rparr>) = (ZOO_SMB_OK, os3, s3)"
    "server_link e os3 s3 a i srx stx (map wire []) []" "reaches s3 (cl_config_name cl) a" "sv_is_started s3"
    using early_send [where regs = regs, OF assms(1-4), of e now wrote] unfolding list.map by metis
  obtain c where c: "client_at s3 a = Some c" using j(4) by (auto simp: server_link_def)
  obtain os4 s4 where "shm_server_process_client_messages e (\<lambda>_. menv) obs os3 s3 c = (ZOO_SMB_OK, os4, s4, delivered obs (take 10 []))"
    using process_client [OF j(4) _ _ j(5,6) c, of None "\<lambda>_. menv" obs] assms(5) by auto
  with j(1-3) c show ?thesis by (fastforce simp: delivered_def)
qed

theorem shm_early_message_lost_witness:
  "\<exists>os1 ms1 cl1 os2 ms2 cl2 os3 s3 c os4 s4.
      shm_client_start (\<lambda>_. Some idle_master) sample_join no_segments idle_master (Some sample_client)
        = (ZOO_SMB_OK, os1, ms1, Some cl1)
    \<and> shm_client_send Little 5 (Some (replicate MAX_TRANSPORT_BUFFER_SIZE 0)) False os1 ms1 (Some cl1) (Some sample_msg)
        = (ZOO_SMB_OK, os2, ms2, Some cl2)
    \<and> shm_server_accept_new_clients sample_reg os2 (idle_server\<lparr>sv_master := Some ms2\<rparr>) = (ZOO_SMB_OK, os3, s3)
    \<and> client_at s3 1 = Some c
    \<and> shm_server_process_client_messages Little (\<lambda>_. sample_msg_env) [Some 7] os3 s3 c = (ZOO_SMB_OK, os4, s4, [])"
  using shm_early_message_lost [where regs = sample_reg and cl = sample_client, unfolded sample_client_simps,
      OF sample_join_ok _ sample_accept_ok sample_msg_good sample_env_ok]
  by simp

text \<open>Sending into a ring the server has given up.\<close>

lemma send_dead:
  assumes "rx_dead os (ci_shm_id ci)" and "cl_is_started cl" and "cl_info cl = Some ci" and "rx_ring ci = Some rb"
    and "shm_segs os (ci_shm_id ci) = Some seg" and "good_msg cfg m" and "length b = MAX_TRANSPORT_BUFFER_SIZE"
  shows "fst (shm_client_send e now (Some b) wrote os ms (Some cl) (Some m)) = ZOO_SMB_ERROR_RINGBUF_CORRUPTED"
proof -
  have "corrupted (ctl (seg_rx seg))" using assms(1,5) by (simp add: rx_dead_def)
  then have "\<not> zoo_smb_ring_buffer_is_valid (Some rb) (seg_rx seg)"
    by (simp add: zoo_smb_ring_buffer_is_valid_def Let_def)
  then have w: "zoo_smb_ring_buffer_write e now (Some rb) (seg_rx seg) d n = (ZOO_SMB_ERROR_RINGBUF_CORRUPTED, seg_rx seg)" for d n
    by (simp add: zoo_smb_ring_buffer_write_def validate_buffer_for_operation_def)
  obtain b' where "zoo_smb_protocol_serialize e (Some m) (Some b) MAX_TRANSPORT_BUFFER_SIZE = (length (wire m), Some b')"
    using serialize_wire [OF good_msgD(1) [OF assms(6)] assms(7) wire_size(2) [OF assms(6)]] by blast
  then show ?thesis
    using assms(2-5) wire_size(1) [OF assms(6)] w by (simp add: shm_client_send_def)
qed

lemma heartbeat_keeps:
  assumes "cl_info cl = Some ci"
  shows "cl_is_started (snd (client_handle_heartbeat beat ms cl)) = cl_is_started cl"
    and "\<exists>ci1. cl_info (snd (client_handle_heartbeat beat ms cl)) = Some ci1 \<and> ci_shm_id ci1 = ci_shm_id ci
           \<and> rx_ring ci1 = rx_ring ci"
  using assms by (simp_all add: client_handle_heartbeat_def set_info_def Let_def)

text \<open>
  C37. An idle client is cut off although it keeps up its heartbeat: the server counts only messages. Thirty
  seconds after the last one it takes the rings away and forgets the client, and the client's next message
  fails with a corrupted ring, although \<open>client_handle_heartbeat\<close> ran just before.
\<close>

theorem shm_idle_client_cut_off:
  assumes "shm_rep e cfg cap a nm (os, s, cl) q" and "client_at s a = Some c" and "rx_ring c = Some rb" and "is_owner rb"
    and "0 < ci_last_heartbeat c" and "ci_last_heartbeat c + 30 < now" and "good_msg cfg m"
    and "shm_server_cleanup_disconnected_clients now os s = (os1, s1)"
  shows "client_at s1 a = None
    \<and> fst (shm_client_send e t (Some (replicate MAX_TRANSPORT_BUFFER_SIZE 0)) wrote os1 ms
          (Some (snd (client_handle_heartbeat beat ms cl))) (Some m)) = ZOO_SMB_ERROR_RINGBUF_CORRUPTED"
proof -
  obtain i srx stx ups downs where l: "client_link cl i srx stx" "server_link e os s a i srx stx ups downs"
    and d: "distinct (map ci_addr (sv_clients s))"
    using assms(1) by (auto simp: shm_rep_def split: prod.splits)
  obtain seg where c: "rx_ring c = Some srx" "ci_shm_id c = i" "shm_segs os i = Some seg" "h_control rb \<noteq> None"
    using l(2) assms(2,3) by (auto simp: server_link_def ring_holds_def ring_valid_iff)
  obtain ci crx where ci: "cl_is_started cl" "cl_info cl = Some ci" "ci_shm_id ci = i" "rx_ring ci = Some crx"
    using l(1) by (auto simp: client_link_def)
  note ca = client_atD [OF assms(2)]
  have n: "needs_cleanup now c" using assms(5,6) by (simp add: needs_cleanup_def HEARTBEAT_TIMEOUT_SECONDS_def)
  obtain os2 s2 where f: "cleanup_from now 0 os s = (os2, s2)" by fastforce
  then have os1: "os1 = os2" "sv_clients s1 = sv_clients s2"
    using assms(8) by (auto simp: shm_server_cleanup_disconnected_clients_def)
  have dead: "rx_dead os1 i"
    using cleanup_from_kills [of c 0 s now rb os] ca n assms(3,4) c f os1 by simp
  have "sv_clients s1 = filter (\<lambda>c. \<not> needs_cleanup now c) (sv_clients s)"
    using cleanup_from_result [of 0 s now os] f os1 by simp
  then have "client_at s1 a = None"
    using ca n d by (auto simp: client_at_def find_None_iff distinct_map dest: inj_onD)
  moreover obtain seg1 where "shm_segs os1 i = Some seg1" using cleanup_from_segs [of os i now 0 s] c(3) f os1 by auto
  moreover define cl1 where "cl1 = snd (client_handle_heartbeat beat ms cl)"
  moreover obtain ci1 where "cl_is_started cl1" "cl_info cl1 = Some ci1" "ci_shm_id ci1 = i" "rx_ring ci1 = Some crx"
    using heartbeat_keeps [OF ci(2), of beat ms] ci unfolding cl1_def by auto
  ultimately show ?thesis using send_dead [of os1 ci1 cl1 crx seg1 cfg m] dead assms(7) by simp
qed

theorem shm_idle_client_cut_off_witness:
  "\<exists>os s cl os1 s1. shm_rep Little None 2098960 1 [97] (os, s, cl) ([], [])
    \<and> shm_server_cleanup_disconnected_clients 132 os s = (os1, s1) \<and> client_at s1 1 = None
    \<and> fst (shm_client_send Little 132000000000 (Some (replicate MAX_TRANSPORT_BUFFER_SIZE 0)) False os1 idle_master
         (Some (snd (client_handle_heartbeat 131 idle_master cl))) (Some sample_msg)) = ZOO_SMB_ERROR_RINGBUF_CORRUPTED"
proof -
  obtain os s cl c rb where r: "shm_rep Little None 2098960 1 [97] (os, s, cl) ([], [])"
    "client_at s 1 = Some c" "rx_ring c = Some rb" "is_owner rb" "ci_last_heartbeat c = 101"
    using sample_connected by blast
  obtain os1 s1 where c: "shm_server_cleanup_disconnected_clients 132 os s = (os1, s1)" by fastforce
  have "0 < ci_last_heartbeat c" "ci_last_heartbeat c + 30 < 132" using r(5) by simp_all
  from shm_idle_client_cut_off [OF r(1-4) this sample_msg_good c] r(1) c show ?thesis by blast
qed

text \<open>
  C23. Receiving always comes to an end: whatever frames the client's ring holds, be they messages or not,
  and however the pool answers, the loop that empties the ring returns.
\<close>

theorem shm_client_receive_terminates:
  assumes "cl_info cl = Some ci" and "tx_ring ci = Some rb" and "shm_segs os (ci_shm_id ci) = Some seg"
    and "ring_holds e rb (seg_tx seg) ps"
  shows "\<exists>y. client_process_server_messages e envs obs os cl = Some y"
proof -
  have "\<exists>y. client_messages_loop e envs obs rb i shm = Some y" if "ring_holds e rb shm ps" for i shm
    using that
  proof (induction ps arbitrary: i shm)
    case Nil
    then show ?case by (subst client_messages_loop.simps) (simp add: ring_has_data_iff)
  next
    case (Cons p ps)
    have "\<exists>r rb1 shm1 calls. client_message_step e (envs i) obs rb shm = (r, rb1, shm1, calls)
        \<and> (ZOO_SMB_IS_ERROR r \<or> rb1 = rb \<and> ring_holds e rb shm1 ps)"
      using client_step_any [OF Cons.prems, of "envs i" obs] by (metis prod_cases4)
    then obtain r rb1 shm1 calls where s: "client_message_step e (envs i) obs rb shm = (r, rb1, shm1, calls)"
      "ZOO_SMB_IS_ERROR r \<or> rb1 = rb \<and> ring_holds e rb shm1 ps" by blast
    from s(2) show ?case
    proof
      assume "rb1 = rb \<and> ring_holds e rb shm1 ps"
      moreover from this Cons.IH obtain y where "client_messages_loop e envs obs rb (i + 1) shm1 = Some y" by blast
      ultimately show ?thesis using s(1) by (subst client_messages_loop.simps) (simp split: prod.split)
    qed (use s(1) in \<open>subst client_messages_loop.simps, simp\<close>)
  qed
  from this [OF assms(4), of 0] obtain y where "client_messages_loop e envs obs rb 0 (seg_tx seg) = Some y" by blast
  then show ?thesis using assms(1-3) by (cases y) (simp add: client_process_server_messages_def)
qed

theorem shm_client_receive_terminates_witness:
  "\<exists>os s cl y. shm_rep Little None 2098960 1 [97] (os, s, cl) ([sample_msg], [sample_msg])
     \<and> client_process_server_messages Little (\<lambda>_. sample_msg_env\<lparr>snap_ok := False\<rparr>) [Some 8] os cl = Some y"
proof -
  obtain os s cl where r: "shm_rep Little None 2098960 1 [97] (os, s, cl) ([sample_msg], [sample_msg])"
    using sample_connected_busy [of "[sample_msg]"] by blast
  then obtain i srx stx where l: "client_link cl i srx stx" "server_link Little os s 1 i srx stx [wire sample_msg] [wire sample_msg]"
    by (auto simp: shm_rep_def)
  obtain ci ctx seg where "cl_info cl = Some ci" "tx_ring ci = Some ctx" "shm_segs os (ci_shm_id ci) = Some seg"
    "ring_holds Little ctx (seg_tx seg) [wire sample_msg]"
    using l same_ring_holds by (fastforce simp: client_link_def server_link_def)
  from shm_client_receive_terminates [OF this] r show ?thesis by blast
qed

end
