(* ===== verification/Memory_Pool.thy ===== *)
theory Memory_Pool
  imports SMB_Error
begin

text \<open>
  The slab allocator all other components take their memory from, from
  \<open>src/platform/memory_pool/zoo_memory_pool.c\<close>, for 64-bit platforms and pages of 4096 bytes (the size
  the code falls back to, and that of the platforms it is built for).

  A segment is one block of memory from \<open>malloc\<close>: its structure, a list head for each size class (the
  slots), a descriptor for each page, and the pages. Descriptors are linked by pointers, so they are a
  store from nodes to their fields; a pointer that carries a type in its two low bits is a pair. The
  bitmap of a page of small chunks lies at the beginning of the page itself. What the users of the
  pool keep in their blocks is not represented. A call takes the locks it needs and runs alone.
\<close>

section \<open>Constants\<close>

definition smb_pagesize :: nat where "smb_pagesize = 4096"
definition smb_pagesize_shift :: nat where "smb_pagesize_shift = 12"
definition smb_slab_max_size :: nat where "smb_slab_max_size = smb_pagesize div 2"
definition smb_slab_exact_size :: nat where "smb_slab_exact_size = smb_pagesize div (8 * 8)"
definition smb_slab_exact_shift :: nat where "smb_slab_exact_shift = 6"
definition min_shift :: nat where "min_shift = 3"
definition min_size :: nat where "min_size = 2 ^ min_shift"

definition SMB_SLAB_PAGE_BUSY :: u64 where "SMB_SLAB_PAGE_BUSY = 0xffffffffffffffff"
definition SMB_SLAB_PAGE_START :: u64 where "SMB_SLAB_PAGE_START = 0x8000000000000000"
definition SMB_SLAB_SHIFT_MASK :: u64 where "SMB_SLAB_SHIFT_MASK = 0xf"
definition SMB_SLAB_MAP_MASK :: u64 where "SMB_SLAB_MAP_MASK = 0xffffffff00000000"
definition SMB_SLAB_MAP_SHIFT :: nat where "SMB_SLAB_MAP_SHIFT = 32"
definition SMB_SLAB_BUSY :: u64 where "SMB_SLAB_BUSY = 0xffffffffffffffff"

text \<open>The sizes of the two structures, with the 40 bytes of a mutex.\<close>

definition sizeof_slab_page :: nat where "sizeof_slab_page = 24"
definition sizeof_memory_pool :: nat where "sizeof_memory_pool = 128"

section \<open>Segments\<close>

datatype slab_node = FreeHead | Slot nat | Page nat

datatype slab_type = SMB_SLAB_PAGE | SMB_SLAB_BIG | SMB_SLAB_EXACT | SMB_SLAB_SMALL

record slab_page =
  pg_slab :: u64
  pg_next :: "slab_node option"
  pg_prev :: "slab_node option \<times> slab_type"

record segment =
  seg_base :: int
  seg_start :: int
  seg_end :: int
  seg_total :: nat
  seg_descs :: nat
  real_pages :: nat
  descs :: "slab_node \<Rightarrow> slab_page"
  words :: "int \<Rightarrow> nat \<Rightarrow> u64"

definition upd_desc :: "slab_node \<Rightarrow> (slab_page \<Rightarrow> slab_page) \<Rightarrow> segment \<Rightarrow> segment" where
  "upd_desc n f s = s\<lparr>descs := (descs s)(n := f (descs s n))\<rparr>"

definition upd_word :: "int \<Rightarrow> nat \<Rightarrow> (u64 \<Rightarrow> u64) \<Rightarrow> segment \<Rightarrow> segment" where
  "upd_word i j f s = s\<lparr>words := (words s)(i := (words s i)(j := f (words s i j)))\<rparr>"

definition zero_page :: slab_page where
  "zero_page = \<lparr>pg_slab = 0, pg_next = None, pg_prev = (None, SMB_SLAB_PAGE)\<rparr>"

text \<open>\<open>page - pool->pages\<close>; the slots lie right before the page descriptors.\<close>

definition slot_count :: nat where "slot_count = smb_pagesize_shift - min_shift"

fun page_index :: "slab_node \<Rightarrow> int" where
  "page_index (Page i) = int i"
| "page_index (Slot k) = int k - int slot_count"
| "page_index FreeHead = - int slot_count - 1"

definition smb_slab_page_addr :: "segment \<Rightarrow> slab_node \<Rightarrow> int" where
  "smb_slab_page_addr s page = page_index page * 2 ^ smb_pagesize_shift + seg_start s"

section \<open>Pages\<close>

text \<open>
  The search through the list of free runs, from \<open>page\<close> on. It follows pointers, so not coming to an end
  is \<open>None\<close>. \<open>busy_pages i n\<close> marks the pages behind the first of an allocated run.
\<close>

fun busy_pages :: "nat \<Rightarrow> nat \<Rightarrow> segment \<Rightarrow> segment" where
  "busy_pages i 0 s = s"
| "busy_pages i (Suc n) s = busy_pages (i + 1) n
     (upd_desc (Page i) (\<lambda>_. \<lparr>pg_slab = SMB_SLAB_PAGE_BUSY, pg_next = None, pg_prev = (None, SMB_SLAB_PAGE)\<rparr>) s)"

definition set_next :: "slab_node option \<Rightarrow> slab_node option \<Rightarrow> segment \<Rightarrow> segment" where
  "set_next n x s = (case n of None \<Rightarrow> s | Some n \<Rightarrow> upd_desc n (\<lambda>d. d\<lparr>pg_next := x\<rparr>) s)"

definition set_prev :: "slab_node option \<Rightarrow> slab_node option \<times> slab_type \<Rightarrow> segment \<Rightarrow> segment" where
  "set_prev n x s = (case n of None \<Rightarrow> s | Some n \<Rightarrow> upd_desc n (\<lambda>d. d\<lparr>pg_prev := x\<rparr>) s)"

definition take_run :: "segment \<Rightarrow> nat \<Rightarrow> nat \<Rightarrow> segment" where
  "take_run s i pages =
     (let page = descs s (Page i);
          s1 = (if pg_slab page > word_of_nat pages then
                  let rest = Page (i + pages);
                      s1 = upd_desc rest (\<lambda>_. \<lparr>pg_slab = pg_slab page - word_of_nat pages,
                             pg_next = pg_next page, pg_prev = pg_prev page\<rparr>) s;
                      s2 = set_next (fst (pg_prev page)) (Some rest) s1
                  in set_prev (pg_next page) (Some rest, SMB_SLAB_PAGE) s2
                else
                  set_prev (pg_next page) (pg_prev page) (set_next (fst (pg_prev page)) (pg_next page) s));
          s2 = upd_desc (Page i) (\<lambda>_. \<lparr>pg_slab = word_of_nat pages OR SMB_SLAB_PAGE_START, pg_next = None,
                 pg_prev = (None, SMB_SLAB_PAGE)\<rparr>) s1
      in busy_pages (i + 1) (pages - 1) s2)"

partial_function (option) alloc_pages_loop :: "segment \<Rightarrow> nat \<Rightarrow> slab_node \<Rightarrow> (nat option \<times> segment) option" where
  "alloc_pages_loop s pages page =
     (case page of
        Page i \<Rightarrow>
          if pg_slab (descs s page) \<ge> word_of_nat pages then Some (Some i, take_run s i pages)
          else (case pg_next (descs s page) of
              None \<Rightarrow> None
            | Some n \<Rightarrow> alloc_pages_loop s pages n)
      | _ \<Rightarrow> Some (None, s))"

definition smb_slab_alloc_pages :: "segment \<Rightarrow> nat \<Rightarrow> (nat option \<times> segment) option" where
  "smb_slab_alloc_pages s pages =
     (case pg_next (descs s FreeHead) of None \<Rightarrow> None | Some n \<Rightarrow> alloc_pages_loop s pages n)"

text \<open>The \<open>memset\<close> of the descriptors behind the first.\<close>

fun clear_pages :: "nat \<Rightarrow> nat \<Rightarrow> segment \<Rightarrow> segment" where
  "clear_pages i 0 s = s"
| "clear_pages i (Suc n) s = clear_pages (i + 1) n (upd_desc (Page i) (\<lambda>_. zero_page) s)"

definition smb_slab_free_pages :: "segment \<Rightarrow> nat \<Rightarrow> nat \<Rightarrow> segment" where
  "smb_slab_free_pages s i pages =
     (let s1 = clear_pages (i + 1) (pages - 1) s;
          page = descs s1 (Page i);
          s2 = (if pg_next page \<noteq> None
                then set_prev (pg_next page) (pg_prev page) (set_next (fst (pg_prev page)) (pg_next page) s1)
                else s1);
          first = pg_next (descs s2 FreeHead);
          s3 = upd_desc (Page i) (\<lambda>_. \<lparr>pg_slab = word_of_nat pages, pg_next = first,
                 pg_prev = (Some FreeHead, SMB_SLAB_PAGE)\<rparr>) s2;
          s4 = set_prev first (Some (Page i), SMB_SLAB_PAGE) s3
      in upd_desc FreeHead (\<lambda>d. d\<lparr>pg_next := Some (Page i)\<rparr>) s4)"

section \<open>Chunks\<close>

definition smb_slab_detach_full_page :: "slab_node \<Rightarrow> slab_type \<Rightarrow> segment \<Rightarrow> segment" where
  "smb_slab_detach_full_page page slab_type s =
     (let d = descs s page;
          s1 = set_next (fst (pg_prev d)) (pg_next d) s;
          s2 = set_prev (pg_next d) (pg_prev d) s1
      in upd_desc page (\<lambda>d. d\<lparr>pg_next := None, pg_prev := (None, slab_type)\<rparr>) s2)"

definition smb_slab_small_map_words :: "nat \<Rightarrow> nat" where
  "smb_slab_small_map_words shift = 2 ^ (smb_pagesize_shift - shift) div (8 * 8)"

definition smb_slab_small_summary_bit :: "nat \<Rightarrow> u64" where
  "smb_slab_small_summary_bit word_index = push_bit (SMB_SLAB_MAP_SHIFT + word_index) 1"

definition smb_slab_small_summary_mask :: "nat \<Rightarrow> u64" where
  "smb_slab_small_summary_mask shift =
     push_bit SMB_SLAB_MAP_SHIFT (push_bit (smb_slab_small_map_words shift) 1 - 1)"

text \<open>The loop over the bits \<open>m = 1, 2, 4, \<dots>\<close> of a word for the first that is not set.\<close>

function first_zero :: "u64 \<Rightarrow> nat \<Rightarrow> nat option" where
  "first_zero w i = (if i < 64 then if w AND push_bit i 1 \<noteq> 0 then first_zero w (i + 1) else Some i else None)"
  by pat_completeness auto

termination first_zero
  by (relation "measure (\<lambda>(_, i). 64 - i)") auto

declare first_zero.simps [simp del]

function small_scan :: "u64 \<Rightarrow> (nat \<Rightarrow> u64) \<Rightarrow> nat \<Rightarrow> nat \<Rightarrow> (nat \<times> nat) option" where
  "small_scan slab bitmap map_words n =
     (if n < map_words then
        if slab AND smb_slab_small_summary_bit n = 0 then small_scan slab bitmap map_words (n + 1)
        else (case first_zero (bitmap n) 0 of
            None \<Rightarrow> small_scan slab bitmap map_words (n + 1)
          | Some i \<Rightarrow> Some (n, i))
      else None)"
  by pat_completeness auto

termination small_scan
  by (relation "measure (\<lambda>(_, _, k, n). k - n)") auto

declare small_scan.simps [simp del]

definition take_small :: "segment \<Rightarrow> slab_node \<Rightarrow> nat \<Rightarrow> nat \<Rightarrow> nat \<Rightarrow> int \<times> segment" where
  "take_small s page shift n i =
     (let s1 = upd_word (page_index page) n (\<lambda>w. w OR push_bit i 1) s;
          s2 = (if words s1 (page_index page) n = SMB_SLAB_BUSY then
                  let s2 = upd_desc page (\<lambda>d. d\<lparr>pg_slab := pg_slab d AND NOT (smb_slab_small_summary_bit n)\<rparr>) s1
                  in if pg_slab (descs s2 page) AND smb_slab_small_summary_mask shift = 0
                     then smb_slab_detach_full_page page SMB_SLAB_SMALL s2 else s2
                else s1)
      in (smb_slab_page_addr s page + (int (n * 64) * 2 ^ shift + int i * 2 ^ shift), s2))"

partial_function (option) smb_slab_try_alloc_small :: "segment \<Rightarrow> slab_node \<Rightarrow> nat \<Rightarrow> (int option \<times> segment) option" where
  "smb_slab_try_alloc_small s page shift =
     (let slab = pg_slab (descs s page)
      in case (if slab AND smb_slab_small_summary_mask shift = 0 then None
               else small_scan slab (words s (page_index page)) (smb_slab_small_map_words shift) 0) of
           Some (n, i) \<Rightarrow> (case take_small s page shift n i of (p, s') \<Rightarrow> Some (Some p, s'))
         | None \<Rightarrow> (case pg_next (descs s page) of
               None \<Rightarrow> Some (None, s)
             | Some nx \<Rightarrow> smb_slab_try_alloc_small s nx shift))"

partial_function (option) smb_slab_try_alloc_exact :: "segment \<Rightarrow> slab_node \<Rightarrow> nat \<Rightarrow> (int option \<times> segment) option" where
  "smb_slab_try_alloc_exact s page shift =
     (let slab = pg_slab (descs s page)
      in case (if slab \<noteq> SMB_SLAB_BUSY then first_zero slab 0 else None) of
           Some i \<Rightarrow>
             let s1 = upd_desc page (\<lambda>d. d\<lparr>pg_slab := slab OR push_bit i 1\<rparr>) s;
                 s2 = (if pg_slab (descs s1 page) = SMB_SLAB_BUSY
                       then smb_slab_detach_full_page page SMB_SLAB_EXACT s1 else s1)
             in Some (Some (smb_slab_page_addr s page + int i * 2 ^ shift), s2)
         | None \<Rightarrow> (case pg_next (descs s page) of
               None \<Rightarrow> Some (None, s)
             | Some nx \<Rightarrow> smb_slab_try_alloc_exact s nx shift))"

text \<open>The loop over the bits of the mask, and the search through the list for a given mask.\<close>

function first_zero_big :: "u64 \<Rightarrow> u64 \<Rightarrow> nat \<Rightarrow> nat option" where
  "first_zero_big slab msk i =
     (if SMB_SLAB_MAP_SHIFT + i < 64 \<and> push_bit (SMB_SLAB_MAP_SHIFT + i) 1 AND msk \<noteq> 0 then
        if slab AND push_bit (SMB_SLAB_MAP_SHIFT + i) 1 \<noteq> 0 then first_zero_big slab msk (i + 1) else Some i
      else None)"
  by pat_completeness auto

termination first_zero_big
  by (relation "measure (\<lambda>(_, _, i). 64 - i)") auto

declare first_zero_big.simps [simp del]

partial_function (option) big_loop :: "segment \<Rightarrow> u64 \<Rightarrow> slab_node \<Rightarrow> nat \<Rightarrow> (int option \<times> segment) option" where
  "big_loop s msk page shift =
     (let slab = pg_slab (descs s page)
      in case (if slab AND SMB_SLAB_MAP_MASK \<noteq> msk then first_zero_big slab msk 0 else None) of
           Some i \<Rightarrow>
             let s1 = upd_desc page (\<lambda>d. d\<lparr>pg_slab := slab OR push_bit (SMB_SLAB_MAP_SHIFT + i) 1\<rparr>) s;
                 s2 = (if pg_slab (descs s1 page) AND SMB_SLAB_MAP_MASK = msk
                       then smb_slab_detach_full_page page SMB_SLAB_BIG s1 else s1)
             in Some (Some (smb_slab_page_addr s page + int i * 2 ^ shift), s2)
         | None \<Rightarrow> (case pg_next (descs s page) of
               None \<Rightarrow> Some (None, s)
             | Some nx \<Rightarrow> big_loop s msk nx shift))"

definition smb_slab_try_alloc_big :: "segment \<Rightarrow> slab_node \<Rightarrow> nat \<Rightarrow> (int option \<times> segment) option" where
  "smb_slab_try_alloc_big s page shift =
     (let n = smb_pagesize_shift - unat (pg_slab (descs s page) AND SMB_SLAB_SHIFT_MASK);
          msk = push_bit SMB_SLAB_MAP_SHIFT (push_bit (2 ^ n) 1 - 1)
      in big_loop s msk page shift)"

definition link_first :: "slab_node \<Rightarrow> slab_node \<Rightarrow> slab_type \<Rightarrow> u64 \<Rightarrow> segment \<Rightarrow> segment" where
  "link_first page slot type slab s =
     upd_desc slot (\<lambda>d. d\<lparr>pg_next := Some page\<rparr>)
       (upd_desc page (\<lambda>_. \<lparr>pg_slab = slab, pg_next = Some slot, pg_prev = (Some slot, type)\<rparr>) s)"

definition small_reserved :: "nat \<Rightarrow> nat" where
  "small_reserved shift =
     (let n = 2 ^ (smb_pagesize_shift - shift) div 8 div 2 ^ shift in if n = 0 then 1 else n)"

definition smb_slab_init_small_page :: "segment \<Rightarrow> slab_node \<Rightarrow> slab_node \<Rightarrow> nat \<Rightarrow> int \<times> segment" where
  "smb_slab_init_small_page s page slot shift =
     (let reserved = small_reserved shift;
          map_words = smb_slab_small_map_words shift;
          first = push_bit reserved 2 - 1;
          bitmap = (\<lambda>j. if j = 0 then first else if j < map_words then 0 else words s (page_index page) j);
          summary = (if first = SMB_SLAB_BUSY
                     then smb_slab_small_summary_mask shift AND NOT (smb_slab_small_summary_bit 0)
                     else smb_slab_small_summary_mask shift)
      in (smb_slab_page_addr s page + int (2 ^ shift * reserved),
          link_first page slot SMB_SLAB_SMALL (word_of_nat shift OR summary)
            (s\<lparr>words := (words s)(page_index page := bitmap)\<rparr>)))"

definition smb_slab_init_exact_page :: "segment \<Rightarrow> slab_node \<Rightarrow> slab_node \<Rightarrow> int \<times> segment" where
  "smb_slab_init_exact_page s page slot = (smb_slab_page_addr s page, link_first page slot SMB_SLAB_EXACT 1 s)"

definition smb_slab_init_big_page :: "segment \<Rightarrow> slab_node \<Rightarrow> slab_node \<Rightarrow> nat \<Rightarrow> int \<times> segment" where
  "smb_slab_init_big_page s page slot shift =
     (smb_slab_page_addr s page,
      link_first page slot SMB_SLAB_BIG (push_bit SMB_SLAB_MAP_SHIFT 1 OR word_of_nat shift) s)"

section \<open>One segment\<close>

text \<open>The loop that counts how often \<open>s\<close> can be halved.\<close>

fun halvings :: "nat \<Rightarrow> nat" where
  "halvings s = (if s div 2 = 0 then 0 else halvings (s div 2) + 1)"

declare halvings.simps [simp del]

definition size_shift :: "nat \<Rightarrow> nat" where
  "size_shift n = (if n > min_size then 1 + halvings (n - 1) else min_shift)"

definition smb_slab_alloc_locked :: "segment \<Rightarrow> nat \<Rightarrow> (int option \<times> segment) option" where
  "smb_slab_alloc_locked s n =
     (if n \<ge> smb_slab_max_size then
        map_option (\<lambda>(page, s'). (map_option (\<lambda>i. smb_slab_page_addr s' (Page i)) page, s'))
          (smb_slab_alloc_pages s (n div smb_pagesize + (if n mod smb_pagesize \<noteq> 0 then 1 else 0)))
      else
        let shift = size_shift n;
            slot = Slot (shift - min_shift);
            fresh = (\<lambda>s. map_option (\<lambda>(page, s').
                case page of
                  None \<Rightarrow> (None, s')
                | Some i \<Rightarrow>
                    (case (if shift < smb_slab_exact_shift then smb_slab_init_small_page s' (Page i) slot shift
                           else if shift = smb_slab_exact_shift then smb_slab_init_exact_page s' (Page i) slot
                           else smb_slab_init_big_page s' (Page i) slot shift) of
                       (p, s'') \<Rightarrow> (Some p, s'')))
              (smb_slab_alloc_pages s 1))
        in case pg_next (descs s slot) of
             None \<Rightarrow> None
           | Some page \<Rightarrow>
               if pg_next (descs s page) \<noteq> Some page then
                 Option.bind (if shift < smb_slab_exact_shift then smb_slab_try_alloc_small s page shift
                              else if shift = smb_slab_exact_shift then smb_slab_try_alloc_exact s page shift
                              else smb_slab_try_alloc_big s page shift)
                   (\<lambda>(p, s'). case p of Some a \<Rightarrow> Some (Some a, s') | None \<Rightarrow> fresh s')
               else fresh s)"

text \<open>A page that was full goes back into the list of its size class.\<close>

definition relink :: "nat \<Rightarrow> nat \<Rightarrow> slab_type \<Rightarrow> segment \<Rightarrow> segment" where
  "relink i slot type s =
     (let first = pg_next (descs s (Slot slot));
          s1 = upd_desc (Page i) (\<lambda>d. d\<lparr>pg_next := first\<rparr>) s;
          s2 = upd_desc (Slot slot) (\<lambda>d. d\<lparr>pg_next := Some (Page i)\<rparr>) s1;
          s3 = upd_desc (Page i) (\<lambda>d. d\<lparr>pg_prev := (Some (Slot slot), type)\<rparr>) s2
      in set_prev first (Some (Page i), type) s3)"

definition free_small :: "segment \<Rightarrow> nat \<Rightarrow> int \<Rightarrow> segment" where
  "free_small s i p =
     (let page = descs s (Page i);
          shift = unat (pg_slab page AND SMB_SLAB_SHIFT_MASK);
          c = nat ((p mod int smb_pagesize) div 2 ^ shift);
          n = c div 64; m = push_bit (c mod 64) 1
      in if p mod 2 ^ shift \<noteq> 0 then s
         else if words s (int i) n AND m = 0 then s
         else
           let s1 = (if pg_next page = None then relink i (shift - min_shift) SMB_SLAB_SMALL s else s);
               s2 = (if words s1 (int i) n = SMB_SLAB_BUSY
                     then upd_desc (Page i) (\<lambda>d. d\<lparr>pg_slab := pg_slab d OR smb_slab_small_summary_bit n\<rparr>) s1 else s1);
               s3 = upd_word (int i) n (\<lambda>w. w AND NOT m) s2
           in if words s3 (int i) 0 AND NOT (push_bit (small_reserved shift) 1 - 1) \<noteq> 0 then s3
              else if \<exists>j \<in> set [1..<smb_slab_small_map_words shift]. words s3 (int i) j \<noteq> 0 then s3
              else smb_slab_free_pages s3 i 1)"

definition free_exact :: "segment \<Rightarrow> nat \<Rightarrow> int \<Rightarrow> segment" where
  "free_exact s i p =
     (let slab = pg_slab (descs s (Page i));
          m = push_bit (nat ((p mod int smb_pagesize) div 2 ^ smb_slab_exact_shift)) 1
      in if p mod int smb_slab_exact_size \<noteq> 0 then s
         else if slab AND m = 0 then s
         else
           let s1 = (if slab = SMB_SLAB_BUSY
                     then relink i (smb_slab_exact_shift - min_shift) SMB_SLAB_EXACT s else s);
               s2 = upd_desc (Page i) (\<lambda>d. d\<lparr>pg_slab := pg_slab d AND NOT m\<rparr>) s1
           in if pg_slab (descs s2 (Page i)) \<noteq> 0 then s2 else smb_slab_free_pages s2 i 1)"

definition free_big :: "segment \<Rightarrow> nat \<Rightarrow> int \<Rightarrow> segment" where
  "free_big s i p =
     (let page = descs s (Page i);
          shift = unat (pg_slab page AND SMB_SLAB_SHIFT_MASK);
          m = push_bit (nat ((p mod int smb_pagesize) div 2 ^ shift) + SMB_SLAB_MAP_SHIFT) 1
      in if p mod 2 ^ shift \<noteq> 0 then s
         else if pg_slab page AND m = 0 then s
         else
           let s1 = (if pg_next page = None then relink i (shift - min_shift) SMB_SLAB_BIG s else s);
               s2 = upd_desc (Page i) (\<lambda>d. d\<lparr>pg_slab := pg_slab d AND NOT m\<rparr>) s1
           in if pg_slab (descs s2 (Page i)) AND SMB_SLAB_MAP_MASK \<noteq> 0 then s2 else smb_slab_free_pages s2 i 1)"

definition smb_slab_free_locked :: "segment \<Rightarrow> int \<Rightarrow> segment" where
  "smb_slab_free_locked s p =
     (if p < seg_start s \<or> p > seg_end s then s
      else
        let i = nat ((p - seg_start s) div 2 ^ smb_pagesize_shift);
            page = descs s (Page i); slab = pg_slab page
        in case snd (pg_prev page) of
             SMB_SLAB_SMALL \<Rightarrow> free_small s i p
           | SMB_SLAB_EXACT \<Rightarrow> free_exact s i p
           | SMB_SLAB_BIG \<Rightarrow> free_big s i p
           | SMB_SLAB_PAGE \<Rightarrow>
               if p mod int smb_pagesize \<noteq> 0 then s
               else if slab = 0 then s
               else if slab = SMB_SLAB_PAGE_BUSY then s
               else smb_slab_free_pages s i (unat (slab AND NOT SMB_SLAB_PAGE_START)))"

end
