(* ===== verification/Memory_Pool_Spec.thy ===== *)
theory Memory_Pool_Spec
  imports Memory_Pool
begin

text \<open>
  What a segment of the memory pool promises, without pointers and bitmaps: each page is unused, the
  first or an inner page of an allocated run, or cut into chunks of one size of which some are in use.
  The lists of free runs and of pages with free chunks decide which page or chunk is handed out.
  \<open>blocks\<close> are the pieces of memory that are handed out, as offsets from the first page with their
  lengths. An allocation adds a block that overlaps no other, freeing a block removes it.
\<close>

section \<open>State\<close>

datatype page_use = Unused | Run nat | Inner | Chunks nat "nat set"

record pool_spec =
  free_runs :: "(nat \<times> nat) list"
  partial :: "nat \<Rightarrow> nat list"
  page_use :: "nat \<Rightarrow> page_use"

definition chunk_count :: "nat \<Rightarrow> nat" where "chunk_count sh = 2 ^ (12 - sh)"

definition reserved :: "nat \<Rightarrow> nat" where "reserved sh = (if sh < 6 then small_reserved sh else 0)"

fun page_blocks :: "nat \<Rightarrow> page_use \<Rightarrow> (nat \<times> nat) set" where
  "page_blocks i (Run n) = {(i * 4096, n * 4096)}"
| "page_blocks i (Chunks sh U) = (\<lambda>c. (i * 4096 + c * 2 ^ sh, 2 ^ sh)) ` {c \<in> U. reserved sh \<le> c}"
| "page_blocks i _ = {}"

definition blocks :: "pool_spec \<Rightarrow> (nat \<times> nat) set" where
  "blocks a = (\<Union>i. page_blocks i (page_use a i))"

definition run_pages :: "(nat \<times> nat) list \<Rightarrow> nat list" where
  "run_pages fs = concat (map (\<lambda>(i, n). [i..<i + n]) fs)"

definition spec_inv :: "nat \<Rightarrow> pool_spec \<Rightarrow> bool" where
  "spec_inv N a \<longleftrightarrow>
     distinct (run_pages (free_runs a)) \<and> set (run_pages (free_runs a)) = {i. i < N \<and> page_use a i = Unused}
     \<and> (\<forall>(i, n) \<in> set (free_runs a). 0 < n)
     \<and> (\<forall>k. distinct (partial a k) \<and> set (partial a k) =
          {i. \<exists>U. page_use a i = Chunks (k + 3) U \<and> U \<noteq> {..<chunk_count (k + 3)}})
     \<and> (\<forall>i sh U. page_use a i = Chunks sh U \<longrightarrow>
          i < N \<and> 3 \<le> sh \<and> sh \<le> 11 \<and> {..<reserved sh} \<subset> U \<and> U \<subseteq> {..<chunk_count sh})
     \<and> (\<forall>i n. page_use a i = Run n \<longrightarrow> 0 < n \<and> i + n \<le> N \<and> (\<forall>j. i < j \<and> j < i + n \<longrightarrow> page_use a j = Inner))
     \<and> (\<forall>j. page_use a j = Inner \<longrightarrow> (\<exists>i n. page_use a i = Run n \<and> i < j \<and> j < i + n))"

section \<open>Operations\<close>

fun take_first :: "nat \<Rightarrow> (nat \<times> nat) list \<Rightarrow> (nat \<times> (nat \<times> nat) list) option" where
  "take_first n [] = None"
| "take_first n ((i, m) # fs) =
     (if n \<le> m then Some (i, if n < m then (i + n, m - n) # fs else fs)
      else map_option (\<lambda>(j, gs). (j, (i, m) # gs)) (take_first n fs))"

definition mark_run :: "nat \<Rightarrow> nat \<Rightarrow> (nat \<Rightarrow> page_use) \<Rightarrow> nat \<Rightarrow> page_use" where
  "mark_run i n u = (\<lambda>j. if j = i then Run n else if i < j \<and> j < i + n then Inner else u j)"

definition spec_alloc_run :: "nat \<Rightarrow> pool_spec \<Rightarrow> nat option \<times> pool_spec" where
  "spec_alloc_run n a =
     (case take_first n (free_runs a) of
        None \<Rightarrow> (None, a)
      | Some (i, fs) \<Rightarrow> (Some i, a\<lparr>free_runs := fs, page_use := mark_run i n (page_use a)\<rparr>))"

definition spec_free_run :: "nat \<Rightarrow> nat \<Rightarrow> pool_spec \<Rightarrow> pool_spec" where
  "spec_free_run i n a = a\<lparr>free_runs := (i, n) # free_runs a,
     page_use := (\<lambda>j. if i \<le> j \<and> j < i + n then Unused else page_use a j)\<rparr>"

fun chunks_of :: "page_use \<Rightarrow> nat set" where
  "chunks_of (Chunks sh U) = U"
| "chunks_of _ = {}"

definition first_unused :: "nat \<Rightarrow> nat set \<Rightarrow> nat" where
  "first_unused n U = hd (filter (\<lambda>c. c \<notin> U) [0..<n])"

definition spec_take_chunk :: "nat \<Rightarrow> nat \<Rightarrow> nat list \<Rightarrow> pool_spec \<Rightarrow> nat \<times> pool_spec" where
  "spec_take_chunk sh i rest a =
     (let U = chunks_of (page_use a i); c = first_unused (chunk_count sh) U; U' = insert c U
      in (i * 4096 + c * 2 ^ sh,
          a\<lparr>page_use := (page_use a)(i := Chunks sh U'),
            partial := (partial a)(sh - 3 := if U' = {..<chunk_count sh} then rest else i # rest)\<rparr>))"

definition spec_alloc_chunk :: "nat \<Rightarrow> pool_spec \<Rightarrow> nat option \<times> pool_spec" where
  "spec_alloc_chunk sh a =
     (case partial a (sh - 3) of
        i # rest \<Rightarrow> (case spec_take_chunk sh i rest a of (p, a') \<Rightarrow> (Some p, a'))
      | [] \<Rightarrow>
          (case take_first 1 (free_runs a) of
             None \<Rightarrow> (None, a)
           | Some (i, fs) \<Rightarrow> (Some (i * 4096 + reserved sh * 2 ^ sh),
               a\<lparr>free_runs := fs, page_use := (page_use a)(i := Chunks sh {..reserved sh}),
                 partial := (partial a)(sh - 3 := [i])\<rparr>)))"

definition spec_free_chunk :: "nat \<Rightarrow> nat \<Rightarrow> nat \<Rightarrow> pool_spec \<Rightarrow> pool_spec" where
  "spec_free_chunk sh i c a =
     (let U = chunks_of (page_use a i);
          linked = (if U = {..<chunk_count sh} then i # partial a (sh - 3) else partial a (sh - 3))
      in if U - {c} = {..<reserved sh}
         then a\<lparr>free_runs := (i, 1) # free_runs a, page_use := (page_use a)(i := Unused),
                partial := (partial a)(sh - 3 := remove1 i linked)\<rparr>
         else a\<lparr>page_use := (page_use a)(i := Chunks sh (U - {c})), partial := (partial a)(sh - 3 := linked)\<rparr>)"

definition pages_for :: "nat \<Rightarrow> nat" where
  "pages_for n = n div smb_pagesize + (if n mod smb_pagesize \<noteq> 0 then 1 else 0)"

definition spec_alloc :: "nat \<Rightarrow> pool_spec \<Rightarrow> nat option \<times> pool_spec" where
  "spec_alloc n a =
     (if n \<ge> smb_slab_max_size
      then (case spec_alloc_run (pages_for n) a of (r, a') \<Rightarrow> (map_option (\<lambda>i. i * 4096) r, a'))
      else spec_alloc_chunk (size_shift n) a)"

definition spec_free :: "nat \<Rightarrow> pool_spec \<Rightarrow> pool_spec" where
  "spec_free p a =
     (case page_use a (p div 4096) of
        Run n \<Rightarrow> spec_free_run (p div 4096) n a
      | Chunks sh U \<Rightarrow> spec_free_chunk sh (p div 4096) (p mod 4096 div 2 ^ sh) a
      | _ \<Rightarrow> a)"

section \<open>Blocks do not overlap\<close>

lemma in_page_blocks:
  "b \<in> page_blocks i u \<longleftrightarrow> (\<exists>n. u = Run n \<and> b = (i * 4096, n * 4096))
     \<or> (\<exists>sh U c. u = Chunks sh U \<and> c \<in> U \<and> reserved sh \<le> c \<and> b = (i * 4096 + c * 2 ^ sh, 2 ^ sh))"
  by (cases u) auto

lemma blocks_eq: "blocks a = {(i * 4096, n * 4096) |i n. page_use a i = Run n}
     \<union> {(i * 4096 + c * 2 ^ sh, 2 ^ sh) |i sh U c. page_use a i = Chunks sh U \<and> c \<in> U \<and> reserved sh \<le> c}"
  unfolding blocks_def by (rule set_eqI) (simp add: in_page_blocks, blast)

text \<open>The blocks of one page and those of the others.\<close>

lemma blocks_at: "blocks a = (\<Union>j \<in> - {i}. page_blocks j (page_use a j)) \<union> page_blocks i (page_use a i)"
  unfolding blocks_def by blast

lemma blocks_upd:
  assumes "page_use b = (page_use a)(i := u)"
  shows "blocks b = (\<Union>j \<in> - {i}. page_blocks j (page_use a j)) \<union> page_blocks i u"
  unfolding blocks_at [of b i] by (auto simp: assms)

lemma spec_invD:
  assumes "spec_inv N a"
  shows "distinct (run_pages (free_runs a))"
    and "set (run_pages (free_runs a)) = {i. i < N \<and> page_use a i = Unused}"
    and "(i, n) \<in> set (free_runs a) \<Longrightarrow> 0 < n"
    and "distinct (partial a k)"
    and "set (partial a k) = {i. \<exists>U. page_use a i = Chunks (k + 3) U \<and> U \<noteq> {..<chunk_count (k + 3)}}"
    and "page_use a i = Chunks sh U \<Longrightarrow>
           i < N \<and> 3 \<le> sh \<and> sh \<le> 11 \<and> {..<reserved sh} \<subset> U \<and> U \<subseteq> {..<chunk_count sh}"
    and "page_use a i = Run n \<Longrightarrow> 0 < n \<and> i + n \<le> N \<and> (\<forall>j. i < j \<and> j < i + n \<longrightarrow> page_use a j = Inner)"
    and "page_use a j = Inner \<Longrightarrow> \<exists>i n. page_use a i = Run n \<and> i < j \<and> j < i + n"
  using assms unfolding spec_inv_def by (blast | fastforce)+

lemma chunk_fits:
  assumes "c < chunk_count sh" and "sh \<le> 11"
  shows "c * 2 ^ sh + 2 ^ sh \<le> 4096"
proof -
  have "(c + 1) * 2 ^ sh \<le> 2 ^ (12 - sh) * (2 :: nat) ^ sh"
    using assms(1) by (intro mult_right_mono) (auto simp: chunk_count_def)
  also have "2 ^ (12 - sh) * (2 :: nat) ^ sh = 2 ^ 12" using assms(2) by (simp flip: power_add)
  finally show ?thesis by simp
qed

lemma page_fits: "c * 2 ^ sh + 2 ^ sh \<le> (4096 :: nat) \<Longrightarrow> i < N \<Longrightarrow> i * 4096 + c * 2 ^ sh + 2 ^ sh \<le> N * 4096"
  using mult_le_mono1 [of "i + 1" N 4096] by simp

text \<open>The page and the chunk a byte belongs to.\<close>

lemma byte_in_chunk:
  assumes "i * 4096 + c * 2 ^ sh \<le> x" and "x < i * 4096 + c * 2 ^ sh + 2 ^ sh" and "c < chunk_count sh" and "sh \<le> 11"
  shows "x div 4096 = i" and "x mod 4096 div 2 ^ sh = c"
proof -
  note f = chunk_fits [OF assms(3,4)]
  show i: "x div 4096 = i" by (rule div_nat_eqI) (use assms f in auto)
  then have "x mod 4096 = x - i * 4096" using minus_mult_div_eq_mod [of x 4096] by (simp add: mult.commute)
  then have "c * 2 ^ sh \<le> x mod 4096" "x mod 4096 < (c + 1) * 2 ^ sh" using assms(1,2) by auto
  then show "x mod 4096 div 2 ^ sh = c"
    by (intro div_nat_eqI) (auto simp: mult.commute)
qed

lemma byte_in_run:
  assumes "i * 4096 \<le> x" and "x < i * 4096 + n * (4096 :: nat)"
  shows "i \<le> x div 4096" and "x div 4096 < i + n"
  using assms by (auto simp: less_eq_div_iff_mult_less_eq div_less_iff_less_mult algebra_simps)

lemma same_block:
  assumes "spec_inv N a" and "(p, l) \<in> blocks a" and "(q, m) \<in> blocks a" and "p \<le> x" and "x < p + l" and "q \<le> x" and "x < q + m"
  shows "p = q \<and> l = m"
proof -
  have chunk: "page_use a (x div 4096) = Chunks sh U \<and> c = x mod 4096 div 2 ^ sh \<and> i = x div 4096"
    if "page_use a i = Chunks sh U" "c \<in> U" "i * 4096 + c * 2 ^ sh \<le> x" "x < i * 4096 + c * 2 ^ sh + 2 ^ sh" for i sh U c
    using byte_in_chunk [OF that(3,4)] spec_invD(6) [OF assms(1) that(1)] that(1,2) by auto
  have run: "(i = x div 4096 \<or> page_use a (x div 4096) = Inner) \<and> i \<le> x div 4096 \<and> x div 4096 < i + n"
    if "page_use a i = Run n" "i * 4096 \<le> x" "x < i * 4096 + n * 4096" for i n
    using byte_in_run [OF that(2,3)] spec_invD(7) [OF assms(1) that(1)] by (metis le_neq_implies_less)
  have runs: "i = j" if "page_use a i = Run n" "i \<le> y" "y < i + n" "page_use a j = Run k" "j \<le> y" "y < j + k" for i n j k y
  proof (rule linorder_cases [of i j])
    assume "i < j"
    then show ?thesis using spec_invD(7) [OF assms(1) that(1)] that by auto
  next
    assume "j < i"
    then show ?thesis using spec_invD(7) [OF assms(1) that(4)] that by auto
  qed
  from assms(2) consider i n where "p = i * 4096" "l = n * 4096" "page_use a i = Run n"
    | i sh U c where "p = i * 4096 + c * 2 ^ sh" "l = 2 ^ sh" "page_use a i = Chunks sh U" "c \<in> U"
    by (auto simp: blocks_eq)
  then show ?thesis
  proof cases
    case (1 i n)
    note A = 1 run [OF 1(3)] assms(4,5)
    from assms(3) show ?thesis
    proof (auto simp: blocks_eq, goal_cases)
      case (1 j k)
      then show ?case using A run [of j k] runs [of i n "x div 4096" j k] assms(6,7) by auto
    next
      case (2 j k)
      then show ?case using A run [of j k] runs [of i n "x div 4096" j k] assms(6,7) by auto
    next
      case (3 j sh U c)
      then show ?case using A chunk [of j sh U c] assms(6,7) by auto
    next
      case (4 j sh U c)
      then show ?case using A chunk [of j sh U c] assms(6,7) by auto
    qed
  next
    case (2 i sh U c)
    note A = 2 chunk [OF 2(3,4)] assms(4,5)
    from assms(3) show ?thesis
    proof (auto simp: blocks_eq, goal_cases)
      case (1 j k)
      then show ?case using A run [of j k] assms(6,7) by auto
    next
      case (2 j k)
      then show ?case using A run [of j k] assms(6,7) by auto
    next
      case (3 j sh' U' c')
      then show ?case using A chunk [of j sh' U' c'] assms(6,7) by auto
    next
      case (4 j sh' U' c')
      then show ?case using A chunk [of j sh' U' c'] assms(6,7) by auto
    qed
  qed
qed

lemma block_page:
  assumes "spec_inv N a" and "(p, l) \<in> blocks a"
  shows "(\<exists>n. page_use a (p div 4096) = Run n \<and> l = n * 4096 \<and> p mod 4096 = 0)
    \<or> (\<exists>sh U. page_use a (p div 4096) = Chunks sh U \<and> l = 2 ^ sh \<and> p mod 4096 div 2 ^ sh \<in> U
          \<and> reserved sh \<le> p mod 4096 div 2 ^ sh \<and> p mod 2 ^ sh = 0)"
proof -
  have chunk: "i * 4096 + c * 2 ^ sh = p \<Longrightarrow> page_use a i = Chunks sh U \<Longrightarrow> c \<in> U \<Longrightarrow>
      p div 4096 = i \<and> p mod 4096 div 2 ^ sh = c \<and> p mod 2 ^ sh = 0" for i sh U c
  proof -
    assume A: "i * 4096 + c * 2 ^ sh = p" "page_use a i = Chunks sh U" "c \<in> U"
    have B: "c < chunk_count sh" "sh \<le> 11" using spec_invD(6) [OF assms(1) A(2)] A(3) by auto
    have "(4096 :: nat) = 2 ^ (12 - sh) * 2 ^ sh" using B(2) by (simp flip: power_add)
    then have "p = (i * 2 ^ (12 - sh) + c) * 2 ^ sh" using A(1) by (simp add: algebra_simps)
    then show ?thesis using byte_in_chunk [of i c sh p] A(1) B by simp
  qed
  from assms(2) consider i n where "p = i * 4096" "l = n * 4096" "page_use a i = Run n"
    | i sh U c where "i * 4096 + c * 2 ^ sh = p" "l = 2 ^ sh" "page_use a i = Chunks sh U" "c \<in> U" "reserved sh \<le> c"
    by (auto simp: blocks_eq)
  then show ?thesis
  proof cases
    case (2 i sh U c)
    then show ?thesis using chunk [OF 2(1,3,4)] by auto
  qed auto
qed

section \<open>Allocating runs\<close>

lemma run_pages_simps [simp]:
  "run_pages [] = []" "run_pages ((i, n) # fs) = [i..<i + n] @ run_pages fs"
  by (simp_all add: run_pages_def)

lemma take_first_None: "take_first n fs = None \<longleftrightarrow> (\<forall>(i, m) \<in> set fs. m < n)"
  by (induction n fs rule: take_first.induct) auto

lemma take_first_Some:
  assumes "take_first n fs = Some (i, gs)" and "0 < n"
  shows "distinct (run_pages fs) \<Longrightarrow> distinct (run_pages gs)"
    and "distinct (run_pages fs) \<Longrightarrow> set (run_pages gs) = set (run_pages fs) - {i..<i + n}"
    and "{i..<i + n} \<subseteq> set (run_pages fs)"
    and "\<forall>(i, m) \<in> set fs. 0 < m \<Longrightarrow> \<forall>(i, m) \<in> set gs. 0 < m"
proof -
  have "(distinct (run_pages fs) \<longrightarrow> distinct (run_pages gs) \<and> set (run_pages gs) = set (run_pages fs) - {i..<i + n})
    \<and> {i..<i + n} \<subseteq> set (run_pages fs) \<and> ((\<forall>(i, m) \<in> set fs. 0 < m) \<longrightarrow> (\<forall>(i, m) \<in> set gs. 0 < m))"
    using assms
  proof (induction n fs arbitrary: gs rule: take_first.induct)
    case (2 n j m fs)
    show ?case
    proof (cases "n \<le> m")
      case True
      then show ?thesis using 2(2,3) by (cases "n < m") (auto simp: disjoint_iff)
    next
      case False
      then obtain hs where h: "take_first n fs = Some (i, hs)" "gs = (j, m) # hs" using 2(2) by auto
      from 2(1) [OF False h(1) 2(3)] show ?thesis using h(2) by auto
    qed
  qed simp
  then show "distinct (run_pages fs) \<Longrightarrow> distinct (run_pages gs)"
    "distinct (run_pages fs) \<Longrightarrow> set (run_pages gs) = set (run_pages fs) - {i..<i + n}"
    "{i..<i + n} \<subseteq> set (run_pages fs)" "\<forall>(i, m) \<in> set fs. 0 < m \<Longrightarrow> \<forall>(i, m) \<in> set gs. 0 < m" by blast+
qed

lemma partial_pages:
  assumes "spec_inv N a" and "i \<in> set (partial a k)"
  shows "\<exists>U. page_use a i = Chunks (k + 3) U \<and> U \<noteq> {..<chunk_count (k + 3)} \<and> U \<subseteq> {..<chunk_count (k + 3)}
    \<and> {..<reserved (k + 3)} \<subset> U \<and> k + 3 \<le> 11 \<and> i < N"
proof -
  from assms(2) obtain U where "page_use a i = Chunks (k + 3) U" "U \<noteq> {..<chunk_count (k + 3)}"
    using spec_invD(5) [OF assms(1), of k] by blast
  with spec_invD(6) [OF assms(1) this(1)] show ?thesis by blast
qed

lemma spec_alloc_run_ok:
  assumes "spec_inv N a" and "0 < n" and "spec_alloc_run n a = (Some i, a')"
  shows "spec_inv N a'" and "blocks a' = insert (i * 4096, n * 4096) (blocks a)" and "i + n \<le> N"
    and "\<forall>j. i \<le> j \<and> j < i + n \<longrightarrow> page_use a j = Unused"
proof -
  obtain fs where t: "take_first n (free_runs a) = Some (i, fs)"
    and a': "a' = a\<lparr>free_runs := fs, page_use := mark_run i n (page_use a)\<rparr>"
    using assms(3) by (auto simp: spec_alloc_run_def split: option.splits prod.splits)
  note F = take_first_Some [OF t assms(2)] and I = spec_invD [OF assms(1)]
  have un: "j < N \<and> page_use a j = Unused" if "i \<le> j" "j < i + n" for j
    using that F(3) I(2) by auto
  then show "\<forall>j. i \<le> j \<and> j < i + n \<longrightarrow> page_use a j = Unused" by blast
  have "i \<le> i + (n - 1)" "i + (n - 1) < i + n" using assms(2) by simp_all
  from un [OF this] show N: "i + n \<le> N" by linarith
  have keep: "page_use a' j = page_use a j" if "page_use a j \<noteq> Unused" for j
    using that un [of j] assms(2) by (auto simp: a' mark_run_def)
  have old: "page_use a' j = page_use a j" if "\<not> (i \<le> j \<and> j < i + n)" for j
    using that assms(2) by (auto simp: a' mark_run_def)
  have new: "page_use a' i = Run n" "\<And>j. i < j \<Longrightarrow> j < i + n \<Longrightarrow> page_use a' j = Inner"
    by (auto simp: a' mark_run_def)
  have ch: "page_use a' j = Chunks sh U \<longleftrightarrow> page_use a j = Chunks sh U" for j sh U
    using un [of j] assms(2) by (auto simp: a' mark_run_def)
  have runs: "page_use a' j = Run m \<longleftrightarrow> page_use a j = Run m \<or> j = i \<and> m = n" for j m
    using un [of j] assms(2) by (auto simp: a' mark_run_def)
  have unused: "page_use a' j = Unused \<longleftrightarrow> page_use a j = Unused \<and> \<not> (i \<le> j \<and> j < i + n)" for j
    using assms(2) by (simp add: a' mark_run_def)
  show "spec_inv N a'"
    unfolding spec_inv_def
  proof (intro conjI allI impI)
    show "distinct (run_pages (free_runs a'))" using F(1) [OF I(1)] by (simp add: a')
    have "set (run_pages (free_runs a')) = {j. j < N \<and> page_use a j = Unused} - {i..<i + n}"
      using F(2) [OF I(1)] I(2) by (simp add: a')
    also have "\<dots> = {j. j < N \<and> page_use a' j = Unused}" by (rule set_eqI) (simp add: unused)
    finally show "set (run_pages (free_runs a')) = {j. j < N \<and> page_use a' j = Unused}" .
    have "\<forall>(i, m) \<in> set (free_runs a). 0 < m" by (auto dest: I(3))
    from F(4) [OF this] show "\<forall>(i, n) \<in> set (free_runs a'). 0 < n" by (simp add: a')
    show "distinct (partial a' k)" for k using I(4) by (simp add: a')
    show "set (partial a' k) = {i. \<exists>U. page_use a' i = Chunks (k + 3) U \<and> U \<noteq> {..<chunk_count (k + 3)}}" for k
      using I(5) ch by (simp add: a')
    show "page_use a' j = Inner \<Longrightarrow> \<exists>i n. page_use a' i = Run n \<and> i < j \<and> j < i + n" for j
      using I(8) [of j] runs new old [of j] un by (metis le_neq_implies_less page_use.distinct(7))
  next
    fix j m assume r: "page_use a' j = Run m"
    then consider "page_use a j = Run m" | "j = i" "m = n" using runs by blast
    then show "0 < m" "j + m \<le> N" using I(7) assms(2) N by (cases, simp_all)+
    show "page_use a' k = Inner" if "j < k \<and> k < j + m" for k
      using r that runs I(7) [of j m] keep [of k] new by auto
  next
    fix j sh U assume "page_use a' j = Chunks sh U"
    then show "j < N" "3 \<le> sh" "sh \<le> 11" "{..<reserved sh} \<subset> U" "U \<subseteq> {..<chunk_count sh}"
      using I(6) ch by blast+
  qed
  show "blocks a' = insert (i * 4096, n * 4096) (blocks a)"
    unfolding blocks_eq ch runs by blast
qed

lemma spec_free_run_ok:
  assumes "spec_inv N a" and "page_use a i = Run n"
  shows "spec_inv N (spec_free_run i n a)" and "blocks (spec_free_run i n a) = blocks a - {(i * 4096, n * 4096)}"
proof -
  let ?a = "spec_free_run i n a"
  note I = spec_invD [OF assms(1)]
  note R = I(7) [OF assms(2)]
  have use: "page_use ?a j = (if i \<le> j \<and> j < i + n then Unused else page_use a j)" for j
    by (simp add: spec_free_run_def)
  have in_run: "page_use a j = Run n \<and> j = i \<or> page_use a j = Inner" if "i \<le> j" "j < i + n" for j
    using that R assms(2) by (cases "j = i") auto
  have ch: "page_use ?a j = Chunks sh U \<longleftrightarrow> page_use a j = Chunks sh U" for j sh U
    using in_run [of j] by (auto simp: use)
  have runs: "page_use ?a j = Run m \<longleftrightarrow> page_use a j = Run m \<and> j \<noteq> i" for j m
    using in_run [of j] R by (auto simp: use)
  have other: "page_use ?a k = Inner" if r: "page_use a j = Run m" "j \<noteq> i" "j < k" "k < j + m" for j m k
  proof -
    have "page_use a k = Inner" using I(7) r by blast
    moreover have "\<not> (i \<le> k \<and> k < i + n)"
    proof
      assume "i \<le> k \<and> k < i + n"
      then consider "i < j" "j < i + n" | "j < i" "i < j + m" using r by linarith
      then show False using R I(7) [OF r(1)] assms(2) r(1) by cases auto
    qed
    ultimately show ?thesis by (simp add: use)
  qed
  show "spec_inv N ?a"
    unfolding spec_inv_def
  proof (intro conjI allI impI)
    have "set [i..<i + n] \<inter> set (run_pages (free_runs a)) = {}" using I(2) in_run by fastforce
    then show "distinct (run_pages (free_runs ?a))" using I(1) by (simp add: spec_free_run_def)
    show "set (run_pages (free_runs ?a)) = {i. i < N \<and> page_use ?a i = Unused}"
      using I(2) R by (auto simp: spec_free_run_def)
    have "\<forall>(i, m) \<in> set (free_runs a). 0 < m" by (auto dest: I(3))
    then show "\<forall>(i, n) \<in> set (free_runs ?a). 0 < n" using R by (simp add: spec_free_run_def)
    show "distinct (partial ?a k)" for k using I(4) by (simp add: spec_free_run_def)
    show "set (partial ?a k) = {i. \<exists>U. page_use ?a i = Chunks (k + 3) U \<and> U \<noteq> {..<chunk_count (k + 3)}}" for k
      using I(5) ch by (simp add: spec_free_run_def)
  next
    fix j assume "page_use ?a j = Inner"
    then have "page_use a j = Inner" "\<not> (i \<le> j \<and> j < i + n)" by (auto simp: use split: if_splits)
    then show "\<exists>i n. page_use ?a i = Run n \<and> i < j \<and> j < i + n" using I(8) [of j] runs assms(2)
      by (metis nat_less_le page_use.inject(1))
  next
    fix j m assume "page_use ?a j = Run m"
    then have r: "page_use a j = Run m" "j \<noteq> i" using runs by simp_all
    then show "0 < m" "j + m \<le> N" using I(7) by simp_all
    show "page_use ?a k = Inner" if "j < k \<and> k < j + m" for k using other [OF r] that by simp
  next
    fix j sh U assume "page_use ?a j = Chunks sh U"
    then show "j < N" "3 \<le> sh" "sh \<le> 11" "{..<reserved sh} \<subset> U" "U \<subseteq> {..<chunk_count sh}"
      using I(6) ch by blast+
  qed
  have "(i * 4096, n * 4096) \<noteq> (j * 4096 + c * 2 ^ sh, 2 ^ sh)" if "page_use a j = Chunks sh U" "c \<in> U" for j sh U c
  proof
    assume "(i * 4096, n * 4096) = (j * 4096 + c * 2 ^ sh, (2 :: nat) ^ sh)"
    then have "i = j" using byte_in_chunk(1) [of j c sh "i * 4096"] I(6) [OF that(1)] that(2) by auto
    then show False using that assms(2) by simp
  qed
  then show "blocks ?a = blocks a - {(i * 4096, n * 4096)}"
    unfolding blocks_eq ch runs using assms(2) by fastforce
qed

section \<open>Allocating chunks\<close>

lemma size_classes:
  assumes "3 \<le> sh" and "sh \<le> 11"
  shows "reserved sh + 1 < chunk_count sh"
proof -
  have "sh \<in> {3, 4, 5, 6, 7, 8, 9, 10, 11}" using assms by auto
  then show ?thesis
    by (auto simp: reserved_def chunk_count_def small_reserved_def smb_pagesize_shift_def Let_def)
qed

lemma first_unused:
  assumes "\<not> {..<n} \<subseteq> U"
  shows "first_unused n U < n" and "first_unused n U \<notin> U" and "\<And>c. c < first_unused n U \<Longrightarrow> c \<in> U"
proof -
  have ne: "filter (\<lambda>c. c \<notin> U) [0..<n] \<noteq> []" using assms by (auto simp: filter_empty_conv)
  then have "first_unused n U \<in> set (filter (\<lambda>c. c \<notin> U) [0..<n])" unfolding first_unused_def by (rule hd_in_set)
  then show "first_unused n U < n" "first_unused n U \<notin> U" by auto
  then have lt: "first_unused n U < n" by simp
  fix c assume c: "c < first_unused n U"
  show "c \<in> U"
  proof (rule ccontr)
    assume "c \<notin> U"
    then have "c \<in> set (filter (\<lambda>c. c \<notin> U) [0..<n])" using c lt by auto
    moreover have "sorted (filter (\<lambda>c. c \<notin> U) [0..<n])" by (rule sorted_wrt_filter) simp
    ultimately have "hd (filter (\<lambda>c. c \<notin> U) [0..<n]) \<le> c"
      by (cases "filter (\<lambda>c. c \<notin> U) [0..<n]") auto
    then show False using c by (simp add: first_unused_def)
  qed
qed

lemma chunk_block_eq:
  assumes "(i * 4096 + c * 2 ^ sh, (2 :: nat) ^ sh) = (j * 4096 + d * 2 ^ sh', 2 ^ sh')" and "c < chunk_count sh"
    and "d < chunk_count sh'" and "sh \<le> 11" and "sh' \<le> 11"
  shows "i = j \<and> sh = sh' \<and> c = d"
proof -
  have sh: "sh = sh'" using assms(1) by auto
  let ?x = "i * 4096 + c * 2 ^ sh"
  have "?x div 4096 = i" "?x mod 4096 div 2 ^ sh = c" using byte_in_chunk [of i c sh ?x] assms(2,4) by auto
  moreover have "?x div 4096 = j" "?x mod 4096 div 2 ^ sh = d"
    using byte_in_chunk [of j d sh ?x] assms(1,3,5) sh by auto
  ultimately show ?thesis using sh by simp
qed

text \<open>Changing the use of one page that is not part of a run.\<close>

lemma inv_chunk_page:
  assumes "spec_inv N a" and "page_use a i = Unused \<or> (\<exists>sh U. page_use a i = Chunks sh U)" and "i < N"
    and "page_use b = (page_use a)(i := u)"
    and "u = Unused \<or> (\<exists>sh V. u = Chunks sh V \<and> 3 \<le> sh \<and> sh \<le> 11 \<and> {..<reserved sh} \<subset> V \<and> V \<subseteq> {..<chunk_count sh})"
    and "distinct (run_pages (free_runs b))" and "set (run_pages (free_runs b)) = {j. j < N \<and> page_use b j = Unused}"
    and "\<forall>(i, n) \<in> set (free_runs b). 0 < n" and "\<forall>k. distinct (partial b k)"
    and "\<forall>k. set (partial b k) = {j. \<exists>U. page_use b j = Chunks (k + 3) U \<and> U \<noteq> {..<chunk_count (k + 3)}}"
  shows "spec_inv N b"
proof -
  note I = spec_invD [OF assms(1)]
  have run: "page_use b j = Run n \<longleftrightarrow> page_use a j = Run n" for j n using assms(2,4,5) by auto
  have inner: "page_use b j = Inner \<longleftrightarrow> page_use a j = Inner" for j using assms(2,4,5) by auto
  have ch: "j < N \<and> 3 \<le> sh \<and> sh \<le> 11 \<and> {..<reserved sh} \<subset> U \<and> U \<subseteq> {..<chunk_count sh}"
    if "page_use b j = Chunks sh U" for j sh U
  proof (cases "j = i")
    case True
    then show ?thesis using that assms(3,4,5) by auto
  next
    case False
    then show ?thesis using that assms(4) I(6) [of j sh U] by simp
  qed
  show ?thesis
    unfolding spec_inv_def run inner
    using assms(6-10) I(7,8) ch by blast
qed

lemma all_classes: "P (sh - 3) sh \<Longrightarrow> (\<And>k. k \<noteq> sh - 3 \<Longrightarrow> P k (k + 3)) \<Longrightarrow> 3 \<le> sh \<Longrightarrow> \<forall>k. P k (k + 3)" for sh :: nat
  by (metis le_add_diff_inverse2)

lemma spec_take_chunk_ok:
  assumes "spec_inv N a" and "3 \<le> sh" and "partial a (sh - 3) = i # rest" and "spec_take_chunk sh i rest a = (p, b)"
  shows "spec_inv N b" and "blocks b = insert (p, 2 ^ sh) (blocks a)" and "(p, 2 ^ sh) \<notin> blocks a"
    and "p + 2 ^ sh \<le> N * 4096" and "page_use a i = Chunks sh (chunks_of (page_use a i))"
    and "p div 4096 = i"
proof -
  note I = spec_invD [OF assms(1)]
  have sh: "sh - 3 + 3 = sh" using assms(2) by simp
  obtain U where U: "page_use a i = Chunks sh U" "U \<noteq> {..<chunk_count sh}" "U \<subseteq> {..<chunk_count sh}"
    "{..<reserved sh} \<subset> U" "sh \<le> 11" "i < N"
    using partial_pages [OF assms(1), of i "sh - 3"] assms(3) sh by auto
  let ?c = "first_unused (chunk_count sh) U"
  have nsub: "\<not> {..<chunk_count sh} \<subseteq> U" using U(2,3) by blast
  note c = first_unused [OF nsub]
  have res: "reserved sh \<le> ?c" using c(2) U(4) by (meson lessThan_iff not_le psubsetD)
  have b: "b = a\<lparr>page_use := (page_use a)(i := Chunks sh (insert ?c U)),
        partial := (partial a)(sh - 3 := if insert ?c U = {..<chunk_count sh} then rest else i # rest)\<rparr>"
    and p: "p = i * 4096 + ?c * 2 ^ sh"
    using assms(4) unfolding spec_take_chunk_def U(1) chunks_of.simps Let_def by (rule Pair_inject, simp)+
  have use: "page_use b = (page_use a)(i := Chunks sh (insert ?c U))"
    and part: "partial b = (partial a)(sh - 3 := if insert ?c U = {..<chunk_count sh} then rest else i # rest)"
    and fr: "free_runs b = free_runs a"
    by (simp_all add: b)
  show "page_use a i = Chunks sh (chunks_of (page_use a i))" using U(1) by simp
  show "p div 4096 = i" using byte_in_chunk(1) [of i ?c sh p] p c(1) U(5) by simp
  have d: "distinct (i # rest)" using I(4) [of "sh - 3"] assms(3) by simp
  show "spec_inv N b"
  proof (rule inv_chunk_page [OF assms(1) _ U(6) use])
    show "page_use a i = Unused \<or> (\<exists>sh U. page_use a i = Chunks sh U)" using U(1) by blast
    show "Chunks sh (insert ?c U) = Unused \<or> (\<exists>s V. Chunks sh (insert ?c U) = Chunks s V \<and> 3 \<le> s \<and> s \<le> 11
        \<and> {..<reserved s} \<subset> V \<and> V \<subseteq> {..<chunk_count s})"
      using assms(2) U(3-5) c(1) by blast
    show "distinct (run_pages (free_runs b))" using I(1) fr by simp
    have "{j. j < N \<and> page_use b j = Unused} = {j. j < N \<and> page_use a j = Unused}" using U(1) by (auto simp: use)
    then show "set (run_pages (free_runs b)) = {j. j < N \<and> page_use b j = Unused}" using I(2) fr by simp
    show "\<forall>(i, n) \<in> set (free_runs b). 0 < n" unfolding fr by (auto dest: I(3))
    show "\<forall>k. distinct (partial b k)" using I(4) d by (simp add: part)
    have other: "set (partial b k) = {j. \<exists>U. page_use b j = Chunks (k + 3) U \<and> U \<noteq> {..<chunk_count (k + 3)}}"
      if "k \<noteq> sh - 3" for k
      using I(5) [of k] that assms(2) U(1) by (auto simp: part use)
    have "set (i # rest) = {j. \<exists>U. page_use a j = Chunks sh U \<and> U \<noteq> {..<chunk_count sh}}"
      using I(5) [of "sh - 3"] assms(3) sh by simp
    then have "set (partial b (sh - 3)) = {j. \<exists>U. page_use b j = Chunks sh U \<and> U \<noteq> {..<chunk_count sh}}"
      using d by (auto simp: part use)
    from all_classes [where P = "\<lambda>k s. set (partial b k) = {j. \<exists>U. page_use b j = Chunks s U \<and> U \<noteq> {..<chunk_count s}}", OF this other assms(2)]
    show "\<forall>k. set (partial b k) = {j. \<exists>U. page_use b j = Chunks (k + 3) U \<and> U \<noteq> {..<chunk_count (k + 3)}}" .
  qed
  show "blocks b = insert (p, 2 ^ sh) (blocks a)"
    unfolding blocks_upd [OF use] blocks_at [of a i] U(1) p using res by auto
  show "(p, 2 ^ sh) \<notin> blocks a"
  proof
    assume "(p, 2 ^ sh) \<in> blocks a"
    then have "p mod 4096 div 2 ^ sh \<in> U"
      using block_page [OF assms(1)] byte_in_chunk(1) [of i ?c sh p] c(1) p U(1,5) by fastforce
    then show False using byte_in_chunk(2) [of i ?c sh p] c(1,2) p U(5) by simp
  qed
  show "p + 2 ^ sh \<le> N * 4096" unfolding p using chunk_fits [OF c(1) U(5)] U(6) by (rule page_fits)
qed

lemma spec_new_chunk_ok:
  assumes "spec_inv N a" and "3 \<le> sh" and "sh \<le> 11" and "partial a (sh - 3) = []"
    and "take_first 1 (free_runs a) = Some (i, fs)"
    and "b = a\<lparr>free_runs := fs, page_use := (page_use a)(i := Chunks sh {..reserved sh}),
               partial := (partial a)(sh - 3 := [i])\<rparr>"
    and "p = i * 4096 + reserved sh * 2 ^ sh"
  shows "spec_inv N b" and "blocks b = insert (p, 2 ^ sh) (blocks a)" and "(p, 2 ^ sh) \<notin> blocks a"
    and "p + 2 ^ sh \<le> N * 4096" and "page_use a i = Unused" and "i < N"
proof -
  note I = spec_invD [OF assms(1)]
  note F = take_first_Some [OF assms(5)]
  note cl = size_classes [OF assms(2,3)]
  have use: "page_use b = (page_use a)(i := Chunks sh {..reserved sh})"
    and part: "partial b = (partial a)(sh - 3 := [i])" and fr: "free_runs b = fs"
    by (simp_all add: assms(6))
  show un: "page_use a i = Unused" "i < N" using F(3) I(2) by auto
  show "spec_inv N b"
  proof (rule inv_chunk_page [OF assms(1) _ un(2) use])
    show "page_use a i = Unused \<or> (\<exists>sh U. page_use a i = Chunks sh U)" using un by blast
    show "Chunks sh {..reserved sh} = Unused \<or> (\<exists>s V. Chunks sh {..reserved sh} = Chunks s V \<and> 3 \<le> s \<and> s \<le> 11
        \<and> {..<reserved s} \<subset> V \<and> V \<subseteq> {..<chunk_count s})"
      using assms(2,3) cl by auto
    show "distinct (run_pages (free_runs b))" using F(1) I(1) fr by simp
    have "set (run_pages (free_runs b)) = {j. j < N \<and> page_use a j = Unused} - {i}" using F(2) I(1,2) fr by simp
    also have "\<dots> = {j. j < N \<and> page_use b j = Unused}" by (rule set_eqI) (simp add: use)
    finally show "set (run_pages (free_runs b)) = {j. j < N \<and> page_use b j = Unused}" .
    have "\<forall>(i, m) \<in> set (free_runs a). 0 < m" by (auto dest: I(3))
    from F(4) [OF _ this] show "\<forall>(i, n) \<in> set (free_runs b). 0 < n" by (simp add: fr)
    show "\<forall>k. distinct (partial b k)" using I(4) by (simp add: part)
    have other: "set (partial b k) = {j. \<exists>U. page_use b j = Chunks (k + 3) U \<and> U \<noteq> {..<chunk_count (k + 3)}}"
      if "k \<noteq> sh - 3" for k
      using I(5) [of k] that assms(2) un(1) by (auto simp: part use)
    have "{..reserved sh} \<noteq> {..<chunk_count sh}" using cl by (metis Suc_eq_plus1 lessThan_Suc_atMost lessThan_eq_iff nat_neq_iff)
    moreover have "{} = {j. \<exists>U. page_use a j = Chunks sh U \<and> U \<noteq> {..<chunk_count sh}}"
      using I(5) [of "sh - 3"] assms(2,4) by simp
    ultimately have "set (partial b (sh - 3)) = {j. \<exists>U. page_use b j = Chunks sh U \<and> U \<noteq> {..<chunk_count sh}}"
      by (auto simp: part use)
    from all_classes [where P = "\<lambda>k s. set (partial b k) = {j. \<exists>U. page_use b j = Chunks s U \<and> U \<noteq> {..<chunk_count s}}", OF this other assms(2)]
    show "\<forall>k. set (partial b k) = {j. \<exists>U. page_use b j = Chunks (k + 3) U \<and> U \<noteq> {..<chunk_count (k + 3)}}" .
  qed
  show "blocks b = insert (p, 2 ^ sh) (blocks a)"
    unfolding blocks_upd [OF use] blocks_at [of a i] un(1) assms(7) by auto
  have lt: "reserved sh < chunk_count sh" using cl by simp
  show "(p, 2 ^ sh) \<notin> blocks a"
  proof
    assume "(p, 2 ^ sh) \<in> blocks a"
    moreover have "p div 4096 = i" using byte_in_chunk(1) [of i "reserved sh" sh p] lt assms(3,7) by simp
    ultimately show False using block_page [OF assms(1)] un(1) by fastforce
  qed
  show "p + 2 ^ sh \<le> N * 4096" unfolding assms(7) using chunk_fits [OF lt assms(3)] un(2) by (rule page_fits)
qed

lemma spec_free_chunk_ok:
  assumes "spec_inv N a" and "page_use a i = Chunks sh U" and "c \<in> U" and "reserved sh \<le> c"
  shows "spec_inv N (spec_free_chunk sh i c a)"
    and "blocks (spec_free_chunk sh i c a) = blocks a - {(i * 4096 + c * 2 ^ sh, 2 ^ sh)}"
proof -
  let ?b = "spec_free_chunk sh i c a" and ?full = "{..<chunk_count sh}"
  note I = spec_invD [OF assms(1)]
  note C = I(6) [OF assms(2)]
  define u where "u = (if U - {c} = {..<reserved sh} then Unused else Chunks sh (U - {c}))"
  define L where "L = (if U = ?full then i # partial a (sh - 3) else partial a (sh - 3))"
  have use: "page_use ?b = (page_use a)(i := u)"
    and part: "partial ?b = (partial a)(sh - 3 := if u = Unused then remove1 i L else L)"
    and fr: "free_runs ?b = (if u = Unused then (i, 1) # free_runs a else free_runs a)"
    by (simp_all add: spec_free_chunk_def assms(2) Let_def u_def L_def)
  have set_a: "set (partial a (sh - 3)) = {j. \<exists>U. page_use a j = Chunks sh U \<and> U \<noteq> ?full}"
    using I(5) [of "sh - 3"] C by simp
  have dL: "distinct L" using I(4) [of "sh - 3"] set_a assms(2) by (auto simp: L_def)
  have set_L: "set L = insert i (set (partial a (sh - 3)))" using set_a assms(2) by (auto simp: L_def)
  have notfull: "U - {c} \<noteq> ?full" using assms(3) C by blast
  show "spec_inv N ?b"
  proof (rule inv_chunk_page [OF assms(1) _ _ use])
    show "page_use a i = Unused \<or> (\<exists>sh U. page_use a i = Chunks sh U)" using assms(2) by blast
    show "i < N" using C by blast
    have "{..<reserved sh} \<subseteq> U - {c}" using C assms(4) by auto
    then show "u = Unused \<or> (\<exists>s V. u = Chunks s V \<and> 3 \<le> s \<and> s \<le> 11 \<and> {..<reserved s} \<subset> V \<and> V \<subseteq> {..<chunk_count s})"
      unfolding u_def using C by auto
    have "i \<notin> set (run_pages (free_runs a))" using I(2) assms(2) by simp
    then show "distinct (run_pages (free_runs ?b))" using I(1) by (simp add: fr)
    have "set (run_pages (free_runs ?b)) = (if u = Unused then {i} else {}) \<union> {j. j < N \<and> page_use a j = Unused}"
      using I(2) by (simp add: fr)
    also have "\<dots> = {j. j < N \<and> page_use ?b j = Unused}"
      using C assms(2) by (auto simp: use)
    finally show "set (run_pages (free_runs ?b)) = {j. j < N \<and> page_use ?b j = Unused}" .
    have "\<forall>(i, m) \<in> set (free_runs a). 0 < m" by (auto dest: I(3))
    then show "\<forall>(i, n) \<in> set (free_runs ?b). 0 < n" by (simp add: fr)
    show "\<forall>k. distinct (partial ?b k)" using I(4) dL by (simp add: part)
    have other: "set (partial ?b k) = {j. \<exists>U. page_use ?b j = Chunks (k + 3) U \<and> U \<noteq> {..<chunk_count (k + 3)}}"
      if "k \<noteq> sh - 3" for k
      using I(5) [of k] that C assms(2) by (auto simp: part use u_def)
    have "set (partial ?b (sh - 3)) = {j. \<exists>U. page_use ?b j = Chunks sh U \<and> U \<noteq> ?full}"
      using set_a set_L dL notfull assms(2) by (auto simp: part use u_def)
    from all_classes [where P = "\<lambda>k s. set (partial ?b k) = {j. \<exists>U. page_use ?b j = Chunks s U \<and> U \<noteq> {..<chunk_count s}}", OF this other]
    show "\<forall>k. set (partial ?b k) = {j. \<exists>U. page_use ?b j = Chunks (k + 3) U \<and> U \<noteq> {..<chunk_count (k + 3)}}" using C by blast
  qed
  have none: "page_blocks i (Chunks sh {..<reserved sh}) = {}" by auto
  have "page_blocks i u = page_blocks i (Chunks sh (U - {c}))"
  proof (cases "U - {c} = {..<reserved sh}")
    case True
    then show ?thesis using none unfolding u_def True by simp
  qed (simp add: u_def)
  also have "\<dots> = page_blocks i (Chunks sh U) - {(i * 4096 + c * 2 ^ sh, 2 ^ sh)}" by auto
  finally have here: "page_blocks i u = page_blocks i (Chunks sh U) - {(i * 4096 + c * 2 ^ sh, 2 ^ sh)}" .
  have cc: "c < chunk_count sh" using assms(3) C by blast
  have there: "(i * 4096 + c * 2 ^ sh, 2 ^ sh) \<notin> page_blocks j (page_use a j)" if "j \<noteq> i" for j
  proof
    let ?p = "i * 4096 + c * 2 ^ sh"
    assume "(?p, 2 ^ sh) \<in> page_blocks j (page_use a j)"
    then consider n where "page_use a j = Run n" "(?p, 2 ^ sh) = (j * 4096, n * 4096)"
      | sh' V d where "page_use a j = Chunks sh' V" "d \<in> V" "(?p, 2 ^ sh) = (j * 4096 + d * 2 ^ sh', (2 :: nat) ^ sh')"
      unfolding in_page_blocks by blast
    then show False
    proof cases
      case (1 n)
      have "?p div 4096 = i" by (rule byte_in_chunk(1) [OF _ _ cc]) (use C in simp_all)
      moreover have "?p = j * 4096" using 1(2) by (rule Pair_inject)
      ultimately show False using that by (metis nonzero_mult_div_cancel_right zero_neq_numeral)
    next
      case (2 sh' V d)
      then have "d < chunk_count sh'" "sh' \<le> 11" using I(6) [OF 2(1)] by auto
      then show False using chunk_block_eq [OF 2(3) cc] C that by simp
    qed
  qed
  show "blocks ?b = blocks a - {(i * 4096 + c * 2 ^ sh, 2 ^ sh)}"
    unfolding blocks_upd [OF use] blocks_at [of a i] here assms(2) using there by blast
qed

section \<open>The contract\<close>

lemma halvings_bounds:
  assumes "0 < s"
  shows "2 ^ halvings s \<le> s" and "s < 2 ^ (halvings s + 1)"
proof -
  have "2 ^ halvings s \<le> s \<and> s < 2 ^ (halvings s + 1)" if "0 < s" for s
    using that
  proof (induction s rule: halvings.induct)
    case (1 s)
    show ?case
    proof (cases "s div 2 = 0")
      case True
      then show ?thesis using 1(2) by (simp add: halvings.simps [of s])
    next
      case False
      then have "2 ^ halvings (s div 2) \<le> s div 2" "s div 2 < 2 ^ (halvings (s div 2) + 1)" using 1(1) by auto
      then have "2 * 2 ^ halvings (s div 2) \<le> s" "s < 2 * 2 ^ (halvings (s div 2) + 1)" by linarith+
      then show ?thesis using False by (simp add: halvings.simps [of s])
    qed
  qed
  then show "2 ^ halvings s \<le> s" "s < 2 ^ (halvings s + 1)" using assms by blast+
qed

lemma size_shift_bounds:
  assumes "n < smb_slab_max_size"
  shows "3 \<le> size_shift n" and "size_shift n \<le> 11" and "n \<le> 2 ^ size_shift n"
proof -
  have "3 \<le> size_shift n \<and> size_shift n \<le> 11 \<and> n \<le> 2 ^ size_shift n"
  proof (cases "n > min_size")
    case True
    then have n: "8 < n" "n < 2048" using assms by (simp_all add: min_size_def min_shift_def smb_slab_max_size_def smb_pagesize_def)
    note h = halvings_bounds [of "n - 1"]
    have "2 ^ halvings (n - 1) < (2 :: nat) ^ 11" using h(1) n by simp
    then have "halvings (n - 1) < 11" by (simp only: power_strict_increasing_iff)
    moreover have "(2 :: nat) ^ 3 < 2 ^ (halvings (n - 1) + 1)" using h(2) n by simp
    then have "3 < halvings (n - 1) + 1" by (simp only: power_strict_increasing_iff)
    ultimately show ?thesis using True h(2) n by (simp add: size_shift_def)
  qed (simp add: size_shift_def min_size_def min_shift_def)
  then show "3 \<le> size_shift n" "size_shift n \<le> 11" "n \<le> 2 ^ size_shift n" by blast+
qed

lemma pages_for_bounds: "n \<le> pages_for n * 4096" and pages_for_pos: "0 < n \<Longrightarrow> 0 < pages_for n"
  using div_mult_mod_eq [of n 4096] mod_less_divisor [of 4096 n]
  by (auto simp: pages_for_def smb_pagesize_def)

text \<open>
  An allocation hands out a block that is large enough, lies in the segment and is none of those handed
  out before; with \<open>same_block\<close> it overlaps none of them.
\<close>

lemma spec_alloc_ok:
  assumes "spec_inv N a" and "0 < n" and "spec_alloc n a = (Some p, b)"
  shows "\<exists>l. spec_inv N b \<and> blocks b = insert (p, l) (blocks a) \<and> (p, l) \<notin> blocks a \<and> n \<le> l \<and> p + l \<le> N * 4096"
proof (cases "n \<ge> smb_slab_max_size")
  case True
  then obtain i where r: "spec_alloc_run (pages_for n) a = (Some i, b)" "p = i * 4096"
    using assms(3) by (auto simp: spec_alloc_def split: prod.splits)
  note R = spec_alloc_run_ok [OF assms(1) pages_for_pos [OF assms(2)] r(1)]
  have "(p, pages_for n * 4096) \<notin> blocks a"
  proof
    assume "(p, pages_for n * 4096) \<in> blocks a"
    from block_page [OF assms(1) this] have "page_use a i \<noteq> Unused" by (auto simp: r(2))
    then show False using R(4) pages_for_pos [OF assms(2)] by simp
  qed
  moreover have "p + pages_for n * 4096 \<le> N * 4096" using mult_le_mono1 [OF R(3), of 4096] by (simp add: r(2) add_mult_distrib)
  ultimately show ?thesis using R(1,2) pages_for_bounds r(2) by blast
next
  case False
  let ?sh = "size_shift n"
  note S = size_shift_bounds [of n]
  have sh: "3 \<le> ?sh" "?sh \<le> 11" "n \<le> 2 ^ ?sh" using S False by simp_all
  have al: "spec_alloc_chunk ?sh a = (Some p, b)" using assms(3) False by (simp add: spec_alloc_def)
  show ?thesis
  proof (cases "partial a (?sh - 3)")
    case (Cons i rest)
    then have "spec_take_chunk ?sh i rest a = (p, b)"
      using al by (simp add: spec_alloc_chunk_def split: prod.splits)
    from spec_take_chunk_ok [OF assms(1) sh(1) Cons this] sh(3) show ?thesis by blast
  next
    case Nil
    then obtain i fs where t: "take_first 1 (free_runs a) = Some (i, fs)"
      "p = i * 4096 + reserved ?sh * 2 ^ ?sh"
      "b = a\<lparr>free_runs := fs, page_use := (page_use a)(i := Chunks ?sh {..reserved ?sh}),
               partial := (partial a)(?sh - 3 := [i])\<rparr>"
      using al by (auto simp: spec_alloc_chunk_def split: option.splits prod.splits)
    from spec_new_chunk_ok [OF assms(1) sh(1,2) Nil t(1,3,2)] sh(3) show ?thesis by blast
  qed
qed

text \<open>Freeing a block removes that block and no other.\<close>

lemma spec_free_ok:
  assumes "spec_inv N a" and "(p, l) \<in> blocks a"
  shows "spec_inv N (spec_free p a)" and "blocks (spec_free p a) = blocks a - {(p, l)}"
proof -
  have "spec_inv N (spec_free p a) \<and> blocks (spec_free p a) = blocks a - {(p, l)}"
    using block_page [OF assms]
  proof (elim disjE exE conjE)
    fix n assume A: "page_use a (p div 4096) = Run n" "l = n * 4096" "p mod 4096 = 0"
    then have q: "p div 4096 * 4096 = p" using div_mult_mod_eq [of p 4096] by simp
    from spec_free_run_ok [OF assms(1) A(1)] show ?thesis unfolding q by (simp add: spec_free_def A(1,2))
  next
    fix sh U assume A: "page_use a (p div 4096) = Chunks sh U" "l = 2 ^ sh" "p mod 4096 div 2 ^ sh \<in> U"
      "reserved sh \<le> p mod 4096 div 2 ^ sh" "p mod 2 ^ sh = 0"
    have "sh \<le> 11" using spec_invD(6) [OF assms(1) A(1)] by blast
    then have "(2 :: nat) ^ sh dvd 2 ^ 12" by (intro le_imp_power_dvd) simp
    then have "p mod 4096 mod 2 ^ sh = 0" using A(5) by (simp add: mod_mod_cancel)
    then have "p mod 4096 div 2 ^ sh * 2 ^ sh = p mod 4096" by (metis add.right_neutral div_mult_mod_eq)
    then have p: "p div 4096 * 4096 + p mod 4096 div 2 ^ sh * 2 ^ sh = p" by simp
    from spec_free_chunk_ok [OF assms(1) A(1,3,4)] show ?thesis unfolding p by (simp add: spec_free_def A(1,2))
  qed
  then show "spec_inv N (spec_free p a)" "blocks (spec_free p a) = blocks a - {(p, l)}" by blast+
qed

end
