(* ===== verification/Memory_Pool_Refine.thy ===== *)
theory Memory_Pool_Refine
  imports Memory_Pool_Spec
begin

text \<open>
  The allocator of a segment does what the specification says: the linked descriptors and bitmaps stand
  for the free runs, the lists of pages with free chunks and the uses of the pages, and every operation
  returns and keeps this correspondence.
\<close>

section \<open>Linked lists of descriptors\<close>

text \<open>From \<open>p\<close> over the pages \<open>xs\<close> to \<open>q\<close>, with all pages pointing back and carrying the type \<open>t\<close>.\<close>

fun dchain :: "segment \<Rightarrow> slab_type \<Rightarrow> slab_node \<Rightarrow> nat list \<Rightarrow> slab_node \<Rightarrow> bool" where
  "dchain s t p [] q \<longleftrightarrow> pg_next (descs s p) = Some q"
| "dchain s t p (i # xs) q \<longleftrightarrow>
     pg_next (descs s p) = Some (Page i) \<and> pg_prev (descs s (Page i)) = (Some p, t) \<and> dchain s t (Page i) xs q"

definition last_node :: "slab_node \<Rightarrow> nat list \<Rightarrow> slab_node" where
  "last_node p xs = (if xs = [] then p else Page (last xs))"

lemma last_node_simps [simp]: "last_node p [] = p" "last_node p (i # xs) = last_node (Page i) xs"
  by (simp_all add: last_node_def)

lemma slab_node_heads [simp]: "Slot k \<notin> Page ` X" "FreeHead \<notin> Page ` X"
  by auto

lemma last_node_in: "last_node p xs \<in> insert p (Page ` set xs)"
  by (simp add: last_node_def)

lemma dchain_append:
  "dchain s t p (xs @ i # ys) q \<longleftrightarrow>
     dchain s t p xs (Page i) \<and> pg_prev (descs s (Page i)) = (Some (last_node p xs), t) \<and> dchain s t (Page i) ys q"
  by (induction xs arbitrary: p) auto

lemma dchain_frame:
  assumes "dchain s t p xs q"
    and "\<And>n. n \<in> insert p (Page ` set xs) \<Longrightarrow> pg_next (descs s' n) = pg_next (descs s n)"
    and "\<And>i. i \<in> set xs \<Longrightarrow> pg_prev (descs s' (Page i)) = pg_prev (descs s (Page i))"
  shows "dchain s' t p xs q"
  using assms by (induction xs arbitrary: p) auto

lemma dchain_next: "dchain s t p xs q \<Longrightarrow> i \<in> insert p (Page ` set xs) \<Longrightarrow> pg_next (descs s i) \<noteq> None"
  by (induction xs arbitrary: p) auto

lemma dchain_type: "dchain s t p xs q \<Longrightarrow> i \<in> set xs \<Longrightarrow> snd (pg_prev (descs s (Page i))) = t"
  by (induction xs arbitrary: p) auto

lemma desc_upd [simp]: "descs (upd_desc n f s) m = (if m = n then f (descs s n) else descs s m)"
  by (simp add: upd_desc_def)

lemma upd_desc_keeps [simp]:
  "words (upd_desc n f s) = words s" "real_pages (upd_desc n f s) = real_pages s"
  "seg_start (upd_desc n f s) = seg_start s" "seg_end (upd_desc n f s) = seg_end s"
  by (simp_all add: upd_desc_def)

lemma set_next_simps [simp]:
  "set_next (Some n) x s = upd_desc n (\<lambda>d. d\<lparr>pg_next := x\<rparr>) s"
  "set_prev (Some n) y s = upd_desc n (\<lambda>d. d\<lparr>pg_prev := y\<rparr>) s"
  by (simp_all add: set_next_def set_prev_def)

lemma set_link_keeps [simp]:
  "words (set_next m x s) = words s" "real_pages (set_next m x s) = real_pages s"
  "seg_start (set_next m x s) = seg_start s" "seg_end (set_next m x s) = seg_end s"
  "words (set_prev m y s) = words s" "real_pages (set_prev m y s) = real_pages s"
  "seg_start (set_prev m y s) = seg_start s" "seg_end (set_prev m y s) = seg_end s"
  by (simp_all add: set_next_def set_prev_def split: option.split)

text \<open>Leading the end of a list to another node.\<close>

lemma dchain_set_last:
  assumes "dchain s t p xs q" and "p \<notin> Page ` set xs" and "distinct xs"
  shows "dchain (upd_desc (last_node p xs) (\<lambda>d. d\<lparr>pg_next := Some r\<rparr>) s) t p xs r"
  using assms
proof (induction xs arbitrary: p)
  case (Cons i xs)
  have "dchain (upd_desc (last_node (Page i) xs) (\<lambda>d. d\<lparr>pg_next := Some r\<rparr>) s) t (Page i) xs r"
    by (rule Cons.IH) (use Cons.prems in auto)
  moreover have "last_node (Page i) xs \<noteq> p" using last_node_in [of "Page i" xs] Cons.prems(2) by auto
  ultimately show ?case using Cons.prems by simp
qed simp

text \<open>What an operation on one list leaves alone: other nodes, the bitmaps, the words and types of pages.\<close>

definition only_links :: "slab_node set \<Rightarrow> segment \<Rightarrow> segment \<Rightarrow> bool" where
  "only_links H s s' \<longleftrightarrow>
     (\<forall>n. n \<notin> H \<longrightarrow> descs s' n = descs s n) \<and> words s' = words s \<and> real_pages s' = real_pages s
     \<and> seg_start s' = seg_start s \<and> seg_end s' = seg_end s
     \<and> (\<forall>n. pg_slab (descs s' n) = pg_slab (descs s n))
     \<and> (\<forall>i. snd (pg_prev (descs s' (Page i))) = snd (pg_prev (descs s (Page i))))"

definition unlink :: "nat \<Rightarrow> segment \<Rightarrow> segment" where
  "unlink i s = (let d = descs s (Page i)
     in set_prev (pg_next d) (pg_prev d) (set_next (fst (pg_prev d)) (pg_next d) s))"

lemma dchain_unlink:
  assumes "dchain s t h (xs @ i # ys) h" and "distinct (xs @ i # ys)" and "h \<notin> range Page"
  shows "dchain (unlink i s) t h (xs @ ys) h"
    and "only_links (insert h (Page ` set (xs @ ys))) s (unlink i s)"
    and "descs (unlink i s) (Page i) = descs s (Page i)"
proof -
  let ?l = "last_node h xs" and ?s1 = "upd_desc (last_node h xs) (\<lambda>d. d\<lparr>pg_next := pg_next (descs s (Page i))\<rparr>) s"
  have c: "dchain s t h xs (Page i)" "pg_prev (descs s (Page i)) = (Some ?l, t)" "dchain s t (Page i) ys h"
    using assms(1) by (simp_all add: dchain_append)
  have l: "?l \<in> insert h (Page ` set xs)" by (rule last_node_in)
  then have li: "?l \<noteq> Page i" using assms(2,3) by auto
  obtain r where r: "pg_next (descs s (Page i)) = Some r" "r = h \<and> ys = [] \<or> (\<exists>y zs. ys = y # zs \<and> r = Page y)"
    using c(3) by (cases ys) auto
  have ri: "r \<noteq> Page i" using r(2) assms(2,3) by auto
  have u: "unlink i s = upd_desc r (\<lambda>d. d\<lparr>pg_prev := (Some ?l, t)\<rparr>) ?s1"
    using c(2) r(1) by (simp add: unlink_def Let_def)
  have "dchain ?s1 t h xs r" using dchain_set_last [OF c(1), of r] assms(2,3) r(1) by auto
  then have xs: "dchain (unlink i s) t h xs r"
    unfolding u by (rule dchain_frame) (use r(2) assms(2,3) in auto)
  show "dchain (unlink i s) t h (xs @ ys) h"
  proof (cases ys)
    case Nil
    then show ?thesis using xs r(2) by auto
  next
    case (Cons y zs)
    then have ry: "r = Page y" using r(2) by auto
    have "dchain s t (Page y) zs h" using c(3) Cons by simp
    then have "dchain (unlink i s) t (Page y) zs h"
      unfolding u by (rule dchain_frame) (use Cons l assms(2,3) ry in auto)
    then show ?thesis using xs Cons ry by (simp add: dchain_append u)
  qed
  have rt: "snd (pg_prev (descs s (Page y))) = t" if "r = Page y" for y
    using c(3) r(1) that assms(3) by (cases ys) auto
  show "only_links (insert h (Page ` set (xs @ ys))) s (unlink i s)"
    using l r(2) rt by (auto simp: only_links_def u)
  show "descs (unlink i s) (Page i) = descs s (Page i)" using li ri by (simp add: u)
qed

text \<open>Putting a page at the front of a list; \<open>d\<close> is what its descriptor becomes.\<close>

lemma dchain_push:
  assumes "dchain s t h xs h" and "distinct xs" and "i \<notin> set xs" and "h \<notin> range Page"
    and "first = pg_next (descs s h)" and "pg_next d = first" and "pg_prev d = (Some h, t)"
    and "descs s' = (\<lambda>n. if n = h then (descs s h)\<lparr>pg_next := Some (Page i), pg_prev := ph\<rparr>
            else if n = Page i then d
            else if Some n = first then (descs s n)\<lparr>pg_prev := (Some (Page i), t)\<rparr> else descs s n)"
  shows "dchain s' t h (i # xs) h"
proof -
  have ih: "Page i \<noteq> h" using assms(4) by auto
  have "dchain s' t (Page i) xs h"
  proof (cases xs)
    case Nil
    then show ?thesis using assms ih by simp
  next
    case (Cons y ys)
    then have f: "first = Some (Page y)" "dchain s t (Page y) ys h" using assms(1,5) by simp_all
    have y: "Page y \<noteq> h" "y \<noteq> i" "i \<notin> set ys" "y \<notin> set ys" using assms(2-4) Cons by auto
    have "dchain s' t (Page y) ys h"
      using f(2) by (rule dchain_frame) (use f y ih assms(4,8) in auto)
    then show ?thesis using Cons f y ih assms(6,8) by simp
  qed
  then show ?thesis using ih assms(7,8) by simp
qed

text \<open>A page taking the place of another in a list; only the links of the neighbours change.\<close>

lemma dchain_replace:
  assumes "dchain s t h (xs @ i # ys) h" and "distinct (xs @ i # ys)" and "h \<notin> range Page" and "j \<notin> set (xs @ ys)"
    and "j \<noteq> i" and "d = descs s (Page i)"
    and "s' = set_prev (pg_next d) (Some (Page j), t) (set_next (fst (pg_prev d)) (Some (Page j))
           (upd_desc (Page j) (\<lambda>_. \<lparr>pg_slab = w, pg_next = pg_next d, pg_prev = pg_prev d\<rparr>) s))"
  shows "dchain s' t h (xs @ j # ys) h"
    and "n \<notin> insert h (Page ` set (xs @ j # ys)) \<Longrightarrow> descs s' n = descs s n"
    and "words s' = words s" and "real_pages s' = real_pages s" and "seg_start s' = seg_start s" and "seg_end s' = seg_end s"
    and "n \<noteq> Page j \<Longrightarrow> pg_slab (descs s' n) = pg_slab (descs s n)" and "pg_slab (descs s' (Page j)) = w"
proof -
  let ?l = "last_node h xs"
  have c: "dchain s t h xs (Page i)" "pg_prev (descs s (Page i)) = (Some ?l, t)" "dchain s t (Page i) ys h"
    using assms(1) by (simp_all add: dchain_append)
  have l: "?l \<in> insert h (Page ` set xs)" by (rule last_node_in)
  have lj: "?l \<noteq> Page j" "?l \<noteq> Page i" using l assms(2-5) by auto
  obtain r where r: "pg_next (descs s (Page i)) = Some r" "r = h \<and> ys = [] \<or> (\<exists>y zs. ys = y # zs \<and> r = Page y)"
    using c(3) by (cases ys) auto
  have rj: "r \<noteq> Page j" "r \<noteq> Page i" using r(2) assms(2-5) by auto
  let ?s1 = "upd_desc ?l (\<lambda>d. d\<lparr>pg_next := Some (Page j)\<rparr>) s"
  define s2 where "s2 = upd_desc (Page j) (\<lambda>_. \<lparr>pg_slab = w, pg_next = Some r, pg_prev = (Some ?l, t)\<rparr>) s"
  have u: "s' = upd_desc r (\<lambda>d. d\<lparr>pg_prev := (Some (Page j), t)\<rparr>) (upd_desc ?l (\<lambda>d. d\<lparr>pg_next := Some (Page j)\<rparr>) s2)"
    using assms(6,7) c(2) r(1) by (simp add: s2_def)
  have "dchain ?s1 t h xs (Page j)" using dchain_set_last [OF c(1), of "Page j"] assms(2,3) by auto
  then have xs: "dchain s' t h xs (Page j)"
    unfolding u s2_def by (rule dchain_frame) (use r(2) lj assms(2-5) in auto)
  have jj: "pg_prev (descs s' (Page j)) = (Some ?l, t)" "pg_next (descs s' (Page j)) = Some r"
    using lj rj by (simp_all add: u s2_def)
  have "dchain s' t (Page j) ys h"
  proof (cases ys)
    case Nil
    then show ?thesis using jj r(2) by auto
  next
    case (Cons y zs)
    then have ry: "r = Page y" using r(2) by auto
    have "dchain s t (Page y) zs h" using c(3) Cons by simp
    then have "dchain s' t (Page y) zs h"
      unfolding u s2_def by (rule dchain_frame) (use Cons l lj assms(2-5) ry in auto)
    moreover have "pg_prev (descs s' (Page y)) = (Some (Page j), t)" using lj ry by (simp add: u)
    ultimately show ?thesis using jj Cons ry by simp
  qed
  then show "dchain s' t h (xs @ j # ys) h" using xs jj by (simp add: dchain_append)
  show "n \<notin> insert h (Page ` set (xs @ j # ys)) \<Longrightarrow> descs s' n = descs s n"
    using l r(2) by (auto simp: u s2_def)
  show "words s' = words s" "real_pages s' = real_pages s" "seg_start s' = seg_start s" "seg_end s' = seg_end s"
    "n \<noteq> Page j \<Longrightarrow> pg_slab (descs s' n) = pg_slab (descs s n)" "pg_slab (descs s' (Page j)) = w"
    by (simp_all add: u s2_def)
qed

section \<open>Representation\<close>

definition class_type :: "nat \<Rightarrow> slab_type" where
  "class_type sh = (if sh < 6 then SMB_SLAB_SMALL else if sh = 6 then SMB_SLAB_EXACT else SMB_SLAB_BIG)"

text \<open>How the used chunks of a page are recorded.\<close>

definition chunk_rep :: "u64 \<Rightarrow> (nat \<Rightarrow> u64) \<Rightarrow> nat \<Rightarrow> nat set \<Rightarrow> bool" where
  "chunk_rep slab ws sh U \<longleftrightarrow>
     (if sh < 6 then unat (slab AND SMB_SLAB_SHIFT_MASK) = sh
        \<and> (\<forall>c < chunk_count sh. bit (ws (c div 64)) (c mod 64) \<longleftrightarrow> c \<in> U)
        \<and> (\<forall>j < smb_slab_small_map_words sh. bit slab (32 + j) \<longleftrightarrow> ws j \<noteq> SMB_SLAB_BUSY)
      else if sh = 6 then \<forall>c < 64. bit slab c \<longleftrightarrow> c \<in> U
      else unat (slab AND SMB_SLAB_SHIFT_MASK) = sh \<and> (\<forall>c < 32. bit slab (32 + c) \<longleftrightarrow> c \<in> U))"

fun page_rep :: "segment \<Rightarrow> nat \<Rightarrow> page_use \<Rightarrow> bool" where
  "page_rep s i Unused \<longleftrightarrow> True"
| "page_rep s i Inner \<longleftrightarrow> True"
| "page_rep s i (Run n) \<longleftrightarrow>
     descs s (Page i) = \<lparr>pg_slab = word_of_nat n OR SMB_SLAB_PAGE_START, pg_next = None, pg_prev = (None, SMB_SLAB_PAGE)\<rparr>"
| "page_rep s i (Chunks sh U) \<longleftrightarrow>
     snd (pg_prev (descs s (Page i))) = class_type sh
     \<and> (U = {..<chunk_count sh} \<longrightarrow> pg_next (descs s (Page i)) = None)
     \<and> chunk_rep (pg_slab (descs s (Page i))) (words s (int i)) sh U"

definition rep :: "segment \<Rightarrow> pool_spec \<Rightarrow> bool" where
  "rep s a \<longleftrightarrow>
     spec_inv (real_pages s) a \<and> real_pages s < 2 ^ 52 \<and> seg_start s mod 4096 = 0
     \<and> seg_start s + int (real_pages s) * 4096 \<le> seg_end s
     \<and> dchain s SMB_SLAB_PAGE FreeHead (map fst (free_runs a)) FreeHead
     \<and> (\<forall>(i, n) \<in> set (free_runs a). pg_slab (descs s (Page i)) = word_of_nat n)
     \<and> (\<forall>k < slot_count. dchain s (class_type (k + 3)) (Slot k) (partial a k) (Slot k))
     \<and> (\<forall>i. page_rep s i (page_use a i))"

lemma repD:
  assumes "rep s a"
  shows "spec_inv (real_pages s) a" and "real_pages s < 2 ^ 52" and "seg_start s mod 4096 = 0"
    and "seg_start s + int (real_pages s) * 4096 \<le> seg_end s"
    and "dchain s SMB_SLAB_PAGE FreeHead (map fst (free_runs a)) FreeHead"
    and "(i, n) \<in> set (free_runs a) \<Longrightarrow> pg_slab (descs s (Page i)) = word_of_nat n"
    and "k < slot_count \<Longrightarrow> dchain s (class_type (k + 3)) (Slot k) (partial a k) (Slot k)"
    and "page_rep s i (page_use a i)"
  using assms unfolding rep_def by blast+

lemma run_pages_append: "run_pages (xs @ ys) = run_pages xs @ run_pages ys"
  by (simp add: run_pages_def)

lemma heads_pages: "i \<in> fst ` set fs \<Longrightarrow> \<forall>(i, n) \<in> set fs. 0 < n \<Longrightarrow> i \<in> set (run_pages fs)"
  by (induction fs) (auto split: prod.splits)

lemma heads_distinct: "distinct (run_pages fs) \<Longrightarrow> \<forall>(i, n) \<in> set fs. 0 < n \<Longrightarrow> distinct (map fst fs)"
proof (induction fs)
  case (Cons f fs)
  obtain i n where f: "f = (i, n)" by fastforce
  have "i \<in> set [i..<i + n]" using Cons.prems(2) f by simp
  then have "i \<notin> set (run_pages fs)" using Cons.prems(1) f by (auto simp: disjoint_iff)
  then have "i \<notin> fst ` set fs" using heads_pages [of i fs] Cons.prems(2) by auto
  then show ?case using Cons f by auto
qed simp

lemma free_heads:
  assumes "spec_inv N a"
  shows "distinct (map fst (free_runs a))"
    and "i \<in> set (map fst (free_runs a)) \<Longrightarrow> page_use a i = Unused \<and> i < N"
    and "(i, n) \<in> set (free_runs a) \<Longrightarrow> 0 < n \<and> i + n \<le> N"
proof -
  note I = spec_invD [OF assms]
  have pos: "\<forall>(i, n) \<in> set (free_runs a). 0 < n" by (auto dest: I(3))
  show "distinct (map fst (free_runs a))" using heads_distinct [OF I(1) pos] .
  show "i \<in> set (map fst (free_runs a)) \<Longrightarrow> page_use a i = Unused \<and> i < N"
    using heads_pages [OF _ pos, of i] I(2) by auto
  show "0 < n \<and> i + n \<le> N" if "(i, n) \<in> set (free_runs a)"
  proof -
    have n: "0 < n" using I(3) [OF that] .
    have "i + (n - 1) \<in> set (run_pages (free_runs a))"
      unfolding run_pages_def using that n by (auto intro!: bexI [of _ "(i, n)"])
    then have "i + (n - 1) < N" using I(2) by blast
    then show ?thesis using n by simp
  qed
qed

lemma partial_use:
  assumes "spec_inv N a" and "i \<in> set (partial a k)"
  shows "\<exists>U. page_use a i = Chunks (k + 3) U \<and> U \<noteq> {..<chunk_count (k + 3)}"
  using spec_invD(5) [OF assms(1), of k] assms(2) by blast

lemma partial_high: "spec_inv N a \<Longrightarrow> slot_count \<le> k \<Longrightarrow> partial a k = []"
  using partial_pages [of N a _ k] by (fastforce simp: slot_count_def smb_pagesize_shift_def min_shift_def)

section \<open>Runs of pages\<close>

lemma word_of_nat_le_iff:
  "m < 2 ^ 64 \<Longrightarrow> n < 2 ^ 64 \<Longrightarrow> (word_of_nat n :: u64) \<le> word_of_nat m \<longleftrightarrow> n \<le> m"
  by (simp add: word_le_nat_alt unat_of_nat)

lemma word_of_nat_less_iff:
  "m < 2 ^ 64 \<Longrightarrow> n < 2 ^ 64 \<Longrightarrow> (word_of_nat n :: u64) < word_of_nat m \<longleftrightarrow> n < m"
  by (simp add: word_less_nat_alt unat_of_nat)

lemma alloc_pages_loop_eq:
  assumes "dchain s SMB_SLAB_PAGE p (map fst fs) FreeHead" and "pg_next (descs s p) = Some x"
    and "\<forall>(i, m) \<in> set fs. pg_slab (descs s (Page i)) = word_of_nat m \<and> m < 2 ^ 64" and "n < 2 ^ 64"
  shows "alloc_pages_loop s n x =
    Some (case take_first n fs of None \<Rightarrow> (None, s) | Some (i, _) \<Rightarrow> (Some i, take_run s i n))"
  using assms(1-3)
proof (induction fs arbitrary: p x)
  case Nil
  then show ?case by (subst alloc_pages_loop.simps) simp
next
  case (Cons f fs)
  obtain i m where f: "f = (i, m)" by fastforce
  have x: "x = Page i" and c: "dchain s SMB_SLAB_PAGE (Page i) (map fst fs) FreeHead"
    and m: "pg_slab (descs s (Page i)) = word_of_nat m" "m < 2 ^ 64"
    using Cons.prems f by auto
  have le: "(word_of_nat n :: u64) \<le> word_of_nat m \<longleftrightarrow> n \<le> m" using word_of_nat_le_iff [OF m(2) assms(4)] .
  show ?case
  proof (cases "n \<le> m")
    case True
    then show ?thesis using x m le f by (subst alloc_pages_loop.simps) simp
  next
    case False
    obtain y where y: "pg_next (descs s (Page i)) = Some y" using c by (cases fs) auto
    have "alloc_pages_loop s n y =
        Some (case take_first n fs of None \<Rightarrow> (None, s) | Some (i, _) \<Rightarrow> (Some i, take_run s i n))"
      using Cons.IH [OF c y] Cons.prems(3) by simp
    then show ?thesis using x m le f y False
      by (subst alloc_pages_loop.simps) (simp split: option.split prod.split)
  qed
qed

lemma take_first_split:
  assumes "take_first n fs = Some (i, gs)"
  shows "\<exists>xs m ys. fs = xs @ (i, m) # ys \<and> n \<le> m \<and> gs = xs @ (if n < m then (i + n, m - n) # ys else ys)"
  using assms
proof (induction n fs arbitrary: gs rule: take_first.induct)
  case (2 n j m fs)
  show ?case
  proof (cases "n \<le> m")
    case True
    then show ?thesis using 2(2) by (intro exI [of _ "[]"] exI [of _ m] exI [of _ fs]) auto
  next
    case False
    then obtain hs where h: "take_first n fs = Some (i, hs)" "gs = (j, m) # hs" using 2(2) by auto
    from 2(1) [OF False h(1)] obtain xs k ys where "fs = xs @ (i, k) # ys" "n \<le> k"
      "hs = xs @ (if n < k then (i + n, k - n) # ys else ys)" by blast
    then show ?thesis using h(2) by (intro exI [of _ "(j, m) # xs"] exI [of _ k] exI [of _ ys]) simp
  qed
qed simp

lemma range_step: "i \<le> j \<and> j < i + Suc n \<longleftrightarrow> j = i \<or> i + 1 \<le> j \<and> j < i + 1 + n" for i j n :: nat
  by auto

lemma busy_pages_descs:
  "descs (busy_pages i n s) (Page j) = (if i \<le> j \<and> j < i + n
     then \<lparr>pg_slab = SMB_SLAB_PAGE_BUSY, pg_next = None, pg_prev = (None, SMB_SLAB_PAGE)\<rparr> else descs s (Page j))"
proof (induction i n s rule: busy_pages.induct)
  case (2 i n s)
  then show ?case unfolding busy_pages.simps range_step by simp
qed auto

lemma busy_pages_heads: "m \<notin> range Page \<Longrightarrow> descs (busy_pages i n s) m = descs s m"
  by (induction i n s rule: busy_pages.induct) auto

lemma busy_pages_keeps [simp]:
  "words (busy_pages i n s) = words s" "real_pages (busy_pages i n s) = real_pages s"
  "seg_start (busy_pages i n s) = seg_start s" "seg_end (busy_pages i n s) = seg_end s"
  by (induction i n s rule: busy_pages.induct) simp_all

lemma page_rep_cong:
  "descs s' (Page i) = descs s (Page i) \<Longrightarrow> words s' (int i) = words s (int i) \<Longrightarrow> page_rep s' i u = page_rep s i u"
  by (cases u) simp_all

text \<open>The list of free runs after a run was taken out of it, before the pages are marked.\<close>

lemma take_run_links:
  assumes "rep s a" and "0 < n" and "take_first n (free_runs a) = Some (i, gs)" and "spec_alloc_run n a = (Some i, b)"
  obtains s1 where "take_run s i n = busy_pages (i + 1) (n - 1) (upd_desc (Page i) (\<lambda>_.
        \<lparr>pg_slab = word_of_nat n OR SMB_SLAB_PAGE_START, pg_next = None, pg_prev = (None, SMB_SLAB_PAGE)\<rparr>) s1)"
    and "dchain s1 SMB_SLAB_PAGE FreeHead (map fst gs) FreeHead"
    and "\<And>m. m \<notin> insert FreeHead (Page ` set (map fst gs)) \<Longrightarrow> descs s1 m = descs s m"
    and "\<And>j k. (j, k) \<in> set gs \<Longrightarrow> pg_slab (descs s1 (Page j)) = word_of_nat k"
    and "words s1 = words s" and "real_pages s1 = real_pages s" and "seg_start s1 = seg_start s" and "seg_end s1 = seg_end s"
proof -
  note R = repD [OF assms(1)]
  note I = spec_invD [OF R(1)]
  obtain xs m ys where fs: "free_runs a = xs @ (i, m) # ys" "n \<le> m" "gs = xs @ (if n < m then (i + n, m - n) # ys else ys)"
    using take_first_split [OF assms(3)] by blast
  have m: "i + m \<le> real_pages s" using free_heads(3) [OF R(1), of i m] fs(1) by simp
  then have big: "m < 2 ^ 64" "n < 2 ^ 64" using R(2) fs(2) by auto
  have slab: "pg_slab (descs s (Page i)) = word_of_nat m" using R(6) [of i m] fs(1) by simp
  have lt: "(word_of_nat n :: u64) < word_of_nat m \<longleftrightarrow> n < m" using word_of_nat_less_iff [OF big] .
  have ch: "dchain s SMB_SLAB_PAGE FreeHead (map fst xs @ i # map fst ys) FreeHead" using R(5) fs(1) by simp
  have di: "distinct (map fst xs @ i # map fst ys)" using free_heads(1) [OF R(1)] fs(1) by simp
  let ?d = "descs s (Page i)"
  define s1 where "s1 = (if n < m then set_prev (pg_next ?d) (Some (Page (i + n)), SMB_SLAB_PAGE)
        (set_next (fst (pg_prev ?d)) (Some (Page (i + n)))
          (upd_desc (Page (i + n)) (\<lambda>_. \<lparr>pg_slab = pg_slab ?d - word_of_nat n, pg_next = pg_next ?d, pg_prev = pg_prev ?d\<rparr>) s))
      else unlink i s)"
  have eq: "take_run s i n = busy_pages (i + 1) (n - 1) (upd_desc (Page i) (\<lambda>_.
        \<lparr>pg_slab = word_of_nat n OR SMB_SLAB_PAGE_START, pg_next = None, pg_prev = (None, SMB_SLAB_PAGE)\<rparr>) s1)"
    by (simp add: take_run_def Let_def s1_def slab lt unlink_def)
  show ?thesis
  proof (cases "n < m")
    case True
    have "i + n \<in> set [i..<i + m]" using True by simp
    moreover have "distinct (run_pages xs @ [i..<i + m] @ run_pages ys)" using I(1) fs(1) by (simp add: run_pages_append)
    then have "set [i..<i + m] \<inter> set (run_pages (xs @ ys)) = {}"
      by (simp only: distinct_append set_append run_pages_append) blast
    ultimately have "i + n \<notin> set (run_pages (xs @ ys))" by blast
    moreover have "\<forall>(i, n) \<in> set (xs @ ys). 0 < n" using fs(1) by (auto intro: I(3))
    ultimately have new: "i + n \<notin> set (map fst xs @ map fst ys)"
      using heads_pages [of "i + n" "xs @ ys"] by auto
    have s1: "s1 = set_prev (pg_next ?d) (Some (Page (i + n)), SMB_SLAB_PAGE)
        (set_next (fst (pg_prev ?d)) (Some (Page (i + n)))
          (upd_desc (Page (i + n)) (\<lambda>_. \<lparr>pg_slab = word_of_nat (m - n), pg_next = pg_next ?d, pg_prev = pg_prev ?d\<rparr>) s))"
      using True slab by (simp add: s1_def of_nat_diff)
    note C = dchain_replace [OF ch di _ new _ refl s1]
    have h: "FreeHead \<notin> range Page" "i + n \<noteq> i" using assms(2) by auto
    have gs: "map fst gs = map fst xs @ (i + n) # map fst ys" using True fs(3) by simp
    show ?thesis
    proof (rule that [OF eq])
      show "dchain s1 SMB_SLAB_PAGE FreeHead (map fst gs) FreeHead" using C(1) [OF h] gs by simp
      show "descs s1 m = descs s m" if "m \<notin> insert FreeHead (Page ` set (map fst gs))" for m
        using C(2) [OF h] that unfolding gs by blast
      show "pg_slab (descs s1 (Page j)) = word_of_nat k" if "(j, k) \<in> set gs" for j k
      proof (cases "j = i + n")
        case True
        then have "k = m - n" using that new fs(3) \<open>n < m\<close> by force
        then show ?thesis using C(8) [OF h] True by simp
      next
        case False
        then have "(j, k) \<in> set (free_runs a)" using that fs True by auto
        then show ?thesis using C(7) [OF h] False R(6) by simp
      qed
    qed (use C(3-6) [OF h] in blast)+
  next
    case False
    have h: "FreeHead \<notin> range Page" by auto
    have s1: "s1 = unlink i s" using False by (simp add: s1_def)
    note C = dchain_unlink [OF ch di h]
    have gs: "gs = xs @ ys" using False fs(3) by simp
    show ?thesis
    proof (rule that [OF eq])
      show "dchain s1 SMB_SLAB_PAGE FreeHead (map fst gs) FreeHead" using C(1) gs s1 by simp
      show "pg_slab (descs s1 (Page j)) = word_of_nat k" if "(j, k) \<in> set gs" for j k
        using C(2) R(6) [of j k] that gs fs(1) s1 by (auto simp: only_links_def)
    qed (use C(2) gs s1 in \<open>auto simp: only_links_def\<close>)
  qed
qed

lemma take_run_rep:
  assumes "rep s a" and "0 < n" and "spec_alloc_run n a = (Some i, b)"
  shows "rep (take_run s i n) b"
proof -
  note R = repD [OF assms(1)]
  obtain gs where t: "take_first n (free_runs a) = Some (i, gs)"
    and b: "b = a\<lparr>free_runs := gs, page_use := mark_run i n (page_use a)\<rparr>"
    using assms(3) by (auto simp: spec_alloc_run_def split: option.splits prod.splits)
  note A = spec_alloc_run_ok [OF R(1) assms(2,3)]
  let ?run = "\<lparr>pg_slab = word_of_nat n OR SMB_SLAB_PAGE_START, pg_next = None, pg_prev = (None, SMB_SLAB_PAGE)\<rparr>"
  obtain s1 where eq: "take_run s i n = busy_pages (i + 1) (n - 1) (upd_desc (Page i) (\<lambda>_. ?run) s1)"
    and c1: "dchain s1 SMB_SLAB_PAGE FreeHead (map fst gs) FreeHead"
    and f1: "\<And>m. m \<notin> insert FreeHead (Page ` set (map fst gs)) \<Longrightarrow> descs s1 m = descs s m"
    and sl: "\<And>j k. (j, k) \<in> set gs \<Longrightarrow> pg_slab (descs s1 (Page j)) = word_of_nat k"
    and k1: "words s1 = words s" "real_pages s1 = real_pages s" "seg_start s1 = seg_start s" "seg_end s1 = seg_end s"
    using take_run_links [OF assms(1,2) t assms(3)] by metis
  let ?s = "take_run s i n"
  have heads: "page_use b j = Unused" if "j \<in> set (map fst gs)" for j
    using free_heads(2) [OF A(1), of j] that b by simp
  have out: "descs ?s (Page j) = descs s1 (Page j)" if "\<not> (i \<le> j \<and> j < i + n)" for j
    using that assms(2) by (auto simp: eq busy_pages_descs)
  have hd: "descs ?s m = descs s1 m" if "m \<notin> range Page" for m
    using that by (auto simp: eq busy_pages_heads)
  have inr: "page_use b j \<noteq> Unused" if "i \<le> j" "j < i + n" for j
    using that by (auto simp: b mark_run_def)
  have gs: "descs ?s (Page j) = descs s1 (Page j)" if "j \<in> set (map fst gs)" for j
    using out [of j] inr [of j] heads [OF that] by blast
  have old: "descs ?s (Page j) = descs s (Page j)" if "page_use b j \<noteq> Unused" "\<not> (i \<le> j \<and> j < i + n)" for j
    using out [OF that(2)] f1 [of "Page j"] heads [of j] that(1) by auto
  show ?thesis
    unfolding rep_def
  proof (intro conjI allI impI)
    have k: "real_pages ?s = real_pages s" "seg_start ?s = seg_start s" "seg_end ?s = seg_end s" "words ?s = words s"
      using k1 by (simp_all add: eq)
    show "spec_inv (real_pages ?s) b" "real_pages ?s < 2 ^ 52" "seg_start ?s mod 4096 = 0"
      "seg_start ?s + int (real_pages ?s) * 4096 \<le> seg_end ?s"
      using A(1) R(2-4) k by simp_all
    have "descs ?s m = descs s1 m" if "m \<in> insert FreeHead (Page ` set (map fst gs))" for m
      using that hd [of FreeHead] gs by blast
    then have "dchain ?s SMB_SLAB_PAGE FreeHead (map fst gs) FreeHead"
      by (intro dchain_frame [OF c1]) simp_all
    then show "dchain ?s SMB_SLAB_PAGE FreeHead (map fst (free_runs b)) FreeHead" by (simp add: b)
    show "\<forall>(j, k) \<in> set (free_runs b). pg_slab (descs ?s (Page j)) = word_of_nat k"
      using sl gs by (force simp: b)
    fix k assume "k < slot_count"
    have "descs ?s m = descs s m" if m: "m \<in> insert (Slot k) (Page ` set (partial a k))" for m
    proof (cases "m = Slot k")
      case True
      then show ?thesis using hd [of m] f1 [of m] by auto
    next
      case False
      then obtain j where j: "m = Page j" "j \<in> set (partial a k)" using m by auto
      then obtain U where "page_use a j = Chunks (k + 3) U" using partial_use [OF R(1)] by blast
      then have "page_use b j \<noteq> Unused" "\<not> (i \<le> j \<and> j < i + n)" using A(4) by (auto simp: b mark_run_def)
      then show ?thesis using old j by simp
    qed
    then have "dchain ?s (class_type (k + 3)) (Slot k) (partial a k) (Slot k)"
      by (intro dchain_frame [OF R(7) [OF \<open>k < slot_count\<close>]]) simp_all
    then show "dchain ?s (class_type (k + 3)) (Slot k) (partial b k) (Slot k)" by (simp add: b)
  next
    fix j
    have w: "words ?s = words s" using k1 by (simp add: eq)
    consider "j = i" | "i < j" "j < i + n" | "\<not> (i \<le> j \<and> j < i + n)" by linarith
    then show "page_rep ?s j (page_use b j)"
    proof cases
      case 1
      then show ?thesis by (simp add: b mark_run_def eq busy_pages_descs)
    next
      case 2
      then show ?thesis by (simp add: b mark_run_def)
    next
      case 3
      then have use: "page_use b j = page_use a j" using assms(2) by (auto simp: b mark_run_def)
      show ?thesis
      proof (cases "page_use b j = Unused")
        case False
        then show ?thesis using R(8) [of j] page_rep_cong [OF old [OF False 3]] w use by simp
      qed simp
    qed
  qed
qed

lemma alloc_pages_rep:
  assumes "rep s a" and "0 < n" and "n < 2 ^ 64"
  shows "\<exists>s'. smb_slab_alloc_pages s n = Some (fst (spec_alloc_run n a), s') \<and> rep s' (snd (spec_alloc_run n a))
           \<and> seg_start s' = seg_start s \<and> real_pages s' = real_pages s"
proof -
  note R = repD [OF assms(1)]
  obtain x where x: "pg_next (descs s FreeHead) = Some x" using R(5) by (cases "map fst (free_runs a)") auto
  have sl: "\<forall>(i, m) \<in> set (free_runs a). pg_slab (descs s (Page i)) = word_of_nat m \<and> m < 2 ^ 64"
  proof -
    have "pg_slab (descs s (Page i)) = word_of_nat m \<and> m < 2 ^ 64" if "(i, m) \<in> set (free_runs a)" for i m
      using R(6) [OF that] free_heads(3) [OF R(1) that] R(2) by simp
    then show ?thesis by blast
  qed
  note L = alloc_pages_loop_eq [OF R(5) x sl assms(3)]
  show ?thesis
  proof (cases "take_first n (free_runs a)")
    case None
    then show ?thesis using L x assms(1) by (simp add: smb_slab_alloc_pages_def spec_alloc_run_def)
  next
    case (Some y)
    then obtain i gs where y: "take_first n (free_runs a) = Some (i, gs)" by (cases y) auto
    then obtain b where b: "spec_alloc_run n a = (Some i, b)" by (simp add: spec_alloc_run_def)
    have "seg_start (take_run s i n) = seg_start s" "real_pages (take_run s i n) = real_pages s"
      using take_run_links [OF assms(1,2) y b] by (metis busy_pages_keeps(2,3) upd_desc_keeps(2,3))+
    then show ?thesis using L x y b take_run_rep [OF assms(1,2) b] by (simp add: smb_slab_alloc_pages_def)
  qed
qed

text \<open>Returning a run.\<close>

lemma clear_pages_descs:
  "descs (clear_pages i n s) (Page j) = (if i \<le> j \<and> j < i + n then zero_page else descs s (Page j))"
proof (induction i n s rule: clear_pages.induct)
  case (2 i n s)
  then show ?case unfolding clear_pages.simps range_step by simp
qed auto

lemma clear_pages_heads: "m \<notin> range Page \<Longrightarrow> descs (clear_pages i n s) m = descs s m"
  by (induction i n s rule: clear_pages.induct) auto

lemma clear_pages_keeps [simp]:
  "words (clear_pages i n s) = words s" "real_pages (clear_pages i n s) = real_pages s"
  "seg_start (clear_pages i n s) = seg_start s" "seg_end (clear_pages i n s) = seg_end s"
  by (induction i n s rule: clear_pages.induct) simp_all

text \<open>The last part of \<open>smb_slab_free_pages\<close>: the page becomes the first of the list of free runs.\<close>

definition push_free :: "nat \<Rightarrow> nat \<Rightarrow> segment \<Rightarrow> segment" where
  "push_free i pages s =
     (let first = pg_next (descs s FreeHead);
          s3 = upd_desc (Page i) (\<lambda>_. \<lparr>pg_slab = word_of_nat pages, pg_next = first,
                 pg_prev = (Some FreeHead, SMB_SLAB_PAGE)\<rparr>) s;
          s4 = set_prev first (Some (Page i), SMB_SLAB_PAGE) s3
      in upd_desc FreeHead (\<lambda>d. d\<lparr>pg_next := Some (Page i)\<rparr>) s4)"

lemma push_free_keeps [simp]:
  "words (push_free i n s) = words s" "real_pages (push_free i n s) = real_pages s"
  "seg_start (push_free i n s) = seg_start s" "seg_end (push_free i n s) = seg_end s"
  by (simp_all add: push_free_def Let_def)

lemma free_pages_eq:
  "smb_slab_free_pages s i n = push_free i n
     (let s1 = clear_pages (i + 1) (n - 1) s in if pg_next (descs s1 (Page i)) \<noteq> None then unlink i s1 else s1)"
  by (simp add: smb_slab_free_pages_def push_free_def unlink_def Let_def)

text \<open>
  If the page is in no list and its run is not used otherwise, the free list gets it; other pages and the
  lists of the size classes stay.
\<close>

lemma push_free_rep:
  assumes "dchain s SMB_SLAB_PAGE FreeHead (map fst fs) FreeHead" and "distinct (map fst fs)" and "i \<notin> set (map fst fs)"
    and "\<And>j k. (j, k) \<in> set fs \<Longrightarrow> pg_slab (descs s (Page j)) = word_of_nat k"
  shows "dchain (push_free i n s) SMB_SLAB_PAGE FreeHead (map fst ((i, n) # fs)) FreeHead"
    and "(j, k) \<in> set ((i, n) # fs) \<Longrightarrow> pg_slab (descs (push_free i n s) (Page j)) = word_of_nat k"
    and "m \<notin> insert FreeHead (Page ` set (i # map fst fs)) \<Longrightarrow> descs (push_free i n s) m = descs s m"
proof -
  obtain x where x: "pg_next (descs s FreeHead) = Some x" "x = FreeHead \<or> x \<in> Page ` set (map fst fs)"
    using assms(1) by (cases fs) auto
  have xi: "x \<noteq> Page i" using x(2) assms(3) by auto
  let ?d = "\<lparr>pg_slab = word_of_nat n, pg_next = Some x, pg_prev = (Some FreeHead, SMB_SLAB_PAGE)\<rparr>"
  have p: "push_free i n s = upd_desc FreeHead (\<lambda>d. d\<lparr>pg_next := Some (Page i)\<rparr>)
      (upd_desc x (\<lambda>d. d\<lparr>pg_prev := (Some (Page i), SMB_SLAB_PAGE)\<rparr>) (upd_desc (Page i) (\<lambda>_. ?d) s))"
    using x(1) by (simp add: push_free_def Let_def)
  let ?ph = "if x = FreeHead then (Some (Page i), SMB_SLAB_PAGE) else pg_prev (descs s FreeHead)"
  have "descs (push_free i n s) = (\<lambda>m. if m = FreeHead then (descs s FreeHead)\<lparr>pg_next := Some (Page i), pg_prev := ?ph\<rparr>
      else if m = Page i then ?d
      else if Some m = Some x then (descs s m)\<lparr>pg_prev := (Some (Page i), SMB_SLAB_PAGE)\<rparr> else descs s m)"
    using xi by (auto simp: p)
  from dchain_push [OF assms(1-3) _ x(1) [symmetric] _ _ this]
  show "dchain (push_free i n s) SMB_SLAB_PAGE FreeHead (map fst ((i, n) # fs)) FreeHead" by simp
  show "(j, k) \<in> set ((i, n) # fs) \<Longrightarrow> pg_slab (descs (push_free i n s) (Page j)) = word_of_nat k"
    using assms(3,4) xi by (cases "j = i") (force simp: p)+
  show "m \<notin> insert FreeHead (Page ` set (i # map fst fs)) \<Longrightarrow> descs (push_free i n s) m = descs s m"
    using x(2) by (auto simp: p)
qed

lemma free_run_rep:
  assumes "rep s a" and "page_use a i = Run n"
  shows "rep (smb_slab_free_pages s i n) (spec_free_run i n a)"
proof -
  note R = repD [OF assms(1)]
  note I = spec_invD [OF R(1)]
  note run = I(7) [OF assms(2)]
  let ?b = "spec_free_run i n a" and ?s1 = "clear_pages (i + 1) (n - 1) s" and ?fs = "free_runs a"
  have F: "spec_inv (real_pages s) ?b" using spec_free_run_ok(1) [OF R(1) assms(2)] .
  have use: "page_use a j \<in> {Run n, Inner}" if "i \<le> j" "j < i + n" for j
    using that run assms(2) by (cases "j = i") auto
  have "pg_next (descs s (Page i)) = None" using R(8) [of i] assms(2) by simp
  then have eq: "smb_slab_free_pages s i n = push_free i n ?s1"
    by (simp add: free_pages_eq Let_def clear_pages_descs)
  have keep: "descs ?s1 (Page j) = descs s (Page j)" if "page_use a j \<notin> {Run n, Inner} \<or> \<not> (i \<le> j \<and> j < i + n)" for j
    using that use [of j] run by (auto simp: clear_pages_descs)
  have hd: "j \<in> set (map fst ?fs) \<Longrightarrow> page_use a j = Unused" for j using free_heads(2) [OF R(1)] by blast
  have P: "dchain ?s1 SMB_SLAB_PAGE FreeHead (map fst ?fs) FreeHead" "distinct (map fst ?fs)" "i \<notin> set (map fst ?fs)"
    "\<And>j k. (j, k) \<in> set ?fs \<Longrightarrow> pg_slab (descs ?s1 (Page j)) = word_of_nat k"
  proof -
    have "descs ?s1 m = descs s m" if m: "m \<in> insert FreeHead (Page ` set (map fst ?fs))" for m
    proof (cases "m = FreeHead")
      case False
      then obtain j where j: "m = Page j" "j \<in> set (map fst ?fs)" using m by blast
      show ?thesis using keep [of j] hd [OF j(2)] j(1) by simp
    qed (simp add: clear_pages_heads)
    then show "dchain ?s1 SMB_SLAB_PAGE FreeHead (map fst ?fs) FreeHead" by (intro dchain_frame [OF R(5)]) simp_all
    show "distinct (map fst ?fs)" by (rule free_heads(1) [OF R(1)])
    show "i \<notin> set (map fst ?fs)" using hd [of i] assms(2) by auto
    fix j k assume jk: "(j, k) \<in> set ?fs"
    then have "page_use a j = Unused" using hd [of j] by force
    then show "pg_slab (descs ?s1 (Page j)) = word_of_nat k" using keep [of j] R(6) [OF jk] by simp
  qed
  note Q = push_free_rep [OF P]
  have far: "descs (push_free i n ?s1) (Page j) = descs s (Page j)"
    if "page_use a j \<noteq> Unused" "\<not> (i \<le> j \<and> j < i + n)" for j
    using Q(3) [of "Page j" n] keep [of j] hd [of j] that run by fastforce
  show ?thesis
    unfolding rep_def eq
  proof (intro conjI allI impI)
    show "spec_inv (real_pages (push_free i n ?s1)) ?b" "real_pages (push_free i n ?s1) < 2 ^ 52"
      "seg_start (push_free i n ?s1) mod 4096 = 0"
      "seg_start (push_free i n ?s1) + int (real_pages (push_free i n ?s1)) * 4096 \<le> seg_end (push_free i n ?s1)"
      using F R(2-4) by simp_all
    show "dchain (push_free i n ?s1) SMB_SLAB_PAGE FreeHead (map fst (free_runs ?b)) FreeHead"
      using Q(1) by (simp add: spec_free_run_def)
    show "\<forall>(j, k) \<in> set (free_runs ?b). pg_slab (descs (push_free i n ?s1) (Page j)) = word_of_nat k"
      using Q(2) by (auto simp: spec_free_run_def)
    fix k assume k: "k < slot_count"
    have "descs (push_free i n ?s1) m = descs s m" if m: "m \<in> insert (Slot k) (Page ` set (partial a k))" for m
    proof (cases "m = Slot k")
      case True
      then show ?thesis using Q(3) [of m n] by (simp add: clear_pages_heads)
    next
      case False
      then obtain j where j: "m = Page j" "j \<in> set (partial a k)" using m by auto
      then obtain U where "page_use a j = Chunks (k + 3) U" using partial_use [OF R(1)] by blast
      then show ?thesis using far [of j] use [of j] j(1) by auto
    qed
    then have "dchain (push_free i n ?s1) (class_type (k + 3)) (Slot k) (partial a k) (Slot k)"
      by (intro dchain_frame [OF R(7) [OF k]]) simp_all
    then show "dchain (push_free i n ?s1) (class_type (k + 3)) (Slot k) (partial ?b k) (Slot k)"
      by (simp add: spec_free_run_def)
  next
    fix j
    show "page_rep (push_free i n ?s1) j (page_use ?b j)"
    proof (cases "page_use a j = Unused \<or> i \<le> j \<and> j < i + n")
      case True
      then show ?thesis by (auto simp: spec_free_run_def)
    next
      case False
      then have "page_use ?b j = page_use a j" by (auto simp: spec_free_run_def)
      then show ?thesis using page_rep_cong [OF far [of j]] R(8) [of j] False by simp
    qed
  qed
qed

section \<open>Pages of chunks\<close>

text \<open>
  The representation without the page \<open>i\<close>, which is being worked on, and with \<open>L\<close> as the list of its
  size class \<open>k\<close>.
\<close>

definition rep_but :: "segment \<Rightarrow> pool_spec \<Rightarrow> nat \<Rightarrow> nat \<Rightarrow> nat list \<Rightarrow> bool" where
  "rep_but s a i k L \<longleftrightarrow>
     spec_inv (real_pages s) a \<and> real_pages s < 2 ^ 52 \<and> seg_start s mod 4096 = 0
     \<and> seg_start s + int (real_pages s) * 4096 \<le> seg_end s
     \<and> k < slot_count \<and> (page_use a i = Run 1 \<or> (\<exists>U. page_use a i = Chunks (k + 3) U))
     \<and> distinct L \<and> set L \<subseteq> insert i (set (partial a k))
     \<and> dchain s SMB_SLAB_PAGE FreeHead (map fst (free_runs a)) FreeHead
     \<and> (\<forall>(i, n) \<in> set (free_runs a). pg_slab (descs s (Page i)) = word_of_nat n)
     \<and> dchain s (class_type (k + 3)) (Slot k) L (Slot k)
     \<and> (\<forall>k' < slot_count. k' \<noteq> k \<longrightarrow> dchain s (class_type (k' + 3)) (Slot k') (partial a k') (Slot k'))
     \<and> (\<forall>j. j \<noteq> i \<longrightarrow> page_rep s j (page_use a j))"

lemma rep_butI:
  assumes "rep s a" and "k < slot_count" and "page_use a i = Run 1 \<or> (\<exists>U. page_use a i = Chunks (k + 3) U)"
  shows "rep_but s a i k (partial a k)"
  unfolding rep_but_def using repD [OF assms(1)] assms(2,3) spec_invD(4) [OF repD(1) [OF assms(1)], of k] by blast

text \<open>The nodes of the other lists are not those of this one.\<close>

lemma rep_but_apart:
  assumes "rep_but s a i k L"
  shows "i \<notin> set (map fst (free_runs a))" and "set (map fst (free_runs a)) \<inter> set L = {}"
    and "k' \<noteq> k \<Longrightarrow> i \<notin> set (partial a k')" and "k' \<noteq> k \<Longrightarrow> set (partial a k') \<inter> set L = {}"
proof -
  note B = assms [unfolded rep_but_def]
  have inv: "spec_inv (real_pages s) a" using B by blast
  have fr: "j \<in> set (map fst (free_runs a)) \<Longrightarrow> page_use a j = Unused" for j using free_heads(2) [OF inv] by blast
  have pa: "j \<in> set (partial a k') \<Longrightarrow> \<exists>U. page_use a j = Chunks (k' + 3) U" for j k'
    using partial_use [OF inv] by blast
  have u: "page_use a i = Run 1 \<or> (\<exists>U. page_use a i = Chunks (k + 3) U)" and L: "set L \<subseteq> insert i (set (partial a k))"
    using B by blast+
  show i: "i \<notin> set (map fst (free_runs a))"
  proof
    assume "i \<in> set (map fst (free_runs a))"
    from fr [OF this] u show False by auto
  qed
  have "j \<notin> set L" if j: "j \<in> set (map fst (free_runs a))" for j
  proof
    assume "j \<in> set L"
    then have "j = i \<or> j \<in> set (partial a k)" using L by blast
    then show False using fr [OF j] i j pa [of j k] by auto
  qed
  then show "set (map fst (free_runs a)) \<inter> set L = {}" by blast
  show ik: "i \<notin> set (partial a k')" if "k' \<noteq> k" for k'
  proof
    assume "i \<in> set (partial a k')"
    from pa [OF this] u that show False by auto
  qed
  show "set (partial a k') \<inter> set L = {}" if "k' \<noteq> k"
  proof -
    have "j \<notin> set L" if j: "j \<in> set (partial a k')" for j
    proof
      assume "j \<in> set L"
      then have "j = i \<or> j \<in> set (partial a k)" using L by blast
      then show False using pa [OF j] j ik [OF \<open>k' \<noteq> k\<close>] pa [of j k] \<open>k' \<noteq> k\<close> by auto
    qed
    then show ?thesis by blast
  qed
qed

lemma rep_butD:
  assumes "rep_but s a i k L"
  shows "spec_inv (real_pages s) a" and "k < slot_count" and "distinct L" and "set L \<subseteq> insert i (set (partial a k))"
    and "dchain s (class_type (k + 3)) (Slot k) L (Slot k)" and "j \<noteq> i \<Longrightarrow> page_rep s j (page_use a j)"
    and "dchain s SMB_SLAB_PAGE FreeHead (map fst (free_runs a)) FreeHead"
    and "(j, n) \<in> set (free_runs a) \<Longrightarrow> pg_slab (descs s (Page j)) = word_of_nat n"
    and "k' < slot_count \<Longrightarrow> k' \<noteq> k \<Longrightarrow> dchain s (class_type (k' + 3)) (Slot k') (partial a k') (Slot k')"
  using assms unfolding rep_but_def by blast+

text \<open>Work on the page \<open>i\<close> and the list of its class.\<close>

lemma rep_but_frame:
  assumes "rep_but s a i k L"
    and "\<And>m. m \<notin> insert (Slot k) (Page ` insert i (set L)) \<Longrightarrow> descs s' m = descs s m"
    and "\<And>j. j \<in> set L \<Longrightarrow> j \<noteq> i \<Longrightarrow> pg_slab (descs s' (Page j)) = pg_slab (descs s (Page j))
           \<and> snd (pg_prev (descs s' (Page j))) = snd (pg_prev (descs s (Page j)))"
    and "\<And>j. j \<noteq> int i \<Longrightarrow> words s' j = words s j" and "real_pages s' = real_pages s"
    and "seg_start s' = seg_start s" and "seg_end s' = seg_end s"
    and "distinct L'" and "set L' \<subseteq> insert i (set (partial a k))"
    and "dchain s' (class_type (k + 3)) (Slot k) L' (Slot k)"
  shows "rep_but s' a i k L'"
proof -
  note B = assms(1) [unfolded rep_but_def] and A = rep_but_apart [OF assms(1)] and D = rep_butD [OF assms(1)]
  have free: "descs s' m = descs s m" if m: "m \<in> insert FreeHead (Page ` set (map fst (free_runs a)))" for m
    by (rule assms(2)) (use m A(1,2) in blast)
  have other: "descs s' m = descs s m" if m: "m \<in> insert (Slot k') (Page ` set (partial a k'))" "k' \<noteq> k" for m k'
    by (rule assms(2)) (use m A(3,4) [OF m(2)] in blast)
  have "dchain s' SMB_SLAB_PAGE FreeHead (map fst (free_runs a)) FreeHead"
    by (intro dchain_frame [OF D(7)]) (use free in simp_all)
  moreover have "pg_slab (descs s' (Page j)) = word_of_nat n" if jn: "(j, n) \<in> set (free_runs a)" for j n
  proof -
    have "Page j \<in> insert FreeHead (Page ` set (map fst (free_runs a)))" using jn by force
    from free [OF this] D(8) [OF jn] show ?thesis by simp
  qed
  moreover have "dchain s' (class_type (k' + 3)) (Slot k') (partial a k') (Slot k')" if "k' < slot_count" "k' \<noteq> k" for k'
    using other [OF _ that(2)] by (intro dchain_frame [OF D(9) [OF that]]) auto
  moreover have "page_rep s' j (page_use a j)" if ji: "j \<noteq> i" for j
  proof (cases "j \<in> set L")
    case True
    then obtain U where U: "page_use a j = Chunks (k + 3) U" "U \<noteq> {..<chunk_count (k + 3)}"
      using partial_use [OF D(1), of j k] D(4) ji by blast
    then show ?thesis using D(6) [OF ji] assms(3) [OF True ji] assms(4) [of "int j"] ji by simp
  next
    case False
    then have "descs s' (Page j) = descs s (Page j)" using assms(2) [of "Page j"] ji by auto
    then show ?thesis using D(6) [OF ji] assms(4) [of "int j"] ji page_rep_cong [of s' j s] by simp
  qed
  ultimately show ?thesis
    unfolding rep_but_def assms(5-7) using B assms(8-10) by blast
qed

lemma rep_but_page:
  assumes "rep_but s a i k L" and "\<And>m. m \<noteq> Page i \<Longrightarrow> descs s' m = descs s m"
    and "i \<in> set L \<Longrightarrow> pg_next (descs s' (Page i)) = pg_next (descs s (Page i))
           \<and> pg_prev (descs s' (Page i)) = pg_prev (descs s (Page i))"
    and "\<And>j. j \<noteq> int i \<Longrightarrow> words s' j = words s j" and "real_pages s' = real_pages s"
    and "seg_start s' = seg_start s" and "seg_end s' = seg_end s"
  shows "rep_but s' a i k L"
proof (rule rep_but_frame [OF assms(1)])
  note D = rep_butD [OF assms(1)]
  have same: "pg_next (descs s' m) = pg_next (descs s m) \<and> pg_prev (descs s' m) = pg_prev (descs s m)"
    if m: "m \<in> insert (Slot k) (Page ` set L)" for m
  proof (cases "m = Page i")
    case True
    then show ?thesis using assms(3) m by auto
  qed (simp add: assms(2))
  show "dchain s' (class_type (k + 3)) (Slot k) L (Slot k)"
    by (intro dchain_frame [OF D(5)]) (use same in simp_all)
qed (use assms(2,4-7) rep_butD(3,4) [OF assms(1)] in auto)

lemma rep_but_unlink:
  assumes "rep_but s a i k L" and "i \<in> set L"
  shows "rep_but (unlink i s) a i k (remove1 i L)" and "descs (unlink i s) (Page i) = descs s (Page i)"
    and "words (unlink i s) = words s"
proof -
  note D = rep_butD [OF assms(1)]
  obtain xs ys where L: "L = xs @ i # ys" using split_list [OF assms(2)] by blast
  have r: "remove1 i L = xs @ ys" using D(3) L by (simp add: remove1_append)
  note U = dchain_unlink [OF D(5) [unfolded L] D(3) [unfolded L], simplified]
  show "descs (unlink i s) (Page i) = descs s (Page i)" using U(3) .
  note O = U(2) [unfolded only_links_def]
  show "words (unlink i s) = words s" using O by blast
  show "rep_but (unlink i s) a i k (remove1 i L)"
  proof (rule rep_but_frame [OF assms(1)])
    show "dchain (unlink i s) (class_type (k + 3)) (Slot k) (remove1 i L) (Slot k)" using U(1) r by simp
    show "distinct (remove1 i L)" using D(3) by simp
    show "set (remove1 i L) \<subseteq> insert i (set (partial a k))" using D(4) set_remove1_subset [of i L] by blast
    fix m assume "m \<notin> insert (Slot k) (Page ` insert i (set L))"
    then show "descs (unlink i s) m = descs s m" using O L by auto
  qed (use O in auto)
qed

lemma relink_descs:
  assumes "pg_next (descs s (Slot k)) = Some x" and "x \<noteq> Page i"
  shows "descs (relink i k t s) =
    (\<lambda>m. if m = Slot k then (descs s (Slot k))\<lparr>pg_next := Some (Page i),
             pg_prev := if x = Slot k then (Some (Page i), t) else pg_prev (descs s (Slot k))\<rparr>
         else if m = Page i then (descs s (Page i))\<lparr>pg_next := Some x, pg_prev := (Some (Slot k), t)\<rparr>
         else if Some m = Some x then (descs s m)\<lparr>pg_prev := (Some (Page i), t)\<rparr> else descs s m)"
  using assms by (auto simp: relink_def Let_def)

lemma relink_keeps [simp]:
  "words (relink i k t s) = words s" "real_pages (relink i k t s) = real_pages s"
  "seg_start (relink i k t s) = seg_start s" "seg_end (relink i k t s) = seg_end s"
  by (simp_all add: relink_def Let_def)

lemma rep_but_relink:
  assumes "rep_but s a i k L" and "i \<notin> set L" and "t = class_type (k + 3)"
  shows "rep_but (relink i k t s) a i k (i # L)" and "pg_slab (descs (relink i k t s) (Page i)) = pg_slab (descs s (Page i))"
    and "snd (pg_prev (descs (relink i k t s) (Page i))) = t"
proof -
  note D = rep_butD [OF assms(1)]
  obtain x where x: "pg_next (descs s (Slot k)) = Some x" "x = Slot k \<or> x \<in> Page ` set L"
    using D(5) by (cases L) auto
  have xi: "x \<noteq> Page i" using x(2) assms(2) by auto
  note E = relink_descs [OF x(1) xi, of t]
  show "pg_slab (descs (relink i k t s) (Page i)) = pg_slab (descs s (Page i))"
    "snd (pg_prev (descs (relink i k t s) (Page i))) = t" by (simp_all add: E)
  show "rep_but (relink i k t s) a i k (i # L)"
  proof (rule rep_but_frame [OF assms(1)])
    show "dchain (relink i k t s) (class_type (k + 3)) (Slot k) (i # L) (Slot k)"
      using dchain_push [OF D(5,3) assms(2) _ x(1) [symmetric] _ _ E [unfolded assms(3)]] assms(3) by simp
    show "distinct (i # L)" "set (i # L) \<subseteq> insert i (set (partial a k))" using D(3,4) assms(2) by simp_all
    show "pg_slab (descs (relink i k t s) (Page j)) = pg_slab (descs s (Page j))
        \<and> snd (pg_prev (descs (relink i k t s) (Page j))) = snd (pg_prev (descs s (Page j)))"
      if "j \<in> set L" "j \<noteq> i" for j
      using dchain_type [OF D(5) that(1)] that(2) unfolding E by (simp add: assms(3))
  qed (use x(2) in \<open>auto simp: E\<close>)
qed

lemma rep_but_link_first:
  assumes "rep_but s a i k []" and "t = class_type (k + 3)"
  shows "rep_but (link_first (Page i) (Slot k) t w s) a i k [i]"
    and "descs (link_first (Page i) (Slot k) t w s) (Page i) = \<lparr>pg_slab = w, pg_next = Some (Slot k), pg_prev = (Some (Slot k), t)\<rparr>"
proof -
  show "rep_but (link_first (Page i) (Slot k) t w s) a i k [i]"
    by (rule rep_but_frame [OF assms(1)]) (simp_all add: link_first_def assms(2))
qed (simp add: link_first_def)

lemma rep_but_done:
  assumes "rep_but s a i k L" and "page_rep s i u" and "b = a\<lparr>page_use := (page_use a)(i := u), partial := (partial a)(k := L)\<rparr>"
    and "spec_inv (real_pages s) b"
  shows "rep s b"
  using assms(1,2,4) unfolding rep_def rep_but_def assms(3) by (auto simp del: fun_upd_apply simp: fun_upd_def)

lemma rep_but_free:
  assumes "rep_but s a i k L" and "i \<notin> set L"
    and "b = a\<lparr>free_runs := (i, 1) # free_runs a, page_use := (page_use a)(i := Unused), partial := (partial a)(k := L)\<rparr>"
    and "spec_inv (real_pages s) b"
  shows "rep (push_free i 1 s) b"
proof -
  note B = assms(1) [unfolded rep_but_def] and A = rep_but_apart [OF assms(1)] and D = rep_butD [OF assms(1)]
  note Q = push_free_rep [OF D(7) free_heads(1) [OF D(1)] A(1) D(8)]
  have far: "descs (push_free i 1 s) m = descs s m" if "m \<notin> insert FreeHead (Page ` set (i # map fst (free_runs a)))" for m
    using Q(3) that by blast
  have L: "descs (push_free i 1 s) m = descs s m" if m: "m \<in> insert (Slot k) (Page ` set L)" for m
    by (rule far) (use m assms(2) A(2) in auto)
  have P: "descs (push_free i 1 s) m = descs s m" if m: "m \<in> insert (Slot k') (Page ` set (partial a k'))" "k' \<noteq> k" for m k'
  proof (rule far)
    have "j \<notin> set (map fst (free_runs a))" if "j \<in> set (partial a k')" for j
    proof
      assume "j \<in> set (map fst (free_runs a))"
      then have "page_use a j = Unused" using free_heads(2) [OF D(1)] by blast
      then show False using partial_use [OF D(1) that] by simp
    qed
    then show "m \<notin> insert FreeHead (Page ` set (i # map fst (free_runs a)))" using m A(3) [OF m(2)] by auto
  qed
  show ?thesis
    unfolding rep_def
  proof (intro conjI allI impI)
    show "spec_inv (real_pages (push_free i 1 s)) b" "real_pages (push_free i 1 s) < 2 ^ 52"
      "seg_start (push_free i 1 s) mod 4096 = 0"
      "seg_start (push_free i 1 s) + int (real_pages (push_free i 1 s)) * 4096 \<le> seg_end (push_free i 1 s)"
      using assms(4) B by simp_all
    show "dchain (push_free i 1 s) SMB_SLAB_PAGE FreeHead (map fst (free_runs b)) FreeHead"
      using Q(1) by (simp add: assms(3))
    have fb: "free_runs b = (i, 1) # free_runs a" by (simp add: assms(3))
    have "pg_slab (descs (push_free i 1 s) (Page j)) = word_of_nat n" if "(j, n) \<in> set (free_runs b)" for j n
      using that unfolding fb by (rule Q(2) [rotated])
    then show "\<forall>(j, n) \<in> set (free_runs b). pg_slab (descs (push_free i 1 s) (Page j)) = word_of_nat n" by clarify
    fix k' assume k': "k' < slot_count"
    show "dchain (push_free i 1 s) (class_type (k' + 3)) (Slot k') (partial b k') (Slot k')"
    proof (cases "k' = k")
      case True
      have "dchain (push_free i 1 s) (class_type (k + 3)) (Slot k) L (Slot k)"
        by (intro dchain_frame [OF D(5)]) (use L in simp_all)
      then show ?thesis using True by (simp add: assms(3))
    next
      case False
      have "dchain (push_free i 1 s) (class_type (k' + 3)) (Slot k') (partial a k') (Slot k')"
        by (intro dchain_frame [OF D(9) [OF k' False]]) (use P [OF _ False] in auto)
      then show ?thesis using False by (simp add: assms(3))
    qed
  next
    fix j
    show "page_rep (push_free i 1 s) j (page_use b j)"
    proof (cases "j = i \<or> page_use a j = Unused")
      case True
      then show ?thesis by (auto simp: assms(3))
    next
      case False
      then have "j \<notin> set (map fst (free_runs a))" using free_heads(2) [OF D(1), of j] by blast
      then have "descs (push_free i 1 s) (Page j) = descs s (Page j)" using far [of "Page j"] False by auto
      then show ?thesis using page_rep_cong [of "push_free i 1 s" j s] D(6) [of j] False by (simp add: assms(3))
    qed
  qed
qed

section \<open>Bits\<close>

lemma and_bit_iff:
  assumes "i < 64"
  shows "(w :: u64) AND push_bit i 1 = 0 \<longleftrightarrow> \<not> bit w i"
proof -
  have b: "bit (w AND push_bit i 1) n \<longleftrightarrow> bit w n \<and> n = i" for n using assms by (auto simp: bit_simps)
  show ?thesis
  proof
    show "\<not> bit w i" if "w AND push_bit i 1 = 0" using b [of i] that by simp
    show "w AND push_bit i 1 = 0" if "\<not> bit w i" by (rule bit_word_eqI) (use b that in auto)
  qed
qed

lemma bit_or_single: "i < 64 \<Longrightarrow> bit ((w :: u64) OR push_bit i 1) n \<longleftrightarrow> bit w n \<or> n = i"
  by (auto simp: bit_simps)

lemma bit_and_not_single: "i < 64 \<Longrightarrow> bit ((w :: u64) AND NOT (push_bit i 1)) n \<longleftrightarrow> bit w n \<and> n \<noteq> i"
  by (cases "n < 64") (auto simp: bit_simps dest: bit_imp_le_length)

lemma busy_iff: "(w :: u64) = SMB_SLAB_BUSY \<longleftrightarrow> (\<forall>n < 64. bit w n)"
proof -
  have "SMB_SLAB_BUSY = - 1" by (simp add: SMB_SLAB_BUSY_def)
  then show ?thesis by (auto simp: bit_eq_iff)
qed

lemma first_zero_Some:
  assumes "i \<le> c" and "c < 64" and "\<not> bit w c" and "\<And>d. i \<le> d \<Longrightarrow> d < c \<Longrightarrow> bit w d"
  shows "first_zero w i = Some c"
  using assms
proof (induction w i rule: first_zero.induct)
  case (1 w i)
  show ?case
  proof (cases "i = c")
    case True
    then show ?thesis using 1(3,4) and_bit_iff [of c w] by (subst first_zero.simps) simp
  next
    case False
    then have "bit w i" "i < 64" using 1(2,3,5) by auto
    then have nz: "w AND push_bit i 1 \<noteq> 0" using and_bit_iff by blast
    have "first_zero w (i + 1) = Some c" by (rule 1(1) [OF \<open>i < 64\<close> nz]) (use 1(2-5) False in auto)
    then show ?thesis using \<open>i < 64\<close> nz by (subst first_zero.simps) (simp only: if_True simp_thms)
  qed
qed

lemma push_mask: "push_bit n 1 - 1 = (mask n :: u64)" if "n < 64"
  using that by (simp add: mask_eq_exp_minus_1 push_bit_eq_mult)

lemma bit_map_mask: "bit (push_bit SMB_SLAB_MAP_SHIFT (mask n) :: u64) k \<longleftrightarrow> 32 \<le> k \<and> k < 32 + n \<and> k < 64"
  by (auto simp: bit_simps SMB_SLAB_MAP_SHIFT_def)

lemma bit_MAP_MASK: "bit SMB_SLAB_MAP_MASK k \<longleftrightarrow> 32 \<le> k \<and> k < 64"
proof -
  have eq: "SMB_SLAB_MAP_MASK = push_bit SMB_SLAB_MAP_SHIFT (mask 32)"
    by (simp add: SMB_SLAB_MAP_MASK_def SMB_SLAB_MAP_SHIFT_def mask_eq_exp_minus_1 push_bit_eq_mult)
  show ?thesis unfolding eq bit_map_mask by auto
qed

lemma shift_mask_cong:
  assumes "\<And>n. n < 4 \<Longrightarrow> bit v n \<longleftrightarrow> bit w n"
  shows "(v :: u64) AND SMB_SLAB_SHIFT_MASK = w AND SMB_SLAB_SHIFT_MASK"
proof -
  have "SMB_SLAB_SHIFT_MASK = mask 4" by (simp add: SMB_SLAB_SHIFT_MASK_def mask_eq_exp_minus_1)
  then show ?thesis using assms by (auto simp: bit_eq_iff bit_simps)
qed

lemma map_words:
  assumes "3 \<le> sh" and "sh < 6"
  shows "chunk_count sh = smb_slab_small_map_words sh * 64" and "0 < smb_slab_small_map_words sh"
    and "smb_slab_small_map_words sh \<le> 8" and "reserved sh = small_reserved sh" and "reserved sh \<le> 8"
proof -
  have "sh = 3 \<or> sh = 4 \<or> sh = 5" using assms by auto
  then show "chunk_count sh = smb_slab_small_map_words sh * 64" "0 < smb_slab_small_map_words sh"
    "smb_slab_small_map_words sh \<le> 8" "reserved sh = small_reserved sh" "reserved sh \<le> 8"
    by (auto simp: chunk_count_def smb_slab_small_map_words_def smb_pagesize_shift_def reserved_def small_reserved_def)
qed

lemma summary_bits:
  assumes "3 \<le> sh" and "sh < 6"
  shows "w AND smb_slab_small_summary_mask sh = 0 \<longleftrightarrow> (\<forall>j < smb_slab_small_map_words sh. \<not> bit w (32 + j))"
    and "bit (smb_slab_small_summary_mask sh) k \<longleftrightarrow> 32 \<le> k \<and> k < 32 + smb_slab_small_map_words sh"
proof -
  note M = map_words [OF assms]
  have m: "smb_slab_small_summary_mask sh = push_bit SMB_SLAB_MAP_SHIFT (mask (smb_slab_small_map_words sh))"
    using M(3) push_mask [of "smb_slab_small_map_words sh"] by (simp add: smb_slab_small_summary_mask_def)
  then show k: "bit (smb_slab_small_summary_mask sh) k \<longleftrightarrow> 32 \<le> k \<and> k < 32 + smb_slab_small_map_words sh" for k
    using M(3) by (auto simp: bit_map_mask)
  show "w AND smb_slab_small_summary_mask sh = 0 \<longleftrightarrow> (\<forall>j < smb_slab_small_map_words sh. \<not> bit w (32 + j))"
  proof
    assume a: "w AND smb_slab_small_summary_mask sh = 0"
    show "\<forall>j < smb_slab_small_map_words sh. \<not> bit w (32 + j)"
    proof (intro allI impI)
      fix j assume "j < smb_slab_small_map_words sh"
      then have "bit (w AND smb_slab_small_summary_mask sh) (32 + j) = bit w (32 + j)" by (simp add: bit_and_iff k)
      then show "\<not> bit w (32 + j)" using a by simp
    qed
  next
    assume a: "\<forall>j < smb_slab_small_map_words sh. \<not> bit w (32 + j)"
    show "w AND smb_slab_small_summary_mask sh = 0"
    proof (rule bit_word_eqI)
      fix n
      have "\<not> bit w n" if "32 \<le> n" "n < 32 + smb_slab_small_map_words sh"
        using a [rule_format, of "n - 32"] that by simp
      then show "bit (w AND smb_slab_small_summary_mask sh) n = bit 0 n" by (auto simp: bit_and_iff k)
    qed
  qed
qed

lemma small_scan_Some:
  assumes "\<forall>j < k. bit slab (32 + j) \<longleftrightarrow> ws j \<noteq> SMB_SLAB_BUSY" and "k \<le> 8" and "c < k * 64"
    and "\<not> bit (ws (c div 64)) (c mod 64)" and "\<And>d. d < c \<Longrightarrow> bit (ws (d div 64)) (d mod 64)" and "n \<le> c div 64"
  shows "small_scan slab ws k n = Some (c div 64, c mod 64)"
  using assms
proof (induction slab ws k n rule: small_scan.induct)
  case (1 slab ws k n)
  have cd: "c div 64 < k" using 1(5) by (simp add: less_mult_imp_div_less)
  then have n: "n < k" using 1(8) by simp
  have sb: "slab AND smb_slab_small_summary_bit n = 0 \<longleftrightarrow> ws n = SMB_SLAB_BUSY"
    using and_bit_iff [of "32 + n" slab] 1(3,4) n by (simp add: smb_slab_small_summary_bit_def SMB_SLAB_MAP_SHIFT_def)
  show ?case
  proof (cases "n = c div 64")
    case True
    have "ws n \<noteq> SMB_SLAB_BUSY" using 1(6) True busy_iff [of "ws n"] by auto
    moreover have "first_zero (ws n) 0 = Some (c mod 64)"
    proof (rule first_zero_Some)
      fix d assume d: "d < c mod 64"
      have "n * 64 + d < c" using d True div_mult_mod_eq [of c 64] by linarith
      from 1(7) [OF this] d show "bit (ws n) d" by simp
    qed (use 1(6) True in simp_all)
    ultimately show ?thesis using n sb True by (subst small_scan.simps) simp
  next
    case False
    then have lt: "n < c div 64" using 1(8) by simp
    have "bit (ws n) d" if "d < 64" for d
    proof -
      have "n * 64 + 64 \<le> c"
        using order_trans [OF mult_le_mono1 [of "n + 1" "c div 64" 64] div_times_less_eq_dividend] lt by simp
      then have "n * 64 + d < c" using that by simp
      from 1(7) [OF this] that show ?thesis by simp
    qed
    then have "ws n = SMB_SLAB_BUSY" by (simp add: busy_iff)
    then have "small_scan slab ws k (n + 1) = Some (c div 64, c mod 64)"
      using 1(1) [OF n] sb 1(3-7) lt by simp
    then show ?thesis using n sb \<open>ws n = SMB_SLAB_BUSY\<close> by (subst small_scan.simps) simp
  qed
qed

section \<open>Recording chunks\<close>

lemma small_repD:
  assumes "chunk_rep slab ws sh U" and "sh < 6"
  shows "unat (slab AND SMB_SLAB_SHIFT_MASK) = sh" and "c < chunk_count sh \<Longrightarrow> bit (ws (c div 64)) (c mod 64) \<longleftrightarrow> c \<in> U"
    and "j < smb_slab_small_map_words sh \<Longrightarrow> bit slab (32 + j) \<longleftrightarrow> ws j \<noteq> SMB_SLAB_BUSY"
  using assms by (simp_all add: chunk_rep_def)

lemma chunk_word: "j < k \<Longrightarrow> n < 64 \<Longrightarrow> j * 64 + n < k * 64" for j k n :: nat
  using mult_le_mono1 [of "j + 1" k 64] by simp

lemma small_full:
  assumes "chunk_rep slab ws sh U" and "3 \<le> sh" and "sh < 6" and "U \<subseteq> {..<chunk_count sh}"
  shows "slab AND smb_slab_small_summary_mask sh = 0 \<longleftrightarrow> U = {..<chunk_count sh}"
proof -
  note S = small_repD [OF assms(1,3)] and M = map_words [OF assms(2,3)]
  have "slab AND smb_slab_small_summary_mask sh = 0 \<longleftrightarrow> (\<forall>j < smb_slab_small_map_words sh. ws j = SMB_SLAB_BUSY)"
    unfolding summary_bits(1) [OF assms(2,3)] using S(3) by blast
  also have "\<dots> \<longleftrightarrow> (\<forall>c < chunk_count sh. c \<in> U)"
  proof
    assume a: "\<forall>j < smb_slab_small_map_words sh. ws j = SMB_SLAB_BUSY"
    show "\<forall>c < chunk_count sh. c \<in> U"
    proof (intro allI impI)
      fix c assume c: "c < chunk_count sh"
      then have "c div 64 < smb_slab_small_map_words sh" unfolding M(1) by (rule less_mult_imp_div_less)
      then have "bit (ws (c div 64)) (c mod 64)" using a busy_iff [of "ws (c div 64)"] by simp
      then show "c \<in> U" using S(2) [OF c] by simp
    qed
  next
    assume a: "\<forall>c < chunk_count sh. c \<in> U"
    show "\<forall>j < smb_slab_small_map_words sh. ws j = SMB_SLAB_BUSY"
    proof (intro allI impI)
      fix j assume j: "j < smb_slab_small_map_words sh"
      have "bit (ws j) n" if n: "n < 64" for n
      proof -
        have "j * 64 + n < chunk_count sh" unfolding M(1) using j n by (rule chunk_word)
        from S(2) [OF this] a this n show ?thesis by simp
      qed
      then show "ws j = SMB_SLAB_BUSY" by (simp add: busy_iff)
    qed
  qed
  also have "\<dots> \<longleftrightarrow> U = {..<chunk_count sh}" using assms(4) by auto
  finally show ?thesis .
qed

text \<open>Changing the bit of one chunk and the summary bit of its word.\<close>

lemma small_change:
  assumes "chunk_rep slab ws sh U" and "3 \<le> sh" and "sh < 6" and "c < chunk_count sh"
    and "\<And>n. n < 64 \<Longrightarrow> bit w n \<longleftrightarrow> (if n = c mod 64 then c \<in> V else bit (ws (c div 64)) n)"
    and "\<And>d. d \<noteq> c \<Longrightarrow> d \<in> V \<longleftrightarrow> d \<in> U"
    and "\<And>n. n \<noteq> 32 + c div 64 \<Longrightarrow> bit slab' n \<longleftrightarrow> bit slab n" and "bit slab' (32 + c div 64) \<longleftrightarrow> w \<noteq> SMB_SLAB_BUSY"
  shows "chunk_rep slab' (ws(c div 64 := w)) sh V"
proof -
  note S = small_repD [OF assms(1,3)] and M = map_words [OF assms(2,3)]
  have "slab' AND SMB_SLAB_SHIFT_MASK = slab AND SMB_SLAB_SHIFT_MASK" by (rule shift_mask_cong) (simp add: assms(7))
  moreover have "bit ((ws(c div 64 := w)) (d div 64)) (d mod 64) \<longleftrightarrow> d \<in> V" if d: "d < chunk_count sh" for d
  proof (cases "d div 64 = c div 64")
    case True
    show ?thesis
    proof (cases "d mod 64 = c mod 64")
      case True
      then have "d = c" using \<open>d div 64 = c div 64\<close> by (metis div_mult_mod_eq)
      then show ?thesis using assms(5) [of "c mod 64"] by simp
    next
      case False
      then have "d \<noteq> c" by auto
      then show ?thesis using assms(5) [of "d mod 64"] False True assms(6) S(2) [OF d] by simp
    qed
  next
    case False
    then have "d \<noteq> c" by auto
    then show ?thesis using False assms(6) S(2) [OF d] by simp
  qed
  moreover have "bit slab' (32 + j) \<longleftrightarrow> (ws(c div 64 := w)) j \<noteq> SMB_SLAB_BUSY" if "j < smb_slab_small_map_words sh" for j
    using assms(7) [of "32 + j"] assms(8) S(3) [OF that] by auto
  ultimately show ?thesis using S(1) assms(3) unfolding chunk_rep_def by presburger
qed

lemma small_take:
  assumes "chunk_rep slab ws sh U" and "3 \<le> sh" and "sh < 6" and "c < chunk_count sh"
    and "w = ws (c div 64) OR push_bit (c mod 64) 1"
  shows "chunk_rep (if w = SMB_SLAB_BUSY then slab AND NOT (smb_slab_small_summary_bit (c div 64)) else slab)
    (ws(c div 64 := w)) sh (insert c U)"
proof (rule small_change [OF assms(1-4)])
  note S = small_repD [OF assms(1,3)] and M = map_words [OF assms(2,3)]
  have cd: "c div 64 < smb_slab_small_map_words sh" using assms(4) unfolding M(1) by (rule less_mult_imp_div_less)
  then have lt: "32 + c div 64 < 64" using M(3) by simp
  have b: "bit (slab AND NOT (smb_slab_small_summary_bit (c div 64))) n \<longleftrightarrow> bit slab n \<and> n \<noteq> 32 + c div 64" for n
    using bit_and_not_single [OF lt, of slab n] by (simp add: smb_slab_small_summary_bit_def SMB_SLAB_MAP_SHIFT_def)
  show "bit w n \<longleftrightarrow> (if n = c mod 64 then c \<in> insert c U else bit (ws (c div 64)) n)" if "n < 64" for n
    unfolding assms(5) by (subst bit_or_single) auto
  show "bit (if w = SMB_SLAB_BUSY then slab AND NOT (smb_slab_small_summary_bit (c div 64)) else slab) n = bit slab n"
    if "n \<noteq> 32 + c div 64" for n using that b by simp
  have "w \<noteq> SMB_SLAB_BUSY \<Longrightarrow> ws (c div 64) \<noteq> SMB_SLAB_BUSY"
    unfolding assms(5) busy_iff by (metis bit_or_iff)
  then show "bit (if w = SMB_SLAB_BUSY then slab AND NOT (smb_slab_small_summary_bit (c div 64)) else slab) (32 + c div 64)
      \<longleftrightarrow> w \<noteq> SMB_SLAB_BUSY"
    using b [of "32 + c div 64"] S(3) [OF cd] by simp
qed auto

lemma small_give:
  assumes "chunk_rep slab ws sh U" and "3 \<le> sh" and "sh < 6" and "c < chunk_count sh"
    and "w = ws (c div 64) AND NOT (push_bit (c mod 64) 1)"
  shows "chunk_rep (if ws (c div 64) = SMB_SLAB_BUSY then slab OR smb_slab_small_summary_bit (c div 64) else slab)
    (ws(c div 64 := w)) sh (U - {c})"
proof (rule small_change [OF assms(1-4)])
  note S = small_repD [OF assms(1,3)] and M = map_words [OF assms(2,3)]
  have cd: "c div 64 < smb_slab_small_map_words sh" using assms(4) unfolding M(1) by (rule less_mult_imp_div_less)
  then have lt: "32 + c div 64 < 64" using M(3) by simp
  have b: "bit (slab OR smb_slab_small_summary_bit (c div 64)) n \<longleftrightarrow> bit slab n \<or> n = 32 + c div 64" for n
    using bit_or_single [OF lt, of slab n] by (simp add: smb_slab_small_summary_bit_def SMB_SLAB_MAP_SHIFT_def)
  have bw: "bit w n \<longleftrightarrow> bit (ws (c div 64)) n \<and> n \<noteq> c mod 64" for n
    unfolding assms(5) by (rule bit_and_not_single) simp
  then show "bit w n \<longleftrightarrow> (if n = c mod 64 then c \<in> U - {c} else bit (ws (c div 64)) n)" if "n < 64" for n by simp
  show "bit (if ws (c div 64) = SMB_SLAB_BUSY then slab OR smb_slab_small_summary_bit (c div 64) else slab) n = bit slab n"
    if "n \<noteq> 32 + c div 64" for n using that b by simp
  have "w \<noteq> SMB_SLAB_BUSY" using bw [of "c mod 64"] by (auto simp: busy_iff intro!: exI [of _ "c mod 64"])
  then show "bit (if ws (c div 64) = SMB_SLAB_BUSY then slab OR smb_slab_small_summary_bit (c div 64) else slab) (32 + c div 64)
      \<longleftrightarrow> w \<noteq> SMB_SLAB_BUSY"
    using b [of "32 + c div 64"] S(3) [OF cd] by simp
qed auto

text \<open>When the bitmap shows that only the chunks of the bitmap itself are left.\<close>

lemma small_empty:
  assumes "chunk_rep slab ws sh U" and "3 \<le> sh" and "sh < 6" and "{..<reserved sh} \<subseteq> U" and "U \<subseteq> {..<chunk_count sh}"
  shows "ws 0 AND NOT (push_bit (small_reserved sh) 1 - 1) \<noteq> 0 \<or> (\<exists>j \<in> set [1..<smb_slab_small_map_words sh]. ws j \<noteq> 0)
    \<longleftrightarrow> U \<noteq> {..<reserved sh}"
proof -
  note S = small_repD [OF assms(1,3)] and M = map_words [OF assms(2,3)]
  have m: "push_bit (small_reserved sh) 1 - 1 = (mask (reserved sh) :: u64)"
    using push_mask [of "reserved sh"] M(4,5) by simp
  have z: "ws 0 AND NOT (mask (reserved sh)) = 0 \<longleftrightarrow> (\<forall>n < 64. bit (ws 0) n \<longrightarrow> n < reserved sh)"
    by (subst bit_eq_iff) (auto simp: bit_simps)
  have zj: "ws j = 0 \<longleftrightarrow> (\<forall>n < 64. \<not> bit (ws j) n)" for j by (auto simp: bit_eq_iff dest: bit_imp_le_length)
  have bit_iff: "bit (ws j) n \<longleftrightarrow> j * 64 + n \<in> U" if "j < smb_slab_small_map_words sh" "n < 64" for j n
    using S(2) [of "j * 64 + n"] chunk_word [OF that] that(2) unfolding M(1) by simp
  have "U = {..<reserved sh} \<longleftrightarrow> (\<forall>j < smb_slab_small_map_words sh. \<forall>n < 64. j * 64 + n \<in> U \<longrightarrow> j = 0 \<and> n < reserved sh)"
  proof
    assume "U = {..<reserved sh}"
    then show "\<forall>j < smb_slab_small_map_words sh. \<forall>n < 64. j * 64 + n \<in> U \<longrightarrow> j = 0 \<and> n < reserved sh" using M(5) by auto
  next
    assume a: "\<forall>j < smb_slab_small_map_words sh. \<forall>n < 64. j * 64 + n \<in> U \<longrightarrow> j = 0 \<and> n < reserved sh"
    have "c < reserved sh" if c: "c \<in> U" for c
    proof -
      have "c < smb_slab_small_map_words sh * 64" using c assms(5) M(1) by auto
      then have "c div 64 < smb_slab_small_map_words sh" by (rule less_mult_imp_div_less)
      then have "c div 64 = 0 \<and> c mod 64 < reserved sh" using a [rule_format, of "c div 64" "c mod 64"] c by simp
      then show ?thesis using div_mult_mod_eq [of c 64] by simp
    qed
    then show "U = {..<reserved sh}" using assms(4) by auto
  qed
  also have "\<dots> \<longleftrightarrow> (\<forall>n < 64. bit (ws 0) n \<longrightarrow> n < reserved sh) \<and> (\<forall>j \<in> set [1..<smb_slab_small_map_words sh]. \<forall>n < 64. \<not> bit (ws j) n)"
    using bit_iff M(2) by (auto simp: Suc_le_eq)
  finally show ?thesis unfolding m using z zj by auto
qed

section \<open>Allocating chunks\<close>

lemma detach_eq:
  "smb_slab_detach_full_page (Page i) t s = upd_desc (Page i) (\<lambda>d. d\<lparr>pg_next := None, pg_prev := (None, t)\<rparr>) (unlink i s)"
  by (simp add: smb_slab_detach_full_page_def unlink_def Let_def)

lemma detach_keeps [simp]:
  "words (smb_slab_detach_full_page m t s) = words s" "real_pages (smb_slab_detach_full_page m t s) = real_pages s"
  "seg_start (smb_slab_detach_full_page m t s) = seg_start s" "seg_end (smb_slab_detach_full_page m t s) = seg_end s"
  by (simp_all add: smb_slab_detach_full_page_def Let_def)

text \<open>What is the same for the three kinds of pages: the chunk is recorded, and a full page leaves the list.\<close>

lemma chunk_taken:
  assumes "rep s a" and "3 \<le> sh" and "partial a (sh - 3) = i # rest" and "spec_take_chunk sh i rest a = (p, b)"
    and "U = chunks_of (page_use a i)" and "c = first_unused (chunk_count sh) U"
    and "\<And>m. m \<noteq> Page i \<Longrightarrow> descs s1 m = descs s m" and "pg_next (descs s1 (Page i)) = pg_next (descs s (Page i))"
    and "pg_prev (descs s1 (Page i)) = pg_prev (descs s (Page i))" and "\<And>j. j \<noteq> int i \<Longrightarrow> words s1 j = words s j"
    and "real_pages s1 = real_pages s" and "seg_start s1 = seg_start s" and "seg_end s1 = seg_end s"
    and "chunk_rep (pg_slab (descs s1 (Page i))) (words s1 (int i)) sh (insert c U)"
    and "s2 = (if insert c U = {..<chunk_count sh} then smb_slab_detach_full_page (Page i) (class_type sh) s1 else s1)"
  shows "rep s2 b" and "p = i * 4096 + c * 2 ^ sh"
proof -
  note R = repD [OF assms(1)]
  note T = spec_take_chunk_ok [OF R(1) assms(2-4)]
  let ?k = "sh - 3" and ?U = "insert c U"
  have k3: "?k + 3 = sh" using assms(2) by simp
  have use: "page_use a i = Chunks sh U" using T(5) assms(5) by simp
  have k: "?k < slot_count" using spec_invD(6) [OF R(1) use] assms(2) by (auto simp add: slot_count_def smb_pagesize_shift_def min_shift_def)
  have b: "b = a\<lparr>page_use := (page_use a)(i := Chunks sh ?U),
      partial := (partial a)(?k := if ?U = {..<chunk_count sh} then rest else i # rest)\<rparr>"
    and p: "p = i * 4096 + c * 2 ^ sh"
    using assms(4) unfolding spec_take_chunk_def Let_def assms(5,6) [symmetric] by (rule Pair_inject, simp)+
  show "p = i * 4096 + c * 2 ^ sh" by (rule p)
  have B0: "rep_but s a i ?k (i # rest)" using rep_butI [OF assms(1) k, of i] use k3 assms(3) by auto
  then have B1: "rep_but s1 a i ?k (i # rest)" by (rule rep_but_page) (use assms(7-13) in auto)
  have ty: "snd (pg_prev (descs s1 (Page i))) = class_type sh" using R(8) [of i] use assms(9) by simp
  have inv: "spec_inv (real_pages s1) b" using T(1) assms(11) by simp
  show "rep s2 b"
  proof (cases "?U = {..<chunk_count sh}")
    case True
    have ni: "i \<notin> set rest" using rep_butD(3) [OF B1] by simp
    have in_L: "i \<in> set (i # rest)" by simp
    note B2 = rep_but_unlink [OF B1 in_L]
    have s2: "s2 = upd_desc (Page i) (\<lambda>d. d\<lparr>pg_next := None, pg_prev := (None, class_type sh)\<rparr>) (unlink i s1)"
      using assms(15) True detach_eq by simp
    have "rep_but s2 a i ?k rest"
      unfolding s2 using B2(1) [simplified] by (rule rep_but_page) (use ni in auto)
    moreover have "page_rep s2 i (Chunks sh ?U)" using assms(14) by (simp add: s2 B2(2,3))
    moreover have "real_pages s2 = real_pages s1" using assms(15) True by simp
    ultimately show ?thesis using rep_but_done [of s2 a i ?k rest] b inv True by simp
  next
    case False
    then have "s2 = s1" using assms(15) by simp
    moreover have "page_rep s1 i (Chunks sh ?U)" using assms(14) ty False by simp
    ultimately show ?thesis using rep_but_done [OF B1] b inv False by simp
  qed
qed

lemma partial_chunk:
  assumes "rep s a" and "3 \<le> sh" and "partial a (sh - 3) = i # rest"
  shows "\<exists>U. page_use a i = Chunks sh U \<and> chunk_rep (pg_slab (descs s (Page i))) (words s (int i)) sh U
    \<and> U \<subseteq> {..<chunk_count sh} \<and> U \<noteq> {..<chunk_count sh} \<and> {..<reserved sh} \<subset> U \<and> sh \<le> 11
    \<and> first_unused (chunk_count sh) U < chunk_count sh \<and> first_unused (chunk_count sh) U \<notin> U
    \<and> (\<forall>d < first_unused (chunk_count sh) U. d \<in> U)"
proof -
  note R = repD [OF assms(1)]
  obtain U where U: "page_use a i = Chunks sh U" "U \<noteq> {..<chunk_count sh}" "U \<subseteq> {..<chunk_count sh}"
    "{..<reserved sh} \<subset> U" "sh \<le> 11"
    using partial_pages [OF R(1), of i "sh - 3"] assms(2,3) by auto
  then have "\<not> {..<chunk_count sh} \<subseteq> U" by blast
  from first_unused [OF this] U R(8) [of i] show ?thesis by auto
qed

lemma page_addr: "smb_slab_page_addr s (Page i) = seg_start s + int (i * 4096)"
  by (simp add: smb_slab_page_addr_def smb_pagesize_shift_def)

lemma upd_word_words: "words (upd_word i j f s) = (words s)(i := (words s i)(j := f (words s i j)))"
  and upd_word_keeps [simp]: "descs (upd_word i j f s) = descs s" "real_pages (upd_word i j f s) = real_pages s"
  "seg_start (upd_word i j f s) = seg_start s" "seg_end (upd_word i j f s) = seg_end s"
  by (simp_all add: upd_word_def)

lemma try_small_rep:
  assumes "rep s a" and "3 \<le> sh" and "sh < 6" and "partial a (sh - 3) = i # rest" and "spec_take_chunk sh i rest a = (p, b)"
  shows "\<exists>s'. smb_slab_try_alloc_small s (Page i) sh = Some (Some (seg_start s + int p), s') \<and> rep s' b
    \<and> seg_start s' = seg_start s \<and> real_pages s' = real_pages s"
proof -
  obtain U where U: "page_use a i = Chunks sh U" "chunk_rep (pg_slab (descs s (Page i))) (words s (int i)) sh U"
    "U \<subseteq> {..<chunk_count sh}" "U \<noteq> {..<chunk_count sh}" and c: "first_unused (chunk_count sh) U < chunk_count sh"
    "first_unused (chunk_count sh) U \<notin> U" "\<forall>d < first_unused (chunk_count sh) U. d \<in> U"
    using partial_chunk [OF assms(1,2,4)] by blast
  define c where "c = first_unused (chunk_count sh) U"
  note c = c [folded c_def]
  let ?slab = "pg_slab (descs s (Page i))" and ?ws = "words s (int i)"
  let ?w = "?ws (c div 64) OR push_bit (c mod 64) 1" and ?n = "c div 64"
  note S = small_repD [OF U(2) assms(3)] and M = map_words [OF assms(2,3)]
  have scan: "small_scan ?slab ?ws (smb_slab_small_map_words sh) 0 = Some (?n, c mod 64)"
  proof (rule small_scan_Some)
    show "c < smb_slab_small_map_words sh * 64" using c(1) M(1) by simp
    show "\<not> bit (?ws (c div 64)) (c mod 64)" using S(2) [OF c(1)] c(2) by simp
    show "bit (?ws (d div 64)) (d mod 64)" if "d < c" for d using S(2) [of d] that c by auto
  qed (use S(3) M(3) in auto)
  have notfull: "?slab AND smb_slab_small_summary_mask sh \<noteq> 0" using small_full [OF U(2) assms(2,3) U(3)] U(4) by blast
  define slab' where "slab' = (if ?w = SMB_SLAB_BUSY then ?slab AND NOT (smb_slab_small_summary_bit ?n) else ?slab)"
  define s1 where "s1 = upd_desc (Page i) (\<lambda>d. d\<lparr>pg_slab := slab'\<rparr>) (upd_word (int i) ?n (\<lambda>w. w OR push_bit (c mod 64) 1) s)"
  have cr: "chunk_rep slab' (?ws(?n := ?w)) sh (insert c U)"
    unfolding slab'_def by (rule small_take [OF U(2) assms(2,3) c(1) refl])
  have full: "slab' AND smb_slab_small_summary_mask sh = 0 \<longleftrightarrow> insert c U = {..<chunk_count sh}"
    by (rule small_full [OF cr assms(2,3)]) (use U(3) c(1) in auto)
  define s2 where "s2 = (if insert c U = {..<chunk_count sh} then smb_slab_detach_full_page (Page i) (class_type sh) s1 else s1)"
  have ty: "class_type sh = SMB_SLAB_SMALL" using assms(3) by (simp add: class_type_def)
  have same: "upd_desc (Page i) (\<lambda>d. d\<lparr>pg_slab := ?slab\<rparr>) t = t" if "descs t = descs s" for t :: segment
  proof -
    have "(descs s (Page i))\<lparr>pg_slab := ?slab\<rparr> = descs s (Page i)" by simp
    then show ?thesis using that unfolding upd_desc_def by (simp only: fun_upd_triv) simp
  qed
  have "take_small s (Page i) sh ?n (c mod 64) = (smb_slab_page_addr s (Page i) + (int (?n * 64) * 2 ^ sh + int (c mod 64) * 2 ^ sh), s2)"
  proof (cases "?w = SMB_SLAB_BUSY")
    case True
    then show ?thesis using full
      by (simp add: take_small_def Let_def s2_def s1_def slab'_def ty upd_word_words upd_desc_def)
  next
    case False
    then have "slab' = ?slab" by (simp add: slab'_def)
    then have "insert c U \<noteq> {..<chunk_count sh}" using full notfull by simp
    then show ?thesis using False same [of "upd_word (int i) ?n (\<lambda>w. w OR push_bit (c mod 64) 1) s"] \<open>slab' = ?slab\<close>
      by (simp add: take_small_def Let_def s2_def s1_def upd_word_words)
  qed
  moreover have "int (?n * 64) * 2 ^ sh + int (c mod 64) * 2 ^ sh = int (c * 2 ^ sh)"
  proof -
    have "(?n * 64 + c mod 64) * 2 ^ sh = c * 2 ^ sh" by simp
    then have "int ((?n * 64 + c mod 64) * 2 ^ sh) = int (c * 2 ^ sh)" by (rule arg_cong)
    then show ?thesis by (simp only: of_nat_mult of_nat_add of_nat_power distrib_right of_nat_numeral)
  qed
  moreover have cr1: "chunk_rep (pg_slab (descs s1 (Page i))) (words s1 (int i)) sh (insert c U)"
    using cr by (simp add: s1_def upd_word_words)
  have "U = chunks_of (page_use a i)" using U(1) by simp
  note T = chunk_taken [OF assms(1,2,4,5) this c_def _ _ _ _ _ _ _ cr1 s2_def]
  have r: "rep s2 b" and p: "p = i * 4096 + c * 2 ^ sh" by (rule T; simp add: s1_def upd_word_words)+
  ultimately have "smb_slab_try_alloc_small s (Page i) sh = Some (Some (seg_start s + int p), s2)"
    using scan notfull by (subst smb_slab_try_alloc_small.simps) (simp add: Let_def page_addr)
  with r show ?thesis by (auto simp: s2_def s1_def)
qed

lemma try_exact_rep:
  assumes "rep s a" and "partial a 3 = i # rest" and "spec_take_chunk 6 i rest a = (p, b)"
  shows "\<exists>s'. smb_slab_try_alloc_exact s (Page i) 6 = Some (Some (seg_start s + int p), s') \<and> rep s' b
    \<and> seg_start s' = seg_start s \<and> real_pages s' = real_pages s"
proof -
  have sh: "(3 :: nat) \<le> 6" and part: "partial a (6 - 3) = i # rest" using assms(2) by simp_all
  have n: "chunk_count 6 = 64" by (simp add: chunk_count_def)
  obtain U where U: "page_use a i = Chunks 6 U" "chunk_rep (pg_slab (descs s (Page i))) (words s (int i)) 6 U"
    "U \<subseteq> {..<64}" "U \<noteq> {..<64}" and c: "first_unused 64 U < 64" "first_unused 64 U \<notin> U" "\<forall>d < first_unused 64 U. d \<in> U"
    using partial_chunk [OF assms(1) sh part] unfolding n by blast
  define c where "c = first_unused (chunk_count 6) U"
  have c: "c < 64" "c \<notin> U" "\<forall>d < c. d \<in> U" using c by (simp_all add: c_def n)
  let ?slab = "pg_slab (descs s (Page i))"
  let ?w = "?slab OR push_bit c 1"
  have bits: "bit ?slab d \<longleftrightarrow> d \<in> U" if "d < 64" for d using U(2) that by (simp add: chunk_rep_def)
  have scan: "first_zero ?slab 0 = Some c"
    by (rule first_zero_Some) (use bits c in auto)
  have notfull: "?slab \<noteq> SMB_SLAB_BUSY" using bits c unfolding busy_iff by blast
  define s1 where "s1 = upd_desc (Page i) (\<lambda>d. d\<lparr>pg_slab := ?w\<rparr>) s"
  have bits': "bit ?w d \<longleftrightarrow> d \<in> insert c U" if "d < 64" for d
    using bits [OF that] bit_or_single [OF c(1), of ?slab d] by auto
  then have cr1: "chunk_rep (pg_slab (descs s1 (Page i))) (words s1 (int i)) 6 (insert c U)"
    by (simp add: chunk_rep_def s1_def)
  have full: "?w = SMB_SLAB_BUSY \<longleftrightarrow> insert c U = {..<chunk_count 6}"
  proof
    assume "?w = SMB_SLAB_BUSY"
    then have "d \<in> insert c U" if "d < 64" for d using bits' [OF that] that unfolding busy_iff by blast
    then show "insert c U = {..<chunk_count 6}" using U(3) c(1) unfolding n by blast
  next
    assume "insert c U = {..<chunk_count 6}"
    then have "bit ?w d" if "d < 64" for d using bits' [OF that] that unfolding n by blast
    then show "?w = SMB_SLAB_BUSY" unfolding busy_iff by blast
  qed
  define s2 where "s2 = (if insert c U = {..<chunk_count 6} then smb_slab_detach_full_page (Page i) (class_type 6) s1 else s1)"
  have "U = chunks_of (page_use a i)" using U(1) by simp
  note T = chunk_taken [OF assms(1) sh part assms(3) this c_def _ _ _ _ _ _ _ cr1 s2_def]
  have r: "rep s2 b" and p: "p = i * 4096 + c * 2 ^ 6" by (rule T; simp add: s1_def)+
  have "class_type 6 = SMB_SLAB_EXACT" by (simp add: class_type_def)
  then have "smb_slab_try_alloc_exact s (Page i) 6 = Some (Some (seg_start s + int p), s2)"
    using scan notfull full p
    by (subst smb_slab_try_alloc_exact.simps) (simp add: Let_def page_addr s2_def s1_def)
  with r show ?thesis by (auto simp: s2_def s1_def)
qed

lemma first_zero_big_Some:
  assumes "i \<le> c" and "c < k" and "k \<le> 32" and "\<And>j. j < 32 \<Longrightarrow> bit msk (32 + j) \<longleftrightarrow> j < k" and "\<not> bit slab (32 + c)"
    and "\<And>d. i \<le> d \<Longrightarrow> d < c \<Longrightarrow> bit slab (32 + d)"
  shows "first_zero_big slab msk i = Some c"
  using assms
proof (induction "c - i" arbitrary: i)
  case 0
  then show ?case
    by (subst first_zero_big.simps) (auto simp: SMB_SLAB_MAP_SHIFT_def and_bit_iff and.commute [of _ msk] simp del: push_bit_of_1)
next
  case (Suc n)
  have "first_zero_big slab msk (i + 1) = Some c" by (rule Suc(1)) (use Suc(2-) in auto)
  then show ?case using Suc(2-) 
    by (subst first_zero_big.simps) (auto simp: SMB_SLAB_MAP_SHIFT_def and_bit_iff and.commute [of _ msk] simp del: push_bit_of_1)
qed

text \<open>The representation of a page of big chunks; its mask has as many bits as the page has chunks.\<close>

lemma big_repD:
  assumes "chunk_rep slab ws sh U" and "7 \<le> sh"
  shows "unat (slab AND SMB_SLAB_SHIFT_MASK) = sh" and "c < 32 \<Longrightarrow> bit slab (32 + c) \<longleftrightarrow> c \<in> U"
  using assms by (auto simp: chunk_rep_def)

lemma big_count: "7 \<le> sh \<Longrightarrow> sh \<le> 11 \<Longrightarrow> chunk_count sh \<le> 32 \<and> 2 \<le> chunk_count sh"
  using power_increasing [of "12 - sh" 5 "2 :: nat"] power_increasing [of 1 "12 - sh" "2 :: nat"]
  by (simp add: chunk_count_def)

lemma big_mask: "push_bit SMB_SLAB_MAP_SHIFT (push_bit n 1 - 1) = (push_bit SMB_SLAB_MAP_SHIFT (mask n) :: u64)" if "n \<le> 32"
  by (subst push_mask) (use that in auto)

lemma big_full:
  assumes "chunk_rep slab ws sh U" and "7 \<le> sh" and "sh \<le> 11" and "U \<subseteq> {..<chunk_count sh}"
  shows "slab AND SMB_SLAB_MAP_MASK = push_bit SMB_SLAB_MAP_SHIFT (mask (chunk_count sh)) \<longleftrightarrow> U = {..<chunk_count sh}"
proof -
  note D = big_repD(2) [OF assms(1,2)] and n = big_count [OF assms(2,3)]
  have "slab AND SMB_SLAB_MAP_MASK = push_bit SMB_SLAB_MAP_SHIFT (mask (chunk_count sh))
      \<longleftrightarrow> (\<forall>c < 32. bit slab (32 + c) \<longleftrightarrow> c < chunk_count sh)" (is "?l = ?m \<longleftrightarrow> ?r")
  proof
    assume "?l = ?m"
    then have "bit ?l (32 + c) = bit ?m (32 + c)" for c by simp
    then show ?r by (auto simp: bit_and_iff bit_MAP_MASK bit_map_mask)
  next
    assume r: ?r
    show "?l = ?m"
    proof (rule bit_word_eqI)
      fix k assume "k < LENGTH(64)"
      then have "32 \<le> k \<Longrightarrow> bit slab k \<longleftrightarrow> k - 32 < chunk_count sh" using r [rule_format, of "k - 32"] by simp
      then show "bit ?l k = bit ?m k" using \<open>k < LENGTH(64)\<close> by (auto simp: bit_and_iff bit_MAP_MASK bit_map_mask)
    qed
  qed
  also have "?r \<longleftrightarrow> (\<forall>c < 32. c \<in> U \<longleftrightarrow> c < chunk_count sh)" using D by auto
  also have "\<dots> \<longleftrightarrow> U = {..<chunk_count sh}" using assms(4) n by auto
  finally show ?thesis .
qed

lemma big_change:
  assumes "chunk_rep slab ws sh U" and "7 \<le> sh" and "\<And>n. n < 32 \<Longrightarrow> bit slab' n \<longleftrightarrow> bit slab n"
    and "\<And>c. c < 32 \<Longrightarrow> bit slab' (32 + c) \<longleftrightarrow> c \<in> U'"
  shows "chunk_rep slab' ws' sh U'"
proof -
  have "slab' AND SMB_SLAB_SHIFT_MASK = slab AND SMB_SLAB_SHIFT_MASK" by (rule shift_mask_cong) (simp add: assms(3))
  then show ?thesis using big_repD(1) [OF assms(1,2)] assms(2,4) by (simp add: chunk_rep_def)
qed

lemma try_big_rep:
  assumes "rep s a" and "7 \<le> sh" and "sh \<le> 11" and "partial a (sh - 3) = i # rest" and "spec_take_chunk sh i rest a = (p, b)"
  shows "\<exists>s'. smb_slab_try_alloc_big s (Page i) sh = Some (Some (seg_start s + int p), s') \<and> rep s' b
    \<and> seg_start s' = seg_start s \<and> real_pages s' = real_pages s"
proof -
  have sh: "3 \<le> sh" using assms(2) by simp
  obtain U where U: "page_use a i = Chunks sh U" "chunk_rep (pg_slab (descs s (Page i))) (words s (int i)) sh U"
    "U \<subseteq> {..<chunk_count sh}" "U \<noteq> {..<chunk_count sh}" and c: "first_unused (chunk_count sh) U < chunk_count sh"
    "first_unused (chunk_count sh) U \<notin> U" "\<forall>d < first_unused (chunk_count sh) U. d \<in> U"
    using partial_chunk [OF assms(1) sh assms(4)] by blast
  define c where "c = first_unused (chunk_count sh) U"
  note c = c [folded c_def]
  let ?slab = "pg_slab (descs s (Page i))" and ?msk = "push_bit SMB_SLAB_MAP_SHIFT (mask (chunk_count sh)) :: u64"
  let ?w = "?slab OR push_bit (32 + c) 1"
  note D = big_repD [OF U(2) assms(2)] and n = big_count [OF assms(2,3)]
  have c32: "c < 32" using c(1) n by simp
  have scan: "first_zero_big ?slab ?msk 0 = Some c"
    by (rule first_zero_big_Some [where k = "chunk_count sh"]) (use D(2) c n in \<open>auto simp: bit_map_mask\<close>)
  have notfull: "?slab AND SMB_SLAB_MAP_MASK \<noteq> ?msk" using big_full [OF U(2) assms(2,3) U(3)] U(4) by blast
  define s1 where "s1 = upd_desc (Page i) (\<lambda>d. d\<lparr>pg_slab := ?w\<rparr>) s"
  have bits: "bit ?w k \<longleftrightarrow> bit ?slab k \<or> k = 32 + c" for k using bit_or_single [of "32 + c" ?slab k] c32 by simp
  have cr: "chunk_rep ?w ws sh (insert c U)" for ws
    by (rule big_change [OF U(2) assms(2)]) (use bits D(2) in auto)
  then have cr1: "chunk_rep (pg_slab (descs s1 (Page i))) (words s1 (int i)) sh (insert c U)" by (simp add: s1_def)
  have full: "?w AND SMB_SLAB_MAP_MASK = ?msk \<longleftrightarrow> insert c U = {..<chunk_count sh}"
    by (rule big_full [OF cr assms(2,3)]) (use U(3) c(1) in auto)
  define s2 where "s2 = (if insert c U = {..<chunk_count sh} then smb_slab_detach_full_page (Page i) (class_type sh) s1 else s1)"
  have "U = chunks_of (page_use a i)" using U(1) by simp
  note T = chunk_taken [OF assms(1) sh assms(4,5) this c_def _ _ _ _ _ _ _ cr1 s2_def]
  have r: "rep s2 b" and p: "p = i * 4096 + c * 2 ^ sh" by (rule T; simp add: s1_def)+
  have "class_type sh = SMB_SLAB_BIG" using assms(2) by (simp add: class_type_def)
  then have "big_loop s ?msk (Page i) sh = Some (Some (seg_start s + int p), s2)"
    using scan notfull full p
    by (subst big_loop.simps) (simp add: Let_def page_addr s2_def s1_def SMB_SLAB_MAP_SHIFT_def del: push_bit_of_1)
  moreover have "2 ^ (smb_pagesize_shift - sh) = chunk_count sh" by (simp add: chunk_count_def smb_pagesize_shift_def)
  ultimately have "smb_slab_try_alloc_big s (Page i) sh = Some (Some (seg_start s + int p), s2)"
    unfolding smb_slab_try_alloc_big_def Let_def D(1) using big_mask n by simp
  with r show ?thesis by (auto simp: s2_def s1_def)
qed

text \<open>A page that is taken for a size class.\<close>

lemma fresh_page_rep:
  assumes "rep s1 (a\<lparr>free_runs := fs, page_use := mark_run i 1 (page_use a)\<rparr>)" and "3 \<le> sh" and "sh \<le> 11"
    and "partial a (sh - 3) = []" and "chunk_rep w ws sh {..reserved sh}"
    and "s2 = link_first (Page i) (Slot (sh - 3)) (class_type sh) w (s1\<lparr>words := (words s1)(int i := ws)\<rparr>)"
    and "b = a\<lparr>free_runs := fs, page_use := (page_use a)(i := Chunks sh {..reserved sh}), partial := (partial a)(sh - 3 := [i])\<rparr>"
    and "spec_inv (real_pages s1) b"
  shows "rep s2 b"
proof -
  let ?a = "a\<lparr>free_runs := fs, page_use := mark_run i 1 (page_use a)\<rparr>" and ?k = "sh - 3"
  have k3: "?k + 3 = sh" using assms(2) by simp
  have k: "?k < slot_count" using assms(3) by (simp add: slot_count_def smb_pagesize_shift_def min_shift_def)
  have "rep_but s1 ?a i ?k []" using rep_butI [OF assms(1) k, of i] assms(4) by (simp add: mark_run_def)
  then have "rep_but (s1\<lparr>words := (words s1)(int i := ws)\<rparr>) ?a i ?k []" by (rule rep_but_page) simp_all
  note B = rep_but_link_first [OF this, of "class_type sh" w, folded assms(6), unfolded k3, OF refl]
  have w: "words s2 (int i) = ws" and r: "real_pages s2 = real_pages s1" by (simp_all add: assms(6) link_first_def)
  have "reserved sh + 1 \<in> {..<chunk_count sh} - {..reserved sh}" using size_classes [OF assms(2,3)] by simp
  then have "{..reserved sh} \<noteq> {..<chunk_count sh}" by blast
  then have "page_rep s2 i (Chunks sh {..reserved sh})" using assms(5) B(2) w by simp
  moreover have "b = ?a\<lparr>page_use := (page_use ?a)(i := Chunks sh {..reserved sh}), partial := (partial ?a)(?k := [i])\<rparr>"
    by (simp add: assms(7) mark_run_def fun_eq_iff)
  ultimately show ?thesis using rep_but_done [OF B(1)] assms(8) r by simp
qed

lemma fresh_small:
  assumes "3 \<le> sh" and "sh < 6"
  shows "chunk_rep (word_of_nat sh OR smb_slab_small_summary_mask sh)
      (\<lambda>j. if j = 0 then push_bit (small_reserved sh) 2 - 1 else if j < smb_slab_small_map_words sh then 0 else ws j)
      sh {..reserved sh}"
    and "push_bit (small_reserved sh) 2 - 1 \<noteq> SMB_SLAB_BUSY"
proof -
  note M = map_words [OF assms]
  let ?first = "push_bit (small_reserved sh) 2 - 1 :: u64"
  have "push_bit (small_reserved sh) 2 = (push_bit (reserved sh + 1) 1 :: u64)" using M(4) by (simp add: push_bit_eq_mult)
  then have f: "?first = mask (reserved sh + 1)" using push_mask [of "reserved sh + 1"] M(5) by simp
  have fb: "bit ?first n \<longleftrightarrow> n \<le> reserved sh" for n unfolding f using M(5) by (auto simp: bit_mask_iff)
  have nb: "w \<noteq> SMB_SLAB_BUSY" if "w = ?first \<or> w = 0" for w :: u64
  proof -
    have "\<not> bit w 63" using that fb [of 63] M(5) by auto
    then show ?thesis unfolding busy_iff by (intro notI) (drule spec [of _ 63], simp)
  qed
  then show "?first \<noteq> SMB_SLAB_BUSY" by simp
  have "sh = 3 \<or> sh = 4 \<or> sh = 5" using assms by auto
  then have "unat ((word_of_nat sh OR smb_slab_small_summary_mask sh) AND SMB_SLAB_SHIFT_MASK) = sh"
    by (auto simp: smb_slab_small_summary_mask_def smb_slab_small_map_words_def smb_pagesize_shift_def SMB_SLAB_SHIFT_MASK_def SMB_SLAB_MAP_SHIFT_def)
  moreover have "bit ((\<lambda>j. if j = 0 then ?first else if j < smb_slab_small_map_words sh then 0 else ws j) (c div 64)) (c mod 64)
      \<longleftrightarrow> c \<in> {..reserved sh}" if "c < chunk_count sh" for c
  proof (cases "c div 64 = 0")
    case True
    then show ?thesis using fb [of c] by (simp add: div_eq_0_iff)
  next
    case False
    then have "c div 64 < smb_slab_small_map_words sh" "64 \<le> c" using that M(1) less_mult_imp_div_less by (auto simp: div_eq_0_iff)
    then show ?thesis using False M(5) by simp
  qed
  moreover have "bit (word_of_nat sh OR smb_slab_small_summary_mask sh) (32 + j)" if "j < smb_slab_small_map_words sh" for j
    using summary_bits(2) [OF assms, of "32 + j"] that by (simp add: bit_or_iff)
  ultimately show "chunk_rep (word_of_nat sh OR smb_slab_small_summary_mask sh)
      (\<lambda>j. if j = 0 then ?first else if j < smb_slab_small_map_words sh then 0 else ws j) sh {..reserved sh}"
    unfolding chunk_rep_def using nb assms(2) by simp
qed

lemma fresh_exact: "chunk_rep 1 ws 6 {..reserved 6}"
  by (auto simp: chunk_rep_def reserved_def bit_1_iff)

lemma fresh_big:
  assumes "7 \<le> sh" and "sh \<le> 11"
  shows "chunk_rep (push_bit SMB_SLAB_MAP_SHIFT 1 OR word_of_nat sh) ws sh {..reserved sh}"
proof -
  have "sh \<in> {7, 8, 9, 10, 11}" using assms by auto
  then have "unat ((push_bit SMB_SLAB_MAP_SHIFT 1 OR word_of_nat sh) AND SMB_SLAB_SHIFT_MASK) = sh"
    by (auto simp: SMB_SLAB_SHIFT_MASK_def SMB_SLAB_MAP_SHIFT_def)
  moreover have "bit (push_bit SMB_SLAB_MAP_SHIFT 1 OR word_of_nat sh :: u64) (32 + c) \<longleftrightarrow> c = 0" if "c < 32" for c
  proof -
    have "sh < 2 ^ (32 + c)" using assms power_increasing [of 4 "32 + c" "2 :: nat"] by simp
    then have "\<not> bit sh (32 + c)" by (simp add: bit_iff_odd)
    moreover have "unat (word_of_nat sh :: u64) = sh" using assms by (simp add: unsigned_of_nat take_bit_nat_eq_self)
    ultimately have "\<not> bit (word_of_nat sh :: u64) (32 + c)" 
      using bit_unsigned_iff [of "word_of_nat sh :: u64" "32 + c", where 'a = nat] that by simp
    then show ?thesis using bit_or_single [of 32 "word_of_nat sh" "32 + c"]
      by (simp add: SMB_SLAB_MAP_SHIFT_def or.commute)
  qed
  ultimately show ?thesis unfolding chunk_rep_def using assms by (auto simp: reserved_def)
qed

lemma new_chunk_rep:
  assumes "rep s a" and "3 \<le> sh" and "sh \<le> 11" and "partial a (sh - 3) = []" and "take_first 1 (free_runs a) = Some (i, fs)"
    and "b = a\<lparr>free_runs := fs, page_use := (page_use a)(i := Chunks sh {..reserved sh}), partial := (partial a)(sh - 3 := [i])\<rparr>"
    and "rep s1 (a\<lparr>free_runs := fs, page_use := mark_run i 1 (page_use a)\<rparr>)" and "seg_start s1 = seg_start s"
    and "real_pages s1 = real_pages s"
    and "(p, s2) = (if sh < smb_slab_exact_shift then smb_slab_init_small_page s1 (Page i) (Slot (sh - 3)) sh
       else if sh = smb_slab_exact_shift then smb_slab_init_exact_page s1 (Page i) (Slot (sh - 3))
       else smb_slab_init_big_page s1 (Page i) (Slot (sh - 3)) sh)"
  shows "rep s2 b" and "p = seg_start s + int (i * 4096 + reserved sh * 2 ^ sh)" and "seg_start s2 = seg_start s"
    and "real_pages s2 = real_pages s"
proof -
  have inv: "spec_inv (real_pages s1) b"
    using spec_new_chunk_ok(1) [OF repD(1) [OF assms(1)] assms(2-6) refl] assms(9) by simp
  note F = fresh_page_rep [OF assms(7,2,3,4) _ _ assms(6) inv]
  have x: "smb_slab_exact_shift = 6" by (simp add: smb_slab_exact_shift_def)
  have id: "s1\<lparr>words := (words s1)(int i := words s1 (int i))\<rparr> = s1" by simp
  consider "sh < 6" | "sh = 6" | "7 \<le> sh" by linarith
  then have "rep s2 b \<and> p = seg_start s + int (i * 4096 + reserved sh * 2 ^ sh) \<and> seg_start s2 = seg_start s
      \<and> real_pages s2 = real_pages s"
  proof cases
    case 1
    then have e: "(p, s2) = smb_slab_init_small_page s1 (Page i) (Slot (sh - 3)) sh" using assms(10) x by simp
    have "class_type sh = SMB_SLAB_SMALL" using 1 by (simp add: class_type_def)
    then have "rep s2 b"
      using F [OF fresh_small(1) [OF assms(2) 1, of "words s1 (int i)"]] e fresh_small(2) [OF assms(2) 1]
      unfolding smb_slab_init_small_page_def Let_def page_index.simps by simp
    then show ?thesis using e map_words(4) [OF assms(2) 1] assms(8,9)
      by (simp add: smb_slab_init_small_page_def Let_def link_first_def page_addr)
  next
    case 2
    then have e: "(p, s2) = smb_slab_init_exact_page s1 (Page i) (Slot (sh - 3))" using assms(10) x by simp
    have "class_type sh = SMB_SLAB_EXACT" using 2 by (simp add: class_type_def)
    then have "rep s2 b" using F [OF fresh_exact [of "words s1 (int i)", folded 2], unfolded id] e 2
      by (simp add: smb_slab_init_exact_page_def)
    then show ?thesis using e 2 assms(8,9) by (simp add: smb_slab_init_exact_page_def link_first_def page_addr reserved_def)
  next
    case 3
    then have e: "(p, s2) = smb_slab_init_big_page s1 (Page i) (Slot (sh - 3)) sh" using assms(10) x by simp
    have "class_type sh = SMB_SLAB_BIG" using 3 by (simp add: class_type_def)
    then have "rep s2 b" using F [OF fresh_big [OF 3 assms(3), of "words s1 (int i)"], unfolded id] e
      by (simp add: smb_slab_init_big_page_def)
    then show ?thesis using e 3 assms(8,9) by (simp add: smb_slab_init_big_page_def link_first_def page_addr reserved_def)
  qed
  then show "rep s2 b" "p = seg_start s + int (i * 4096 + reserved sh * 2 ^ sh)" "seg_start s2 = seg_start s"
    "real_pages s2 = real_pages s" by blast+
qed

section \<open>A segment refines its specification\<close>

lemma try_alloc_rep:
  assumes "rep s a" and "3 \<le> sh" and "sh \<le> 11" and "partial a (sh - 3) = i # rest" and "spec_take_chunk sh i rest a = (p, b)"
  shows "\<exists>s'. (if sh < smb_slab_exact_shift then smb_slab_try_alloc_small s (Page i) sh
       else if sh = smb_slab_exact_shift then smb_slab_try_alloc_exact s (Page i) sh
       else smb_slab_try_alloc_big s (Page i) sh) = Some (Some (seg_start s + int p), s') \<and> rep s' b
     \<and> seg_start s' = seg_start s \<and> real_pages s' = real_pages s"
proof -
  have x: "smb_slab_exact_shift = 6" by (simp add: smb_slab_exact_shift_def)
  consider "sh < 6" | "sh = 6" | "7 \<le> sh" by linarith
  then show ?thesis
  proof cases
    case 1
    then show ?thesis using try_small_rep [OF assms(1,2) 1 assms(4,5)] x by simp
  next
    case 2
    have "partial a 3 = i # rest" using assms(4) 2 by simp
    from try_exact_rep [OF assms(1) this assms(5) [unfolded 2]] show ?thesis unfolding x 2 by simp
  next
    case 3
    then show ?thesis using try_big_rep [OF assms(1) 3 assms(3-5)] x by simp
  qed
qed

lemma alloc_chunk_rep:
  assumes "rep s a" and "n < smb_slab_max_size"
  shows "\<exists>s'. smb_slab_alloc_locked s n = Some (map_option (\<lambda>p. seg_start s + int p) (fst (spec_alloc n a)), s')
    \<and> rep s' (snd (spec_alloc n a)) \<and> seg_start s' = seg_start s \<and> real_pages s' = real_pages s"
proof -
  let ?sh = "size_shift n"
  let ?k = "?sh - 3"
  note sh = size_shift_bounds(1,2) [OF assms(2)] and R = repD [OF assms(1)]
  have k3: "?k + 3 = ?sh" and m3: "min_shift = 3" using sh(1) by (simp_all add: min_shift_def)
  have k: "?k < slot_count" using sh(2) by (simp add: slot_count_def smb_pagesize_shift_def min_shift_def)
  note C = R(7) [OF k]
  have nm: "\<not> smb_slab_max_size \<le> n" using assms(2) by simp
  show ?thesis
  proof (cases "partial a ?k")
    case (Cons i rest)
    obtain p b where t: "spec_take_chunk ?sh i rest a = (p, b)" by (cases "spec_take_chunk ?sh i rest a")
    obtain s' where s': "(if ?sh < smb_slab_exact_shift then smb_slab_try_alloc_small s (Page i) ?sh
       else if ?sh = smb_slab_exact_shift then smb_slab_try_alloc_exact s (Page i) ?sh
       else smb_slab_try_alloc_big s (Page i) ?sh) = Some (Some (seg_start s + int p), s')" "rep s' b"
      "seg_start s' = seg_start s" "real_pages s' = real_pages s"
      using try_alloc_rep [OF assms(1) sh Cons t] by blast
    have nx: "pg_next (descs s (Slot ?k)) = Some (Page i)" using C Cons by simp
    have "i \<notin> set rest" using spec_invD(4) [OF R(1), of ?k] Cons by simp
    then have ne: "pg_next (descs s (Page i)) \<noteq> Some (Page i)" using C Cons by (cases rest) auto
    have "smb_slab_alloc_locked s n = Some (Some (seg_start s + int p), s')"
      unfolding smb_slab_alloc_locked_def Let_def m3 using nm nx ne s'(1) by simp
    moreover have "spec_alloc n a = (Some p, b)" using nm Cons t by (simp add: spec_alloc_def spec_alloc_chunk_def)
    ultimately show ?thesis using s'(2-4) by simp
  next
    case Nil
    obtain s1 where s1: "smb_slab_alloc_pages s 1 = Some (fst (spec_alloc_run 1 a), s1)" "rep s1 (snd (spec_alloc_run 1 a))"
      "seg_start s1 = seg_start s" "real_pages s1 = real_pages s"
      using alloc_pages_rep [OF assms(1), of 1] by auto
    have nx: "pg_next (descs s (Slot ?k)) = Some (Slot ?k)" using C Nil by simp
    show ?thesis
    proof (cases "take_first 1 (free_runs a)")
      case None
      then have "spec_alloc_run 1 a = (None, a)" by (simp add: spec_alloc_run_def)
      then have "smb_slab_alloc_locked s n = Some (None, s1)" "rep s1 a"
        unfolding smb_slab_alloc_locked_def Let_def m3 using nm nx s1(1,2) by simp_all
      then show ?thesis using nm Nil None s1(3,4) by (simp add: spec_alloc_def spec_alloc_chunk_def)
    next
      case (Some y)
      then obtain i fs where y: "take_first 1 (free_runs a) = Some (i, fs)" by (cases y) auto
      define I where "I = (if ?sh < smb_slab_exact_shift then smb_slab_init_small_page s1 (Page i) (Slot ?k) ?sh
       else if ?sh = smb_slab_exact_shift then smb_slab_init_exact_page s1 (Page i) (Slot ?k)
       else smb_slab_init_big_page s1 (Page i) (Slot ?k) ?sh)"
      obtain q s2 where I: "(q, s2) = I" by (cases I) auto
      have r: "spec_alloc_run 1 a = (Some i, a\<lparr>free_runs := fs, page_use := mark_run i 1 (page_use a)\<rparr>)"
        using y by (simp add: spec_alloc_run_def)
      have r1: "rep s1 (a\<lparr>free_runs := fs, page_use := mark_run i 1 (page_use a)\<rparr>)" using s1(2) r by simp
      note N = new_chunk_rep [OF assms(1) sh Nil y refl r1 s1(3,4) I [unfolded I_def]]
      have "smb_slab_alloc_locked s n = Some (Some q, s2)"
        unfolding smb_slab_alloc_locked_def Let_def m3 using nm nx s1(1) r I [unfolded I_def, symmetric] by simp
      then show ?thesis using N nm Nil y by (simp add: spec_alloc_def spec_alloc_chunk_def)
    qed
  qed
qed

lemma alloc_rep:
  assumes "rep s a" and "n < 2 ^ 64"
  shows "\<exists>s'. smb_slab_alloc_locked s n = Some (map_option (\<lambda>p. seg_start s + int p) (fst (spec_alloc n a)), s')
    \<and> rep s' (snd (spec_alloc n a)) \<and> seg_start s' = seg_start s \<and> real_pages s' = real_pages s"
proof (cases "n < smb_slab_max_size")
  case False
  then have "0 < n" by (simp add: smb_slab_max_size_def smb_pagesize_def)
  then have "0 < pages_for n" "pages_for n < 2 ^ 64"
    using pages_for_pos assms(2) by (auto simp: pages_for_def smb_pagesize_def)
  from alloc_pages_rep [OF assms(1) this] obtain s'
    where s': "smb_slab_alloc_pages s (pages_for n) = Some (fst (spec_alloc_run (pages_for n) a), s')"
      "rep s' (snd (spec_alloc_run (pages_for n) a))" "seg_start s' = seg_start s" "real_pages s' = real_pages s" by blast
  have "smb_slab_alloc_locked s n =
      Some (map_option (\<lambda>i. smb_slab_page_addr s' (Page i)) (fst (spec_alloc_run (pages_for n) a)), s')"
    unfolding smb_slab_alloc_locked_def pages_for_def [symmetric] s'(1) using False by simp
  then show ?thesis using False s'(2-4)
    by (cases "spec_alloc_run (pages_for n) a") (simp add: spec_alloc_def page_addr option.map_comp comp_def)
qed (rule alloc_chunk_rep [OF assms(1)])

text \<open>Freeing a chunk: the page goes back to the list if it was full, and to the free runs if it becomes empty.\<close>

lemma chunk_given:
  assumes "rep s a" and "page_use a i = Chunks sh U" and "c \<in> U" and "reserved sh \<le> c"
    and "s1 = (if U = {..<chunk_count sh} then relink i (sh - 3) (class_type sh) s else s)"
    and "\<And>m. m \<noteq> Page i \<Longrightarrow> descs s2 m = descs s1 m" and "pg_next (descs s2 (Page i)) = pg_next (descs s1 (Page i))"
    and "pg_prev (descs s2 (Page i)) = pg_prev (descs s1 (Page i))" and "\<And>j. j \<noteq> int i \<Longrightarrow> words s2 j = words s1 j"
    and "real_pages s2 = real_pages s1" and "seg_start s2 = seg_start s1" and "seg_end s2 = seg_end s1"
    and "chunk_rep (pg_slab (descs s2 (Page i))) (words s2 (int i)) sh (U - {c})"
    and "s3 = (if U - {c} = {..<reserved sh} then smb_slab_free_pages s2 i 1 else s2)"
  shows "rep s3 (spec_free_chunk sh i c a)"
proof -
  note R = repD [OF assms(1)]
  let ?k = "sh - 3" and ?b = "spec_free_chunk sh i c a"
  note C = spec_invD(6) [OF R(1) assms(2)]
  have k3: "?k + 3 = sh" using C by simp
  have k: "?k < slot_count" using C by (auto simp: slot_count_def smb_pagesize_shift_def min_shift_def)
  have B0: "rep_but s a i ?k (partial a ?k)" using rep_butI [OF assms(1) k, of i] assms(2) k3 by auto
  define L where "L = (if U = {..<chunk_count sh} then i # partial a ?k else partial a ?k)"
  have in_part: "i \<in> set (partial a ?k) \<longleftrightarrow> U \<noteq> {..<chunk_count sh}"
    using spec_invD(5) [OF R(1), of ?k] assms(2) k3 by auto
  have ty: "snd (pg_prev (descs s (Page i))) = class_type sh" using R(8) [of i] assms(2) by simp
  have r1: "real_pages s1 = real_pages s" by (simp add: assms(5))
  have B1: "rep_but s1 a i ?k L \<and> snd (pg_prev (descs s1 (Page i))) = class_type sh"
  proof (cases "U = {..<chunk_count sh}")
    case True
    then show ?thesis using rep_but_relink [OF B0, of "class_type sh"] in_part k3 by (simp add: L_def assms(5))
  next
    case False
    then show ?thesis using B0 ty by (simp add: L_def assms(5))
  qed
  then have B2: "rep_but s2 a i ?k L" by (rule rep_but_page [OF conjunct1]) (use assms(6-12) in auto)
  have iL: "i \<in> set L" using in_part by (simp add: L_def)
  have inv: "spec_inv (real_pages s2) ?b" using spec_free_chunk_ok(1) [OF R(1) assms(2-4)] assms(10) r1 by simp
  have ne: "U - {c} \<noteq> {..<chunk_count sh}" using assms(3) C by blast
  have b: "?b = (if U - {c} = {..<reserved sh}
     then a\<lparr>free_runs := (i, 1) # free_runs a, page_use := (page_use a)(i := Unused), partial := (partial a)(?k := remove1 i L)\<rparr>
     else a\<lparr>page_use := (page_use a)(i := Chunks sh (U - {c})), partial := (partial a)(?k := L)\<rparr>)"
    by (simp add: spec_free_chunk_def assms(2) L_def Let_def)
  show ?thesis
  proof (cases "U - {c} = {..<reserved sh}")
    case True
    have "pg_next (descs s2 (Page i)) \<noteq> None" using dchain_next [OF rep_butD(5) [OF B2], of "Page i"] iL by simp
    then have s3: "s3 = push_free i 1 (unlink i s2)" using assms(14) True by (simp add: free_pages_eq)
    note B3 = rep_but_unlink [OF B2 iL]
    have "i \<notin> set (remove1 i L)" using rep_butD(3) [OF B2] by simp
    moreover have "real_pages (unlink i s2) = real_pages s2" by (simp add: unlink_def Let_def)
    ultimately show ?thesis unfolding s3 using rep_but_free [OF B3(1)] b True inv by simp
  next
    case False
    have "page_rep s2 i (Chunks sh (U - {c}))" using assms(8,13) B1 ne by simp
    then show ?thesis using rep_but_done [OF B2] b False inv assms(14) by simp
  qed
qed

lemma chunk_addr:
  assumes "seg_start s mod 4096 = 0" and "sh \<le> 11" and "c < chunk_count sh" and "p = seg_start s + int (i * 4096 + c * 2 ^ sh)"
  shows "p mod 2 ^ sh = 0" and "nat (p mod int smb_pagesize div 2 ^ sh) = c"
    and "nat ((p - seg_start s) div 2 ^ smb_pagesize_shift) = i"
proof -
  let ?o = "i * 4096 + c * 2 ^ sh"
  obtain q where q: "seg_start s = 4096 * q" using assms(1) by (auto simp: mod_eq_0_iff_dvd)
  have d: "(4096 :: int) = 2 ^ (12 - sh) * 2 ^ sh" using assms(2) by (simp flip: power_add)
  have "p = (2 ^ (12 - sh) * (q + int i) + int c) * 2 ^ sh"
    unfolding assms(4) q using d by (simp add: algebra_simps)
  then show "p mod 2 ^ sh = 0" by simp
  have o: "?o div 4096 = i" "?o mod 4096 div 2 ^ sh = c" using byte_in_chunk [of i c sh ?o] assms(2,3) by auto
  have "p mod 4096 = int ?o mod 4096" unfolding assms(4) q by simp
  also have "\<dots> = int (?o mod 4096)" by (simp only: of_nat_mod of_nat_numeral)
  finally have "p mod 4096 div 2 ^ sh = int (?o mod 4096 div 2 ^ sh)" by (simp add: of_nat_div)
  then show "nat (p mod int smb_pagesize div 2 ^ sh) = c" unfolding o(2) by (simp add: smb_pagesize_def)
  have "(p - seg_start s) div 4096 = int (?o div 4096)" unfolding assms(4) by (simp only: of_nat_div of_nat_numeral)
  then show "nat ((p - seg_start s) div 2 ^ smb_pagesize_shift) = i" unfolding o(1) by (simp add: smb_pagesize_shift_def)
qed

lemma relink_slab [simp]: "pg_slab (descs (relink i k t s) m) = pg_slab (descs s m)"
  by (cases "pg_next (descs s (Slot k))") (auto simp: relink_def set_prev_def Let_def)

lemma full_page_next:
  assumes "rep s a" and "page_use a i = Chunks sh U"
  shows "pg_next (descs s (Page i)) = None \<longleftrightarrow> U = {..<chunk_count sh}"
proof
  show "pg_next (descs s (Page i)) = None" if "U = {..<chunk_count sh}" using repD(8) [OF assms(1), of i] assms(2) that by simp
  show "U = {..<chunk_count sh}" if n: "pg_next (descs s (Page i)) = None"
  proof (rule ccontr)
    assume "U \<noteq> {..<chunk_count sh}"
    note C = spec_invD(6) [OF repD(1) [OF assms(1)] assms(2)]
    then have "i \<in> set (partial a (sh - 3))" "sh - 3 < slot_count"
      using spec_invD(5) [OF repD(1) [OF assms(1)], of "sh - 3"] assms(2) \<open>U \<noteq> _\<close>
      by (auto simp: slot_count_def smb_pagesize_shift_def min_shift_def)
    then show False using dchain_next [OF repD(7) [OF assms(1)], of "sh - 3" "Page i"] n by simp
  qed
qed

lemma free_small_rep:
  assumes "rep s a" and "page_use a i = Chunks sh U" and "sh < 6" and "c \<in> U" and "reserved sh \<le> c"
    and "p = seg_start s + int (i * 4096 + c * 2 ^ sh)"
  shows "rep (free_small s i p) (spec_free_chunk sh i c a)"
proof -
  note R = repD [OF assms(1)] and C = spec_invD(6) [OF repD(1) [OF assms(1)] assms(2)]
  have sh: "3 \<le> sh" "sh \<le> 11" and cc: "c < chunk_count sh" using C assms(4) by auto
  note A = chunk_addr [OF R(3) sh(2) cc assms(6)]
  have cr: "chunk_rep (pg_slab (descs s (Page i))) (words s (int i)) sh U" using R(8) [of i] assms(2) by simp
  note S = small_repD [OF cr assms(3)]
  let ?ws = "words s (int i)" and ?n = "c div 64" and ?m = "push_bit (c mod 64) 1 :: u64"
  have bit: "?ws ?n AND ?m \<noteq> 0" using S(2) [OF cc] assms(4) and_bit_iff [of "c mod 64" "?ws ?n"] by simp
  have ty: "class_type sh = SMB_SLAB_SMALL" using assms(3) by (simp add: class_type_def)
  define s1 where "s1 = (if U = {..<chunk_count sh} then relink i (sh - 3) (class_type sh) s else s)"
  have w1: "words s1 = words s" and p1: "pg_slab (descs s1 (Page i)) = pg_slab (descs s (Page i))" by (simp_all add: s1_def)
  define s2 where "s2 = (if ?ws ?n = SMB_SLAB_BUSY
     then upd_desc (Page i) (\<lambda>d. d\<lparr>pg_slab := pg_slab d OR smb_slab_small_summary_bit ?n\<rparr>) s1 else s1)"
  define s3 where "s3 = upd_word (int i) ?n (\<lambda>w. w AND NOT ?m) s2"
  have w2: "words s2 = words s" by (simp add: s2_def w1)
  have cr3: "chunk_rep (pg_slab (descs s3 (Page i))) (words s3 (int i)) sh (U - {c})"
    using small_give [OF cr sh(1) assms(3) cc refl] p1
    by (cases "?ws ?n = SMB_SLAB_BUSY") (simp_all add: s3_def s2_def w2 upd_word_words w1 del: push_bit_of_1)
  have sub: "{..<reserved sh} \<subseteq> U - {c}" "U - {c} \<subseteq> {..<chunk_count sh}" using C assms(5) by auto
  define s4 where "s4 = (if U - {c} = {..<reserved sh} then smb_slab_free_pages s3 i 1 else s3)"
  have "rep s4 (spec_free_chunk sh i c a)"
    by (rule chunk_given [OF assms(1,2,4,5) s1_def _ _ _ _ _ _ _ cr3 s4_def])
      (simp_all add: s3_def s2_def upd_word_words)
  moreover have e1: "(if pg_next (descs s (Page i)) = None then relink i (sh - min_shift) SMB_SLAB_SMALL s else s) = s1"
    using full_page_next [OF assms(1,2)] by (simp add: s1_def ty min_shift_def)
  have "free_small s i p = (if words s3 (int i) 0 AND NOT (push_bit (small_reserved sh) 1 - 1) \<noteq> 0 then s3
      else if \<exists>j \<in> set [1..<smb_slab_small_map_words sh]. words s3 (int i) j \<noteq> 0 then s3 else smb_slab_free_pages s3 i 1)"
    unfolding free_small_def Let_def S(1) A(1,2) e1 w1 s2_def [symmetric] s3_def [symmetric] using bit by simp
  then have "free_small s i p = s4"
    using small_empty [OF cr3 sh(1) assms(3) sub] unfolding s4_def by presburger
  ultimately show ?thesis by simp
qed

lemma free_exact_rep:
  assumes "rep s a" and "page_use a i = Chunks 6 U" and "c \<in> U" and "p = seg_start s + int (i * 4096 + c * 2 ^ 6)"
  shows "rep (free_exact s i p) (spec_free_chunk 6 i c a)"
proof -
  note R = repD [OF assms(1)] and C = spec_invD(6) [OF repD(1) [OF assms(1)] assms(2)]
  have n: "chunk_count 6 = 64" and r: "reserved 6 = 0" and ty: "class_type 6 = SMB_SLAB_EXACT"
    by (simp_all add: chunk_count_def reserved_def class_type_def)
  have cc: "c < chunk_count 6" and c64: "c < 64" using C assms(3) n by auto
  have e6: "smb_slab_exact_shift = 6" "int smb_slab_exact_size = 2 ^ 6" by (simp_all add: smb_slab_exact_shift_def smb_slab_exact_size_def smb_pagesize_def)
  have "(6 :: nat) \<le> 11" by simp
  note A = chunk_addr [OF R(3) this cc assms(4)]
  let ?slab = "pg_slab (descs s (Page i))" and ?m = "push_bit c 1 :: u64"
  have bits: "bit ?slab d \<longleftrightarrow> d \<in> U" if "d < 64" for d using R(8) [of i] assms(2) that by (simp add: chunk_rep_def)
  have bit: "?slab AND ?m \<noteq> 0" using bits [OF c64] assms(3) and_bit_iff [OF c64, of ?slab] by simp
  have full: "?slab = SMB_SLAB_BUSY \<longleftrightarrow> U = {..<chunk_count 6}"
    unfolding busy_iff using bits C unfolding n by blast
  define s1 where "s1 = (if U = {..<chunk_count 6} then relink i (6 - 3) (class_type 6) s else s)"
  define s2 where "s2 = upd_desc (Page i) (\<lambda>d. d\<lparr>pg_slab := pg_slab d AND NOT ?m\<rparr>) s1"
  have sl: "pg_slab (descs s2 (Page i)) = ?slab AND NOT ?m" by (simp add: s2_def s1_def)
  have bits2: "bit (?slab AND NOT ?m) d \<longleftrightarrow> d \<in> U - {c}" if "d < 64" for d
    using bits [OF that] bit_and_not_single [OF c64, of ?slab d] by simp
  then have cr2: "chunk_rep (pg_slab (descs s2 (Page i))) (words s2 (int i)) 6 (U - {c})"
    unfolding sl by (simp add: chunk_rep_def del: push_bit_of_1)
  define s3 where "s3 = (if U - {c} = {..<reserved 6} then smb_slab_free_pages s2 i 1 else s2)"
  have "rep s3 (spec_free_chunk 6 i c a)"
    by (rule chunk_given [OF assms(1-3) _ s1_def _ _ _ _ _ _ _ cr2 s3_def]) (simp_all add: s2_def r)
  moreover have empty: "?slab AND NOT ?m = 0 \<longleftrightarrow> U - {c} = {..<reserved 6}"
  proof
    assume z: "?slab AND NOT ?m = 0"
    have "d \<notin> U - {c}" for d using bits2 [of d] C unfolding z n by auto
    then show "U - {c} = {..<reserved 6}" unfolding r by blast
  next
    assume "U - {c} = {..<reserved 6}"
    then have "\<not> bit (?slab AND NOT ?m) d" if "d < 64" for d using bits2 [OF that] unfolding r by blast
    then show "?slab AND NOT ?m = 0" by (intro bit_word_eqI) simp
  qed
  moreover have "free_exact s i p = s3"
    using bit A(1) full empty sl unfolding free_exact_def Let_def e6 A(2) s3_def
    by (simp add: s2_def s1_def ty min_shift_def del: push_bit_of_1)
  ultimately show ?thesis by simp
qed

lemma free_big_rep:
  assumes "rep s a" and "page_use a i = Chunks sh U" and "7 \<le> sh" and "c \<in> U" and "p = seg_start s + int (i * 4096 + c * 2 ^ sh)"
  shows "rep (free_big s i p) (spec_free_chunk sh i c a)"
proof -
  note R = repD [OF assms(1)] and C = spec_invD(6) [OF repD(1) [OF assms(1)] assms(2)]
  have sh: "sh \<le> 11" and cc: "c < chunk_count sh" using C assms(4) by auto
  have r: "reserved sh = 0" and ty: "class_type sh = SMB_SLAB_BIG" using assms(3) by (simp_all add: reserved_def class_type_def)
  note A = chunk_addr [OF R(3) sh cc assms(5)] and n = big_count [OF assms(3) sh]
  have c32: "c < 32" and c64: "c + 32 < 64" using cc n by simp_all
  let ?slab = "pg_slab (descs s (Page i))" and ?m = "push_bit (c + 32) 1 :: u64"
  have cr: "chunk_rep ?slab (words s (int i)) sh U" using R(8) [of i] assms(2) by simp
  note D = big_repD [OF cr assms(3)]
  have bit: "?slab AND ?m \<noteq> 0" using D(2) [OF c32] assms(4) and_bit_iff [OF c64, of ?slab] by (simp add: add.commute)
  define s1 where "s1 = (if U = {..<chunk_count sh} then relink i (sh - 3) (class_type sh) s else s)"
  define s2 where "s2 = upd_desc (Page i) (\<lambda>d. d\<lparr>pg_slab := pg_slab d AND NOT ?m\<rparr>) s1"
  have sl: "pg_slab (descs s2 (Page i)) = ?slab AND NOT ?m" by (simp add: s2_def s1_def)
  have bits2: "bit (?slab AND NOT ?m) d \<longleftrightarrow> bit ?slab d \<and> d \<noteq> c + 32" for d by (rule bit_and_not_single [OF c64])
  have cr2: "chunk_rep (pg_slab (descs s2 (Page i))) (words s2 (int i)) sh (U - {c})"
    unfolding sl by (rule big_change [OF cr assms(3)]) (use bits2 D(2) in auto)
  define s3 where "s3 = (if U - {c} = {..<reserved sh} then smb_slab_free_pages s2 i 1 else s2)"
  have "rep s3 (spec_free_chunk sh i c a)"
    by (rule chunk_given [OF assms(1,2,4) _ s1_def _ _ _ _ _ _ _ cr2 s3_def]) (simp_all add: s2_def r)
  moreover have empty: "(?slab AND NOT ?m) AND SMB_SLAB_MAP_MASK = 0 \<longleftrightarrow> U - {c} = {..<reserved sh}"
  proof
    assume z: "(?slab AND NOT ?m) AND SMB_SLAB_MAP_MASK = 0"
    have "d \<notin> U - {c}" for d
    proof
      assume d: "d \<in> U - {c}"
      then have "d < 32" using C n by auto
      then have "bit ((?slab AND NOT ?m) AND SMB_SLAB_MAP_MASK) (32 + d)"
        using d D(2) bits2 [of "32 + d"] by (simp add: bit_and_iff [of "?slab AND NOT ?m"] bit_MAP_MASK del: push_bit_of_1)
      then show False unfolding z by simp
    qed
    then show "U - {c} = {..<reserved sh}" unfolding r by blast
  next
    assume e: "U - {c} = {..<reserved sh}"
    show "(?slab AND NOT ?m) AND SMB_SLAB_MAP_MASK = 0"
    proof (rule bit_word_eqI)
      fix d assume d: "d < LENGTH(64)"
      have "\<not> bit (?slab AND NOT ?m) d" if "32 \<le> d"
        using D(2) [of "d - 32"] bits2 [of d] d that e unfolding r by auto
      then show "bit ((?slab AND NOT ?m) AND SMB_SLAB_MAP_MASK) d = bit 0 d"
        unfolding bit_and_iff [of "?slab AND NOT ?m"] bit_MAP_MASK by auto
    qed
  qed
  have e1: "(if pg_next (descs s (Page i)) = None then relink i (sh - min_shift) SMB_SLAB_BIG s else s) = s1"
    using full_page_next [OF assms(1,2)] by (simp add: s1_def ty min_shift_def)
  have M: "SMB_SLAB_MAP_SHIFT = 32" by (simp add: SMB_SLAB_MAP_SHIFT_def)
  have "free_big s i p = (if pg_slab (descs s2 (Page i)) AND SMB_SLAB_MAP_MASK \<noteq> 0 then s2 else smb_slab_free_pages s2 i 1)"
    unfolding free_big_def Let_def D(1) A(1,2) M e1 s2_def [symmetric] using bit by simp
  then have "free_big s i p = s3" using empty unfolding sl s3_def by presburger
  ultimately show ?thesis by simp
qed

text \<open>Freeing a block that is handed out.\<close>

lemma run_slab:
  assumes "n < 2 ^ 52"
  shows "word_of_nat n OR SMB_SLAB_PAGE_START \<noteq> 0" and "word_of_nat n OR SMB_SLAB_PAGE_START \<noteq> SMB_SLAB_PAGE_BUSY"
    and "unat ((word_of_nat n OR SMB_SLAB_PAGE_START) AND NOT SMB_SLAB_PAGE_START) = n"
proof -
  let ?w = "word_of_nat n :: u64"
  have u: "unat ?w = n" using assms by (simp add: unsigned_of_nat take_bit_nat_eq_self)
  have hi: "\<not> bit ?w k" if "52 \<le> k" for k
  proof -
    have "n < 2 ^ k" using assms power_increasing [OF that, of "2 :: nat"] by simp
    then have "\<not> bit n k" by (simp add: bit_iff_odd)
    then show ?thesis using bit_unsigned_iff [of ?w k, where 'a = nat] u by (auto dest: bit_imp_le_length)
  qed
  have st: "bit SMB_SLAB_PAGE_START k \<longleftrightarrow> k = 63" for k
    using bit_or_single [of 63 0 k] by (simp add: SMB_SLAB_PAGE_START_def)
  have "bit (?w OR SMB_SLAB_PAGE_START) 63" by (simp add: bit_or_iff st)
  then show "?w OR SMB_SLAB_PAGE_START \<noteq> 0" by auto
  have "\<not> bit (?w OR SMB_SLAB_PAGE_START) 62" by (simp add: bit_or_iff st hi)
  moreover have "bit SMB_SLAB_PAGE_BUSY 62" by (simp add: SMB_SLAB_PAGE_BUSY_def)
  ultimately show "?w OR SMB_SLAB_PAGE_START \<noteq> SMB_SLAB_PAGE_BUSY" by metis
  have "(?w OR SMB_SLAB_PAGE_START) AND NOT SMB_SLAB_PAGE_START = ?w"
  proof (rule bit_word_eqI)
    fix k assume "k < LENGTH(64)"
    then show "bit ((?w OR SMB_SLAB_PAGE_START) AND NOT SMB_SLAB_PAGE_START) k = bit ?w k"
      using hi [of k] by (auto simp: bit_and_iff bit_or_iff bit_not_iff st)
  qed
  then show "unat ((?w OR SMB_SLAB_PAGE_START) AND NOT SMB_SLAB_PAGE_START) = n" using u by simp
qed

lemma block_bounds:
  assumes "spec_inv N a" and "(p, l) \<in> blocks a"
  shows "p + l \<le> N * 4096" and "0 < l"
proof -
  note I = spec_invD [OF assms(1)]
  from assms(2) consider i n where "p = i * 4096" "l = n * 4096" "page_use a i = Run n"
    | i sh U c where "p = i * 4096 + c * 2 ^ sh" "l = 2 ^ sh" "page_use a i = Chunks sh U" "c \<in> U"
    by (auto simp: blocks_eq)
  then have "p + l \<le> N * 4096 \<and> 0 < l"
  proof cases
    case (1 i n)
    then show ?thesis using I(7) [OF 1(3)] mult_le_mono1 [of "i + n" N 4096] by (simp add: add_mult_distrib)
  next
    case (2 i sh U c)
    then have "c < chunk_count sh" "sh \<le> 11" "i < N" using I(6) [OF 2(3)] by auto
    from page_fits [OF chunk_fits [OF this(1,2)] this(3)] show ?thesis using 2(1,2) by simp
  qed
  then show "p + l \<le> N * 4096" "0 < l" by simp_all
qed

lemma free_rep:
  assumes "rep s a" and "(p, l) \<in> blocks a"
  shows "rep (smb_slab_free_locked s (seg_start s + int p)) (spec_free p a)"
proof -
  note R = repD [OF assms(1)]
  let ?p = "seg_start s + int p" and ?i = "p div 4096"
  have len: "p + l \<le> real_pages s * 4096" "0 < l" using block_bounds [OF R(1) assms(2)] by simp_all
  then have "p < real_pages s * 4096" by simp
  then have "int p < int (real_pages s) * 4096" by linarith
  then have range: "\<not> (?p < seg_start s \<or> seg_end s < ?p)" using R(4) by simp
  have i: "nat ((?p - seg_start s) div 2 ^ smb_pagesize_shift) = ?i"
    by (simp add: smb_pagesize_shift_def nat_div_distrib)
  from block_page [OF R(1) assms(2)] show ?thesis
  proof (elim disjE exE conjE)
    fix n assume A: "page_use a ?i = Run n" "l = n * 4096" "p mod 4096 = 0"
    note run = spec_invD(7) [OF R(1) A(1)]
    have pr: "descs s (Page ?i) = \<lparr>pg_slab = word_of_nat n OR SMB_SLAB_PAGE_START, pg_next = None, pg_prev = (None, SMB_SLAB_PAGE)\<rparr>"
      using R(8) [of ?i] A(1) by simp
    have "n < 2 ^ 52" using run R(2) by simp
    note W = run_slab [OF this]
    have al: "?p mod int smb_pagesize = 0"
    proof -
      obtain q where q: "seg_start s = 4096 * q" using R(3) by (auto simp: mod_eq_0_iff_dvd)
      have "int (p mod 4096) = 0" using A(3) by simp
      then have "int p mod 4096 = 0" by (simp only: of_nat_mod of_nat_numeral)
      then show ?thesis unfolding q by (simp add: smb_pagesize_def)
    qed
    have "smb_slab_free_locked s ?p = smb_slab_free_pages s ?i n"
      unfolding smb_slab_free_locked_def Let_def i using range al W by (simp add: pr)
    then show ?thesis using free_run_rep [OF assms(1) A(1)] A(1) by (simp add: spec_free_def)
  next
    fix sh U assume A: "page_use a ?i = Chunks sh U" "l = 2 ^ sh" "p mod 4096 div 2 ^ sh \<in> U"
      "reserved sh \<le> p mod 4096 div 2 ^ sh" "p mod 2 ^ sh = 0"
    let ?c = "p mod 4096 div 2 ^ sh"
    have sh: "sh \<le> 11" using spec_invD(6) [OF R(1) A(1)] by simp
    have "(4096 :: nat) = 2 ^ sh * 2 ^ (12 - sh)" using sh by (simp flip: power_add)
    then have "2 ^ sh dvd (4096 :: nat)" by (rule dvdI)
    moreover have "2 ^ sh dvd p" using A(5) by auto
    ultimately have "2 ^ sh dvd p mod 4096" by (intro dvd_mod)
    then have "?c * 2 ^ sh = p mod 4096" by (rule dvd_div_mult_self)
    then have p: "?p = seg_start s + int (?i * 4096 + ?c * 2 ^ sh)" by simp
    have ty: "snd (pg_prev (descs s (Page ?i))) = class_type sh" using R(8) [of ?i] A(1) by simp
    have spec: "spec_free p a = spec_free_chunk sh ?i ?c a" using A(1) by (simp add: spec_free_def)
    have L: "smb_slab_free_locked s ?p = (case class_type sh of SMB_SLAB_SMALL \<Rightarrow> free_small s ?i ?p
        | SMB_SLAB_EXACT \<Rightarrow> free_exact s ?i ?p | SMB_SLAB_BIG \<Rightarrow> free_big s ?i ?p | SMB_SLAB_PAGE \<Rightarrow> s)"
      unfolding smb_slab_free_locked_def Let_def i ty using range
      by (cases "class_type sh") (simp_all add: class_type_def split: if_splits)
    consider "sh < 6" | "sh = 6" | "7 \<le> sh" by linarith
    then show ?thesis
    proof cases
      case 1
      then show ?thesis using free_small_rep [OF assms(1) A(1) 1 A(3,4) p] L spec by (simp add: class_type_def)
    next
      case 2
      show ?thesis using free_exact_rep [OF assms(1) A(1,3) [unfolded 2] p [unfolded 2]] L spec 2 by (simp add: class_type_def)
    next
      case 3
      then show ?thesis using free_big_rep [OF assms(1) A(1) 3 A(3) p] L spec by (simp add: class_type_def)
    qed
  qed
qed

end
