(* ===== verification/Memory_Pool_Segments.thy ===== *)
theory Memory_Pool_Segments
  imports Memory_Pool
begin

text \<open>
  The chain of segments of the memory pool and the functions other components call, from
  \<open>src/platform/memory_pool/zoo_memory_pool.c\<close>: creating a segment and laying out its memory, growing the
  pool, allocating, freeing, the usage figures, and the check of the free lists. The static variables
  \<open>smb_memory_pool\<close>, \<open>smb_memory_pool_tail\<close> and \<open>smb_memory_pool_list_mutex_ready\<close> are the record \<open>pool\<close>:
  the chain starts with the first segment of the list and ends with the tail. The answer of \<open>malloc\<close>
  to a size and those of the initialisers of the mutexes are arguments. Sizes and addresses are numbers,
  with the wrap-around of \<open>size_t\<close> written out.
\<close>

section \<open>Creating a segment\<close>

record pool =
  segs :: "segment list"
  list_mutex_ready :: bool

definition size_t :: "int \<Rightarrow> nat" where "size_t x = nat (x mod 2 ^ 64)"

definition SMB_ALIGN_PTR :: "int \<Rightarrow> nat \<Rightarrow> int" where
  "SMB_ALIGN_PTR p a = (let q = int (size_t (p + (int a - 1))) in q - q mod int a)"

text \<open>\<open>slots_end\<close> is where the page descriptors begin.\<close>

definition slots_end :: "int \<Rightarrow> int" where
  "slots_end base = base + int sizeof_memory_pool + int (slot_count * sizeof_slab_page)"

definition init_descs :: "nat \<Rightarrow> slab_node \<Rightarrow> slab_page" where
  "init_descs n = (\<lambda>m. case m of
       FreeHead \<Rightarrow> \<lparr>pg_slab = 0, pg_next = Some (Page 0), pg_prev = (Some (Page 0), SMB_SLAB_PAGE)\<rparr>
     | Slot k \<Rightarrow> \<lparr>pg_slab = 0, pg_next = Some (Slot k), pg_prev = (None, SMB_SLAB_PAGE)\<rparr>
     | Page i \<Rightarrow> if i = 0 then \<lparr>pg_slab = word_of_nat n, pg_next = Some FreeHead, pg_prev = (Some FreeHead, SMB_SLAB_PAGE)\<rparr>
                 else zero_page)"

definition smb_slab_init :: "int \<Rightarrow> nat \<Rightarrow> segment" where
  "smb_slab_init base total_size =
     (let end_ptr = base + int total_size;
          p = slots_end base;
          pages = size_t (end_ptr - p) div (smb_pagesize + sizeof_slab_page);
          start = SMB_ALIGN_PTR (p + int (pages * sizeof_slab_page)) smb_pagesize;
          n = size_t (end_ptr - start) div smb_pagesize
      in \<lparr>seg_base = base, seg_start = start, seg_end = end_ptr, seg_total = total_size, seg_descs = pages,
          real_pages = n, descs = init_descs n, words = (\<lambda>_ _. 0)\<rparr>)"

definition smb_memory_pool_create_segment :: "nat \<Rightarrow> (nat \<Rightarrow> int option) \<Rightarrow> bool \<Rightarrow> segment option" where
  "smb_memory_pool_create_segment total_size malloc mutex_ok =
     (if total_size \<le> sizeof_memory_pool then None
      else case malloc total_size of
             None \<Rightarrow> None
           | Some base \<Rightarrow> if mutex_ok then Some (smb_slab_init base total_size) else None)"

fun smb_memory_pool_find_segment_for_ptr :: "segment list \<Rightarrow> int \<Rightarrow> nat option" where
  "smb_memory_pool_find_segment_for_ptr [] p = None"
| "smb_memory_pool_find_segment_for_ptr (s # ss) p =
     (if seg_start s \<le> p \<and> p < seg_end s then Some 0
      else map_option Suc (smb_memory_pool_find_segment_for_ptr ss p))"

section \<open>Growing\<close>

definition SIZE_MAX :: nat where "SIZE_MAX = 2 ^ 64 - 1"

partial_function (option) double_candidate :: "nat \<Rightarrow> nat \<Rightarrow> nat option" where
  "double_candidate candidate_size min_total =
     (if candidate_size < min_total then
        if candidate_size > SIZE_MAX div 2 then Some min_total
        else double_candidate (candidate_size * 2) min_total
      else Some candidate_size)"

definition requested_pages :: "nat \<Rightarrow> nat" where
  "requested_pages request_size =
     (let n = size_t (int request_size + int smb_pagesize - 1) div smb_pagesize in if n = 0 then 1 else n)"

definition min_total :: "nat \<Rightarrow> nat" where
  "min_total request_size =
     (let n = requested_pages request_size
      in size_t (int (sizeof_memory_pool + (slot_count + n + 2) * sizeof_slab_page + (n + 2) * smb_pagesize)))"

definition smb_memory_pool_segment_size :: "nat \<Rightarrow> nat \<Rightarrow> nat option" where
  "smb_memory_pool_segment_size request_size reference_size =
     map_option
       (\<lambda>c. if c mod smb_pagesize \<noteq> 0 then size_t (int (c + (smb_pagesize - c mod smb_pagesize))) else c)
       (double_candidate (if reference_size > 0 then reference_size else min_total request_size) (min_total request_size))"

section \<open>Allocating and freeing\<close>

fun alloc_walk :: "segment list \<Rightarrow> nat \<Rightarrow> (int option \<times> segment list) option" where
  "alloc_walk [] n = Some (None, [])"
| "alloc_walk (s # ss) n = Option.bind (smb_slab_alloc_locked s n) (\<lambda>(p, s').
     case p of
       Some a \<Rightarrow> Some (Some a, s' # ss)
     | None \<Rightarrow> map_option (\<lambda>(q, ss'). (q, s' # ss')) (alloc_walk ss n))"

definition smb_memory_pool_alloc_locked ::
    "(nat \<Rightarrow> int option) \<Rightarrow> bool \<Rightarrow> pool \<Rightarrow> nat \<Rightarrow> (int option \<times> pool) option" where
  "smb_memory_pool_alloc_locked malloc mutex_ok P n =
     Option.bind (alloc_walk (segs P) n) (\<lambda>(p, ss).
       case p of
         Some a \<Rightarrow> Some (Some a, P\<lparr>segs := ss\<rparr>)
       | None \<Rightarrow>
           if ss = [] then Some (None, P\<lparr>segs := ss\<rparr>)
           else Option.bind (smb_memory_pool_segment_size n (seg_total (last ss))) (\<lambda>total_size.
             case smb_memory_pool_create_segment total_size malloc mutex_ok of
               None \<Rightarrow> Some (None, P\<lparr>segs := ss\<rparr>)
             | Some s \<Rightarrow> map_option (\<lambda>(q, s'). (q, P\<lparr>segs := ss @ [s']\<rparr>)) (smb_slab_alloc_locked s n)))"

definition smb_memory_pool_free_locked :: "pool \<Rightarrow> int \<Rightarrow> pool" where
  "smb_memory_pool_free_locked P p =
     (case smb_memory_pool_find_segment_for_ptr (segs P) p of
        None \<Rightarrow> P
      | Some k \<Rightarrow> P\<lparr>segs := (segs P)[k := smb_slab_free_locked (segs P ! k) p]\<rparr>)"

section \<open>Interface\<close>

definition ZOO_ERROR_MEM_POOL_ALLOCATION_FAILED :: zoo_error where "ZOO_ERROR_MEM_POOL_ALLOCATION_FAILED = - 1"

definition zoo_create_memory_pool :: "(nat \<Rightarrow> int option) \<Rightarrow> bool \<Rightarrow> bool \<Rightarrow> pool \<Rightarrow> nat \<Rightarrow> zoo_error \<times> pool" where
  "zoo_create_memory_pool malloc list_mutex_ok mutex_ok P total_size =
     (if segs P \<noteq> [] then (ZOO_OK, P)
      else if \<not> list_mutex_ready P \<and> \<not> list_mutex_ok then (ZOO_ERROR_MEM_POOL_ALLOCATION_FAILED, P)
      else let P1 = P\<lparr>list_mutex_ready := True\<rparr>
           in case smb_memory_pool_create_segment total_size malloc mutex_ok of
                None \<Rightarrow> (ZOO_ERROR_MEM_POOL_ALLOCATION_FAILED, P1)
              | Some s \<Rightarrow> (ZOO_OK, P1\<lparr>segs := [s]\<rparr>))"

definition zoo_allocate_from_pool ::
    "(nat \<Rightarrow> int option) \<Rightarrow> bool \<Rightarrow> pool \<Rightarrow> nat \<Rightarrow> (int option \<times> pool) option" where
  "zoo_allocate_from_pool malloc mutex_ok P n =
     (if segs P = [] \<or> n = 0 then Some (None, P) else smb_memory_pool_alloc_locked malloc mutex_ok P n)"

definition zoo_destroy_memory_pool :: "pool \<Rightarrow> pool" where
  "zoo_destroy_memory_pool P = (if segs P \<noteq> [] then P\<lparr>segs := [], list_mutex_ready := False\<rparr> else P)"

definition zoo_free_to_pool :: "pool \<Rightarrow> int \<Rightarrow> pool" where
  "zoo_free_to_pool P p = (if p \<noteq> 0 \<and> segs P \<noteq> [] then smb_memory_pool_free_locked P p else P)"

section \<open>Usage\<close>

record memory_usage =
  pool_size :: u64
  used_size :: u64
  used_pct :: u64
  free_size :: u64
  usage_pages :: u64
  free_page :: u64
  p_small :: u64
  p_exact :: u64
  p_big :: u64
  p_page :: u64
  b_small :: u64
  b_exact :: u64
  b_big :: u64
  b_page :: u64
  max_free_pages :: u64

definition zero_usage :: memory_usage where
  "zero_usage = \<lparr>pool_size = 0, used_size = 0, used_pct = 0, free_size = 0, usage_pages = 0, free_page = 0, p_small = 0,
     p_exact = 0, p_big = 0, p_page = 0, b_small = 0, b_exact = 0, b_big = 0, b_page = 0, max_free_pages = 0\<rparr>"

partial_function (option) usage_loop :: "segment \<Rightarrow> slab_node \<Rightarrow> memory_usage \<Rightarrow> memory_usage option" where
  "usage_loop s page stat =
     (if page = FreeHead then Some stat
      else
        let free_pages = pg_slab (descs s page);
            stat1 = stat\<lparr>free_page := free_page stat + free_pages,
              free_size := free_size stat + free_pages * word_of_nat smb_pagesize\<rparr>;
            stat2 = (if free_pages > max_free_pages stat1 then stat1\<lparr>max_free_pages := free_pages\<rparr> else stat1)
        in case pg_next (descs s page) of None \<Rightarrow> None | Some nx \<Rightarrow> usage_loop s nx stat2)"

fun usage_walk :: "segment list \<Rightarrow> memory_usage \<Rightarrow> memory_usage option" where
  "usage_walk [] stat = Some stat"
| "usage_walk (s # ss) stat =
     (let stat1 = stat\<lparr>pool_size := pool_size stat + word_of_int (seg_end s - seg_start s),
        usage_pages := usage_pages stat + word_of_nat (real_pages s)\<rparr>
      in case pg_next (descs s FreeHead) of
           None \<Rightarrow> None
         | Some page \<Rightarrow> Option.bind (usage_loop s page stat1) (usage_walk ss))"

definition zoo_memory_pool_get_usage :: "pool \<Rightarrow> memory_usage option \<Rightarrow> memory_usage option option" where
  "zoo_memory_pool_get_usage P stat =
     (if stat = None \<or> segs P = [] then Some stat
      else map_option
        (\<lambda>u. let u1 = u\<lparr>used_size := pool_size u - free_size u\<rparr>
              in Some (if pool_size u1 > 0 then u1\<lparr>used_pct := (used_size u1 * 100) div pool_size u1\<rparr> else u1))
        (usage_walk (segs P) zero_usage))"

section \<open>The check of the free lists\<close>

partial_function (option) validate_loop :: "segment \<Rightarrow> slab_node \<Rightarrow> slab_node \<Rightarrow> u64 \<Rightarrow> u64 option option" where
  "validate_loop s prev page free_accounted =
     (if page = FreeHead then Some (Some free_accounted)
      else case pg_next (descs s page) of
             None \<Rightarrow> Some None
           | Some nx \<Rightarrow>
               if fst (pg_prev (descs s page)) \<noteq> Some prev then Some None
               else if Some nx = pg_next (descs s FreeHead) then Some None
               else validate_loop s page nx (free_accounted + pg_slab (descs s page)))"

fun validate_walk :: "segment list \<Rightarrow> zoo_error option" where
  "validate_walk [] = Some 0"
| "validate_walk (s # ss) =
     (case pg_next (descs s FreeHead) of
        None \<Rightarrow> None
      | Some page \<Rightarrow> Option.bind (validate_loop s FreeHead page 0) (\<lambda>r.
          case r of
            None \<Rightarrow> Some (- 1)
          | Some free_accounted \<Rightarrow>
              if free_accounted > word_of_nat (real_pages s) then Some (- 1) else validate_walk ss))"

definition zoo_validate_memory_pool :: "pool \<Rightarrow> zoo_error option" where
  "zoo_validate_memory_pool P = (if segs P = [] then Some (- 1) else validate_walk (segs P))"

end
