(* ===== verification/Memory_Pool_Contract.thy ===== *)
theory Memory_Pool_Contract
  imports Memory_Pool_Refine Memory_Pool_Segments
begin

text \<open>
  What the memory pool promises its users. A segment is a \<open>block_allocator\<close>: by the refinement of
  \<open>Memory_Pool_Refine\<close> it hands out blocks that overlap no other and takes them back. On these laws rest
  those of the chain of segments, for every sequence of requests and releases: blocks are disjoint and lie
  behind the tables of the segment, the free lists pass \<open>zoo_validate_memory_pool\<close>, a request fails only if
  the system has no memory, and when all blocks are returned all pages are free. The layout of a segment
  leaves room for the descriptors of its pages except in one case, which is characterised.
\<close>

section \<open>Allocators of blocks\<close>

text \<open>
  \<open>inv s L\<close>: the allocator is in order and the blocks \<open>L\<close>, with their addresses and lengths, are handed out.
  An operation that does not come to an end is \<open>None\<close>.
\<close>

locale block_allocator =
  fixes alloc :: "'s \<Rightarrow> nat \<Rightarrow> (int option \<times> 's) option"
    and free :: "'s \<Rightarrow> int \<Rightarrow> 's"
    and inv :: "'s \<Rightarrow> (int \<times> nat) set \<Rightarrow> bool"
  assumes disjoint: "inv s L \<Longrightarrow> (p, l) \<in> L \<Longrightarrow> (q, m) \<in> L \<Longrightarrow> p \<le> x \<Longrightarrow> x < p + int l \<Longrightarrow> q \<le> x \<Longrightarrow> x < q + int m \<Longrightarrow>
      p = q \<and> l = m"
    and alloc_spec: "inv s L \<Longrightarrow> 0 < n \<Longrightarrow> n < 2 ^ 64 \<Longrightarrow>
      (\<exists>s'. alloc s n = Some (None, s') \<and> inv s' L)
      \<or> (\<exists>p l s'. alloc s n = Some (Some p, s') \<and> (p, l) \<notin> L \<and> n \<le> l \<and> inv s' (insert (p, l) L))"
    and free_spec: "inv s L \<Longrightarrow> (p, l) \<in> L \<Longrightarrow> inv (free s p) (L - {(p, l)})"
begin

lemma alloc_returns: "inv s L \<Longrightarrow> 0 < n \<Longrightarrow> n < 2 ^ 64 \<Longrightarrow> \<exists>r s'. alloc s n = Some (r, s')"
  using alloc_spec by blast

lemma alloc_None: "inv s L \<Longrightarrow> 0 < n \<Longrightarrow> n < 2 ^ 64 \<Longrightarrow> alloc s n = Some (None, s') \<Longrightarrow> inv s' L"
  using alloc_spec [of s L n] by auto

lemma alloc_Some:
  "inv s L \<Longrightarrow> 0 < n \<Longrightarrow> n < 2 ^ 64 \<Longrightarrow> alloc s n = Some (Some p, s') \<Longrightarrow>
    \<exists>l. (p, l) \<notin> L \<and> n \<le> l \<and> inv s' (insert (p, l) L)"
  using alloc_spec [of s L n] by auto

text \<open>A new block is apart from those handed out before.\<close>

lemma alloc_apart:
  assumes "inv s L" and "0 < n" and "n < 2 ^ 64" and "alloc s n = Some (Some p, s')" and "(q, m) \<in> L"
  shows "p + int n \<le> q \<or> q + int m \<le> p \<or> m = 0"
proof (rule ccontr)
  assume "\<not> ?thesis"
  then have c: "q < p + int n" "p < q + int m" "0 < m" by simp_all
  obtain l where l: "(p, l) \<notin> L" "n \<le> l" "inv s' (insert (p, l) L)" using alloc_Some [OF assms(1-4)] by blast
  have "p = q \<and> l = m" by (rule disjoint [OF l(3), where x = "max p q"]) (use assms(2,5) c l(2) in auto)
  then show False using assms(5) l(1) by simp
qed

end

section \<open>Segments\<close>

definition seg_inv :: "segment \<Rightarrow> (int \<times> nat) set \<Rightarrow> bool" where
  "seg_inv s L \<longleftrightarrow> (\<exists>a. rep s a \<and> L = (\<lambda>(q, l). (seg_start s + int q, l)) ` blocks a)"

lemma free_start:
  assumes "rep s a" and "rep s' b" and "seg_start s' = seg_start s" and "blocks b = blocks a - {(p, l)}"
  shows "seg_inv s' ((\<lambda>(q, l). (seg_start s + int q, l)) ` blocks a - {(seg_start s + int p, l)})"
proof -
  have "(\<lambda>(q, l). (seg_start s + int q, l)) ` (blocks a - {(p, l)})
      = (\<lambda>(q, l). (seg_start s + int q, l)) ` blocks a - {(seg_start s + int p, l)}" by (auto simp: image_iff)
  then show ?thesis unfolding seg_inv_def using assms by (intro exI [of _ b]) simp
qed

text \<open>What no operation changes: where the segment lies.\<close>

definition frame :: "segment \<Rightarrow> int \<times> int \<times> int \<times> nat \<times> nat \<times> nat" where
  "frame s = (seg_base s, seg_start s, seg_end s, seg_total s, seg_descs s, real_pages s)"

lemma frameD:
  assumes "frame s' = frame s"
  shows "seg_base s' = seg_base s" and "seg_start s' = seg_start s" and "seg_end s' = seg_end s"
    and "seg_total s' = seg_total s" and "seg_descs s' = seg_descs s" and "real_pages s' = real_pages s"
  using assms by (simp_all add: frame_def)

lemma frame_upd [simp]:
  "frame (upd_desc n f s) = frame s" "frame (upd_word i j g s) = frame s" "frame (s\<lparr>words := w\<rparr>) = frame s"
  "frame (set_next m x s) = frame s" "frame (set_prev m y s) = frame s"
  by (simp_all add: frame_def upd_desc_def upd_word_def set_next_def set_prev_def split: option.split)

lemma frame_runs [simp]:
  "frame (busy_pages i n s) = frame s" "frame (clear_pages i n s) = frame s" "frame (take_run s i n) = frame s"
  "frame (smb_slab_free_pages s i n) = frame s" "frame (relink i k t s) = frame s"
  "frame (smb_slab_detach_full_page m t s) = frame s" "frame (link_first m m' t w s) = frame s"
proof -
  show b: "frame (busy_pages i n s) = frame s" for i n s by (induction i n s rule: busy_pages.induct) simp_all
  show c: "frame (clear_pages i n s) = frame s" for i n s by (induction i n s rule: clear_pages.induct) simp_all
  show "frame (take_run s i n) = frame s" by (simp add: take_run_def Let_def b)
  show "frame (smb_slab_free_pages s i n) = frame s" by (simp add: smb_slab_free_pages_def Let_def c)
qed (simp_all add: relink_def smb_slab_detach_full_page_def link_first_def Let_def)

lemma frame_if: "frame (if b then s else s') = (if b then frame s else frame s')"
  by simp

lemma frame_free: "frame (smb_slab_free_locked s p) = frame s"
proof -
  have "frame (free_small s i p) = frame s" "frame (free_exact s i p) = frame s" "frame (free_big s i p) = frame s" for i
    unfolding free_small_def free_exact_def free_big_def Let_def by (simp_all only: frame_if frame_upd frame_runs if_cancel)
  then show ?thesis
    unfolding smb_slab_free_locked_def Let_def
    by (cases "snd (pg_prev (descs s (Page (nat ((p - seg_start s) div 2 ^ smb_pagesize_shift)))))")
      (simp_all only: slab_type.case frame_if frame_runs if_cancel)
qed

lemma frame_alloc_pages: "smb_slab_alloc_pages s n = Some (r, s') \<Longrightarrow> frame s' = frame s"
proof -
  have "frame (snd y) = frame s" if "alloc_pages_loop s n page = Some y" for s n page y
  proof (rule alloc_pages_loop.raw_induct [where P = "\<lambda>s n page y. frame (snd y) = frame s", OF _ that], goal_cases)
    case (1 f s n page y)
    then show ?case by (auto split: slab_node.splits if_splits option.splits)
  qed
  from this [of s n _ "(r, s')"] show "smb_slab_alloc_pages s n = Some (r, s') \<Longrightarrow> ?thesis"
    by (auto simp: smb_slab_alloc_pages_def split: option.splits)
qed

lemma frame_try_alloc:
  "smb_slab_try_alloc_small s m sh = Some (r, s') \<Longrightarrow> frame s' = frame s"
  "smb_slab_try_alloc_exact s m sh = Some (r, s') \<Longrightarrow> frame s' = frame s"
  "smb_slab_try_alloc_big s m sh = Some (r, s') \<Longrightarrow> frame s' = frame s"
proof -
  have "frame (snd (take_small s m sh n i)) = frame s" for s m sh n i by (simp add: take_small_def Let_def)
  then have take: "frame s' = frame s" if "take_small s m sh n i = (p, s')" for s m sh n i p s'
    using that by (metis snd_conv)
  have "frame (snd y) = frame s" if "smb_slab_try_alloc_small s m sh = Some y" for s m sh y
  proof (rule smb_slab_try_alloc_small.raw_induct [where P = "\<lambda>s m sh y. frame (snd y) = frame s", OF _ that], goal_cases)
    case (1 f s m sh y)
    then show ?case by (auto simp: Let_def dest: take split: if_splits option.splits prod.splits)
  qed
  from this [of s m sh "(r, s')"] show "smb_slab_try_alloc_small s m sh = Some (r, s') \<Longrightarrow> frame s' = frame s" by simp
  have "frame (snd y) = frame s" if "smb_slab_try_alloc_exact s m sh = Some y" for s m sh y
  proof (rule smb_slab_try_alloc_exact.raw_induct [where P = "\<lambda>s m sh y. frame (snd y) = frame s", OF _ that], goal_cases)
    case (1 f s m sh y)
    then show ?case by (auto simp: Let_def split: if_splits option.splits)
  qed
  from this [of s m sh "(r, s')"] show "smb_slab_try_alloc_exact s m sh = Some (r, s') \<Longrightarrow> frame s' = frame s" by simp
  have "frame (snd y) = frame s" if "big_loop s w m sh = Some y" for s w m sh y
  proof (rule big_loop.raw_induct [where P = "\<lambda>s w m sh y. frame (snd y) = frame s", OF _ that], goal_cases)
    case (1 f s w m sh y)
    then show ?case by (auto simp: Let_def split: if_splits option.splits)
  qed
  from this [of s _ m sh "(r, s')"] show "smb_slab_try_alloc_big s m sh = Some (r, s') \<Longrightarrow> frame s' = frame s"
    by (auto simp: smb_slab_try_alloc_big_def Let_def)
qed

lemma frame_init:
  "frame (snd (smb_slab_init_small_page s m k sh)) = frame s" "frame (snd (smb_slab_init_exact_page s m k)) = frame s"
  "frame (snd (smb_slab_init_big_page s m k sh)) = frame s"
  by (simp_all add: smb_slab_init_small_page_def smb_slab_init_exact_page_def smb_slab_init_big_page_def Let_def)

lemma frame_alloc:
  assumes "smb_slab_alloc_locked s n = Some (r, s')"
  shows "frame s' = frame s"
proof (cases "smb_slab_max_size \<le> n")
  case True
  then show ?thesis using assms frame_alloc_pages [of s _ _ s']
    by (auto simp: smb_slab_alloc_locked_def split: option.splits)
next
  case False
  let ?sh = "size_shift n"
  let ?k = "Slot (?sh - min_shift)"
  define init where "init t m = (if ?sh < smb_slab_exact_shift then smb_slab_init_small_page t m ?k ?sh
     else if ?sh = smb_slab_exact_shift then smb_slab_init_exact_page t m ?k else smb_slab_init_big_page t m ?k ?sh)" for t m
  define try_one where "try_one m = (if ?sh < smb_slab_exact_shift then smb_slab_try_alloc_small s m ?sh
     else if ?sh = smb_slab_exact_shift then smb_slab_try_alloc_exact s m ?sh else smb_slab_try_alloc_big s m ?sh)" for m
  define fresh where "fresh t = map_option (\<lambda>(page, s'). case page of None \<Rightarrow> (None, s')
     | Some i \<Rightarrow> (case init s' (Page i) of (p, s'') \<Rightarrow> (Some p, s''))) (smb_slab_alloc_pages t 1)" for t
  have i: "frame (snd (init t m)) = frame t" for t m using frame_init by (simp add: init_def)
  have i': "frame t' = frame t" if "init t m = (p, t')" for t m p t' using i [of t m] that by simp
  have f: "frame t' = frame t" if ft: "fresh t = Some (r, t')" for t r t'
  proof -
    obtain page t1 where a: "smb_slab_alloc_pages t 1 = Some (page, t1)"
      and e: "(r, t') = (case page of None \<Rightarrow> (None, t1) | Some i \<Rightarrow> (case init t1 (Page i) of (p, s'') \<Rightarrow> (Some p, s'')))"
      using ft by (auto simp: fresh_def)
    show ?thesis
    proof (cases page)
      case None
      then show ?thesis using e frame_alloc_pages [OF a] by simp
    next
      case (Some i)
      obtain p t2 where "init t1 (Page i) = (p, t2)" by (cases "init t1 (Page i)")
      then show ?thesis using e Some frame_alloc_pages [OF a] i' [of t1 "Page i" p t2] by simp
    qed
  qed
  have t: "frame t' = frame s" if "try_one m = Some (r, t')" for m r t'
    using that frame_try_alloc by (auto simp: try_one_def split: if_splits)
  have "smb_slab_alloc_locked s n = (case pg_next (descs s ?k) of None \<Rightarrow> None
     | Some page \<Rightarrow> if pg_next (descs s page) \<noteq> Some page
         then Option.bind (try_one page) (\<lambda>(p, s'). case p of Some a \<Rightarrow> Some (Some a, s') | None \<Rightarrow> fresh s') else fresh s)"
    unfolding smb_slab_alloc_locked_def Let_def init_def try_one_def fresh_def using False by simp
  with assms have "(case pg_next (descs s ?k) of None \<Rightarrow> None
     | Some page \<Rightarrow> if pg_next (descs s page) \<noteq> Some page
         then Option.bind (try_one page) (\<lambda>(p, s'). case p of Some a \<Rightarrow> Some (Some a, s') | None \<Rightarrow> fresh s') else fresh s) = Some (r, s')"
    by simp
  then show ?thesis
    by (auto split: option.splits if_splits prod.splits simp: Option.bind_eq_Some_conv dest!: f t)
qed

lemma spec_alloc_None: "fst (spec_alloc n a) = None \<Longrightarrow> snd (spec_alloc n a) = a"
  by (auto simp: spec_alloc_def spec_alloc_run_def spec_alloc_chunk_def split: if_splits option.splits prod.splits list.splits)

lemma seg_alloc:
  assumes "seg_inv s L" and "0 < n" and "n < 2 ^ 64"
  shows "(\<exists>s'. smb_slab_alloc_locked s n = Some (None, s') \<and> seg_inv s' L)
    \<or> (\<exists>p l s'. smb_slab_alloc_locked s n = Some (Some p, s') \<and> (p, l) \<notin> L \<and> n \<le> l \<and> seg_inv s' (insert (p, l) L))"
proof -
  obtain a where a: "rep s a" "L = (\<lambda>(q, l). (seg_start s + int q, l)) ` blocks a" using assms(1) by (auto simp: seg_inv_def)
  obtain s' where s': "smb_slab_alloc_locked s n = Some (map_option (\<lambda>p. seg_start s + int p) (fst (spec_alloc n a)), s')"
    "rep s' (snd (spec_alloc n a))" "seg_start s' = seg_start s" using alloc_rep [OF a(1) assms(3)] by blast
  show ?thesis
  proof (cases "fst (spec_alloc n a)")
    case None
    then have "snd (spec_alloc n a) = a" by (rule spec_alloc_None)
    then have "seg_inv s' L" unfolding seg_inv_def using s' a by auto
    then show ?thesis using s'(1) None by simp
  next
    case (Some p)
    then have r: "spec_alloc n a = (Some p, snd (spec_alloc n a))" by (cases "spec_alloc n a") simp
    obtain l where l: "blocks (snd (spec_alloc n a)) = insert (p, l) (blocks a)" "(p, l) \<notin> blocks a" "n \<le> l"
      using spec_alloc_ok [OF repD(1) [OF a(1)] assms(2) r] by blast
    have "seg_inv s' (insert (seg_start s + int p, l) L)" unfolding seg_inv_def a(2)
      by (rule exI [of _ "snd (spec_alloc n a)"]) (simp add: s'(2,3) l(1))
    moreover have "(seg_start s + int p, l) \<notin> L" using l(2) a(2) by auto
    ultimately show ?thesis using s'(1) Some l(3) by auto
  qed
qed

interpretation seg: block_allocator smb_slab_alloc_locked smb_slab_free_locked seg_inv
proof unfold_locales
  fix s L p l q m x
  assume A: "seg_inv s L" "(p, l) \<in> L" "(q, m) \<in> L" "p \<le> x" "x < p + int l" "q \<le> x" "x < q + int m"
  obtain a where a: "rep s a" "L = (\<lambda>(q, l). (seg_start s + int q, l)) ` blocks a" using A(1) by (auto simp: seg_inv_def)
  obtain i j where b: "p = seg_start s + int i" "(i, l) \<in> blocks a" "q = seg_start s + int j" "(j, m) \<in> blocks a"
    using A(2,3) a(2) by auto
  have "i = j \<and> l = m"
    by (rule same_block [OF repD(1) [OF a(1)] b(2,4), where x = "nat (x - seg_start s)"]) (use A(4-7) b(1,3) in auto)
  then show "p = q \<and> l = m" using b by simp
next
  fix s L p l
  assume A: "seg_inv s L" "(p, l) \<in> L"
  obtain a where a: "rep s a" "L = (\<lambda>(q, l). (seg_start s + int q, l)) ` blocks a" using A(1) by (auto simp: seg_inv_def)
  obtain i where b: "p = seg_start s + int i" "(i, l) \<in> blocks a" using A(2) a(2) by auto
  show "seg_inv (smb_slab_free_locked s p) (L - {(p, l)})"
    unfolding a(2) b(1)
    by (rule free_start [OF a(1) free_rep [OF a(1) b(2)] frameD(2) [OF frame_free] spec_free_ok(2) [OF repD(1) [OF a(1)] b(2)]])
qed (rule seg_alloc)

section \<open>The layout of a segment\<close>

text \<open>
  The structure, the slots, the page descriptors, then the pages from the next page boundary on. The bytes
  that are left over and those lost to the alignment decide how many pages there are.
\<close>

definition header_size :: nat where "header_size = sizeof_memory_pool + slot_count * sizeof_slab_page"

definition min_segment :: nat where "min_segment = header_size + 2 * (smb_pagesize + sizeof_slab_page)"

definition good_block :: "int \<Rightarrow> nat \<Rightarrow> bool" where
  "good_block base total_size \<longleftrightarrow> 0 < base \<and> base + int total_size \<le> 2 ^ 63 \<and> min_segment \<le> total_size"

lemma sizes: "header_size = 344" "min_segment = 8584"
  by (simp_all add: header_size_def min_segment_def sizeof_memory_pool_def sizeof_slab_page_def slot_count_def
      smb_pagesize_shift_def min_shift_def smb_pagesize_def)

lemma size_t_id: "0 \<le> x \<Longrightarrow> x < 2 ^ 64 \<Longrightarrow> size_t x = nat x"
  by (simp add: size_t_def)

lemma size_t_int: "x < 2 ^ 64 \<Longrightarrow> size_t (int x) = x"
  using of_nat_less_iff [of x "2 ^ 64", where 'a = int] by (subst size_t_id) simp_all

lemma align_up:
  assumes "0 \<le> x" and "x \<le> 2 ^ 63"
  shows "SMB_ALIGN_PTR x 4096 mod 4096 = 0" and "x \<le> SMB_ALIGN_PTR x 4096" and "SMB_ALIGN_PTR x 4096 < x + 4096"
    and "SMB_ALIGN_PTR x 4096 = x + (- x) mod 4096"
proof -
  have e: "SMB_ALIGN_PTR x 4096 = (x + 4095) - (x + 4095) mod 4096"
    using assms by (simp add: SMB_ALIGN_PTR_def size_t_id Let_def)
  then show m: "SMB_ALIGN_PTR x 4096 mod 4096 = 0" by (simp add: minus_mod_eq_mult_div)
  show b: "x \<le> SMB_ALIGN_PTR x 4096" "SMB_ALIGN_PTR x 4096 < x + 4096"
    using pos_mod_bound [of 4096 "x + 4095"] pos_mod_sign [of 4096 "x + 4095"] unfolding e by linarith+
  have "(SMB_ALIGN_PTR x 4096 - x) mod 4096 = (- x) mod 4096" using m by (metis diff_0 mod_diff_left_eq)
  moreover have "(SMB_ALIGN_PTR x 4096 - x) mod 4096 = SMB_ALIGN_PTR x 4096 - x" using b by (intro mod_pos_pos_trivial) auto
  ultimately show "SMB_ALIGN_PTR x 4096 = x + (- x) mod 4096" by linarith
qed

text \<open>\<open>lost\<close> bytes are skipped before the first page, \<open>left\<close> bytes are left after the division.\<close>

lemma layout:
  assumes "good_block base total_size" and "s = smb_slab_init base total_size"
    and "lost = (- (slots_end base + int (seg_descs s * 24))) mod 4096"
    and "left = int ((total_size - header_size) mod 4120)"
  shows "seg_base s = base" and "seg_total s = total_size" and "seg_end s = base + int total_size"
    and "seg_descs s = (total_size - header_size) div 4120" and "2 \<le> seg_descs s"
    and "seg_start s = slots_end base + int (seg_descs s * 24) + lost" and "seg_start s mod 4096 = 0"
    and "real_pages s = nat ((int (seg_descs s) * 4096 + left - lost) div 4096)"
    and "seg_start s + int (real_pages s) * 4096 \<le> seg_end s"
    and "descs s = init_descs (real_pages s)" and "0 \<le> lost" and "lost < 4096" and "0 \<le> left" and "left < 4120"
proof -
  note G = assms(1) [unfolded good_block_def sizes]
  define d where "d = (total_size - 344) div 4120"
  have se: "slots_end base = base + 344"
    by (simp add: slots_end_def sizeof_memory_pool_def sizeof_slab_page_def slot_count_def smb_pagesize_shift_def min_shift_def)
  have c: "smb_pagesize + sizeof_slab_page = 4120" "smb_pagesize = 4096" "sizeof_slab_page = 24"
    by (simp_all add: smb_pagesize_def sizeof_slab_page_def)
  have "size_t (base + int total_size - slots_end base) = total_size - 344" using G by (simp add: se size_t_def nat_diff_distrib)
  then have i: "s = (let start = SMB_ALIGN_PTR (slots_end base + int (d * 24)) 4096;
      n = size_t (base + int total_size - start) div 4096
    in \<lparr>seg_base = base, seg_start = start, seg_end = base + int total_size, seg_total = total_size, seg_descs = d,
        real_pages = n, descs = init_descs n, words = (\<lambda>_ _. 0)\<rparr>)"
    unfolding assms(2) smb_slab_init_def Let_def c d_def by simp
  show "seg_base s = base" "seg_total s = total_size" and e: "seg_end s = base + int total_size" and sd: "seg_descs s = (total_size - header_size) div 4120"
    and "descs s = init_descs (real_pages s)" by (simp_all add: i Let_def d_def sizes)
  have dd: "seg_descs s = d" by (simp add: i Let_def)
  have dm: "total_size - 344 = d * 4120 + (total_size - 344) mod 4120" unfolding d_def by simp
  then have l: "int total_size = 344 + int d * 4120 + left" using G unfolding assms(4) sizes by linarith
  show lf: "0 \<le> left" "left < 4120" by (simp_all add: assms(4))
  have "2 * 4120 \<le> total_size - 344" using G by linarith
  then have d2: "2 \<le> d" unfolding d_def by (simp add: less_eq_div_iff_mult_less_eq)
  then show "2 \<le> seg_descs s" unfolding dd .
  have x: "0 \<le> slots_end base + int (d * 24)" "slots_end base + int (d * 24) \<le> 2 ^ 63"
    using G lf l unfolding se by simp_all
  have lost: "lost = (- (slots_end base + int (d * 24))) mod 4096" using assms(3) dd by simp
  show lo: "0 \<le> lost" "lost < 4096" by (simp_all add: lost)
  show st: "seg_start s = slots_end base + int (seg_descs s * 24) + lost"
    unfolding dd lost using align_up(4) [OF x] by (simp add: i Let_def)
  show "seg_start s mod 4096 = 0" using align_up(1) [OF x] by (simp add: i Let_def)
  have diff: "seg_end s - seg_start s = int (seg_descs s) * 4096 + left - lost"
    unfolding e st dd se using l by simp
  from d2 have pos: "0 \<le> seg_end s - seg_start s" "seg_end s - seg_start s < 2 ^ 64" 
    using diff lf lo dd G e st x by simp_all
  have "real_pages s = size_t (seg_end s - seg_start s) div 4096" by (simp add: i Let_def)
  also have "\<dots> = nat ((seg_end s - seg_start s) div 4096)" using pos by (simp add: size_t_id nat_div_distrib)
  finally have r: "real_pages s = nat ((seg_end s - seg_start s) div 4096)" .
  then show "real_pages s = nat ((int (seg_descs s) * 4096 + left - lost) div 4096)" unfolding diff .
  have "int (real_pages s) = (seg_end s - seg_start s) div 4096" using r pos(1) by simp
  then show "seg_start s + int (real_pages s) * 4096 \<le> seg_end s"
    using div_mult_mod_eq [of "seg_end s - seg_start s" 4096] pos_mod_sign [of 4096 "seg_end s - seg_start s"] by linarith
qed

text \<open>The number of pages, and when the descriptors of all of them lie before the first page.\<close>

lemma layout_pages:
  assumes "good_block base total_size" and "s = smb_slab_init base total_size"
    and "lost = (- (slots_end base + int (seg_descs s * 24))) mod 4096"
    and "left = int ((total_size - header_size) mod 4120)"
  shows "seg_descs s - 1 \<le> real_pages s" and "real_pages s \<le> seg_descs s + 1"
    and "real_pages s = seg_descs s + 1 \<longleftrightarrow> lost + 4096 \<le> left"
    and "slots_end base + int (real_pages s * 24) \<le> seg_start s \<longleftrightarrow> real_pages s \<le> seg_descs s"
proof -
  note L = layout [OF assms]
  let ?d = "int (seg_descs s)" and ?x = "(left - lost) div 4096"
  have "(?d * 4096 + left - lost) div 4096 = ?d + ?x"
    using div_mult_self3 [of 4096 ?d "left - lost"] by (simp add: algebra_simps)
  then have r: "real_pages s = nat (?d + ?x)" using L(8) by simp
  have x: "- 1 \<le> ?x" "?x \<le> 1" "?x = 1 \<longleftrightarrow> lost + 4096 \<le> left" using L(11-14) by linarith+
  have ri: "int (real_pages s) = ?d + ?x" using r x(1) L(5) by simp
  show "seg_descs s - 1 \<le> real_pages s" "real_pages s \<le> seg_descs s + 1" using ri x by linarith+
  show e: "real_pages s = seg_descs s + 1 \<longleftrightarrow> lost + 4096 \<le> left" using ri x by linarith
  show "slots_end base + int (real_pages s * 24) \<le> seg_start s \<longleftrightarrow> real_pages s \<le> seg_descs s"
  proof
    assume "slots_end base + int (real_pages s * 24) \<le> seg_start s"
    then have "int (real_pages s) * 24 \<le> ?d * 24 + lost" using L(6) by simp
    then show "real_pages s \<le> seg_descs s" using ri x L(11,14) by linarith
  next
    assume "real_pages s \<le> seg_descs s"
    then have "int (real_pages s) * 24 \<le> ?d * 24" by simp
    then show "slots_end base + int (real_pages s * 24) \<le> seg_start s" using L(6,11) by simp
  qed
qed

definition init_spec :: "nat \<Rightarrow> pool_spec" where
  "init_spec n = \<lparr>free_runs = [(0, n)], partial = (\<lambda>_. []), page_use = (\<lambda>_. Unused)\<rparr>"

lemma init_spec_inv: "0 < n \<Longrightarrow> spec_inv n (init_spec n)" and init_spec_blocks: "blocks (init_spec n) = {}"
  by (auto simp: spec_inv_def init_spec_def blocks_def)

lemma created_rep:
  assumes "good_block base total_size" and "s = smb_slab_init base total_size"
  shows "rep s (init_spec (real_pages s))" and "0 < real_pages s"
proof -
  note L = layout [OF assms refl refl] and P = layout_pages [OF assms refl refl]
  show r: "0 < real_pages s" using L(5) P(1) by linarith
  have "base \<le> slots_end base" by (simp add: slots_end_def)
  then have "0 < seg_start s" using L(6,11) assms(1) unfolding good_block_def by linarith
  then have "int (real_pages s) * 4096 < 2 ^ 63" using L(3,9) assms(1) by (simp add: good_block_def)
  then have "real_pages s < 2 ^ 52" by simp
  then show "rep s (init_spec (real_pages s))"
    unfolding rep_def using init_spec_inv [OF r] L(7,9,10) by (simp add: init_spec_def init_descs_def)
qed

lemma created_inv: "good_block base total_size \<Longrightarrow> seg_inv (smb_slab_init base total_size) {}"
  using created_rep(1) [OF _ refl] unfolding seg_inv_def by (metis image_empty init_spec_blocks)

section \<open>Growing\<close>

lemma double_candidate_ok:
  assumes "0 < c" and "c < 2 ^ 64" and "m < 2 ^ 64"
  shows "\<exists>d. double_candidate c m = Some d \<and> m \<le> d \<and> c \<le> d \<and> d < 2 ^ 64 \<and> (d = c \<or> d < 2 * m)"
  using assms
proof (induction "m - c" arbitrary: c rule: less_induct)
  case less
  show ?case
  proof (cases "c < m \<and> c \<le> SIZE_MAX div 2")
    case True
    then have "m - c * 2 < m - c" "c * 2 < 2 ^ 64" using less(2) by (auto simp: SIZE_MAX_def)
    from less(1) [OF this(1) _ this(2) less(4)] less(2)
    obtain d where "double_candidate (c * 2) m = Some d" "m \<le> d" "c * 2 \<le> d" "d < 2 ^ 64" "d = c * 2 \<or> d < 2 * m" by auto
    then show ?thesis using True by (subst double_candidate.simps) auto
  next
    case False
    then show ?thesis using less(2-4) by (subst double_candidate.simps) auto
  qed
qed

lemma segment_size_ok:
  assumes "0 < reference_size" and "reference_size \<le> 2 ^ 63"
  shows "\<exists>t. smb_memory_pool_segment_size n reference_size = Some t
    \<and> (t = 0 \<or> reference_size \<le> t \<and> min_total n \<le> t) \<and> (min_total n \<le> 2 ^ 62 \<longrightarrow> t \<noteq> 0)"
proof -
  have m: "min_total n < 2 ^ 64" by (simp add: min_total_def size_t_def Let_def nat_less_iff)
  have "reference_size < 2 ^ 64" using assms(2) by simp
  from double_candidate_ok [OF assms(1) this m] obtain d where d: "double_candidate reference_size (min_total n) = Some d"
    "min_total n \<le> d" "reference_size \<le> d" "d < 2 ^ 64" "d = reference_size \<or> d < 2 * min_total n" by blast
  define t where "t = (if d mod 4096 \<noteq> 0 then size_t (int (d + (4096 - d mod 4096))) else d)"
  have e: "smb_memory_pool_segment_size n reference_size = Some t"
    unfolding smb_memory_pool_segment_size_def using assms(1) d(1) by (simp add: t_def smb_pagesize_def)
  have up: "d + (4096 - d mod 4096) \<le> 2 ^ 64"
  proof -
    have "d div 4096 < 2 ^ 52" using d(4) by (simp add: div_less_iff_less_mult)
    then have "(d div 4096 + 1) * 4096 \<le> 2 ^ 64" by simp
    moreover have "(d div 4096 + 1) * 4096 = d + (4096 - d mod 4096)"
    proof -
      have "(q + 1) * 4096 = d + (4096 - r)" if "d = q * 4096 + r" "r < 4096" for q r using that by simp
      from this [of "d div 4096" "d mod 4096"] show ?thesis by simp
    qed
    ultimately show ?thesis by simp
  qed
  have t: "t = 0 \<or> d \<le> t"
  proof (cases "d + (4096 - d mod 4096) = 2 ^ 64")
    case True
    then have "size_t (int (d + (4096 - d mod 4096))) = 0" by (simp add: size_t_def)
    then show ?thesis by (simp add: t_def)
  next
    case False
    then have lt: "d + (4096 - d mod 4096) < 2 ^ 64" using up by simp
    then have "size_t (int (d + (4096 - d mod 4096))) = d + (4096 - d mod 4096)" by (intro size_t_int) simp
    then show ?thesis unfolding t_def by (cases "d mod 4096 = 0") (simp_all only: if_False if_True not_False_eq_True simp_thms le_add1 order.refl)
  qed
  have nz: "t \<noteq> 0" if "min_total n \<le> 2 ^ 62"
  proof -
    have "d \<le> 2 ^ 63" using d(5) that assms(2) by auto
    then have "size_t (int (d + (4096 - d mod 4096))) = d + (4096 - d mod 4096)" by (intro size_t_int) simp
    moreover have "d mod 4096 < 4096" by simp
    then have "0 < d + (4096 - d mod 4096)" by linarith
    ultimately show ?thesis using d(3) assms(1) unfolding t_def by (metis le_zero_eq less_numeral_extra(3))
  qed
  show ?thesis using e t nz d(2,3) by (auto dest: le_trans)
qed

lemma min_total_eq:
  assumes "0 < n" and "n \<le> 2 ^ 61"
  shows "min_total n = header_size + (pages_for n + 2) * 4120" and "min_total n \<le> 2 ^ 62"
proof -
  have "int n + int smb_pagesize - 1 = int (n + 4095)" by (simp add: smb_pagesize_def)
  then have "size_t (int n + int smb_pagesize - 1) = n + 4095" using assms(2) by (simp only: size_t_def) simp
  moreover have "(n + 4095) div 4096 = pages_for n"
  proof (cases "n mod 4096 = 0")
    case True
    then show ?thesis by (auto simp: pages_for_def smb_pagesize_def)
  next
    case False
    have "n + 4095 = n div 4096 * 4096 + (n mod 4096 + 4095)" by simp
    then have "(n + 4095) div 4096 = n div 4096 + (n mod 4096 + 4095) div 4096"
      using div_mult_self3 [of 4096 "n div 4096" "n mod 4096 + 4095"] by simp
    also have "(n mod 4096 + 4095) div 4096 = 1"
      using False mod_less_divisor [of 4096 n] by (intro div_nat_eqI) auto
    finally show ?thesis using False by (simp add: pages_for_def smb_pagesize_def)
  qed
  ultimately have r: "requested_pages n = pages_for n"
    using pages_for_pos [OF assms(1)] by (simp add: requested_pages_def smb_pagesize_def Let_def)
  have "pages_for n \<le> n div 4096 + 1" by (simp add: pages_for_def smb_pagesize_def)
  moreover have "n div 4096 \<le> 2 ^ 49" using assms(2) div_le_mono [of n "2 ^ 61" 4096] by simp
  ultimately have p: "pages_for n \<le> 2 ^ 49 + 1" by linarith
  have e: "sizeof_memory_pool + (slot_count + pages_for n + 2) * sizeof_slab_page + (pages_for n + 2) * smb_pagesize
      = header_size + (pages_for n + 2) * 4120"
    by (simp add: header_size_def sizeof_slab_page_def smb_pagesize_def algebra_simps)
  have b: "header_size + (pages_for n + 2) * 4120 \<le> 2 ^ 62" using p unfolding sizes by simp
  then have "header_size + (pages_for n + 2) * 4120 < 2 ^ 64" by simp
  then show "min_total n = header_size + (pages_for n + 2) * 4120"
    unfolding min_total_def Let_def r e by (rule size_t_int)
  with b show "min_total n \<le> 2 ^ 62" by simp
qed

text \<open>A new segment of the size chosen for a request can satisfy it.\<close>

lemma fresh_segment_suffices:
  assumes "good_block base t" and "min_total n \<le> t" and "0 < n" and "n \<le> 2 ^ 61"
  shows "\<exists>p s'. smb_slab_alloc_locked (smb_slab_init base t) n = Some (Some p, s')"
proof -
  define s where "s = smb_slab_init base t"
  note L = layout [OF assms(1) s_def refl refl] and P = layout_pages [OF assms(1) s_def refl refl]
    and C = created_rep [OF assms(1) s_def]
  have "(pages_for n + 2) * 4120 \<le> t - header_size" using assms(2) min_total_eq(1) [OF assms(3,4)] by simp
  then have "pages_for n + 2 \<le> seg_descs s" unfolding L(4) by (simp add: less_eq_div_iff_mult_less_eq)
  then have "pages_for n \<le> real_pages s" using P(1) by simp
  then have "fst (spec_alloc n (init_spec (real_pages s))) \<noteq> None"
    using C(2) by (auto simp: spec_alloc_def spec_alloc_run_def spec_alloc_chunk_def init_spec_def)
  moreover have "n < 2 ^ 64" using assms(4) by simp
  ultimately show ?thesis using alloc_rep [OF C(1)] unfolding s_def by fastforce
qed

section \<open>The dchain of segments\<close>

text \<open>
  Segments do not overlap. Of each, the descriptors of its pages lie before its first page, and its pages
  in its block of memory.
\<close>

definition apart :: "segment \<Rightarrow> segment \<Rightarrow> bool" where
  "apart s t \<longleftrightarrow> seg_end s \<le> seg_base t \<or> seg_end t \<le> seg_base s"

definition seg_ok :: "segment \<Rightarrow> bool" where
  "seg_ok s \<longleftrightarrow> 0 < seg_base s \<and> seg_end s = seg_base s + int (seg_total s) \<and> seg_end s \<le> 2 ^ 63
     \<and> min_segment \<le> seg_total s \<and> slots_end (seg_base s) + int (real_pages s * sizeof_slab_page) \<le> seg_start s
     \<and> seg_start s + int (real_pages s) * 4096 \<le> seg_end s"

definition pool_inv :: "pool \<Rightarrow> (int \<times> nat) set \<Rightarrow> bool" where
  "pool_inv P B \<longleftrightarrow> segs P \<noteq> [] \<and> (\<exists>Ls. list_all2 seg_inv (segs P) Ls \<and> B = \<Union> (set Ls))
     \<and> sorted_wrt apart (segs P) \<and> (\<forall>s \<in> set (segs P). seg_ok s)"

text \<open>
  What is known of \<open>malloc\<close>: its blocks lie in the lower half of the address space, apart from those in use.
  \<open>layout_ok\<close> excludes the case in which the descriptors do not fit.
\<close>

definition layout_ok :: "int \<Rightarrow> nat \<Rightarrow> bool" where
  "layout_ok base t \<longleftrightarrow> real_pages (smb_slab_init base t) \<le> seg_descs (smb_slab_init base t)"

definition malloc_fresh :: "segment list \<Rightarrow> (nat \<Rightarrow> int option) \<Rightarrow> bool" where
  "malloc_fresh ss malloc \<longleftrightarrow> (\<forall>t base. malloc t = Some base \<longrightarrow>
     0 < base \<and> base + int t \<le> 2 ^ 63 \<and> (\<forall>s \<in> set ss. seg_end s \<le> base \<or> base + int t \<le> seg_base s) \<and> layout_ok base t)"

lemma frame_apart: "frame s' = frame s \<Longrightarrow> frame t' = frame t \<Longrightarrow> apart s' t' = apart s t"
  using frameD [of s' s] frameD [of t' t] by (simp add: apart_def)

lemma frame_seg_ok: "frame s' = frame s \<Longrightarrow> seg_ok s' = seg_ok s"
  using frameD [of s' s] by (simp add: seg_ok_def)

lemma frames_ok:
  assumes "map frame ss' = map frame ss"
  shows "sorted_wrt apart ss' = sorted_wrt apart ss" and "(\<forall>s \<in> set ss'. seg_ok s) = (\<forall>s \<in> set ss. seg_ok s)"
proof -
  have l: "length ss' = length ss" using assms by (metis length_map)
  have f: "frame (ss' ! i) = frame (ss ! i)" if "i < length ss" for i using assms l that by (metis nth_map)
  show "sorted_wrt apart ss' = sorted_wrt apart ss"
    unfolding sorted_wrt_iff_nth_less l using frame_apart [OF f f] by (meson order_less_trans)
  show "(\<forall>s \<in> set ss'. seg_ok s) = (\<forall>s \<in> set ss. seg_ok s)"
    unfolding all_set_conv_all_nth l using frame_seg_ok [OF f] by blast
qed

lemma frames_bounds:
  assumes "map frame ss' = map frame ss" and "s \<in> set ss'"
  shows "\<exists>t \<in> set ss. seg_base s = seg_base t \<and> seg_end s = seg_end t"
proof -
  have "frame s \<in> frame ` set ss" using assms by (metis image_eqI list.set_map)
  then show ?thesis using frameD(1,3) by blast
qed

lemma seg_ok_start: "seg_ok s \<Longrightarrow> seg_base s < seg_start s"
proof -
  assume o: "seg_ok s"
  have "seg_base s < slots_end (seg_base s)" "0 \<le> int (real_pages s * sizeof_slab_page)"
    by (simp_all add: slots_end_def sizeof_memory_pool_def add_pos_nonneg)
  then show "seg_base s < seg_start s" using o unfolding seg_ok_def by linarith
qed

lemma seg_block:
  assumes "seg_inv s L" and "seg_ok s" and "(p, l) \<in> L"
  shows "seg_start s \<le> p" and "p + int l \<le> seg_end s" and "0 < l" and "seg_base s < p"
proof -
  obtain a q where a: "rep s a" "(q, l) \<in> blocks a" "p = seg_start s + int q" using assms(1,3) by (auto simp: seg_inv_def)
  note B = block_bounds [OF repD(1) [OF a(1)] a(2)]
  have "int (q + l) \<le> int (real_pages s * 4096)" using B(1) by (simp only: of_nat_le_iff)
  then have ql: "int q + int l \<le> int (real_pages s) * 4096" by simp
  show "seg_start s \<le> p" "p + int l \<le> seg_end s" "0 < l" using a(3) B(2) ql assms(2) unfolding seg_ok_def by linarith+
  then show "seg_base s < p" using seg_ok_start [OF assms(2)] by simp
qed

text \<open>The segment a block belongs to.\<close>

lemma block_segment:
  assumes "list_all2 seg_inv ss Ls" and "sorted_wrt apart ss" and "\<forall>s \<in> set ss. seg_ok s" and "k < length ss" and "(p, l) \<in> Ls ! k"
    and "j < length ss" and "j \<noteq> k"
  shows "\<not> (seg_base (ss ! j) \<le> p \<and> p < seg_end (ss ! j))"
proof -
  have "seg_inv (ss ! k) (Ls ! k)" "seg_ok (ss ! k)" using assms(1,3,4) by (auto simp: list_all2_conv_all_nth)
  note B = seg_block [OF this assms(5)]
  have "apart (ss ! j) (ss ! k) \<or> apart (ss ! k) (ss ! j)"
    using assms(2,4,6,7) unfolding sorted_wrt_iff_nth_less by (metis linorder_neqE_nat)
  then show ?thesis using B by (auto simp: apart_def)
qed

lemma block_once:
  assumes "list_all2 seg_inv ss Ls" and "sorted_wrt apart ss" and "\<forall>s \<in> set ss. seg_ok s" and "k < length ss" and "(p, l) \<in> Ls ! k"
    and "j < length ss" and "j \<noteq> k"
  shows "(p, l) \<notin> Ls ! j"
proof
  assume j: "(p, l) \<in> Ls ! j"
  have "seg_inv (ss ! j) (Ls ! j)" "seg_ok (ss ! j)" using assms(1,3,6) by (auto simp: list_all2_conv_all_nth)
  from seg_block [OF this j] block_segment [OF assms] show False by simp
qed

lemma find_segment:
  assumes "k < length ss" and "seg_start (ss ! k) \<le> p" and "p < seg_end (ss ! k)"
    and "\<And>j. j < k \<Longrightarrow> \<not> (seg_start (ss ! j) \<le> p \<and> p < seg_end (ss ! j))"
  shows "smb_memory_pool_find_segment_for_ptr ss p = Some k"
  using assms
proof (induction ss arbitrary: k)
  case (Cons s ss)
  show ?case
  proof (cases k)
    case 0
    then show ?thesis using Cons(3,4) by simp
  next
    case (Suc m)
    have "smb_memory_pool_find_segment_for_ptr ss p = Some m"
      by (rule Cons(1)) (use Cons(2-5) Suc in force)+
    moreover have "\<not> (seg_start s \<le> p \<and> p < seg_end s)" using Cons(5) [of 0] Suc by simp
    ultimately show ?thesis using Suc by simp
  qed
qed simp

lemma Union_insert: "k < length Ls \<Longrightarrow> \<Union> (set (Ls[k := insert x (Ls ! k)])) = insert x (\<Union> (set Ls))"
  by (auto simp: set_conv_nth nth_list_update split: if_splits)

lemma Union_remove:
  "k < length Ls \<Longrightarrow> (\<And>j. j < length Ls \<Longrightarrow> j \<noteq> k \<Longrightarrow> x \<notin> Ls ! j) \<Longrightarrow> \<Union> (set (Ls[k := Ls ! k - {x}])) = \<Union> (set Ls) - {x}"
  by (auto simp: set_conv_nth nth_list_update split: if_splits)

text \<open>The walk through the segments.\<close>

lemma alloc_walk_ok:
  assumes "list_all2 seg_inv ss Ls" and "0 < n" and "n < 2 ^ 64"
  shows "\<exists>r ss'. alloc_walk ss n = Some (r, ss') \<and> map frame ss' = map frame ss
    \<and> (case r of None \<Rightarrow> list_all2 seg_inv ss' Ls
       | Some p \<Rightarrow> \<exists>k l. k < length ss \<and> (p, l) \<notin> Ls ! k \<and> n \<le> l \<and> list_all2 seg_inv ss' (Ls[k := insert (p, l) (Ls ! k)]))"
  using assms(1)
proof (induction ss Ls rule: list_all2_induct)
  case (Cons s ss L Ls)
  obtain r s' where r: "smb_slab_alloc_locked s n = Some (r, s')" using seg.alloc_returns [OF Cons(1) assms(2,3)] by blast
  note f = frame_alloc [OF r]
  show ?case
  proof (cases r)
    case None
    then have "seg_inv s' L" using seg.alloc_None [OF Cons(1) assms(2,3)] r by simp
    obtain q ss' where q: "alloc_walk ss n = Some (q, ss')" "map frame ss' = map frame ss"
      "case q of None \<Rightarrow> list_all2 seg_inv ss' Ls
       | Some p \<Rightarrow> \<exists>k l. k < length ss \<and> (p, l) \<notin> Ls ! k \<and> n \<le> l \<and> list_all2 seg_inv ss' (Ls[k := insert (p, l) (Ls ! k)])"
      using Cons(3) by blast
    have "case q of None \<Rightarrow> list_all2 seg_inv (s' # ss') (L # Ls)
       | Some p \<Rightarrow> \<exists>k l. k < length (s # ss) \<and> (p, l) \<notin> (L # Ls) ! k \<and> n \<le> l
           \<and> list_all2 seg_inv (s' # ss') ((L # Ls)[k := insert (p, l) ((L # Ls) ! k)])"
    proof (cases q)
      case None
      then show ?thesis using q(3) \<open>seg_inv s' L\<close> by simp
    next
      case (Some p)
      then obtain k l where "k < length ss" "(p, l) \<notin> Ls ! k" "n \<le> l" "list_all2 seg_inv ss' (Ls[k := insert (p, l) (Ls ! k)])"
        using q(3) by auto
      then have "Suc k < length (s # ss) \<and> (p, l) \<notin> (L # Ls) ! Suc k \<and> n \<le> l
          \<and> list_all2 seg_inv (s' # ss') ((L # Ls)[Suc k := insert (p, l) ((L # Ls) ! Suc k)])"
        using \<open>seg_inv s' L\<close> by simp
      then show ?thesis unfolding Some option.case by blast
    qed
    then show ?thesis using r None q(1,2) f by simp
  next
    case (Some p)
    obtain l where l: "(p, l) \<notin> L" "n \<le> l" "seg_inv s' (insert (p, l) L)"
      using seg.alloc_Some [OF Cons(1) assms(2,3)] r Some by blast
    then have "0 < length (s # ss) \<and> (p, l) \<notin> (L # Ls) ! 0 \<and> n \<le> l
        \<and> list_all2 seg_inv (s' # ss) ((L # Ls)[0 := insert (p, l) ((L # Ls) ! 0)])" using Cons(2) by simp
    then have "\<exists>k l. k < length (s # ss) \<and> (p, l) \<notin> (L # Ls) ! k \<and> n \<le> l
        \<and> list_all2 seg_inv (s' # ss) ((L # Ls)[k := insert (p, l) ((L # Ls) ! k)])" by blast
    then show ?thesis using r Some f by simp
  qed
qed simp

lemma pool_free:
  assumes "pool_inv P B" and "(p, l) \<in> B"
  shows "pool_inv (zoo_free_to_pool P p) (B - {(p, l)})"
proof -
  obtain Ls where L: "list_all2 seg_inv (segs P) Ls" "B = \<Union> (set Ls)" and o: "sorted_wrt apart (segs P)" "\<forall>s \<in> set (segs P). seg_ok s"
    and ne: "segs P \<noteq> []" using assms(1) by (auto simp: pool_inv_def)
  obtain k where k: "k < length Ls" "(p, l) \<in> Ls ! k" using assms(2) L(2) by (auto simp: in_set_conv_nth)
  have len: "length Ls = length (segs P)" using L(1) by (simp add: list_all2_lengthD)
  let ?s = "segs P ! k"
  have s: "seg_inv ?s (Ls ! k)" "seg_ok ?s" using L(1) o(2) k(1) len by (auto simp: list_all2_conv_all_nth)
  note B = seg_block [OF s k(2)]
  have other: "\<not> (seg_base (segs P ! j) \<le> p \<and> p < seg_end (segs P ! j))" if "j < length (segs P)" "j \<noteq> k" for j
    using block_segment [OF L(1) o] k len that by simp
  have lo: "seg_base t \<le> seg_start t" if "t \<in> set (segs P)" for t
    using seg_ok_start o(2) that by fastforce
  have find: "smb_memory_pool_find_segment_for_ptr (segs P) p = Some k"
  proof (rule find_segment)
    fix j assume "j < k"
    then show "\<not> (seg_start (segs P ! j) \<le> p \<and> p < seg_end (segs P ! j))"
      using other [of j] lo [of "segs P ! j"] k(1) len by fastforce
  qed (use B k(1) len in auto)
  have "0 < p" using B(4) s(2) by (simp add: seg_ok_def)
  then have e: "zoo_free_to_pool P p = P\<lparr>segs := (segs P)[k := smb_slab_free_locked ?s p]\<rparr>"
    using ne find by (simp add: zoo_free_to_pool_def smb_memory_pool_free_locked_def)
  have "list_all2 seg_inv ((segs P)[k := smb_slab_free_locked ?s p]) (Ls[k := Ls ! k - {(p, l)}])"
    by (rule list_all2_update_cong [OF L(1)]) (rule seg.free_spec [OF s(1) k(2)])
  moreover have "B - {(p, l)} = \<Union> (set (Ls[k := Ls ! k - {(p, l)}]))"
  proof -
    have "(p, l) \<notin> Ls ! j" if "j < length Ls" "j \<noteq> k" for j
      by (rule block_once [OF L(1) o _ k(2)]) (use k(1) len that in auto)
    then show ?thesis using Union_remove [OF k(1)] L(2) by simp
  qed
  moreover have fr: "map frame ((segs P)[k := smb_slab_free_locked ?s p]) = map frame (segs P)"
  proof -
    have "map frame ((segs P)[k := smb_slab_free_locked ?s p]) = (map frame (segs P))[k := map frame (segs P) ! k]"
      using k(1) len by (simp add: map_update frame_free)
    then show ?thesis by simp
  qed
  ultimately show ?thesis unfolding pool_inv_def e using ne o frames_ok [OF fr] by auto
qed

lemma pool_disjoint:
  assumes "pool_inv P B" and "(p, l) \<in> B" and "(q, m) \<in> B" and "p \<le> x" and "x < p + int l" and "q \<le> x" and "x < q + int m"
  shows "p = q \<and> l = m"
proof -
  obtain Ls where L: "list_all2 seg_inv (segs P) Ls" "B = \<Union> (set Ls)" and o: "sorted_wrt apart (segs P)" "\<forall>s \<in> set (segs P). seg_ok s"
    using assms(1) by (auto simp: pool_inv_def)
  have len: "length Ls = length (segs P)" using L(1) by (simp add: list_all2_lengthD)
  obtain j k where jk: "j < length Ls" "(p, l) \<in> Ls ! j" "k < length Ls" "(q, m) \<in> Ls ! k"
    using assms(2,3) L(2) by (auto simp: in_set_conv_nth)
  have s: "seg_inv (segs P ! i) (Ls ! i)" "seg_ok (segs P ! i)" if "i < length Ls" for i
    using L(1) o(2) that len by (auto simp: list_all2_conv_all_nth)
  note J = seg_block [OF s [OF jk(1)] jk(2)] and K = seg_block [OF s [OF jk(3)] jk(4)]
  have "j = k"
  proof (rule ccontr)
    assume "j \<noteq> k"
    then have "apart (segs P ! j) (segs P ! k) \<or> apart (segs P ! k) (segs P ! j)"
      using o(1) jk(1,3) len unfolding sorted_wrt_iff_nth_less by (metis linorder_neqE_nat)
    then show False using J K assms(4-7) by (auto simp: apart_def)
  qed
  then show ?thesis using seg.disjoint [OF s(1) [OF jk(1)] jk(2) _ assms(4-7)] jk(4) by simp
qed

text \<open>An allocation from the pool: it always returns, and what it returns.\<close>

lemma new_segment_ok:
  assumes "malloc_fresh ss malloc" and "smb_memory_pool_create_segment t malloc mutex_ok = Some s" and "min_segment \<le> t"
  shows "seg_inv s {}" and "seg_ok s" and "\<forall>s' \<in> set ss. apart s' s" and "\<exists>base. s = smb_slab_init base t \<and> good_block base t"
proof -
  obtain base where b: "malloc t = Some base" "s = smb_slab_init base t"
    using assms(2) by (auto simp: smb_memory_pool_create_segment_def split: if_splits option.splits)
  have M: "0 < base" "base + int t \<le> 2 ^ 63" "\<forall>s \<in> set ss. seg_end s \<le> base \<or> base + int t \<le> seg_base s" "layout_ok base t"
    using assms(1) b(1) unfolding malloc_fresh_def by blast+
  have g: "good_block base t" using M(1,2) assms(3) by (simp add: good_block_def)
  then show "\<exists>base. s = smb_slab_init base t \<and> good_block base t" using b(2) by blast
  show "seg_inv s {}" unfolding b(2) by (rule created_inv [OF g])
  note L = layout [OF g b(2) refl refl]
  have "slots_end base + int (real_pages s * 24) \<le> seg_start s"
    using layout_pages(4) [OF g b(2) refl refl] M(4) b(2) by (simp add: layout_ok_def)
  then show "seg_ok s" unfolding seg_ok_def using L(1,2,3,9) M(1,2) assms(3) by (simp add: sizeof_slab_page_def)
  show "\<forall>s' \<in> set ss. apart s' s" using M(3) L(1,3) by (simp add: apart_def)
qed

lemma pool_alloc:
  assumes "pool_inv P B" and "0 < n" and "n < 2 ^ 64" and "malloc_fresh (segs P) malloc"
  shows "\<exists>r P'. zoo_allocate_from_pool malloc mutex_ok P n = Some (r, P')
    \<and> (case r of None \<Rightarrow> pool_inv P' B | Some p \<Rightarrow> \<exists>l. n \<le> l \<and> (p, l) \<notin> B \<and> pool_inv P' (insert (p, l) B))
    \<and> (n \<le> 2 ^ 61 \<and> mutex_ok \<and> malloc (the (smb_memory_pool_segment_size n (seg_total (last (segs P))))) \<noteq> None \<longrightarrow> r \<noteq> None)"
proof -
  obtain Ls where L: "list_all2 seg_inv (segs P) Ls" "B = \<Union> (set Ls)" and o: "sorted_wrt apart (segs P)" "\<forall>s \<in> set (segs P). seg_ok s"
    and ne: "segs P \<noteq> []" using assms(1) by (auto simp: pool_inv_def)
  obtain r ss where w: "alloc_walk (segs P) n = Some (r, ss)" "map frame ss = map frame (segs P)"
    "case r of None \<Rightarrow> list_all2 seg_inv ss Ls
       | Some p \<Rightarrow> \<exists>k l. k < length (segs P) \<and> (p, l) \<notin> Ls ! k \<and> n \<le> l \<and> list_all2 seg_inv ss (Ls[k := insert (p, l) (Ls ! k)])"
    using alloc_walk_ok [OF L(1) assms(2,3)] by blast
  note F = frames_ok [OF w(2)]
  have so: "sorted_wrt apart ss" "\<forall>s \<in> set ss. seg_ok s" and ns: "ss \<noteq> []" using F o ne w(2) by auto
  have e: "zoo_allocate_from_pool malloc mutex_ok P n = smb_memory_pool_alloc_locked malloc mutex_ok P n"
    using ne assms(2) by (simp add: zoo_allocate_from_pool_def)
  show ?thesis
  proof (cases r)
    case (Some p)
    then obtain k l where k: "k < length (segs P)" "n \<le> l" "list_all2 seg_inv ss (Ls[k := insert (p, l) (Ls ! k)])"
      and nk: "(p, l) \<notin> Ls ! k" using w(3) by auto
    have len: "length Ls = length (segs P)" "length ss = length (segs P)"
      using list_all2_lengthD [OF L(1)] map_eq_imp_length_eq [OF w(2)] by simp_all
    have "(p, l) \<notin> Ls ! j" if "j < length Ls" for j
      using block_once [OF k(3) so, of k p l j] k(1) nk len that by (cases "j = k") auto
    then have nb: "(p, l) \<notin> B" unfolding L(2) by (auto simp: in_set_conv_nth)
    have "insert (p, l) B = \<Union> (set (Ls[k := insert (p, l) (Ls ! k)]))"
      using Union_insert [of k Ls] k(1) L by (simp add: list_all2_lengthD)
    then have "pool_inv (P\<lparr>segs := ss\<rparr>) (insert (p, l) B)" unfolding pool_inv_def using k(3) so ns by auto
    then show ?thesis using e w(1) Some k(2) nb by (auto simp: smb_memory_pool_alloc_locked_def)
  next
    case None
    then have inv: "list_all2 seg_inv ss Ls" using w(3) by simp
    then have P0: "pool_inv (P\<lparr>segs := ss\<rparr>) B" unfolding pool_inv_def using L(2) so ns by auto
    have lo: "seg_ok (last ss)" using so(2) ns by simp
    then have mt: "min_segment \<le> seg_total (last ss)" and "int (seg_total (last ss)) \<le> 2 ^ 63" unfolding seg_ok_def by auto
    then have "0 < seg_total (last ss)" "seg_total (last ss) \<le> 2 ^ 63"
      using of_nat_le_iff [of "seg_total (last ss)" "2 ^ 63", where 'a = int] by (auto simp: sizes)
    from segment_size_ok [OF this, of n] obtain t where t: "smb_memory_pool_segment_size n (seg_total (last ss)) = Some t"
        "t = 0 \<or> seg_total (last ss) \<le> t \<and> min_total n \<le> t" "min_total n \<le> 2 ^ 62 \<longrightarrow> t \<noteq> 0" by blast
    show ?thesis
    proof (cases "smb_memory_pool_create_segment t malloc mutex_ok")
      case None
      have "frame (last ss) = frame (last (segs P))" using w(2) ns ne by (metis last_map)
      from frameD(4) [OF this] have tl: "seg_total (last (segs P)) = seg_total (last ss)" by simp
      have "\<not> (n \<le> 2 ^ 61 \<and> mutex_ok \<and> malloc (the (smb_memory_pool_segment_size n (seg_total (last (segs P))))) \<noteq> None)"
      proof
        assume a: "n \<le> 2 ^ 61 \<and> mutex_ok \<and> malloc (the (smb_memory_pool_segment_size n (seg_total (last (segs P))))) \<noteq> None"
        then have "min_segment \<le> t" using t(2,3) min_total_eq(2) [OF assms(2)] mt by linarith
        moreover obtain base where "malloc t = Some base" using a t(1) tl by auto
        ultimately have "smb_memory_pool_create_segment t malloc mutex_ok \<noteq> None"
          using a by (simp add: smb_memory_pool_create_segment_def sizes sizeof_memory_pool_def)
        then show False using None by simp
      qed
      then show ?thesis using e w(1) \<open>r = None\<close> ns t(1) P0 None by (simp add: smb_memory_pool_alloc_locked_def)
    next
      case (Some s)
      then have "t \<noteq> 0" by (auto simp: smb_memory_pool_create_segment_def split: if_splits)
      then have tt: "min_segment \<le> t" "min_total n \<le> t" using t(2) mt by simp_all
      have "\<forall>s \<in> set ss. seg_end s \<le> base \<or> base + int t \<le> seg_base s"
        if "\<forall>s \<in> set (segs P). seg_end s \<le> base \<or> base + int t \<le> seg_base s" for base t
        using that frames_bounds [OF w(2)] by fastforce
      then have mo: "malloc_fresh ss malloc" using assms(4) unfolding malloc_fresh_def by blast
      note N = new_segment_ok [OF mo Some tt(1)]
      obtain q s' where q: "smb_slab_alloc_locked s n = Some (q, s')" using seg.alloc_returns [OF N(1) assms(2,3)] by blast
      note f = frame_alloc [OF q]
      have e2: "zoo_allocate_from_pool malloc mutex_ok P n = Some (q, P\<lparr>segs := ss @ [s']\<rparr>)"
        using e w(1) \<open>r = None\<close> ns t(1) Some q by (simp add: smb_memory_pool_alloc_locked_def)
      have so': "sorted_wrt apart (ss @ [s'])" "\<forall>s \<in> set (ss @ [s']). seg_ok s"
        using so N(2,3) frame_apart [OF refl f] frame_seg_ok [OF f] by (auto simp: sorted_wrt_append)
      have pi: "pool_inv (P\<lparr>segs := ss @ [s']\<rparr>) (M \<union> B)" if "seg_inv s' M" for M
        unfolding pool_inv_def using so' L(2) inv that by (auto intro!: exI [of _ "Ls @ [M]"] list_all2_appendI)
      show ?thesis
      proof (cases q)
        case None
        obtain base where base: "s = smb_slab_init base t" "good_block base t" using N(4) by blast
        have "\<not> n \<le> 2 ^ 61" using fresh_segment_suffices [OF base(2) tt(2) assms(2)] q None base(1) by auto
        then show ?thesis using e2 pi [OF seg.alloc_None [OF N(1) assms(2,3)]] q None by simp
      next
        case (Some p)
        obtain l where l: "n \<le> l" "seg_inv s' {(p, l)}" using seg.alloc_Some [OF N(1) assms(2,3)] q Some by auto
        have all: "list_all2 seg_inv (ss @ [s']) (Ls @ [{(p, l)}])" using inv l(2) by (intro list_all2_appendI) auto
        have "length Ls = length ss" using inv by (simp add: list_all2_lengthD)
        then have "(p, l) \<notin> Ls ! j" if "j < length Ls" for j
          using block_once [OF all so', of "length ss" p l j] that by (simp add: nth_append)
        then have "(p, l) \<notin> B" unfolding L(2) by (auto simp: in_set_conv_nth)
        then show ?thesis using e2 pi [OF l(2)] Some l(1) by auto
      qed
    qed
  qed
qed

section \<open>The check and the figures\<close>

definition free_count :: "pool_spec \<Rightarrow> nat" where
  "free_count a = sum_list (map snd (free_runs a))"

lemma free_count_le:
  assumes "spec_inv N a"
  shows "free_count a \<le> N" and "blocks a = {} \<Longrightarrow> free_count a = N"
proof -
  note I = spec_invD [OF assms]
  have "length (run_pages fs) = sum_list (map snd fs)" for fs by (induction fs) auto
  then have c: "free_count a = card {i. i < N \<and> page_use a i = Unused}"
    unfolding free_count_def using distinct_card [OF I(1)] I(2) by simp
  have "card {i. i < N \<and> page_use a i = Unused} \<le> card {..<N}" by (intro card_mono) auto
  then show "free_count a \<le> N" using c by simp
  assume e: "blocks a = {}"
  have "page_use a i = Unused" for i
  proof (cases "page_use a i")
    case (Run n)
    then show ?thesis using e by (auto simp: blocks_eq)
  next
    case Inner
    from I(8) [OF this] show ?thesis using e by (auto simp: blocks_eq)
  next
    case (Chunks sh U)
    have "\<not> U \<subseteq> {..<reserved sh}" using I(6) [OF Chunks] by blast
    then obtain c where "c \<in> U" "reserved sh \<le> c" by (metis lessThan_iff not_less subsetI)
    then show ?thesis using e Chunks by (auto simp: blocks_eq)
  qed
  then have "{i. i < N \<and> page_use a i = Unused} = {..<N}" by auto
  then show "free_count a = N" using c by simp
qed

lemma validate_loop_chain:
  assumes "dchain s SMB_SLAB_PAGE prev (map fst fs) FreeHead" and "\<forall>(i, n) \<in> set fs. pg_slab (descs s (Page i)) = word_of_nat n"
    and "pg_next (descs s prev) = Some page" and "pg_next (descs s FreeHead) = Some first"
    and "first \<notin> Page ` set (map fst (tl fs))" and "fs \<noteq> [] \<longrightarrow> first \<noteq> FreeHead"
  shows "validate_loop s prev page acc = Some (Some (acc + word_of_nat (sum_list (map snd fs))))"
  using assms
proof (induction fs arbitrary: prev page acc)
  case Nil
  then show ?case by (subst validate_loop.simps) simp
next
  case (Cons f fs)
  obtain i n where f: "f = (i, n)" by fastforce
  have p: "page = Page i" "pg_prev (descs s (Page i)) = (Some prev, SMB_SLAB_PAGE)" "dchain s SMB_SLAB_PAGE (Page i) (map fst fs) FreeHead"
    using Cons(2,4) f by auto
  obtain nx where nx: "pg_next (descs s (Page i)) = Some nx" "nx = FreeHead \<and> fs = [] \<or> fs \<noteq> [] \<and> nx = Page (fst (hd fs))"
    using p(3) by (cases fs) auto
  have "nx \<noteq> first" using nx(2) Cons(6,7) f by (cases fs) auto
  moreover have "validate_loop s (Page i) nx (acc + word_of_nat n) = Some (Some (acc + word_of_nat n + word_of_nat (sum_list (map snd fs))))"
  proof (rule Cons(1) [OF p(3) _ nx(1) Cons(5)])
    show "\<forall>(i, n) \<in> set fs. pg_slab (descs s (Page i)) = word_of_nat n" using Cons(3) by simp
    show "first \<notin> Page ` set (map fst (tl fs))" using Cons(6) f by (cases fs) auto
    show "fs \<noteq> [] \<longrightarrow> first \<noteq> FreeHead" using Cons(7) by simp
  qed
  moreover have "pg_slab (descs s (Page i)) = word_of_nat n" using Cons(3) f by simp
  ultimately show ?case using p nx(1) Cons(5) f by (subst validate_loop.simps) (simp add: add.assoc)
qed

lemma validate_walk_ok: "\<forall>s \<in> set ss. \<exists>a. rep s a \<Longrightarrow> validate_walk ss = Some 0"
proof (induction ss)
  case (Cons s ss)
  obtain a where a: "rep s a" using Cons(2) by auto
  note R = repD [OF a]
  obtain first where first: "pg_next (descs s FreeHead) = Some first" "first = FreeHead \<and> free_runs a = [] \<or> free_runs a \<noteq> [] \<and> first = Page (fst (hd (free_runs a)))"
    using R(5) by (cases "free_runs a") auto
  have "validate_loop s FreeHead first 0 = Some (Some (0 + word_of_nat (sum_list (map snd (free_runs a)))))"
  proof (rule validate_loop_chain [OF R(5) _ first(1) first(1)])
    show "\<forall>(i, n) \<in> set (free_runs a). pg_slab (descs s (Page i)) = word_of_nat n" using R(6) by blast
    show "first \<notin> Page ` set (map fst (tl (free_runs a)))"
      using first(2) free_heads(1) [OF R(1)] by (cases "free_runs a") auto
  qed (use first(2) in auto)
  moreover have "\<not> (word_of_nat (real_pages s) :: u64) < word_of_nat (sum_list (map snd (free_runs a)))"
    using free_count_le(1) [OF R(1)] R(2) unfolding free_count_def by (subst word_of_nat_less_iff) auto
  ultimately show ?case using Cons first(1) by simp
qed simp

lemma usage_loop_chain:
  assumes "dchain s SMB_SLAB_PAGE prev (map fst fs) FreeHead" and "\<forall>(i, n) \<in> set fs. pg_slab (descs s (Page i)) = word_of_nat n"
    and "pg_next (descs s prev) = Some page"
  shows "\<exists>u. usage_loop s page stat = Some u \<and> free_page u = free_page stat + word_of_nat (sum_list (map snd fs))
    \<and> free_size u = free_size stat + word_of_nat (sum_list (map snd fs)) * 4096
    \<and> pool_size u = pool_size stat \<and> usage_pages u = usage_pages stat"
  using assms
proof (induction fs arbitrary: prev page stat)
  case Nil
  then show ?case by (subst usage_loop.simps) simp
next
  case (Cons f fs)
  obtain i n where f: "f = (i, n)" by fastforce
  have p: "page = Page i" "dchain s SMB_SLAB_PAGE (Page i) (map fst fs) FreeHead" using Cons(2,4) f by auto
  obtain nx where nx: "pg_next (descs s (Page i)) = Some nx" using p(2) by (cases fs) auto
  have sl: "pg_slab (descs s (Page i)) = word_of_nat n" and rest: "\<forall>(i, n) \<in> set fs. pg_slab (descs s (Page i)) = word_of_nat n"
    using Cons(3) f by auto
  define st1 where "st1 = stat\<lparr>free_page := free_page stat + word_of_nat n, free_size := free_size stat + word_of_nat n * word_of_nat smb_pagesize\<rparr>"
  define st2 where "st2 = (if (word_of_nat n :: u64) > max_free_pages st1 then st1\<lparr>max_free_pages := word_of_nat n\<rparr> else st1)"
  have "usage_loop s page stat = usage_loop s nx st2"
    using p(1) nx sl by (subst usage_loop.simps) (simp add: st1_def st2_def Let_def)
  moreover have "free_page st2 = free_page stat + word_of_nat n" "free_size st2 = free_size stat + word_of_nat n * 4096"
    "pool_size st2 = pool_size stat" "usage_pages st2 = usage_pages stat"
    by (simp_all add: st2_def st1_def smb_pagesize_def)
  ultimately show ?case using Cons(1) [OF p(2) rest nx, of st2] f by (simp add: algebra_simps)
qed

lemma usage_walk_ok:
  assumes "list_all2 (\<lambda>s a. rep s a) ss as"
  shows "\<exists>u. usage_walk ss stat = Some u
    \<and> free_page u = free_page stat + word_of_nat (sum_list (map free_count as))
    \<and> free_size u = free_size stat + word_of_nat (sum_list (map free_count as)) * 4096
    \<and> pool_size u = pool_size stat + word_of_int (sum_list (map (\<lambda>s. seg_end s - seg_start s) ss))
    \<and> usage_pages u = usage_pages stat + word_of_nat (sum_list (map real_pages ss))"
  using assms
proof (induction ss as arbitrary: stat rule: list_all2_induct)
  case (Cons s ss a as)
  note R = repD [OF Cons(1)]
  obtain page where page: "pg_next (descs s FreeHead) = Some page" using R(5) by (cases "free_runs a") auto
  define st where "st = stat\<lparr>pool_size := pool_size stat + word_of_int (seg_end s - seg_start s),
    usage_pages := usage_pages stat + word_of_nat (real_pages s)\<rparr>"
  have "\<forall>(i, n) \<in> set (free_runs a). pg_slab (descs s (Page i)) = word_of_nat n" using R(6) by blast
  from usage_loop_chain [OF R(5) this page, of st] obtain u where u: "usage_loop s page st = Some u"
    "free_page u = free_page st + word_of_nat (free_count a)" "free_size u = free_size st + word_of_nat (free_count a) * 4096"
    "pool_size u = pool_size st" "usage_pages u = usage_pages st" unfolding free_count_def by blast
  have "usage_walk (s # ss) stat = usage_walk ss u" using page u(1) by (simp add: st_def)
  then show ?case using Cons(3) [of u] u(2-5) by (simp add: st_def algebra_simps)
qed simp

section \<open>All uses of the pool\<close>

text \<open>
  The pool is created once; then its users request and return blocks, in any order. \<open>L\<close> are the blocks
  users hold, with the sizes they asked for. \<open>malloc\<close> may answer differently each time.
\<close>

inductive pool_run :: "pool \<Rightarrow> (int \<times> nat) set \<Rightarrow> bool" where
  create: "min_segment \<le> t \<Longrightarrow> malloc_fresh [] malloc \<Longrightarrow> segs P0 = [] \<Longrightarrow>
    zoo_create_memory_pool malloc list_mutex_ok mutex_ok P0 t = (ZOO_OK, P) \<Longrightarrow> pool_run P {}"
| request: "pool_run P L \<Longrightarrow> 0 < n \<Longrightarrow> n < 2 ^ 64 \<Longrightarrow> malloc_fresh (segs P) malloc \<Longrightarrow>
    zoo_allocate_from_pool malloc mutex_ok P n = Some (Some p, P') \<Longrightarrow> pool_run P' (insert (p, n) L)"
| refused: "pool_run P L \<Longrightarrow> 0 < n \<Longrightarrow> n < 2 ^ 64 \<Longrightarrow> malloc_fresh (segs P) malloc \<Longrightarrow>
    zoo_allocate_from_pool malloc mutex_ok P n = Some (None, P') \<Longrightarrow> pool_run P' L"
| release: "pool_run P L \<Longrightarrow> (p, n) \<in> L \<Longrightarrow> pool_run (zoo_free_to_pool P p) (L - {(p, n)})"

text \<open>Each block a user holds is one the pool has handed out, at least as long as requested.\<close>

definition held :: "(int \<times> nat) set \<Rightarrow> (int \<times> nat) set \<Rightarrow> bool" where
  "held L B \<longleftrightarrow> fst ` L = fst ` B \<and> (\<forall>p n m. (p, n) \<in> L \<and> (p, m) \<in> L \<longrightarrow> n = m)
     \<and> (\<forall>p n. (p, n) \<in> L \<longrightarrow> 0 < n \<and> (\<exists>l. n \<le> l \<and> (p, l) \<in> B))"

lemma held_insert:
  assumes "\<And>m. (p, m) \<notin> B" and "held L B" and "n \<le> l" and "0 < n"
  shows "held (insert (p, n) L) (insert (p, l) B)"
proof -
  note H = assms(2) [unfolded held_def]
  have "p \<notin> fst ` B" using assms(1) by force
  then have "(p, m) \<notin> L" for m using H by force
  then show ?thesis using H assms(3,4) unfolding held_def by (intro conjI allI impI) (auto, blast+)
qed

lemma held_remove:
  assumes "\<And>m. (p, m) \<in> B \<Longrightarrow> m = l" and "held L B" and "(p, n) \<in> L"
  shows "held (L - {(p, n)}) (B - {(p, l)})"
proof -
  note H = assms(2) [unfolded held_def]
  have u: "(p, m) \<in> L \<Longrightarrow> m = n" for m using H assms(3) by blast
  have "fst ` (L - {(p, n)}) = fst ` L - {p}" using u by force
  moreover have "fst ` (B - {(p, l)}) = fst ` B - {p}" using assms(1) by force
  moreover have "0 < m \<and> (\<exists>l'. m \<le> l' \<and> (q, l') \<in> B - {(p, l)})" if q: "(q, m) \<in> L - {(p, n)}" for q m
  proof -
    have "q \<noteq> p" using q u by auto
    then show ?thesis using H q by blast
  qed
  ultimately show ?thesis using H unfolding held_def by auto
qed

lemma pool_block_unique: "pool_inv P B \<Longrightarrow> (p, l) \<in> B \<Longrightarrow> (p, m) \<in> B \<Longrightarrow> 0 < l \<Longrightarrow> 0 < m \<Longrightarrow> l = m"
  using pool_disjoint [of P B p l p m p] by simp

lemma pool_block_pos:
  assumes "pool_inv P B" and "(p, l) \<in> B"
  shows "0 < l" and "\<exists>s \<in> set (segs P). seg_ok s \<and> seg_start s \<le> p \<and> p + int l \<le> seg_end s"
proof -
  obtain Ls where L: "list_all2 seg_inv (segs P) Ls" "B = \<Union> (set Ls)" and o: "\<forall>s \<in> set (segs P). seg_ok s"
    using assms(1) by (auto simp: pool_inv_def)
  obtain k where k: "k < length Ls" "(p, l) \<in> Ls ! k" using assms(2) L(2) by (auto simp: in_set_conv_nth)
  have s: "segs P ! k \<in> set (segs P)" "seg_inv (segs P ! k) (Ls ! k)" using L(1) k(1) by (auto simp: list_all2_conv_all_nth)
  have "seg_ok (segs P ! k)" using o s(1) by blast
  from seg_block [OF s(2) this k(2)] this s(1)
  show "0 < l" "\<exists>s \<in> set (segs P). seg_ok s \<and> seg_start s \<le> p \<and> p + int l \<le> seg_end s" by blast+
qed

lemma pool_run_inv: "pool_run P L \<Longrightarrow> \<exists>B. pool_inv P B \<and> held L B"
proof (induction rule: pool_run.induct)
  case (create t malloc P0 list_mutex_ok mutex_ok P)
  have "(ZOO_OK :: zoo_error) \<noteq> ZOO_ERROR_MEM_POOL_ALLOCATION_FAILED"
    by (simp add: ZOO_OK_def ZOO_ERROR_MEM_POOL_ALLOCATION_FAILED_def)
  then obtain s where s: "smb_memory_pool_create_segment t malloc mutex_ok = Some s" "segs P = [s]"
    using create(3,4) by (auto simp: zoo_create_memory_pool_def Let_def split: if_splits option.splits)
  note N = new_segment_ok [OF create(2) s(1) create(1)]
  have "pool_inv P {}" unfolding pool_inv_def s(2) using N(1,2) by (auto intro!: exI [of _ "[{}]"])
  then show ?case by (auto simp: held_def)
next
  case (request P L n malloc mutex_ok p P')
  then obtain B where B: "pool_inv P B" "held L B" by blast
  obtain l where l: "n \<le> l" "(p, l) \<notin> B" "pool_inv P' (insert (p, l) B)"
    using pool_alloc [OF B(1) request(2-4), of mutex_ok] request(5) by auto
  have "(p, m) \<notin> B" for m
  proof
    assume m: "(p, m) \<in> B"
    then have "m = l" using pool_block_unique [OF l(3), of p m l] pool_block_pos(1) [OF l(3)] by blast
    then show False using m l(2) by simp
  qed
  then have "held (insert (p, n) L) (insert (p, l) B)" using B(2) l(1) request(2) by (rule held_insert)
  then show ?case using l(3) by blast
next
  case (refused P L n malloc mutex_ok P')
  then obtain B where B: "pool_inv P B" "held L B" by blast
  then show ?case using pool_alloc [OF B(1) refused(2-4), of mutex_ok] refused(5) by auto
next
  case (release P L p n)
  then obtain B where B: "pool_inv P B" "held L B" by blast
  obtain l where l: "n \<le> l" "(p, l) \<in> B" using B(2) release(2) unfolding held_def by blast
  have "m = l" if "(p, m) \<in> B" for m
    using pool_block_unique [OF B(1) that l(2)] pool_block_pos(1) [OF B(1)] that l(2) by blast
  then have "held (L - {(p, n)}) (B - {(p, l)})" using B(2) release(2) by (rule held_remove)
  then show ?case using pool_free [OF B(1) l(2)] by blast
qed

lemma pool_inv_rep:
  assumes "pool_inv P B"
  shows "\<exists>as. list_all2 rep (segs P) as \<and> (B = {} \<longrightarrow> (\<forall>a \<in> set as. blocks a = {}))"
proof -
  obtain Ls where L: "list_all2 seg_inv (segs P) Ls" "B = \<Union> (set Ls)" using assms by (auto simp: pool_inv_def)
  have "\<exists>a. rep (segs P ! k) a \<and> (Ls ! k = {} \<longrightarrow> blocks a = {})" if "k < length Ls" for k
  proof -
    have "seg_inv (segs P ! k) (Ls ! k)" using L(1) that by (auto simp: list_all2_conv_all_nth)
    then obtain a where "rep (segs P ! k) a" "Ls ! k = (\<lambda>(q, l). (seg_start (segs P ! k) + int q, l)) ` blocks a"
      unfolding seg_inv_def by blast
    then show ?thesis by (intro exI [of _ a]) simp
  qed
  then obtain f where f: "\<And>k. k < length Ls \<Longrightarrow> rep (segs P ! k) (f k) \<and> (Ls ! k = {} \<longrightarrow> blocks (f k) = {})" by metis
  have len: "length Ls = length (segs P)" using L(1) by (simp add: list_all2_lengthD)
  have "list_all2 rep (segs P) (map f [0..<length Ls])" using f len by (simp add: list_all2_conv_all_nth)
  moreover have "\<forall>a \<in> set (map f [0..<length Ls]). blocks a = {}" if "B = {}"
    using f that L(2) by auto
  ultimately show ?thesis by blast
qed




text \<open>
  C7. The layout of a new segment in a block of memory: the number of pages is at most one less or one
  more than that of the descriptors there is room for. The descriptors of all pages lie before the first
  page except when the alignment skips fewer bytes than are left over beyond a page: then there is one
  page more than descriptors, and the last descriptor lies in the first page.
\<close>

theorem segment_layout:
  assumes "good_block base total_size"
  shows "let s = smb_slab_init base total_size;
      lost = (- (slots_end base + int (seg_descs s * sizeof_slab_page))) mod int smb_pagesize;
      left = int ((total_size - header_size) mod (smb_pagesize + sizeof_slab_page))
    in seg_descs s - 1 \<le> real_pages s \<and> real_pages s \<le> seg_descs s + 1
      \<and> seg_start s mod int smb_pagesize = 0 \<and> seg_start s + int (real_pages s * smb_pagesize) \<le> base + int total_size
      \<and> (slots_end base + int (real_pages s * sizeof_slab_page) \<le> seg_start s \<longleftrightarrow> left < lost + int smb_pagesize)"
proof -
  note L = layout [OF assms refl refl refl] and P = layout_pages [OF assms refl refl refl]
  have c: "smb_pagesize + sizeof_slab_page = 4120" "smb_pagesize = 4096" "sizeof_slab_page = 24"
    by (simp_all add: smb_pagesize_def sizeof_slab_page_def)
  have "real_pages (smb_slab_init base total_size) \<le> seg_descs (smb_slab_init base total_size)
      \<longleftrightarrow> real_pages (smb_slab_init base total_size) \<noteq> seg_descs (smb_slab_init base total_size) + 1"
    using P(2) by linarith
  then show ?thesis using L(3,7,9) P unfolding Let_def c by (auto simp: not_le)
qed

theorem segment_layout_witness:
  "good_block 1048592 2052096 \<and> real_pages (smb_slab_init 1048592 2052096) = seg_descs (smb_slab_init 1048592 2052096) + 1
    \<and> seg_start (smb_slab_init 1048592 2052096) < slots_end 1048592 + int (real_pages (smb_slab_init 1048592 2052096) * sizeof_slab_page)"
proof -
  have g: "good_block 1048592 2052096" by (simp add: good_block_def sizes)
  have d: "seg_descs (smb_slab_init 1048592 2052096) = 497" using layout(4) [OF g refl refl refl] by (simp add: sizes)
  have e: "slots_end 1048592 = 1048936"
    by (simp add: slots_end_def sizeof_memory_pool_def sizeof_slab_page_def slot_count_def smb_pagesize_shift_def min_shift_def)
  have "\<not> slots_end 1048592 + int (real_pages (smb_slab_init 1048592 2052096) * sizeof_slab_page) \<le> seg_start (smb_slab_init 1048592 2052096)"
    using segment_layout [OF g] unfolding Let_def d e by (simp add: sizes smb_pagesize_def sizeof_slab_page_def)
  then show ?thesis using g layout_pages(2,4) [OF g refl refl refl] by (simp add: sizeof_slab_page_def)
qed

text \<open>A pool of 64 KiB, and one block of 100 bytes taken from it.\<close>

definition sample_malloc :: "nat \<Rightarrow> int option" where
  "sample_malloc t = (if t = 65536 then Some 1048576 else None)"

definition pool_sample :: pool where
  "pool_sample = \<lparr>segs = [smb_slab_init 1048576 65536], list_mutex_ready = True\<rparr>"

lemma sample_layout: "layout_ok 1048576 65536"
proof -
  have g: "good_block 1048576 65536" by (simp add: good_block_def sizes)
  note P = layout_pages(2,3) [OF g refl refl refl] and L = layout(11) [OF g refl refl refl]
  have "int ((65536 - header_size) mod 4120) = 3392" by (simp add: sizes)
  then show ?thesis using P L unfolding layout_ok_def by linarith
qed

lemma pool_sample_run: "pool_run pool_sample {}"
proof (rule pool_run.create [where t = 65536 and malloc = sample_malloc and list_mutex_ok = True and mutex_ok = True
      and ?P0.0 = "\<lparr>segs = [], list_mutex_ready = False\<rparr>"])
  show "malloc_fresh [] sample_malloc" using sample_layout by (auto simp: malloc_fresh_def sample_malloc_def)
qed (simp_all add: sizes zoo_create_memory_pool_def smb_memory_pool_create_segment_def sample_malloc_def pool_sample_def
    sizeof_memory_pool_def)

lemma no_malloc_fresh: "malloc_fresh ss (\<lambda>_. None)"
  by (simp add: malloc_fresh_def)

lemma sample_request: "\<exists>p P. pool_run P {(p, 100)}"
proof -
  have inv: "pool_run pool_sample {}" by (rule pool_sample_run)
  have rep: "rep (smb_slab_init 1048576 65536) (init_spec (real_pages (smb_slab_init 1048576 65536)))"
    and pos: "0 < real_pages (smb_slab_init 1048576 65536)"
    using created_rep [of 1048576 65536, OF _ refl] by (simp_all add: good_block_def sizes)
  have "fst (spec_alloc 100 (init_spec (real_pages (smb_slab_init 1048576 65536)))) \<noteq> None"
    using pos by (simp add: spec_alloc_def spec_alloc_chunk_def init_spec_def smb_slab_max_size_def smb_pagesize_def)
  then obtain p s' where s': "smb_slab_alloc_locked (smb_slab_init 1048576 65536) 100 = Some (Some p, s')"
    using alloc_rep [OF rep, of 100] by auto
  then have "zoo_allocate_from_pool (\<lambda>_. None) True pool_sample 100 = Some (Some p, pool_sample\<lparr>segs := [s']\<rparr>)"
    by (simp add: zoo_allocate_from_pool_def smb_memory_pool_alloc_locked_def pool_sample_def)
  from pool_run.request [OF inv _ _ no_malloc_fresh this] show ?thesis by auto
qed




end
