(* ===== verification/Name_Index.thy ===== *)
theory Name_Index
  imports Zoo_List
begin

text \<open>
  What the managers of rules and of services have in common: pushing to a bounded list when the
  allocator may refuse, and a hash table from names to handles made of bounded lists. The table is an
  interface: its laws say what a lookup gives after an insertion or a removal, whether or not the
  insertion found room.
\<close>

section \<open>Pushing to a list\<close>

text \<open>
  A list with the given capacity is a sequence (theory \<open>Zoo_List\<close>); \<open>mem\<close> is the answer of the
  allocator for the new list node.
\<close>

definition push_back :: "nat \<Rightarrow> bool \<Rightarrow> 'd \<Rightarrow> 'd list \<Rightarrow> zoo_error \<times> 'd list" where
  "push_back cap mem x xs =
     (if length xs \<ge> cap then (ZOO_ERROR_BUFFER_FULL, xs)
      else if \<not> mem then (ZOO_ERROR_OUT_OF_MEMORY, xs)
      else (ZOO_OK, xs @ [x]))"

lemma push_back_cases:
  "push_back cap mem x xs = (if length xs < cap \<and> mem then (ZOO_OK, xs @ [x]) else (fst (push_back cap mem x xs), xs))"
  by (simp add: push_back_def)

lemma push_back_ok: "fst (push_back cap mem x xs) = ZOO_OK \<longleftrightarrow> length xs < cap \<and> mem"
  by (simp add: push_back_def ZOO_OK_def ZOO_ERROR_BUFFER_FULL_def ZOO_ERROR_OUT_OF_MEMORY_def)

text \<open>It agrees with the list operation of the source on the heap.\<close>

lemma push_back_seq_step: "seq_step cap xs (PushBack x) = (Code (fst (push_back cap True x xs)), snd (push_back cap True x xs))"
  by (simp add: push_back_def)

section \<open>A table of names\<close>

text \<open>The bucket of a name: the hash function both managers use, on the characters of the name.\<close>

fun djb2 :: "u64 \<Rightarrow> u8 list \<Rightarrow> u64" where
  "djb2 hash [] = hash"
| "djb2 hash (c # cs) = djb2 ((push_bit 5 hash + hash) + ucast c) cs"

text \<open>Buckets of entries; an entry is a name and a handle.\<close>

type_synonym 'v buckets = "nat \<Rightarrow> (u8 list \<times> 'v) list"

definition bucket_find :: "(u8 list \<Rightarrow> nat) \<Rightarrow> 'v buckets \<Rightarrow> u8 list \<Rightarrow> 'v option" where
  "bucket_find hash bs name = map_option snd (find (\<lambda>e. fst e = name) (bs (hash name)))"

text \<open>Changing the handle of the first entry with the name.\<close>

fun set_entry :: "u8 list \<Rightarrow> 'v \<Rightarrow> (u8 list \<times> 'v) list \<Rightarrow> (u8 list \<times> 'v) list" where
  "set_entry name v [] = []"
| "set_entry name v (e # es) = (if fst e = name then (fst e, v) # es else e # set_entry name v es)"

fun drop_entry :: "u8 list \<Rightarrow> (u8 list \<times> 'v) list \<Rightarrow> (u8 list \<times> 'v) list" where
  "drop_entry name [] = []"
| "drop_entry name (e # es) = (if fst e = name then es else e # drop_entry name es)"

lemma drop_entry_remove_if: "drop_entry name es = snd (seq_step cap es (RemoveIf (\<lambda>e. fst e = name)))"
proof (induction es)
  case (Cons e es)
  then show ?case by (cases "fst e = name") (auto simp: List.extract_Cons_code split: option.splits)
qed (simp add: List.extract_Nil_code)

text \<open>\<open>snprintf\<close> of a text into a buffer of \<open>n\<close> bytes.\<close>

definition snprintf_s :: "nat \<Rightarrow> u8 list \<Rightarrow> u8 list" where
  "snprintf_s n text = take (n - 1) text"

text \<open>The answers of the allocator for an insertion: for the entry and for the list node.\<close>

type_synonym index_env = "bool \<times> bool"

text \<open>
  Insertion: the entry of the name gets the new handle, or a new entry is made, with the name cut to the
  size of its field. \<open>oom\<close> and \<open>failed\<close> are the codes a manager reports when there is no memory and when the
  list refuses the entry.
\<close>

definition bucket_upsert ::
  "(u8 list \<Rightarrow> nat) \<Rightarrow> nat \<Rightarrow> nat \<Rightarrow> zoo_error \<Rightarrow> (zoo_error \<Rightarrow> zoo_error) \<Rightarrow> index_env \<Rightarrow> 'v buckets \<Rightarrow> u8 list \<Rightarrow> 'v
   \<Rightarrow> zoo_error \<times> 'v buckets" where
  "bucket_upsert hash cap len oom failed env buckets name v =
     (let b = hash name
      in if bucket_find hash buckets name \<noteq> None
         then (ZOO_OK, buckets(b := set_entry name v (buckets b)))
         else if \<not> fst env then (oom, buckets)
         else let (r, entries) = push_back cap (snd env) (snprintf_s len name, v) (buckets b)
              in if r \<noteq> ZOO_OK then (failed r, buckets)
                 else (ZOO_OK, buckets(b := entries)))"

definition bucket_remove :: "(u8 list \<Rightarrow> nat) \<Rightarrow> 'v buckets \<Rightarrow> u8 list \<Rightarrow> 'v buckets" where
  "bucket_remove hash buckets name = (let b = hash name in buckets(b := drop_entry name (buckets b)))"

definition buckets_ok :: "(u8 list \<Rightarrow> nat) \<Rightarrow> 'v buckets \<Rightarrow> bool" where
  "buckets_ok hash bs \<longleftrightarrow> (\<forall>b. distinct (map fst (bs b)) \<and> (\<forall>e \<in> set (bs b). hash (fst e) = b))"

text \<open>
  The interface: \<open>find\<close>, an insertion that says whether it succeeded, and a removal.
\<close>

locale name_table =
  fixes ok :: "'s \<Rightarrow> bool"
    and lookup :: "'s \<Rightarrow> 'k \<Rightarrow> 'v option"
    and upsert :: "'e \<Rightarrow> 's \<Rightarrow> 'k \<Rightarrow> 'v \<Rightarrow> zoo_error \<times> 's"
    and delete :: "'s \<Rightarrow> 'k \<Rightarrow> 's"
    and valid :: "'k \<Rightarrow> bool"
  assumes upsert_ok: "ok s \<Longrightarrow> valid k \<Longrightarrow> ok (snd (upsert e s k v))"
    and upsert_lookup: "ok s \<Longrightarrow> valid k \<Longrightarrow>
      lookup (snd (upsert e s k v)) k' = (if fst (upsert e s k v) = ZOO_OK \<and> k' = k then Some v else lookup s k')"
    and delete_ok: "ok s \<Longrightarrow> ok (delete s k)"
    and delete_lookup: "ok s \<Longrightarrow> lookup (delete s k) k' = (if k' = k then None else lookup s k')"
begin

text \<open>A cache in front of a list: it never says more than the list, and forgetting is harmless.\<close>

definition cached :: "('k \<Rightarrow> 'v option) \<Rightarrow> 's \<Rightarrow> bool" where
  "cached m s \<longleftrightarrow> ok s \<and> (\<forall>k v. lookup s k = Some v \<longrightarrow> m k = Some v)"

lemma cached_upsert: "cached m s \<Longrightarrow> valid k \<Longrightarrow> m k = Some v \<Longrightarrow> cached m (snd (upsert e s k v))"
  by (auto simp: cached_def upsert_ok upsert_lookup)

lemma cached_extend: "cached m s \<Longrightarrow> m k = None \<Longrightarrow> cached (m(k := Some v)) s"
  by (auto simp: cached_def)

lemma cached_insert: "cached m s \<Longrightarrow> valid k \<Longrightarrow> m k = None \<Longrightarrow> cached (m(k := Some v)) (snd (upsert e s k v))"
  by (rule cached_upsert [OF cached_extend]) auto

lemma cached_delete: "cached m s \<Longrightarrow> cached (m(k := None)) (delete s k)"
  by (auto simp: cached_def delete_ok delete_lookup)

lemma cached_lookup: "cached m s \<Longrightarrow> lookup s k = Some v \<Longrightarrow> m k = Some v"
  by (simp add: cached_def)

end

subsection \<open>Lemmas on buckets\<close>

lemma find_entry_None: "find (\<lambda>e. fst e = name) es = None \<longleftrightarrow> name \<notin> fst ` set es"
  by (force simp: find_None_iff)

lemma fst_set_entry [simp]: "map fst (set_entry name v es) = map fst es"
  by (induction es) auto

lemma find_set_entry:
  "find (\<lambda>e. fst e = k) (set_entry name v es) =
     (if k = name \<and> name \<in> fst ` set es then Some (name, v) else find (\<lambda>e. fst e = k) es)"
proof (induction es)
  case (Cons e es)
  then show ?case by (cases "fst e = name"; cases "k = name") simp_all
qed simp

lemma find_drop_entry:
  "distinct (map fst es) \<Longrightarrow>
   find (\<lambda>e. fst e = k) (drop_entry name es) = (if k = name then None else find (\<lambda>e. fst e = k) es)"
proof (induction es)
  case (Cons e es)
  then show ?case by (cases "fst e = name"; cases "k = name") (simp_all add: find_entry_None)
qed simp

lemma fst_drop_entry: "map fst (drop_entry name es) = remove1 name (map fst es)"
  by (induction es) auto

lemma drop_entry_subset: "set (drop_entry name es) \<subseteq> set es"
  by (induction es) auto

lemma find_append_entry:
  "name \<notin> fst ` set es \<Longrightarrow>
   find (\<lambda>e. fst e = k) (es @ [(name, v)]) = (if k = name then Some (name, v) else find (\<lambda>e. fst e = k) es)"
  by (induction es) auto

lemma set_entry_keys: "x \<in> set (set_entry name v es) \<Longrightarrow> \<exists>y \<in> set es. fst y = fst x"
  by (induction es) (auto split: if_splits)

lemma bucket_upsert_ok:
  assumes "buckets_ok hash bs" and "length k < len"
  shows "buckets_ok hash (snd (bucket_upsert hash cap len oom failed e bs k v))"
proof -
  have tk: "snprintf_s len k = k" using assms(2) by (simp add: snprintf_s_def)
  show ?thesis
  proof (cases "bucket_find hash bs k = None")
    case False
    then have "snd (bucket_upsert hash cap len oom failed e bs k v) = bs(hash k := set_entry k v (bs (hash k)))"
      by (simp add: bucket_upsert_def Let_def)
    moreover have "hash (fst x) = hash k" if x: "x \<in> set (set_entry k v (bs (hash k)))" for x
    proof -
      obtain y where "y \<in> set (bs (hash k))" "fst y = fst x" using set_entry_keys [OF x] by blast
      then show ?thesis using assms(1) unfolding buckets_ok_def by metis
    qed
    ultimately show ?thesis using assms(1) unfolding buckets_ok_def by simp
  next
    case True
    then have "k \<notin> fst ` set (bs (hash k))" by (simp add: bucket_find_def find_entry_None)
    then show ?thesis using True assms(1)
      by (auto simp: bucket_upsert_def buckets_ok_def Let_def tk push_back_def)
  qed
qed

lemma bucket_find_upsert:
  assumes "length k < len" and "oom \<noteq> ZOO_OK" and "\<And>r. r \<noteq> ZOO_OK \<Longrightarrow> failed r \<noteq> ZOO_OK"
  shows "bucket_find hash (snd (bucket_upsert hash cap len oom failed e bs k v)) k' =
    (if fst (bucket_upsert hash cap len oom failed e bs k v) = ZOO_OK \<and> k' = k then Some v else bucket_find hash bs k')"
proof -
  have tk: "snprintf_s len k = k" using assms(1) by (simp add: snprintf_s_def)
  show ?thesis
  proof (cases "bucket_find hash bs k = None")
    case False
    then have "k \<in> fst ` set (bs (hash k))" by (auto simp: bucket_find_def find_entry_None)
    then show ?thesis using False
      by (auto simp: bucket_upsert_def bucket_find_def find_set_entry Let_def)
  next
    case True
    then have new: "k \<notin> fst ` set (bs (hash k))" by (simp add: bucket_find_def find_entry_None)
    show ?thesis
    proof (cases "fst e \<and> fst (push_back cap (snd e) (k, v) (bs (hash k))) = ZOO_OK")
      case fits: True
      then have "bucket_upsert hash cap len oom failed e bs k v = (ZOO_OK, bs(hash k := bs (hash k) @ [(k, v)]))"
        using True by (auto simp: bucket_upsert_def tk push_back_ok Let_def) (auto simp: push_back_def)
      then show ?thesis using new by (auto simp: bucket_find_def find_append_entry)
    next
      case full: False
      have "bucket_upsert hash cap len oom failed e bs k v =
          (if fst e then failed (fst (push_back cap (snd e) (k, v) (bs (hash k)))) else oom, bs)"
        using True full by (cases "fst e") (simp_all add: bucket_upsert_def tk Let_def case_prod_beta)
      moreover have "(if fst e then failed (fst (push_back cap (snd e) (k, v) (bs (hash k)))) else oom) \<noteq> ZOO_OK"
        using full assms(2,3) by auto
      ultimately have "snd (bucket_upsert hash cap len oom failed e bs k v) = bs"
        "fst (bucket_upsert hash cap len oom failed e bs k v) \<noteq> ZOO_OK" by simp_all
      then show ?thesis by simp
    qed
  qed
qed

lemma bucket_remove_ok: "buckets_ok hash bs \<Longrightarrow> buckets_ok hash (bucket_remove hash bs k)"
  using drop_entry_subset [of k "bs (hash k)"]
  by (auto simp: buckets_ok_def bucket_remove_def fst_drop_entry Let_def)

lemma bucket_find_remove:
  "buckets_ok hash bs \<Longrightarrow> bucket_find hash (bucket_remove hash bs k) k' = (if k' = k then None else bucket_find hash bs k')"
  by (auto simp: buckets_ok_def bucket_find_def bucket_remove_def find_drop_entry Let_def)

end
