(* ===== verification/Rule_Manager.thy ===== *)
theory Rule_Manager
  imports Name_Index
begin

text \<open>
  Routing rules and their manager, from \<open>src/kernal/core/zoo_smb_routing_rule.c\<close> and
  \<open>src/kernal/core/zoo_smb_rule_manager.c\<close>, with the names of rules from
  \<open>include/kernal/utility/zoo_smb_util.h\<close>. A rule ties a service and a transport to the observers of a
  node. The manager keeps the rules in a list and finds them through a table of names.

  Rules are structures with an address; services, transports and lists of observers are handles. A call
  holds the mutex of the manager for its whole work.
\<close>

section \<open>Names\<close>

text \<open>The parts of a name are characters of C strings; \<open>95\<close> is the underscore.\<close>

datatype transport_type = TRANSPORT_MIN | TRANSPORT_UDP | TRANSPORT_UDP_BROADCAST | TRANSPORT_TCP
  | TRANSPORT_SHM | TRANSPORT_MAX

fun ZOO_SMB_TRANSPORT_TYPE_TO_STRING :: "transport_type \<Rightarrow> u8 list" where
  "ZOO_SMB_TRANSPORT_TYPE_TO_STRING TRANSPORT_UDP = [85, 68, 80]"
| "ZOO_SMB_TRANSPORT_TYPE_TO_STRING TRANSPORT_UDP_BROADCAST =
     [85, 68, 80, 95, 66, 82, 79, 65, 68, 67, 65, 83, 84]"
| "ZOO_SMB_TRANSPORT_TYPE_TO_STRING TRANSPORT_TCP = [84, 67, 80]"
| "ZOO_SMB_TRANSPORT_TYPE_TO_STRING TRANSPORT_SHM = [83, 72, 77]"
| "ZOO_SMB_TRANSPORT_TYPE_TO_STRING TRANSPORT_MIN = [77, 73, 78]"
| "ZOO_SMB_TRANSPORT_TYPE_TO_STRING TRANSPORT_MAX = [77, 65, 88]"

definition zoo_smb_make_name_3 :: "u8 list option \<Rightarrow> u8 list option \<Rightarrow> transport_type \<Rightarrow> u8 list" where
  "zoo_smb_make_name_3 part1 part2 ty =
     snprintf_s 256
       ((case part1 of None \<Rightarrow> [78, 85, 76, 76] | Some s \<Rightarrow> s) @ [95]
        @ (case part2 of None \<Rightarrow> [78, 85, 76, 76] | Some s \<Rightarrow> s) @ [95]
        @ ZOO_SMB_TRANSPORT_TYPE_TO_STRING ty)"

section \<open>Rules\<close>

definition MAX_RULE_NAME_LENGTH :: nat where "MAX_RULE_NAME_LENGTH = 64"

record smb_rule =
  rule_name :: "u8 list"
  rule_service :: nat
  rule_transport :: nat
  rule_observers :: nat

definition zoo_smb_create_routing_rule ::
  "bool \<Rightarrow> u8 list option \<Rightarrow> nat option \<Rightarrow> nat option \<Rightarrow> nat option \<Rightarrow> smb_rule option" where
  "zoo_smb_create_routing_rule mem name service transport observers =
     (case (name, service, transport, observers) of
        (Some nm, Some sv, Some tr, Some obs) \<Rightarrow>
          if \<not> mem then None
          else Some \<lparr>rule_name = snprintf_s MAX_RULE_NAME_LENGTH nm, rule_service = sv, rule_transport = tr,
                     rule_observers = obs\<rparr>
      | _ \<Rightarrow> None)"

section \<open>The manager\<close>

definition RULE_INDEX_BUCKET_COUNT :: nat where "RULE_INDEX_BUCKET_COUNT = 257"

text \<open>
  The rules by address, the list of rules and the buckets of the index. The creation gives every bucket
  its list, so no bucket is \<open>NULL\<close> later.
\<close>

record rule_manager =
  rm_rules :: "nat \<Rightarrow> smb_rule option"
  rm_list :: "nat list"
  rm_buckets :: "nat buckets"

definition rule_index_hash :: "u8 list \<Rightarrow> nat" where
  "rule_index_hash key = unat (djb2 5381 key) mod RULE_INDEX_BUCKET_COUNT"

definition rule_index_find_locked :: "nat buckets \<Rightarrow> u8 list \<Rightarrow> nat option" where
  "rule_index_find_locked buckets name = bucket_find rule_index_hash buckets name"

definition rule_index_upsert_locked :: "index_env \<Rightarrow> nat buckets \<Rightarrow> u8 list \<Rightarrow> nat \<Rightarrow> zoo_error \<times> nat buckets" where
  "rule_index_upsert_locked env buckets name rule =
     bucket_upsert rule_index_hash 8 MAX_RULE_NAME_LENGTH ZOO_SMB_ERROR_OUT_OF_MEMORY
       (\<lambda>_. ZOO_SMB_ERROR_OPERATION_FAILED) env buckets name rule"

definition rule_index_remove_locked :: "nat buckets \<Rightarrow> u8 list \<Rightarrow> nat buckets" where
  "rule_index_remove_locked buckets name =
     bucket_remove rule_index_hash buckets name"

text \<open>
  The scan of the list. A list entry leads to a rule; \<open>None\<close> stands for an access to a rule that was
  returned to the pool.
\<close>

fun scan_rules :: "(nat \<Rightarrow> smb_rule option) \<Rightarrow> nat list \<Rightarrow> u8 list \<Rightarrow> nat option option" where
  "scan_rules rules [] name = Some None"
| "scan_rules rules (a # as) name =
     (case rules a of
        None \<Rightarrow> None
      | Some rule \<Rightarrow> if rule_name rule = name then Some (Some a) else scan_rules rules as name)"

definition find_rule_by_name :: "index_env \<Rightarrow> rule_manager \<Rightarrow> u8 list \<Rightarrow> (nat option \<times> rule_manager) option" where
  "find_rule_by_name env manager name =
     (case rule_index_find_locked (rm_buckets manager) name of
        Some a \<Rightarrow> Some (Some a, manager)
      | None \<Rightarrow>
          (case scan_rules (rm_rules manager) (rm_list manager) name of
             None \<Rightarrow> None
           | Some None \<Rightarrow> Some (None, manager)
           | Some (Some a) \<Rightarrow>
               Some (Some a, manager\<lparr>rm_buckets := snd (rule_index_upsert_locked env (rm_buckets manager) name a)\<rparr>)))"

definition zoo_smb_create_rule_manager :: "bool \<Rightarrow> bool \<Rightarrow> bool \<Rightarrow> (nat \<Rightarrow> bool) \<Rightarrow> rule_manager option" where
  "zoo_smb_create_rule_manager mem mutex list_ok bucket_ok =
     (if \<not> mem then None
      else if \<not> mutex then None
      else if zoo_list_create list_ok 256 = None then None
      else if \<exists>i < RULE_INDEX_BUCKET_COUNT. zoo_list_create (bucket_ok i) 8 = None then None
      else Some \<lparr>rm_rules = (\<lambda>_. None), rm_list = [], rm_buckets = (\<lambda>_. [])\<rparr>)"

text \<open>What a rule is made for: the fields of a node the manager reads.\<close>

record rule_node =
  nd_target :: "u8 list"
  nd_topic :: "u8 list"
  nd_transport :: transport_type
  nd_observers :: nat

text \<open>
  The answers of the system during one call: for the entry of the index after a scan, for the address of a
  rule, for the node of the list and for the new entry of the index.
\<close>

record rule_env =
  re_scan :: index_env
  re_rule :: "nat option"
  re_list :: bool
  re_index :: index_env

definition add_new_rule :: "rule_env \<Rightarrow> rule_manager \<Rightarrow> nat \<Rightarrow> smb_rule \<Rightarrow> rule_manager" where
  "add_new_rule env manager a rule =
     manager\<lparr>rm_rules := (rm_rules manager)(a \<mapsto> rule),
             rm_list := snd (push_back 256 (re_list env) a (rm_list manager)),
             rm_buckets := snd (rule_index_upsert_locked (re_index env) (rm_buckets manager) (rule_name rule) a)\<rparr>"

definition zoo_smb_rule_manager_make_rule ::
  "rule_env \<Rightarrow> rule_manager \<Rightarrow> rule_node option \<Rightarrow> nat option \<Rightarrow> nat option \<Rightarrow> (nat option \<times> rule_manager) option" where
  "zoo_smb_rule_manager_make_rule env manager node service transport =
     (case (node, service, transport) of
        (Some nd, Some sv, Some tr) \<Rightarrow>
          let name = zoo_smb_make_name_3 (Some (nd_target nd)) (Some (nd_topic nd)) (nd_transport nd)
          in (case find_rule_by_name (re_scan env) manager name of
                None \<Rightarrow> None
              | Some (Some a, manager') \<Rightarrow> Some (Some a, manager')
              | Some (None, manager') \<Rightarrow>
                  (case re_rule env of
                     None \<Rightarrow> Some (None, manager')
                   | Some a \<Rightarrow>
                       (case zoo_smb_create_routing_rule True (Some name) (Some sv) (Some tr) (Some (nd_observers nd)) of
                          None \<Rightarrow> Some (None, manager')
                        | Some rule \<Rightarrow> Some (Some a, add_new_rule env manager' a rule))))
      | _ \<Rightarrow> Some (None, manager))"

definition zoo_smb_rule_manager_get_rule ::
  "index_env \<Rightarrow> rule_manager \<Rightarrow> u8 list option \<Rightarrow> (nat option \<times> rule_manager) option" where
  "zoo_smb_rule_manager_get_rule env manager name =
     (case name of
        None \<Rightarrow> Some (None, manager)
      | Some nm \<Rightarrow> find_rule_by_name env manager nm)"

text \<open>Adding a rule that exists already, at an address.\<close>

definition zoo_smb_rule_manager_add_rule ::
  "rule_env \<Rightarrow> rule_manager \<Rightarrow> nat option \<Rightarrow> (zoo_error \<times> rule_manager) option" where
  "zoo_smb_rule_manager_add_rule env manager rule_handle =
     (case rule_handle of
        None \<Rightarrow> Some (ZOO_SMB_ERROR_INVALID_PARAM, manager)
      | Some a \<Rightarrow>
          (case rm_rules manager a of
             None \<Rightarrow> None
           | Some rule \<Rightarrow>
               (case find_rule_by_name (re_scan env) manager (rule_name rule) of
                  None \<Rightarrow> None
                | Some (Some _, manager') \<Rightarrow> Some (ZOO_OK, manager')
                | Some (None, manager') \<Rightarrow>
                    let (r, rules) = push_back 256 (re_list env) a (rm_list manager')
                    in if r \<noteq> ZOO_OK then Some (ZOO_SMB_ERROR_OPERATION_FAILED, manager')
                       else Some (ZOO_OK, manager'\<lparr>rm_list := rules,
                              rm_buckets := snd (rule_index_upsert_locked (re_index env) (rm_buckets manager') (rule_name rule) a)\<rparr>))))"

definition zoo_smb_rule_manager_remove_rule :: "rule_manager \<Rightarrow> nat option \<Rightarrow> (zoo_error \<times> rule_manager) option" where
  "zoo_smb_rule_manager_remove_rule manager rule_handle =
     (case rule_handle of
        None \<Rightarrow> Some (ZOO_SMB_ERROR_INVALID_PARAM, manager)
      | Some a \<Rightarrow>
          (case rm_rules manager a of
             None \<Rightarrow> None
           | Some rule \<Rightarrow>
               if a \<in> set (rm_list manager)
               then Some (ZOO_OK, manager\<lparr>rm_list := remove1 a (rm_list manager),
                            rm_buckets := rule_index_remove_locked (rm_buckets manager) (rule_name rule),
                            rm_rules := (rm_rules manager)(a := None)\<rparr>)
               else Some (ZOO_SMB_ERROR_NOT_FOUND, manager)))"

text \<open>The rules a destroyed manager returns to the pool.\<close>

definition zoo_smb_destroy_rule_manager :: "rule_manager \<Rightarrow> nat \<Rightarrow> smb_rule option" where
  "zoo_smb_destroy_rule_manager manager = (\<lambda>a. if a \<in> set (rm_list manager) then None else rm_rules manager a)"

section \<open>The index is transparent\<close>

lemma index_codes: "ZOO_SMB_ERROR_OUT_OF_MEMORY \<noteq> ZOO_OK" "ZOO_SMB_ERROR_OPERATION_FAILED \<noteq> ZOO_OK"
  by (simp_all add: zoo_error_codes)

interpretation rx: name_table "buckets_ok rule_index_hash" rule_index_find_locked rule_index_upsert_locked
  rule_index_remove_locked "\<lambda>k. length k < MAX_RULE_NAME_LENGTH"
  by unfold_locales
    (simp_all add: rule_index_find_locked_def rule_index_upsert_locked_def rule_index_remove_locked_def
      bucket_upsert_ok bucket_find_upsert bucket_remove_ok bucket_find_remove index_codes)

text \<open>
  The reference: the same manager without an index. Rules are found by a scan of the list.
\<close>

type_synonym rules_spec = "(nat \<Rightarrow> smb_rule option) \<times> nat list"

definition spec_find :: "rules_spec \<Rightarrow> u8 list \<Rightarrow> nat option" where
  "spec_find s name = find (\<lambda>a. map_option rule_name (fst s a) = Some name) (snd s)"

datatype rule_op = MakeRule rule_env rule_node nat nat | GetRule index_env "u8 list" | AddRule rule_env nat | RemoveRule nat

datatype rule_result = Handle "nat option" | Status zoo_error

definition node_rule_name :: "rule_node \<Rightarrow> u8 list" where
  "node_rule_name nd = zoo_smb_make_name_3 (Some (nd_target nd)) (Some (nd_topic nd)) (nd_transport nd)"

fun spec_step :: "rules_spec \<Rightarrow> rule_op \<Rightarrow> rule_result \<times> rules_spec" where
  "spec_step s (MakeRule env nd sv tr) =
     (case spec_find s (node_rule_name nd) of
        Some a \<Rightarrow> (Handle (Some a), s)
      | None \<Rightarrow>
          (case re_rule env of
             None \<Rightarrow> (Handle None, s)
           | Some a \<Rightarrow>
               (Handle (Some a),
                ((fst s)(a \<mapsto> \<lparr>rule_name = node_rule_name nd, rule_service = sv, rule_transport = tr,
                               rule_observers = nd_observers nd\<rparr>), snd s @ [a]))))"
| "spec_step s (GetRule env name) = (Handle (spec_find s name), s)"
| "spec_step s (AddRule env a) =
     (case fst s a of
        None \<Rightarrow> (Status ZOO_SMB_ERROR_INVALID_PARAM, s)
      | Some rule \<Rightarrow>
          (case spec_find s (rule_name rule) of
             Some _ \<Rightarrow> (Status ZOO_OK, s)
           | None \<Rightarrow> (Status ZOO_OK, (fst s, snd s @ [a]))))"
| "spec_step s (RemoveRule a) =
     (if a \<in> set (snd s) then (Status ZOO_OK, ((fst s)(a := None), remove1 a (snd s)))
      else (Status ZOO_SMB_ERROR_NOT_FOUND, s))"

definition rule_step :: "rule_manager \<Rightarrow> rule_op \<Rightarrow> (rule_result \<times> rule_manager) option" where
  "rule_step manager op =
     (case op of
        MakeRule env nd sv tr \<Rightarrow>
          map_option (\<lambda>(r, m). (Handle r, m)) (zoo_smb_rule_manager_make_rule env manager (Some nd) (Some sv) (Some tr))
      | GetRule env name \<Rightarrow> map_option (\<lambda>(r, m). (Handle r, m)) (zoo_smb_rule_manager_get_rule env manager (Some name))
      | AddRule env a \<Rightarrow> map_option (\<lambda>(r, m). (Status r, m)) (zoo_smb_rule_manager_add_rule env manager (Some a))
      | RemoveRule a \<Rightarrow> map_option (\<lambda>(r, m). (Status r, m)) (zoo_smb_rule_manager_remove_rule manager (Some a)))"

text \<open>
  What the callers and the system have to keep to: names of new rules fit into their field, the list has
  room and memory for its nodes, a new rule gets an unused address, and a rule that is added or removed
  exists. Nothing is asked of the allocator for the index.
\<close>

definition op_admitted :: "rules_spec \<Rightarrow> rule_op \<Rightarrow> bool" where
  "op_admitted s op =
     (case op of
        MakeRule env nd sv tr \<Rightarrow> length (node_rule_name nd) < MAX_RULE_NAME_LENGTH \<and> re_list env
          \<and> length (snd s) < 256 \<and> (\<forall>a. re_rule env = Some a \<longrightarrow> fst s a = None)
      | GetRule env name \<Rightarrow> True
      | AddRule env a \<Rightarrow> fst s a \<noteq> None \<and> re_list env \<and> length (snd s) < 256
      | RemoveRule a \<Rightarrow> fst s a \<noteq> None)"

fun run_admitted :: "rules_spec \<Rightarrow> rule_op list \<Rightarrow> bool" where
  "run_admitted s [] = True"
| "run_admitted s (op # ops) = (op_admitted s op \<and> run_admitted (snd (spec_step s op)) ops)"

text \<open>The list has live rules with different names; the index tells nothing the list does not.\<close>

definition rules_ok :: "rules_spec \<Rightarrow> bool" where
  "rules_ok s \<longleftrightarrow> distinct (snd s) \<and> (\<forall>a \<in> set (snd s). fst s a \<noteq> None)
     \<and> (\<forall>a r. fst s a = Some r \<longrightarrow> length (rule_name r) < MAX_RULE_NAME_LENGTH)
     \<and> (\<forall>a \<in> set (snd s). \<forall>b \<in> set (snd s). map_option rule_name (fst s a) = map_option rule_name (fst s b) \<longrightarrow> a = b)"

definition rule_rep :: "rule_manager \<Rightarrow> rules_spec \<Rightarrow> bool" where
  "rule_rep m s \<longleftrightarrow> s = (rm_rules m, rm_list m) \<and> rules_ok s \<and> rx.cached (spec_find s) (rm_buckets m)"

lemma spec_find_None: "spec_find s k = None \<longleftrightarrow> (\<forall>a \<in> set (snd s). map_option rule_name (fst s a) \<noteq> Some k)"
  by (auto simp: spec_find_def find_None_iff)

lemma spec_find_SomeD: "spec_find s k = Some a \<Longrightarrow> a \<in> set (snd s) \<and> map_option rule_name (fst s a) = Some k"
  by (auto simp: spec_find_def find_Some_iff)

lemma spec_find_Some:
  assumes "rules_ok s"
  shows "spec_find s k = Some a \<longleftrightarrow> a \<in> set (snd s) \<and> map_option rule_name (fst s a) = Some k"
proof
  assume r: "a \<in> set (snd s) \<and> map_option rule_name (fst s a) = Some k"
  then obtain b where b: "spec_find s k = Some b" using spec_find_None [of s k] by fastforce
  from spec_find_SomeD [OF b] r assms have "b = a" unfolding rules_ok_def by metis
  with b show "spec_find s k = Some a" by simp
qed (rule spec_find_SomeD)

lemma scan_rules_eq:
  "\<forall>a \<in> set as. rules a \<noteq> None \<Longrightarrow> scan_rules rules as k = Some (find (\<lambda>a. map_option rule_name (rules a) = Some k) as)"
  by (induction as) auto

lemma find_rule_by_name_rep:
  assumes "rule_rep m s"
  shows "\<exists>bs. find_rule_by_name env m k = Some (spec_find s k, m\<lparr>rm_buckets := bs\<rparr>) \<and> rule_rep (m\<lparr>rm_buckets := bs\<rparr>) s"
proof (cases "rule_index_find_locked (rm_buckets m) k")
  case (Some a)
  then have "spec_find s k = Some a" using assms rx.cached_lookup by (auto simp: rule_rep_def)
  then show ?thesis using Some assms by (intro exI [of _ "rm_buckets m"]) (auto simp: find_rule_by_name_def)
next
  case None
  have sc: "scan_rules (rm_rules m) (rm_list m) k = Some (spec_find s k)"
    using assms scan_rules_eq [of "rm_list m" "rm_rules m" k] by (auto simp: rule_rep_def rules_ok_def spec_find_def)
  show ?thesis
  proof (cases "spec_find s k")
    case None': None
    then show ?thesis using None sc assms by (intro exI [of _ "rm_buckets m"]) (simp add: find_rule_by_name_def)
  next
    case (Some a)
    have ok: "rules_ok s" using assms unfolding rule_rep_def by blast
    then have "length k < MAX_RULE_NAME_LENGTH"
      using Some spec_find_Some [OF ok] by (auto simp: rules_ok_def)
    then have "rx.cached (spec_find s) (snd (rule_index_upsert_locked env (rm_buckets m) k a))"
      using assms Some unfolding rule_rep_def by (blast intro: rx.cached_upsert)
    then show ?thesis using None sc Some assms
      by (intro exI [of _ "snd (rule_index_upsert_locked env (rm_buckets m) k a)"])
        (auto simp: find_rule_by_name_def rule_rep_def)
  qed
qed

text \<open>A new rule, or one that was not listed, gets its name in the list.\<close>

lemma spec_find_append:
  assumes "rules_ok (rules, as)" and "a \<notin> set as" and "spec_find (rules, as) k = None"
    and "rules' a = Some r" and "rule_name r = k" and "\<And>b. b \<noteq> a \<Longrightarrow> rules' b = rules b"
  shows "spec_find (rules', as @ [a]) = (spec_find (rules, as))(k := Some a)"
proof
  fix k'
  have same: "find (\<lambda>x. map_option rule_name (rules' x) = Some k') as = find (\<lambda>x. map_option rule_name (rules x) = Some k') as"
  proof (rule find_cong)
    fix x assume "x \<in> set as"
    then have "rules' x = rules x" using assms(2,6) by metis
    then show "(map_option rule_name (rules' x) = Some k') = (map_option rule_name (rules x) = Some k')" by simp
  qed simp
  have app: "find P (xs @ [x]) = (case find P xs of None \<Rightarrow> if P x then Some x else None | Some y \<Rightarrow> Some y)"
    for P :: "nat \<Rightarrow> bool" and xs x
    by (induction xs) auto
  show "spec_find (rules', as @ [a]) k' = ((spec_find (rules, as))(k := Some a)) k'"
    using same assms(3-5) by (auto simp: spec_find_def app split: option.splits)
qed

lemma rules_ok_append:
  assumes "rules_ok (rules, as)" and "a \<notin> set as" and "spec_find (rules, as) k = None"
    and "rules' a = Some r" and "rule_name r = k" and "\<And>b. b \<noteq> a \<Longrightarrow> rules' b = rules b"
    and "length k < MAX_RULE_NAME_LENGTH"
  shows "rules_ok (rules', as @ [a])"
proof -
  have other: "rules' b = rules b" if "b \<in> set as" for b using that assms(2,6) by metis
  have live: "\<forall>b \<in> set as. rules b \<noteq> None" using assms(1) by (simp add: rules_ok_def)
  have new: "map_option rule_name (rules b) \<noteq> Some k" if "b \<in> set as" for b
    using that assms(3) by (auto simp: spec_find_None)
  have inj: "\<forall>b \<in> set as. \<forall>c \<in> set as. map_option rule_name (rules b) = map_option rule_name (rules c) \<longrightarrow> b = c"
    using assms(1) by (simp add: rules_ok_def)
  have "length (rule_name q) < MAX_RULE_NAME_LENGTH" if "rules' b = Some q" for b q
    using that assms(1,4,5,7) assms(6) [of b] by (cases "b = a") (auto simp: rules_ok_def)
  moreover have "\<forall>b \<in> set (as @ [a]). \<forall>c \<in> set (as @ [a]).
      map_option rule_name (rules' b) = map_option rule_name (rules' c) \<longrightarrow> b = c"
    using inj new other assms(4,5) by (auto dest: sym)
  ultimately show ?thesis
    using assms(1,2,4) other live by (auto simp: rules_ok_def)
qed

lemma option_restrict_eq:
  assumes "\<And>b. f = Some b \<longleftrightarrow> P \<and> g = Some b"
  shows "f = (if P then g else None)"
proof (cases f)
  case None
  then show ?thesis using assms by (cases g) fastforce+
next
  case (Some b)
  then show ?thesis using assms [of b] by simp
qed

lemma spec_find_remove:
  assumes "rules_ok (rules, as)" and "a \<in> set as" and "rules a = Some r"
  shows "spec_find (rules(a := None), remove1 a as) = (spec_find (rules, as))(rule_name r := None)"
proof
  fix k
  let ?t = "(rules(a := None), remove1 a as)"
  have d: "distinct as" using assms(1) by (simp add: rules_ok_def)
  have inj: "b = a" if "b \<in> set as" "map_option rule_name (rules b) = Some (rule_name r)" for b
  proof -
    have "map_option rule_name (rules b) = map_option rule_name (rules a)" using that assms(3) by simp
    then show ?thesis using that(1) assms(1,2) by (simp add: rules_ok_def)
  qed
  have ok: "rules_ok ?t" using assms(1) d by (auto simp: rules_ok_def)
  have "spec_find ?t k = Some b \<longleftrightarrow> (k \<noteq> rule_name r \<and> spec_find (rules, as) k = Some b)" for b
  proof (cases "b = a")
    case True
    then show ?thesis using d assms(3) by (auto simp: spec_find_Some [OF ok] spec_find_Some [OF assms(1)])
  next
    case False
    then show ?thesis using inj [of b] d
      by (simp add: spec_find_Some [OF ok] spec_find_Some [OF assms(1)] in_set_remove1) blast
  qed
  then have "spec_find ?t k = (if k \<noteq> rule_name r then spec_find (rules, as) k else None)"
    by (rule option_restrict_eq)
  then show "spec_find ?t k = ((spec_find (rules, as))(rule_name r := None)) k" by simp
qed

lemma rules_ok_remove: "rules_ok (rules, as) \<Longrightarrow> rules_ok (rules(a := None), remove1 a as)"
  by (auto simp: rules_ok_def)

lemma rule_rep_D: "rule_rep m s \<Longrightarrow> s = (rm_rules m, rm_list m) \<and> rules_ok s \<and> rx.cached (spec_find s) (rm_buckets m)"
  unfolding rule_rep_def .

lemma rule_rep_add:
  assumes "rule_rep m s" and "spec_find s k = None" and "a \<notin> set (snd s)" and "rules' a = Some r" and "rule_name r = k"
    and "\<And>b. b \<noteq> a \<Longrightarrow> rules' b = fst s b" and "length k < MAX_RULE_NAME_LENGTH"
  shows "rule_rep (m\<lparr>rm_rules := rules', rm_list := snd s @ [a],
      rm_buckets := snd (rule_index_upsert_locked e (rm_buckets m) k a)\<rparr>) (rules', snd s @ [a])"
proof -
  note D = rule_rep_D [OF assms(1)]
  have ok: "rules_ok (fst s, snd s)" and c: "rx.cached (spec_find (fst s, snd s)) (rm_buckets m)" using D by auto
  have n: "spec_find (fst s, snd s) k = None" using assms(2) by simp
  show ?thesis
    using rules_ok_append [OF ok assms(3) n assms(4-7)] spec_find_append [OF ok assms(3) n assms(4-6)]
      rx.cached_insert [OF c assms(7) n, of a e]
    by (simp add: rule_rep_def)
qed

lemma rule_step_refines_remove:
  assumes "rule_rep m s" and "op_admitted s (RemoveRule a)"
  shows "\<exists>m'. rule_step m (RemoveRule a) = Some (fst (spec_step s (RemoveRule a)), m') \<and> rule_rep m' (snd (spec_step s (RemoveRule a)))"
proof -
  note D = rule_rep_D [OF assms(1)]
  obtain r where r: "fst s a = Some r" using assms(2) by (auto simp: op_admitted_def)
  show ?thesis
  proof (cases "a \<in> set (snd s)")
    case True
    have "rx.cached (spec_find (snd (spec_step s (RemoveRule a)))) (rule_index_remove_locked (rm_buckets m) (rule_name r))"
      using rx.cached_delete [of "spec_find s" "rm_buckets m" "rule_name r"] D True r
        spec_find_remove [of "rm_rules m" "rm_list m" a r] by auto
    moreover have "rules_ok (snd (spec_step s (RemoveRule a)))" using D True rules_ok_remove by auto
    ultimately show ?thesis using D True r
      by (auto simp: rule_step_def zoo_smb_rule_manager_remove_rule_def rule_rep_def)
  next
    case False
    then show ?thesis using D r assms(1)
      by (auto simp: rule_step_def zoo_smb_rule_manager_remove_rule_def)
  qed
qed

lemma rule_step_refines_add:
  assumes "rule_rep m s" and "op_admitted s (AddRule env a)"
  shows "\<exists>m'. rule_step m (AddRule env a) = Some (fst (spec_step s (AddRule env a)), m') \<and> rule_rep m' (snd (spec_step s (AddRule env a)))"
proof -
  obtain r where r: "fst s a = Some r" "re_list env" "length (snd s) < 256"
    using assms(2) by (auto simp: op_admitted_def)
  obtain bs where f: "find_rule_by_name (re_scan env) m (rule_name r) = Some (spec_find s (rule_name r), m\<lparr>rm_buckets := bs\<rparr>)"
    and rep: "rule_rep (m\<lparr>rm_buckets := bs\<rparr>) s" using find_rule_by_name_rep [OF assms(1)] by blast
  have D: "s = (rm_rules m, rm_list m)" "rules_ok s" using rule_rep_D [OF assms(1)] by auto
  show ?thesis
  proof (cases "spec_find s (rule_name r)")
    case (Some b)
    then show ?thesis using D f rep r
      by (auto simp: rule_step_def zoo_smb_rule_manager_add_rule_def)
  next
    case None
    have "a \<notin> set (snd s)" using None r(1) by (auto simp: spec_find_None)
    moreover have "length (rule_name r) < MAX_RULE_NAME_LENGTH" using D r(1) by (auto simp: rules_ok_def)
    ultimately have "rule_rep ((m\<lparr>rm_buckets := bs\<rparr>)\<lparr>rm_rules := fst s, rm_list := snd s @ [a],
        rm_buckets := snd (rule_index_upsert_locked (re_index env) bs (rule_name r) a)\<rparr>) (fst s, snd s @ [a])"
      using rule_rep_add [OF rep None, of a "fst s" r "re_index env"] r(1) by simp
    then show ?thesis using D(1) f r None
      by (auto simp: rule_step_def zoo_smb_rule_manager_add_rule_def push_back_def)
  qed
qed

lemma rule_step_refines_make:
  assumes "rule_rep m s" and "op_admitted s (MakeRule env nd sv tr)"
  shows "\<exists>m'. rule_step m (MakeRule env nd sv tr) = Some (fst (spec_step s (MakeRule env nd sv tr)), m') \<and> rule_rep m' (snd (spec_step s (MakeRule env nd sv tr)))"
proof -
  let ?k = "node_rule_name nd"
  have adm: "length ?k < MAX_RULE_NAME_LENGTH" "re_list env" "length (snd s) < 256"
    "\<And>a. re_rule env = Some a \<Longrightarrow> fst s a = None"
    using assms(2) by (auto simp: op_admitted_def)
  obtain bs where f: "find_rule_by_name (re_scan env) m ?k = Some (spec_find s ?k, m\<lparr>rm_buckets := bs\<rparr>)"
    and rep: "rule_rep (m\<lparr>rm_buckets := bs\<rparr>) s" using find_rule_by_name_rep [OF assms(1)] by blast
  have D: "s = (rm_rules m, rm_list m)" "rules_ok s" using rule_rep_D [OF assms(1)] by auto
  show ?thesis
  proof (cases "spec_find s ?k")
    case (Some b)
    then show ?thesis using f rep
      by (auto simp: rule_step_def zoo_smb_rule_manager_make_rule_def node_rule_name_def)
  next
    case None
    show ?thesis
    proof (cases "re_rule env")
      case None': None
      then show ?thesis using f rep None
        by (auto simp: rule_step_def zoo_smb_rule_manager_make_rule_def node_rule_name_def)
    next
      case (Some a)
      define r where "r = \<lparr>rule_name = ?k, rule_service = sv, rule_transport = tr, rule_observers = nd_observers nd\<rparr>"
      have "a \<notin> set (snd s)" using D(2) adm(4) [OF Some] by (auto simp: rules_ok_def)
      then have "rule_rep ((m\<lparr>rm_buckets := bs\<rparr>)\<lparr>rm_rules := (fst s)(a \<mapsto> r), rm_list := snd s @ [a],
          rm_buckets := snd (rule_index_upsert_locked (re_index env) bs ?k a)\<rparr>) ((fst s)(a \<mapsto> r), snd s @ [a])"
        using rule_rep_add [OF rep None, of a "(fst s)(a \<mapsto> r)" r "re_index env"] adm(1) by (simp add: r_def)
      moreover have "zoo_smb_create_routing_rule True (Some ?k) (Some sv) (Some tr) (Some (nd_observers nd)) = Some r"
        using adm(1) by (simp add: zoo_smb_create_routing_rule_def snprintf_s_def r_def MAX_RULE_NAME_LENGTH_def)
      ultimately show ?thesis using D(1) f None Some adm(2,3)
        by (auto simp: rule_step_def zoo_smb_rule_manager_make_rule_def node_rule_name_def [symmetric] add_new_rule_def
            push_back_def r_def)
    qed
  qed
qed

lemma rule_step_refines:
  assumes "rule_rep m s" and "op_admitted s op"
  shows "\<exists>m'. rule_step m op = Some (fst (spec_step s op), m') \<and> rule_rep m' (snd (spec_step s op))"
proof (cases op)
  case (GetRule env name)
  then show ?thesis using find_rule_by_name_rep [OF assms(1), of env name]
    by (auto simp: rule_step_def zoo_smb_rule_manager_get_rule_def)
qed (use assms rule_step_refines_remove rule_step_refines_add rule_step_refines_make in blast)+

lemma run_rules_refines:
  assumes "rule_rep m s" and "run_admitted s ops"
  shows "\<exists>m'. run_concrete rule_step m ops = Some (fst (run_abstract spec_step s ops), m')
     \<and> rule_rep m' (snd (run_abstract spec_step s ops))"
  using assms
proof (induction ops arbitrary: m s)
  case (Cons op ops)
  obtain m1 where m1: "rule_step m op = Some (fst (spec_step s op), m1)" "rule_rep m1 (snd (spec_step s op))"
    using rule_step_refines [OF Cons.prems(1)] Cons.prems(2) by auto
  then obtain m2 where "run_concrete rule_step m1 ops = Some (fst (run_abstract spec_step (snd (spec_step s op)) ops), m2)"
    "rule_rep m2 (snd (run_abstract spec_step (snd (spec_step s op)) ops))"
    using Cons.IH [OF m1(2)] Cons.prems(2) by auto
  with m1(1) show ?case by (simp add: case_prod_beta)
qed auto

definition new_rule_manager :: "(nat \<Rightarrow> smb_rule option) \<Rightarrow> rule_manager" where
  "new_rule_manager rules = \<lparr>rm_rules = rules, rm_list = [], rm_buckets = (\<lambda>_. [])\<rparr>"

lemma new_rule_manager_created:
  "zoo_smb_create_rule_manager True True True (\<lambda>_. True) = Some (new_rule_manager (\<lambda>_. None))"
  by (simp add: zoo_smb_create_rule_manager_def zoo_list_create_def new_rule_manager_def)

lemma new_rule_manager_rep:
  "\<forall>a r. rules a = Some r \<longrightarrow> length (rule_name r) < MAX_RULE_NAME_LENGTH \<Longrightarrow>
   rule_rep (new_rule_manager rules) (rules, [])"
  by (simp add: rule_rep_def new_rule_manager_def rules_ok_def rx.cached_def buckets_ok_def
      rule_index_find_locked_def bucket_find_def)


definition sample_rule_env :: "nat \<Rightarrow> rule_env" where
  "sample_rule_env a = \<lparr>re_scan = (False, True), re_rule = Some a, re_list = True, re_index = (False, False)\<rparr>"

definition sample_rule_node :: "u8 list \<Rightarrow> nat \<Rightarrow> rule_node" where
  "sample_rule_node tp obs = \<lparr>nd_target = [65], nd_topic = tp, nd_transport = TRANSPORT_UDP, nd_observers = obs\<rparr>"




text \<open>Different targets and topics can give the same name, because the underscore separates and occurs in them.\<close>

lemma rule_names_collide:
  "length (a @ b @ c) < 200 \<Longrightarrow>
   zoo_smb_make_name_3 (Some (a @ 95 # b)) (Some c) ty = zoo_smb_make_name_3 (Some a) (Some (b @ 95 # c)) ty"
  by (simp add: zoo_smb_make_name_3_def)

text \<open>A name that does not fit into its field is never found, so every request makes another rule.\<close>

lemma long_rule_name_not_found:
  assumes "rule_rep m s" and "MAX_RULE_NAME_LENGTH \<le> length name"
  shows "\<exists>bs. find_rule_by_name env m name = Some (None, m\<lparr>rm_buckets := bs\<rparr>)"
proof -
  have ok: "rules_ok s" using assms(1) unfolding rule_rep_def by blast
  have "spec_find s name = None"
    using ok assms(2) unfolding spec_find_None rules_ok_def by fastforce
  then show ?thesis using find_rule_by_name_rep [OF assms(1), of env name] by auto
qed

text \<open>A rule made while the list is full can be found through the index, and never be removed.\<close>

lemma rule_beyond_list:
  assumes "length (rm_list m) = 256" and "find_rule_by_name (re_scan env) m (node_rule_name nd) = Some (None, m)"
    and "re_rule env = Some a" and "a \<notin> set (rm_list m)"
  shows "\<exists>m1. zoo_smb_rule_manager_make_rule env m (Some nd) (Some sv) (Some tr) = Some (Some a, m1)
     \<and> zoo_smb_rule_manager_remove_rule m1 (Some a) = Some (ZOO_SMB_ERROR_NOT_FOUND, m1)
     \<and> zoo_smb_destroy_rule_manager m1 a \<noteq> None"
  using assms
  by (simp add: zoo_smb_rule_manager_make_rule_def node_rule_name_def zoo_smb_create_routing_rule_def add_new_rule_def
      push_back_def zoo_smb_rule_manager_remove_rule_def zoo_smb_destroy_rule_manager_def Let_def)

end
