(* ===== verification/Zoo_Queue.thy ===== *)
theory Zoo_Queue
  imports Name_Index Message_Queue "HOL-Library.Multiset"
begin

text \<open>
  The bounded message queue \<open>src/platform/buffer/zoo_queue.c\<close> and the dispatcher
  \<open>src/platform/dispatcher/zoo_dispatcher.c\<close> that empties it.

  The two lists of a queue are sequences (theory \<open>Zoo_List\<close>); a push takes the answer of the allocator
  for the new list node. Messages, contexts, handlers and user data are pointers the queue only stores
  and compares, so their types are parameters. Observers of a queue are called while the queue is being
  changed; in the program the only observer is \<open>zoo_dispatcher_on_queue_changed\<close>, whose user data is the
  address of a dispatcher. Dispatchers live in a store: an address without entry is memory that was
  returned to the pool, and following it gives \<open>None\<close>.
\<close>

section \<open>Queue\<close>

definition ZOO_QUEUE_SORT_STRATEGY_NONE :: int where "ZOO_QUEUE_SORT_STRATEGY_NONE = 0"
definition ZOO_QUEUE_SORT_STRATEGY_PRIORITY :: int where "ZOO_QUEUE_SORT_STRATEGY_PRIORITY = 1"
definition ZOO_QUEUE_SORT_STRATEGY_TIMESTAMP :: int where "ZOO_QUEUE_SORT_STRATEGY_TIMESTAMP = 2"
definition ZOO_QUEUE_SORT_STRATEGY_FIFO :: int where "ZOO_QUEUE_SORT_STRATEGY_FIFO = 3"

lemmas strategy_defs = ZOO_QUEUE_SORT_STRATEGY_NONE_def ZOO_QUEUE_SORT_STRATEGY_PRIORITY_def
  ZOO_QUEUE_SORT_STRATEGY_TIMESTAMP_def ZOO_QUEUE_SORT_STRATEGY_FIFO_def

definition MAX_QUEUE_OBSERVER_NAME_LENGTH :: nat where "MAX_QUEUE_OBSERVER_NAME_LENGTH = 64"

record ('m, 'c, 'h, 'u) queue_node =
  qn_msg :: 'm
  qn_context :: "'c option"
  qn_handler :: 'h
  qn_user_data :: "'u option"
  qn_priority :: "32 word"
  qn_arrived_timestamp :: int

record queue_observer =
  qo_name :: "u8 list"
  qo_handler :: nat
  qo_user_data :: "nat option"

record ('m, 'c, 'h, 'u) zoo_queue =
  q_messages :: "('m, 'c, 'h, 'u) queue_node list"
  q_observers :: "queue_observer list"
  q_list_cap :: nat
  max_queue_size :: nat
  exit_flag :: bool

definition compare_messages ::
  "('m, 'c, 'h, 'u) queue_node option \<Rightarrow> ('m, 'c, 'h, 'u) queue_node option \<Rightarrow> int \<Rightarrow> int" where
  "compare_messages a b strategy =
     (case (a, b) of
        (Some node_a, Some node_b) \<Rightarrow>
          if strategy = ZOO_QUEUE_SORT_STRATEGY_PRIORITY then
            (if sint (qn_priority node_a) < sint (qn_priority node_b) then - 1
             else if sint (qn_priority node_a) > sint (qn_priority node_b) then 1 else 0)
          else if strategy = ZOO_QUEUE_SORT_STRATEGY_TIMESTAMP then
            (if qn_arrived_timestamp node_a < qn_arrived_timestamp node_b then - 1
             else if qn_arrived_timestamp node_a > qn_arrived_timestamp node_b then 1 else 0)
          else 0
      | _ \<Rightarrow> 0)"

text \<open>
  The observers are told one after the other; \<open>call\<close> is what a handler does to the queue, \<open>None\<close> if
  it follows a pointer to memory that was returned. A \<open>NULL\<close> handler is never registered.
\<close>

fun notify_loop ::
  "(nat \<Rightarrow> nat option \<Rightarrow> 'q \<Rightarrow> 'q option) \<Rightarrow> queue_observer list \<Rightarrow> 'q \<Rightarrow> 'q option" where
  "notify_loop call [] q = Some q"
| "notify_loop call (ob # obs) q =
     (case call (qo_handler ob) (qo_user_data ob) q of
        None \<Rightarrow> None
      | Some q' \<Rightarrow> notify_loop call obs q')"

definition notify_observers ::
  "(nat \<Rightarrow> nat option \<Rightarrow> ('m, 'c, 'h, 'u) zoo_queue \<Rightarrow> ('m, 'c, 'h, 'u) zoo_queue option)
   \<Rightarrow> ('m, 'c, 'h, 'u) zoo_queue \<Rightarrow> ('m, 'c, 'h, 'u) zoo_queue option" where
  "notify_observers call queue = notify_loop call (q_observers queue) queue"

text \<open>The answers of the system during the creation of a queue.\<close>

record create_queue_env =
  ce_mem :: bool
  ce_messages :: bool
  ce_observers :: bool
  ce_messages_mutex :: bool
  ce_observers_mutex :: bool
  ce_cond :: bool

definition zoo_create_queue :: "create_queue_env \<Rightarrow> nat \<Rightarrow> ('m, 'c, 'h, 'u) zoo_queue option" where
  "zoo_create_queue env max_size =
     (if \<not> ce_mem env then None
      else let list_sz = (if max_size = 0 then 64 else max_size);
               messages = zoo_list_create (ce_messages env) list_sz;
               observers = zoo_list_create (ce_observers env) 256
      in if messages = None \<or> observers = None then None
         else if \<not> ce_messages_mutex env then None
         else if \<not> ce_observers_mutex env then None
         else if \<not> ce_cond env then None
         else Some \<lparr>q_messages = [], q_observers = [], q_list_cap = list_sz,
                     max_queue_size = max_size, exit_flag = False\<rparr>)"

text \<open>The answers for one call of \<open>zoo_queue_enqueue\<close>: memory for the node, for the list node, the clock.\<close>

record enqueue_env =
  en_node :: bool
  en_list :: bool
  en_now :: int

definition zoo_queue_enqueue ::
  "(nat \<Rightarrow> nat option \<Rightarrow> ('m, 'c, 'h, 'u) zoo_queue \<Rightarrow> ('m, 'c, 'h, 'u) zoo_queue option)
   \<Rightarrow> enqueue_env \<Rightarrow> ('m, 'c, 'h, 'u) zoo_queue option \<Rightarrow> 'm option \<Rightarrow> 'c option \<Rightarrow> 'h option \<Rightarrow> 'u option
   \<Rightarrow> (bool \<times> ('m, 'c, 'h, 'u) zoo_queue option) option" where
  "zoo_queue_enqueue call env queue_handle msg context handler user_data =
     (case (queue_handle, msg, handler) of
        (Some queue, Some m, Some h) \<Rightarrow>
          if length (q_messages queue) \<ge> max_queue_size queue then Some (False, Some queue)
          else if \<not> en_node env then Some (False, Some queue)
          else
            let node = \<lparr>qn_msg = m, qn_context = context, qn_handler = h, qn_user_data = user_data,
                         qn_priority = 0, qn_arrived_timestamp = en_now env\<rparr>;
                (result, messages) = push_back (q_list_cap queue) (en_list env) node (q_messages queue)
            in if result \<noteq> ZOO_OK then Some (False, Some queue)
               else (case notify_observers call (queue\<lparr>q_messages := messages\<rparr>) of
                       None \<Rightarrow> None
                     | Some queue' \<Rightarrow> Some (True, Some queue'))
      | _ \<Rightarrow> Some (False, queue_handle))"

text \<open>
  A dequeue waits (and goes on once the queue is signalled), is refused, or takes the first message.
\<close>

datatype ('m, 'c, 'h, 'u) dequeued = Waits | Refused | Taken 'm "'c option" 'h "'u option"

definition zoo_queue_dequeue ::
  "('m, 'c, 'h, 'u) zoo_queue option \<Rightarrow> bool \<Rightarrow> ('m, 'c, 'h, 'u) dequeued \<times> ('m, 'c, 'h, 'u) zoo_queue option" where
  "zoo_queue_dequeue queue_handle block_if_empty =
     (case queue_handle of
        None \<Rightarrow> (Refused, None)
      | Some queue \<Rightarrow>
          if q_messages queue = [] \<and> block_if_empty \<and> \<not> exit_flag queue then (Waits, Some queue)
          else if exit_flag queue then (Refused, Some queue)
          else (case q_messages queue of
                  [] \<Rightarrow> (Refused, Some queue)
                | node # rest \<Rightarrow>
                    (Taken (qn_msg node) (qn_context node) (qn_handler node) (qn_user_data node),
                     Some (queue\<lparr>q_messages := rest\<rparr>))))"

definition zoo_queue_exit_blocking :: "('m, 'c, 'h, 'u) zoo_queue option \<Rightarrow> ('m, 'c, 'h, 'u) zoo_queue option" where
  "zoo_queue_exit_blocking queue_handle = map_option (\<lambda>queue. queue\<lparr>exit_flag := True\<rparr>) queue_handle"

text \<open>
  Destroying a queue returns its nodes and observers to the pool; the messages the nodes lead to stay.
\<close>

definition zoo_destroy_queue ::
  "('m, 'c, 'h, 'u) zoo_queue option \<Rightarrow> ('m, 'c, 'h, 'u) queue_node list \<times> queue_observer list" where
  "zoo_destroy_queue queue_handle =
     (case queue_handle of
        None \<Rightarrow> ([], [])
      | Some queue \<Rightarrow> (q_messages queue, q_observers queue))"

text \<open>The name is compared in full, and stored up to its first 63 characters.\<close>

definition find_existing_observer :: "('m, 'c, 'h, 'u) zoo_queue \<Rightarrow> u8 list \<Rightarrow> nat \<Rightarrow> bool" where
  "find_existing_observer queue name handler =
     (\<exists>existing \<in> set (q_observers queue). qo_name existing = name \<and> qo_handler existing = handler)"

definition zoo_queue_add_observer ::
  "bool \<Rightarrow> bool \<Rightarrow> ('m, 'c, 'h, 'u) zoo_queue option \<Rightarrow> nat option \<Rightarrow> nat option \<Rightarrow> u8 list option
   \<Rightarrow> ('m, 'c, 'h, 'u) zoo_queue option" where
  "zoo_queue_add_observer mem lmem queue_handle handler user_data name =
     (case (queue_handle, handler, name) of
        (Some queue, Some h, Some nm) \<Rightarrow>
          if find_existing_observer queue nm h then Some queue
          else if \<not> mem then Some queue
          else
            let observer = \<lparr>qo_name = take (MAX_QUEUE_OBSERVER_NAME_LENGTH - 1) nm, qo_handler = h,
                            qo_user_data = user_data\<rparr>
            in Some (queue\<lparr>q_observers := snd (push_back 256 lmem observer (q_observers queue))\<rparr>)
      | _ \<Rightarrow> queue_handle)"

fun set_priority_loop ::
  "'m \<Rightarrow> 32 word \<Rightarrow> ('m, 'c, 'h, 'u) queue_node list \<Rightarrow> bool \<times> ('m, 'c, 'h, 'u) queue_node list" where
  "set_priority_loop msg priority [] = (False, [])"
| "set_priority_loop msg priority (node # nodes) =
     (if qn_msg node = msg then (True, node\<lparr>qn_priority := priority\<rparr> # nodes)
      else let (r, nodes') = set_priority_loop msg priority nodes in (r, node # nodes'))"

definition zoo_queue_set_priority ::
  "('m, 'c, 'h, 'u) zoo_queue option \<Rightarrow> 'm option \<Rightarrow> 32 word \<Rightarrow> bool \<times> ('m, 'c, 'h, 'u) zoo_queue option" where
  "zoo_queue_set_priority queue_handle msg priority =
     (case (queue_handle, msg) of
        (Some queue, Some m) \<Rightarrow>
          let (r, nodes) = set_priority_loop m priority (q_messages queue)
          in (r, Some (queue\<lparr>q_messages := nodes\<rparr>))
      | _ \<Rightarrow> (False, queue_handle))"

definition zoo_queue_get_priority :: "('m, 'c, 'h, 'u) zoo_queue option \<Rightarrow> 'm option \<Rightarrow> 32 word" where
  "zoo_queue_get_priority queue_handle msg =
     (case (queue_handle, msg) of
        (Some queue, Some m) \<Rightarrow>
          (case find (\<lambda>node. qn_msg node = m) (q_messages queue) of
             None \<Rightarrow> - 1
           | Some node \<Rightarrow> qn_priority node)
      | _ \<Rightarrow> - 1)"

section \<open>Sorting\<close>

text \<open>The array of node pointers; the indices are those of the code.\<close>

function partition_loop ::
  "int \<Rightarrow> ('m, 'c, 'h, 'u) queue_node \<Rightarrow> ('m, 'c, 'h, 'u) queue_node list \<Rightarrow> nat \<Rightarrow> nat \<Rightarrow> nat
   \<Rightarrow> ('m, 'c, 'h, 'u) queue_node list \<times> nat" where
  "partition_loop strategy pivot nodes i j high =
     (if j < high then
        (if compare_messages (Some (nodes ! j)) (Some pivot) strategy \<le> 0
         then partition_loop strategy pivot (nodes[i := nodes ! j, j := nodes ! i]) (i + 1) (j + 1) high
         else partition_loop strategy pivot nodes i (j + 1) high)
      else (nodes, i))"
  by pat_completeness auto

termination by (relation "measure (\<lambda>(_, _, _, _, j, high). high - j)") auto

declare partition_loop.simps [simp del]

definition partition_nodes ::
  "int \<Rightarrow> ('m, 'c, 'h, 'u) queue_node list \<Rightarrow> nat \<Rightarrow> nat \<Rightarrow> ('m, 'c, 'h, 'u) queue_node list \<times> nat" where
  "partition_nodes strategy nodes low high =
     (let (nodes', i) = partition_loop strategy (nodes ! high) nodes low low high
      in (nodes'[i := nodes' ! high, high := nodes' ! i], i))"

lemma partition_loop_bounds:
  assumes "partition_loop strategy pivot nodes i j high = (nodes', p)" and "i \<le> j" and "j \<le> high"
  shows "i \<le> p \<and> p \<le> high \<and> p - i \<le> high - j"
  using assms
proof (induction strategy pivot nodes i j high rule: partition_loop.induct)
  case (1 strategy pivot nodes i j high)
  show ?case
  proof (cases "j < high")
    case True
    show ?thesis
    proof (cases "compare_messages (Some (nodes ! j)) (Some pivot) strategy \<le> 0")
      case le: True
      have "partition_loop strategy pivot (nodes[i := nodes ! j, j := nodes ! i]) (i + 1) (j + 1) high = (nodes', p)"
        using 1(3) True le by (subst (asm) partition_loop.simps) simp
      from 1(1) [OF True le this] 1(4) True show ?thesis by auto
    next
      case gt: False
      have "partition_loop strategy pivot nodes i (j + 1) high = (nodes', p)"
        using 1(3) True gt by (subst (asm) partition_loop.simps) simp
      from 1(2) [OF True gt this] 1(4) True show ?thesis by auto
    qed
  next
    case False
    then show ?thesis using 1(3,4,5) by (subst (asm) partition_loop.simps) auto
  qed
qed

lemma partition_nodes_bounds:
  "partition_nodes strategy nodes low high = (nodes', p) \<Longrightarrow> low \<le> high \<Longrightarrow> low \<le> p \<and> p \<le> high"
  using partition_loop_bounds [of strategy "nodes ! high" nodes low low high]
  by (auto simp: partition_nodes_def split: prod.splits)

function quick_sort ::
  "int \<Rightarrow> ('m, 'c, 'h, 'u) queue_node list \<Rightarrow> nat \<Rightarrow> nat \<Rightarrow> ('m, 'c, 'h, 'u) queue_node list" where
  "quick_sort strategy nodes low high =
     (if low < high then
        let (nodes1, p) = partition_nodes strategy nodes low high;
            nodes2 = (if p > 0 then quick_sort strategy nodes1 low (p - 1) else nodes1)
        in if p < high then quick_sort strategy nodes2 (p + 1) high else nodes2
      else nodes)"
  by pat_completeness auto

termination
proof (relation "measure (\<lambda>(_, _, low, high). high + 1 - low)", goal_cases)
  case 1
  then show ?case by simp
next
  case (2 strategy nodes low high x nodes1 p)
  then show ?case using partition_nodes_bounds [of strategy nodes low high nodes1 p] by auto
next
  case (3 strategy nodes low high x nodes1 p nodes2)
  then show ?case using partition_nodes_bounds [of strategy nodes low high nodes1 p] by auto
qed

declare quick_sort.simps [simp del]

text \<open>Filling the emptied list again; \<open>mem i\<close> is the answer of the allocator for the \<open>i\<close>-th node.\<close>

fun rebuild ::
  "nat \<Rightarrow> (nat \<Rightarrow> bool) \<Rightarrow> nat \<Rightarrow> 'd list \<Rightarrow> 'd list \<Rightarrow> 'd list" where
  "rebuild cap mem i [] messages = messages"
| "rebuild cap mem i (node # nodes) messages =
     (let (result, messages') = push_back cap (mem i) node messages
      in if result \<noteq> ZOO_OK then messages' else rebuild cap mem (i + 1) nodes messages')"

definition zoo_queue_sort ::
  "bool \<Rightarrow> (nat \<Rightarrow> bool) \<Rightarrow> ('m, 'c, 'h, 'u) zoo_queue option \<Rightarrow> int \<Rightarrow> ('m, 'c, 'h, 'u) zoo_queue option" where
  "zoo_queue_sort amem mem queue_handle strategy =
     (case queue_handle of
        None \<Rightarrow> None
      | Some queue \<Rightarrow>
          if strategy = ZOO_QUEUE_SORT_STRATEGY_NONE \<or> strategy = ZOO_QUEUE_SORT_STRATEGY_FIFO then Some queue
          else if length (q_messages queue) \<le> 1 then Some queue
          else if \<not> amem then Some queue
          else
            let nodes = quick_sort strategy (q_messages queue) 0 (length (q_messages queue) - 1)
            in Some (queue\<lparr>q_messages := rebuild (q_list_cap queue) mem 0 nodes []\<rparr>))"

subsection \<open>What sorting promises\<close>

text \<open>The key a strategy compares.\<close>

definition msg_key :: "int \<Rightarrow> ('m, 'c, 'h, 'u) queue_node \<Rightarrow> int" where
  "msg_key strategy node =
     (if strategy = ZOO_QUEUE_SORT_STRATEGY_PRIORITY then sint (qn_priority node)
      else if strategy = ZOO_QUEUE_SORT_STRATEGY_TIMESTAMP then qn_arrived_timestamp node
      else 0)"

lemma compare_messages_key:
  "compare_messages (Some a) (Some b) strategy \<le> 0 \<longleftrightarrow> msg_key strategy a \<le> msg_key strategy b"
  by (simp add: compare_messages_def msg_key_def)

lemma mset_swap_entries:
  "i < length xs \<Longrightarrow> j < length xs \<Longrightarrow> mset (xs[i := xs ! j, j := xs ! i]) = mset xs"
  by (rule mset_swap)

lemma nth_swap_entries:
  "i < length xs \<Longrightarrow> j < length xs \<Longrightarrow> k < length xs \<Longrightarrow>
   xs[i := xs ! j, j := xs ! i] ! k = (if k = j then xs ! i else if k = i then xs ! j else xs ! k)"
  by (simp add: nth_list_update)

text \<open>
  The loop keeps what lies outside \<open>low \<dots> high - 1\<close> and collects the nodes that are not greater than the
  pivot in front of \<open>i\<close>.
\<close>

definition split_at :: "int \<Rightarrow> int \<Rightarrow> ('m, 'c, 'h, 'u) queue_node list \<Rightarrow> nat \<Rightarrow> nat \<Rightarrow> nat \<Rightarrow> bool" where
  "split_at strategy pk nodes low i j \<longleftrightarrow>
     (\<forall>k. low \<le> k \<longrightarrow> k < i \<longrightarrow> msg_key strategy (nodes ! k) \<le> pk) \<and>
     (\<forall>k. i \<le> k \<longrightarrow> k < j \<longrightarrow> pk < msg_key strategy (nodes ! k))"

definition perm_within :: "nat \<Rightarrow> nat \<Rightarrow> 'a list \<Rightarrow> 'a list \<Rightarrow> bool" where
  "perm_within low high xs ys \<longleftrightarrow>
     length ys = length xs \<and> mset ys = mset xs \<and> (\<forall>k < length xs. k < low \<or> high < k \<longrightarrow> ys ! k = xs ! k)"

lemma perm_within_refl [simp]: "perm_within low high xs xs"
  by (simp add: perm_within_def)

lemma perm_within_trans:
  "perm_within a b xs ys \<Longrightarrow> perm_within c d ys zs \<Longrightarrow> low \<le> a \<Longrightarrow> low \<le> c \<Longrightarrow> b \<le> high \<Longrightarrow> d \<le> high
   \<Longrightarrow> perm_within low high xs zs"
  by (auto simp: perm_within_def)

lemma perm_within_swap:
  "low \<le> i \<Longrightarrow> i \<le> high \<Longrightarrow> low \<le> j \<Longrightarrow> j \<le> high \<Longrightarrow> high < length xs
   \<Longrightarrow> perm_within low high xs (xs[i := xs ! j, j := xs ! i])"
  by (auto simp: perm_within_def mset_swap_entries nth_swap_entries)

lemma partition_loop_spec:
  assumes "partition_loop strategy pivot nodes i j high = (nodes', p)"
    and "low \<le> i" and "i \<le> j" and "j \<le> high" and "high < length nodes"
    and "split_at strategy (msg_key strategy pivot) nodes low i j"
  shows "perm_within low (high - 1) nodes nodes' \<and> split_at strategy (msg_key strategy pivot) nodes' low p high"
  using assms
proof (induction strategy pivot nodes i j high rule: partition_loop.induct)
  case (1 strategy pivot nodes i j high)
  note inv = 1(8)
  show ?case
  proof (cases "j < high")
    case True
    show ?thesis
    proof (cases "compare_messages (Some (nodes ! j)) (Some pivot) strategy \<le> 0")
      case le: True
      define nodes1 where "nodes1 = nodes[i := nodes ! j, j := nodes ! i]"
      have run: "partition_loop strategy pivot nodes1 (i + 1) (j + 1) high = (nodes', p)"
        using 1(3) True le unfolding nodes1_def by (subst (asm) partition_loop.simps) simp
      have same: "perm_within low (high - 1) nodes nodes1"
        unfolding nodes1_def using 1(4-7) True
        by (auto simp: perm_within_def mset_swap_entries nth_swap_entries)
      have "split_at strategy (msg_key strategy pivot) nodes1 low (i + 1) (j + 1)"
        using inv le 1(4-7) True
        by (auto simp: split_at_def nodes1_def nth_swap_entries compare_messages_key less_Suc_eq)
      moreover have "high < length nodes1" using 1(7) by (simp add: nodes1_def)
      ultimately have "perm_within low (high - 1) nodes1 nodes'" "split_at strategy (msg_key strategy pivot) nodes' low p high"
        using 1(1) [OF True le] run 1(4-7) True unfolding nodes1_def [symmetric] by auto
      with perm_within_trans [OF same] show ?thesis by blast
    next
      case gt: False
      have run: "partition_loop strategy pivot nodes i (j + 1) high = (nodes', p)"
        using 1(3) True gt by (subst (asm) partition_loop.simps) simp
      have "split_at strategy (msg_key strategy pivot) nodes low i (j + 1)"
        using inv gt by (auto simp: split_at_def compare_messages_key less_Suc_eq)
      with 1(2) [OF True gt run] 1(4-7) True show ?thesis by auto
    qed
  next
    case False
    then show ?thesis using 1(3,6) inv by (subst (asm) partition_loop.simps) auto
  qed
qed

text \<open>After a partition the pivot is in its place.\<close>

lemma partition_nodes_spec:
  assumes "partition_nodes strategy nodes low high = (nodes', p)" and "low \<le> high" and "high < length nodes"
  shows "perm_within low high nodes nodes'"
    and "low \<le> k \<Longrightarrow> k < p \<Longrightarrow> msg_key strategy (nodes' ! k) \<le> msg_key strategy (nodes' ! p)"
    and "p < k \<Longrightarrow> k \<le> high \<Longrightarrow> msg_key strategy (nodes' ! p) \<le> msg_key strategy (nodes' ! k)"
proof -
  obtain nodes1 where loop: "partition_loop strategy (nodes ! high) nodes low low high = (nodes1, p)"
    and n': "nodes' = nodes1[p := nodes1 ! high, high := nodes1 ! p]"
    using assms(1) by (auto simp: partition_nodes_def split: prod.splits)
  have b: "low \<le> p" "p \<le> high" using partition_nodes_bounds assms(1,2) by blast+
  have spec: "perm_within low (high - 1) nodes nodes1" 
    "split_at strategy (msg_key strategy (nodes ! high)) nodes1 low p high"
    using partition_loop_spec [OF loop, of low] assms(2,3) by (auto simp: split_at_def)
  then have len: "length nodes1 = length nodes" by (simp add: perm_within_def)
  show "perm_within low high nodes nodes'"
    unfolding n' using spec(1) perm_within_swap [of low p high high nodes1] b assms(2,3) len
    by (auto intro: perm_within_trans)
  have pivot: "nodes1 ! high = nodes ! high" if "low < high"
    using spec(1) that assms(3) by (auto simp: perm_within_def)
  have at: "nodes' ! l = (if l = high then nodes1 ! p else if l = p then nodes1 ! high else nodes1 ! l)"
    if "l \<le> high" for l
    using that b assms(3) len by (simp add: n' nth_swap_entries)
  show "msg_key strategy (nodes' ! k) \<le> msg_key strategy (nodes' ! p)" if "low \<le> k" "k < p"
    using that spec(2) b pivot at [of k] at [of p] by (auto simp: split_at_def)
  show "msg_key strategy (nodes' ! p) \<le> msg_key strategy (nodes' ! k)" if "p < k" "k \<le> high"
    using that spec(2) b pivot at [of k] at [of p] by (auto simp: split_at_def order_less_imp_le)
qed

text \<open>The nodes of a segment are the same after a permutation inside it.\<close>

lemma perm_within_segment:
  assumes "perm_within low high xs ys" and "high < length xs" and "low \<le> k" and "k \<le> high"
  shows "\<exists>l. low \<le> l \<and> l \<le> high \<and> ys ! k = xs ! l"
proof -
  have len: "length ys = length xs" using assms(1) by (simp add: perm_within_def)
  have t: "take low ys = take low xs" "drop (Suc high) ys = drop (Suc high) xs"
    using assms(1,2) len by (auto simp: perm_within_def intro!: nth_equalityI)
  define seg :: "'a list \<Rightarrow> 'a list" where "seg zs = take (Suc high - low) (drop low zs)" for zs
  have dec: "zs = take low zs @ seg zs @ drop (Suc high) zs" if "length zs = length xs" for zs :: "'a list"
  proof -
    have "drop (Suc high - low) (drop low zs) = drop (Suc high) zs" using assms(3,4) by simp
    then have "seg zs @ drop (Suc high) zs = drop low zs" unfolding seg_def by (metis append_take_drop_id)
    then show ?thesis by simp
  qed
  have "mset (seg ys) = mset (seg xs)"
    using assms(1) t arg_cong [OF dec [of ys], of mset] arg_cong [OF dec [of xs], of mset] len
    by (simp add: perm_within_def)
  then have st: "set (seg ys) = set (seg xs)" by (metis set_mset_mset)
  have "ys ! k = seg ys ! (k - low)" "k - low < length (seg ys)"
    using assms(2-4) len by (auto simp: seg_def)
  then have "ys ! k \<in> set (seg xs)" using st by (metis nth_mem)
  then obtain n where "n < length (seg xs)" "ys ! k = seg xs ! n" by (metis in_set_conv_nth)
  then show ?thesis using assms(2) by (intro exI [of _ "low + n"]) (auto simp: seg_def)
qed

definition sorted_within :: "int \<Rightarrow> ('m, 'c, 'h, 'u) queue_node list \<Rightarrow> nat \<Rightarrow> nat \<Rightarrow> bool" where
  "sorted_within strategy nodes low high \<longleftrightarrow>
     (\<forall>k l. low \<le> k \<longrightarrow> k < l \<longrightarrow> l \<le> high \<longrightarrow> msg_key strategy (nodes ! k) \<le> msg_key strategy (nodes ! l))"

lemma perm_within_length: "perm_within low high xs ys \<Longrightarrow> length ys = length xs"
  by (simp add: perm_within_def)

lemma perm_within_mono: "perm_within a b xs ys \<Longrightarrow> low \<le> a \<Longrightarrow> b \<le> high \<Longrightarrow> perm_within low high xs ys"
  by (auto simp: perm_within_def)

text \<open>Sorted parts on both sides of the pivot make a sorted whole.\<close>

lemma sorted_around_pivot:
  assumes "p \<le> high" and "p = 0 \<or> sorted_within strategy nodes low (p - 1)" and "sorted_within strategy nodes (p + 1) high"
    and "\<And>k. low \<le> k \<Longrightarrow> k < p \<Longrightarrow> msg_key strategy (nodes ! k) \<le> msg_key strategy (nodes ! p)"
    and "\<And>k. p < k \<Longrightarrow> k \<le> high \<Longrightarrow> msg_key strategy (nodes ! p) \<le> msg_key strategy (nodes ! k)"
  shows "sorted_within strategy nodes low high"
  unfolding sorted_within_def
proof (intro allI impI)
  fix k l assume kl: "low \<le> k" "k < l" "l \<le> high"
  consider "l < p" | "k < p" "p \<le> l" | "k = p" | "p < k" by linarith
  then show "msg_key strategy (nodes ! k) \<le> msg_key strategy (nodes ! l)"
  proof cases
    case 1
    then show ?thesis using kl assms(2) by (auto simp: sorted_within_def)
  next
    case 2
    then show ?thesis using kl assms(4) [of k] assms(5) [of l] by (cases "l = p") auto
  next
    case 3
    then show ?thesis using kl assms(5) [of l] by auto
  next
    case 4
    then show ?thesis using kl assms(3) by (auto simp: sorted_within_def)
  qed
qed

text \<open>A bound on a segment survives a permutation inside it.\<close>

lemma perm_within_all:
  assumes "perm_within low high xs ys" and "high < length xs" and "\<And>l. low \<le> l \<Longrightarrow> l \<le> high \<Longrightarrow> P (xs ! l)"
    and "low \<le> k" and "k \<le> high"
  shows "P (ys ! k)"
  using perm_within_segment [OF assms(1,2,4,5)] assms(3) by auto

lemma perm_within_other:
  "perm_within low high xs ys \<Longrightarrow> k < length xs \<Longrightarrow> k < low \<or> high < k \<Longrightarrow> ys ! k = xs ! k"
  by (auto simp: perm_within_def)

lemma quick_sort_spec:
  "high < length nodes \<Longrightarrow>
     perm_within low high nodes (quick_sort strategy nodes low high)
     \<and> sorted_within strategy (quick_sort strategy nodes low high) low high"
proof (induction strategy nodes low high rule: quick_sort.induct)
  case (1 strategy nodes low high)
  show ?case
  proof (cases "low < high")
    case False
    then show ?thesis by (simp add: quick_sort.simps sorted_within_def)
  next
    case True
    obtain nodes1 p where part: "partition_nodes strategy nodes low high = (nodes1, p)" by fastforce
    note spec = partition_nodes_spec [OF part _ 1(3)]
    have b: "low \<le> p" "p \<le> high" using partition_nodes_bounds [OF part] True by auto
    define nodes2 where "nodes2 = (if p > 0 then quick_sort strategy nodes1 low (p - 1) else nodes1)"
    define nodes3 where "nodes3 = (if p < high then quick_sort strategy nodes2 (p + 1) high else nodes2)"
    have q: "quick_sort strategy nodes low high = nodes3"
      using True part by (simp add: quick_sort.simps [of strategy nodes low high] nodes2_def nodes3_def)
    have one: "perm_within low high nodes nodes1" using spec(1) True by simp
    have l1: "high < length nodes1" using perm_within_length [OF one] 1(3) by simp
    have two: "perm_within low (p - 1) nodes1 nodes2" "p = 0 \<or> sorted_within strategy nodes2 low (p - 1)"
      using 1(1) [OF True part [symmetric] refl] b l1 by (auto simp: nodes2_def)
    have l2: "high < length nodes2" using perm_within_length [OF two(1)] l1 by simp
    have three: "perm_within (p + 1) high nodes2 nodes3" "sorted_within strategy nodes3 (p + 1) high"
      using 1(2) [OF True part [symmetric] refl nodes2_def] l2
      by (auto simp: nodes3_def sorted_within_def)
    have left: "nodes3 ! k = nodes2 ! k" if "k \<le> p" for k
      using perm_within_other [OF three(1)] that b l2 by auto
    have right: "nodes2 ! k = nodes1 ! k" if "p \<le> k" "k \<le> high" for k
      using perm_within_other [OF two(1), of k] that b l1 by (cases "p = 0") (auto simp: nodes2_def)
    have pivot: "nodes3 ! p = nodes1 ! p" using left [of p] right [of p] b by simp
    have below: "msg_key strategy (nodes3 ! k) \<le> msg_key strategy (nodes3 ! p)" if "low \<le> k" "k < p" for k
    proof -
      have "msg_key strategy (nodes2 ! k) \<le> msg_key strategy (nodes1 ! p)"
        using that b l1 spec(2) True
        by (intro perm_within_all [OF two(1), where P = "\<lambda>x. msg_key strategy x \<le> msg_key strategy (nodes1 ! p)"]) auto
      then show ?thesis using left [of k] pivot that by simp
    qed
    have above: "msg_key strategy (nodes3 ! p) \<le> msg_key strategy (nodes3 ! k)" if "p < k" "k \<le> high" for k
    proof -
      have "msg_key strategy (nodes1 ! p) \<le> msg_key strategy (nodes3 ! k)"
        using that l2 spec(3) True right
        by (intro perm_within_all [OF three(1), where P = "\<lambda>x. msg_key strategy (nodes1 ! p) \<le> msg_key strategy x"]) auto
      then show ?thesis using pivot by simp
    qed
    have "p = 0 \<or> sorted_within strategy nodes3 low (p - 1)"
      using two(2) left by (auto simp: sorted_within_def)
    from sorted_around_pivot [OF b(2) this three(2) below above]
    have "sorted_within strategy nodes3 low high" by blast
    moreover have "perm_within low high nodes nodes3"
      using one perm_within_mono [OF two(1), of low high] perm_within_mono [OF three(1), of low high] b
        perm_within_trans [of low high nodes nodes1 low high nodes2 low high]
        perm_within_trans [of low high nodes nodes2 low high nodes3 low high] by auto
    ultimately show ?thesis unfolding q by blast
  qed
qed

text \<open>Rebuilding stops at the first node the allocator refuses.\<close>

lemma rebuild_prefix:
  "length messages + length nodes \<le> cap \<Longrightarrow>
   rebuild cap mem i nodes messages = messages @ map snd (takeWhile (\<lambda>(k, _). mem k) (enumerate i nodes))"
  by (induction nodes arbitrary: i messages) (auto simp: push_back_def ZOO_OK_def ZOO_ERROR_OUT_OF_MEMORY_def)

definition queue_ok :: "('m, 'c, 'h, 'u) zoo_queue \<Rightarrow> bool" where
  "queue_ok q \<longleftrightarrow> length (q_messages q) \<le> max_queue_size q \<and> length (q_observers q) \<le> 256
     \<and> q_list_cap q = (if max_queue_size q = 0 then 64 else max_queue_size q)"

lemma quick_sort_whole:
  assumes "nodes \<noteq> []"
  shows "mset (quick_sort strategy nodes 0 (length nodes - 1)) = mset nodes"
    and "sorted (map (msg_key strategy) (quick_sort strategy nodes 0 (length nodes - 1)))"
proof -
  let ?ns = "quick_sort strategy nodes 0 (length nodes - 1)"
  have *: "perm_within 0 (length nodes - 1) nodes ?ns" "sorted_within strategy ?ns 0 (length nodes - 1)"
    using quick_sort_spec [of "length nodes - 1" nodes 0 strategy] assms by auto
  show "mset ?ns = mset nodes" using *(1) by (simp add: perm_within_def)
  have "length ?ns = length nodes" using *(1) by (simp add: perm_within_def)
  then show "sorted (map (msg_key strategy) ?ns)" using *(2)
    by (auto simp: sorted_iff_nth_mono_less sorted_within_def)
qed

text \<open>
  C14. Sorting a queue with at least two messages by a strategy that compares puts the messages into the
  order of their keys: the same messages, by signed priority or time of arrival, smallest first. The list is
  emptied and filled again; when the allocator refuses a list node, the queue keeps the sorted messages
  before that point and loses all others.
\<close>

theorem zoo_queue_sort_sorts:
  assumes "queue_ok q" and "1 < length (q_messages q)"
    and "strategy = ZOO_QUEUE_SORT_STRATEGY_PRIORITY \<or> strategy = ZOO_QUEUE_SORT_STRATEGY_TIMESTAMP"
  shows "\<exists>ns. mset ns = mset (q_messages q) \<and> sorted (map (msg_key strategy) ns)
     \<and> zoo_queue_sort True mem (Some q) strategy =
         Some (q\<lparr>q_messages := map snd (takeWhile (\<lambda>(k, _). mem k) (enumerate 0 ns))\<rparr>)"
proof -
  let ?ns = "quick_sort strategy (q_messages q) 0 (length (q_messages q) - 1)"
  have ne: "q_messages q \<noteq> []" using assms(2) by auto
  note ns = quick_sort_whole [OF ne, of strategy]
  have "length ?ns = length (q_messages q)" using ns(1) by (metis size_mset)
  then have "length ?ns \<le> q_list_cap q" using assms(1,2) by (auto simp: queue_ok_def)
  then have "rebuild (q_list_cap q) mem 0 ?ns [] = map snd (takeWhile (\<lambda>(k, _). mem k) (enumerate 0 ?ns))"
    using rebuild_prefix [of "[]" ?ns "q_list_cap q" mem 0] by simp
  then have "zoo_queue_sort True mem (Some q) strategy =
      Some (q\<lparr>q_messages := map snd (takeWhile (\<lambda>(k, _). mem k) (enumerate 0 ?ns))\<rparr>)"
    using assms(2,3) by (auto simp: zoo_queue_sort_def strategy_defs)
  with ns show ?thesis by blast
qed

section \<open>Dispatcher\<close>

text \<open>The dispatcher structures by address, and the queue they were created for.\<close>

record zoo_dispatcher =
  dp_is_running :: bool
  dp_sort_strategy :: int
  dp_dispatcher_id :: "64 word"

type_synonym dispatchers = "nat \<Rightarrow> zoo_dispatcher option"

text \<open>The answers for the sort an observer makes: memory for the array and for the list nodes.\<close>

record sort_env =
  se_array :: bool
  se_list :: "nat \<Rightarrow> bool"

definition zoo_dispatcher_on_queue_changed ::
  "dispatchers \<Rightarrow> sort_env \<Rightarrow> ('m, 'c, 'h, 'u) zoo_queue \<Rightarrow> nat option \<Rightarrow> ('m, 'c, 'h, 'u) zoo_queue option" where
  "zoo_dispatcher_on_queue_changed ds env queue observer =
     (case observer of
        None \<Rightarrow> Some queue
      | Some d \<Rightarrow>
          (case ds d of
             None \<Rightarrow> None
           | Some dispatcher \<Rightarrow>
               if dp_sort_strategy dispatcher = ZOO_QUEUE_SORT_STRATEGY_PRIORITY
                  \<or> dp_sort_strategy dispatcher = ZOO_QUEUE_SORT_STRATEGY_TIMESTAMP
               then zoo_queue_sort (se_array env) (se_list env) (Some queue) (dp_sort_strategy dispatcher)
               else Some queue))"

text \<open>The number of the handler \<open>zoo_dispatcher_on_queue_changed\<close>; no other is registered with a queue.\<close>

definition ON_QUEUE_CHANGED :: nat where "ON_QUEUE_CHANGED = 1"

definition queue_changed ::
  "dispatchers \<Rightarrow> sort_env \<Rightarrow> nat \<Rightarrow> nat option \<Rightarrow> ('m, 'c, 'h, 'u) zoo_queue \<Rightarrow> ('m, 'c, 'h, 'u) zoo_queue option" where
  "queue_changed ds env handler observer queue =
     (if handler = ON_QUEUE_CHANGED then zoo_dispatcher_on_queue_changed ds env queue observer else Some queue)"

text \<open>\<open>dispatcher_observer\<close>.\<close>

definition dispatcher_observer_name :: "u8 list" where
  "dispatcher_observer_name = [100, 105, 115, 112, 97, 116, 99, 104, 101, 114, 95, 111, 98, 115, 101, 114, 118, 101, 114]"

record create_dispatcher_env =
  cd_mem :: "nat option"
  cd_id :: "64 word"
  cd_mutex :: bool
  cd_cond :: bool
  cd_observer :: bool
  cd_list :: bool

definition zoo_create_dispatcher ::
  "create_dispatcher_env \<Rightarrow> ('m, 'c, 'h, 'u) zoo_queue option \<Rightarrow> dispatchers
   \<Rightarrow> nat option \<times> ('m, 'c, 'h, 'u) zoo_queue option \<times> dispatchers" where
  "zoo_create_dispatcher env queue ds =
     (if queue = None then (None, queue, ds)
      else (case cd_mem env of
              None \<Rightarrow> (None, queue, ds)
            | Some d \<Rightarrow>
                if \<not> cd_mutex env then (None, queue, ds)
                else if \<not> cd_cond env then (None, queue, ds)
                else (Some d,
                      zoo_queue_add_observer (cd_observer env) (cd_list env) queue (Some ON_QUEUE_CHANGED) (Some d)
                        (Some dispatcher_observer_name),
                      ds(d \<mapsto> \<lparr>dp_is_running = False, dp_sort_strategy = ZOO_QUEUE_SORT_STRATEGY_NONE,
                               dp_dispatcher_id = cd_id env\<rparr>))))"

definition zoo_dispatcher_set_sort_strategy :: "bool \<Rightarrow> nat option \<Rightarrow> int \<Rightarrow> dispatchers \<Rightarrow> dispatchers option" where
  "zoo_dispatcher_set_sort_strategy lk dispatcher_handle strategy ds =
     (case dispatcher_handle of
        None \<Rightarrow> Some ds
      | Some d \<Rightarrow>
          (case ds d of
             None \<Rightarrow> None
           | Some dispatcher \<Rightarrow>
               if \<not> lk then Some ds else Some (ds(d \<mapsto> dispatcher\<lparr>dp_sort_strategy := strategy\<rparr>))))"

text \<open>
  \<open>zoo_start_dispatcher\<close> marks the dispatcher as running and repeats \<open>process_message\<close> as long as it is.
  The loop is its rounds: a round gives the call of the handler that is due, if there is one.
\<close>

definition process_message ::
  "('m, 'c, 'h, 'u) zoo_queue option \<Rightarrow> ('h \<times> 'u option \<times> 'm \<times> 'c option) option \<times> ('m, 'c, 'h, 'u) zoo_queue option" where
  "process_message queue =
     (case zoo_queue_dequeue queue True of
        (Taken msg context handler user_data, queue') \<Rightarrow> (Some (handler, user_data, msg, context), queue')
      | (_, queue') \<Rightarrow> (None, queue'))"

definition zoo_start_dispatcher :: "nat option \<Rightarrow> dispatchers \<Rightarrow> dispatchers option" where
  "zoo_start_dispatcher dispatcher_handle ds =
     (case dispatcher_handle of
        None \<Rightarrow> Some ds
      | Some d \<Rightarrow>
          (case ds d of
             None \<Rightarrow> None
           | Some dispatcher \<Rightarrow>
               if dp_is_running dispatcher then Some ds
               else Some (ds(d \<mapsto> dispatcher\<lparr>dp_is_running := True\<rparr>))))"

definition dispatcher_round ::
  "nat \<Rightarrow> ('m, 'c, 'h, 'u) zoo_queue option \<Rightarrow> dispatchers
   \<Rightarrow> (('h \<times> 'u option \<times> 'm \<times> 'c option) option \<times> ('m, 'c, 'h, 'u) zoo_queue option) option" where
  "dispatcher_round d queue ds =
     (case ds d of
        None \<Rightarrow> None
      | Some dispatcher \<Rightarrow> Some (if dp_is_running dispatcher then process_message queue else (None, queue)))"

definition zoo_stop_dispatcher ::
  "nat option \<Rightarrow> ('m, 'c, 'h, 'u) zoo_queue option \<Rightarrow> dispatchers \<Rightarrow> (('m, 'c, 'h, 'u) zoo_queue option \<times> dispatchers) option" where
  "zoo_stop_dispatcher dispatcher_handle queue ds =
     (case dispatcher_handle of
        None \<Rightarrow> Some (queue, ds)
      | Some d \<Rightarrow>
          (case ds d of
             None \<Rightarrow> None
           | Some dispatcher \<Rightarrow>
               Some (zoo_queue_exit_blocking queue, ds(d \<mapsto> dispatcher\<lparr>dp_is_running := False\<rparr>))))"

definition zoo_destroy_dispatcher ::
  "nat option \<Rightarrow> ('m, 'c, 'h, 'u) zoo_queue option \<Rightarrow> dispatchers \<Rightarrow> (('m, 'c, 'h, 'u) zoo_queue option \<times> dispatchers) option" where
  "zoo_destroy_dispatcher dispatcher_handle queue ds =
     (case dispatcher_handle of
        None \<Rightarrow> Some (queue, ds)
      | Some d \<Rightarrow>
          (case ds d of
             None \<Rightarrow> None
           | Some dispatcher \<Rightarrow>
               (case (if dp_is_running dispatcher then zoo_stop_dispatcher dispatcher_handle queue ds else Some (queue, ds)) of
                  None \<Rightarrow> None
                | Some (queue', ds') \<Rightarrow> Some (queue', ds'(d := None)))))"

section \<open>What queue and dispatcher promise\<close>

text \<open>No observer of the queue sorts: all lead to live dispatchers without a sorting strategy.\<close>

definition quiet :: "dispatchers \<Rightarrow> ('m, 'c, 'h, 'u) zoo_queue \<Rightarrow> bool" where
  "quiet ds q \<longleftrightarrow> (\<forall>ob \<in> set (q_observers q). \<exists>d dp. qo_user_data ob = Some d \<and> ds d = Some dp
     \<and> dp_sort_strategy dp \<noteq> ZOO_QUEUE_SORT_STRATEGY_PRIORITY
     \<and> dp_sort_strategy dp \<noteq> ZOO_QUEUE_SORT_STRATEGY_TIMESTAMP)"

lemma quiet_notify:
  assumes "\<forall>ob \<in> set obs. \<exists>d dp. qo_user_data ob = Some d \<and> ds d = Some dp
     \<and> dp_sort_strategy dp \<noteq> ZOO_QUEUE_SORT_STRATEGY_PRIORITY
     \<and> dp_sort_strategy dp \<noteq> ZOO_QUEUE_SORT_STRATEGY_TIMESTAMP"
  shows "notify_loop (queue_changed ds env) obs q = Some q"
  using assms
proof (induction obs)
  case (Cons ob obs)
  then have "queue_changed ds env (qo_handler ob) (qo_user_data ob) q = Some q"
    by (auto simp: queue_changed_def zoo_dispatcher_on_queue_changed_def)
  with Cons show ?case by simp
qed simp

definition queue_entry :: "enqueue_env \<Rightarrow> 'm \<Rightarrow> 'c option \<Rightarrow> 'h \<Rightarrow> 'u option \<Rightarrow> ('m, 'c, 'h, 'u) queue_node" where
  "queue_entry env m c h u = \<lparr>qn_msg = m, qn_context = c, qn_handler = h, qn_user_data = u,
     qn_priority = 0, qn_arrived_timestamp = en_now env\<rparr>"

definition queue_accepts :: "enqueue_env \<Rightarrow> ('m, 'c, 'h, 'u) zoo_queue \<Rightarrow> bool" where
  "queue_accepts env q \<longleftrightarrow> length (q_messages q) < max_queue_size q \<and> en_node env \<and> en_list env"

lemma zoo_queue_enqueue_eq:
  assumes "queue_ok q"
  shows "zoo_queue_enqueue call env (Some q) (Some m) c (Some h) u =
    (if queue_accepts env q
     then map_option (\<lambda>q'. (True, Some q')) (notify_observers call (q\<lparr>q_messages := q_messages q @ [queue_entry env m c h u]\<rparr>))
     else Some (False, Some q))"
  using assms
  by (auto simp: zoo_queue_enqueue_def queue_accepts_def push_back_def queue_ok_def queue_entry_def ZOO_OK_def
      ZOO_ERROR_BUFFER_FULL_def ZOO_ERROR_OUT_OF_MEMORY_def split: option.splits)

lemma zoo_queue_enqueue_quiet:
  assumes "queue_ok q" and "quiet ds q"
  shows "zoo_queue_enqueue (queue_changed ds senv) env (Some q) (Some m) c (Some h) u =
    Some (if queue_accepts env q then (True, Some (q\<lparr>q_messages := q_messages q @ [queue_entry env m c h u]\<rparr>))
          else (False, Some q))"
  using assms by (simp add: zoo_queue_enqueue_eq notify_observers_def quiet_notify quiet_def)

text \<open>The queue as a channel: a producer enqueues, the dispatcher takes.\<close>

type_synonym ('m, 'c, 'h, 'u) job = "'m \<times> 'c option \<times> 'h \<times> 'u option"

fun queue_put ::
  "enqueue_env \<times> sort_env \<Rightarrow> ('m, 'c, 'h, 'u) zoo_queue \<times> dispatchers \<Rightarrow> ('m, 'c, 'h, 'u) job
   \<Rightarrow> bool \<times> ('m, 'c, 'h, 'u) zoo_queue \<times> dispatchers" where
  "queue_put (env, senv) (q, ds) (m, c, h, u) =
     (case zoo_queue_enqueue (queue_changed ds senv) env (Some q) (Some m) c (Some h) u of
        Some (ok, Some q') \<Rightarrow> (ok, q', ds)
      | _ \<Rightarrow> (False, q, ds))"

fun queue_get ::
  "bool \<Rightarrow> ('m, 'c, 'h, 'u) zoo_queue \<times> dispatchers
   \<Rightarrow> ('m, 'c, 'h, 'u) job option \<times> ('m, 'c, 'h, 'u) zoo_queue \<times> dispatchers" where
  "queue_get block (q, ds) =
     (case zoo_queue_dequeue (Some q) block of
        (Taken m c h u, Some q') \<Rightarrow> (Some (m, c, h, u), q', ds)
      | (_, Some q') \<Rightarrow> (None, q', ds)
      | _ \<Rightarrow> (None, q, ds))"

definition node_job :: "('m, 'c, 'h, 'u) queue_node \<Rightarrow> ('m, 'c, 'h, 'u) job" where
  "node_job node = (qn_msg node, qn_context node, qn_handler node, qn_user_data node)"

definition queue_holds :: "('m, 'c, 'h, 'u) zoo_queue \<times> dispatchers \<Rightarrow> ('m, 'c, 'h, 'u) job list \<Rightarrow> bool" where
  "queue_holds = (\<lambda>(q, ds) jobs. queue_ok q \<and> quiet ds q \<and> \<not> exit_flag q \<and> map node_job (q_messages q) = jobs)"

interpretation zq: message_queue queue_holds queue_put queue_get "\<lambda>job. job" "\<lambda>_. True"
proof (unfold_locales, goal_cases)
  case (1 s jobs m i)
  obtain q ds where s: "s = (q, ds)" by fastforce
  obtain a c h u where m: "m = (a, c, h, u)" by (metis surj_pair)
  obtain env senv where i: "i = (env, senv)" by fastforce
  have ok: "queue_ok q" "quiet ds q" "\<not> exit_flag q" "map node_job (q_messages q) = jobs"
    using 1 by (auto simp: s queue_holds_def)
  show ?case using ok
    by (auto simp: s m i zoo_queue_enqueue_quiet queue_holds_def queue_ok_def quiet_def queue_accepts_def
        node_job_def queue_entry_def)
next
  case (2 s j)
  then show ?case by (cases s) (auto simp: queue_holds_def zoo_queue_dequeue_def)
next
  case (3 s r jobs j)
  then show ?case
    by (cases s) (auto simp: queue_holds_def zoo_queue_dequeue_def queue_ok_def quiet_def node_job_def map_eq_Cons_conv)
qed

text \<open>
  C15. Over any sequence of enqueues and dequeues, with any answers of the allocator, a queue whose
  observers do not sort and that was not told to stop hands out exactly the accepted messages, in the order
  in which they were accepted, each with its own context, handler and user data; and it never holds more
  than its maximum.
\<close>

theorem zoo_queue_fifo:
  assumes "queue_holds s []" and "run_queue queue_put queue_get s ops = (accepted, taken, t)"
  shows "\<exists>rest. accepted = taken @ rest \<and> map node_job (q_messages (fst t)) = rest
     \<and> length rest \<le> max_queue_size (fst t)"
proof -
  obtain rest where "queue_holds t rest" "map (\<lambda>job. job) accepted = taken @ rest"
    using zq.run_fifo [of s "[]" ops] assms by auto
  then show ?thesis
    by (cases t) (auto simp: queue_holds_def queue_ok_def)
qed

definition sample_dispatchers :: "int \<Rightarrow> dispatchers" where
  "sample_dispatchers strategy = [1 \<mapsto> \<lparr>dp_is_running = True, dp_sort_strategy = strategy, dp_dispatcher_id = 7\<rparr>]"

definition sample_node :: "nat \<Rightarrow> 32 word \<Rightarrow> (nat, nat, nat, nat) queue_node" where
  "sample_node m p = \<lparr>qn_msg = m, qn_context = None, qn_handler = 2, qn_user_data = None, qn_priority = p,
     qn_arrived_timestamp = 100\<rparr>"

definition sample_queue :: "(nat, nat, nat, nat) queue_node list \<Rightarrow> (nat, nat, nat, nat) zoo_queue" where
  "sample_queue nodes = \<lparr>q_messages = nodes,
     q_observers = [\<lparr>qo_name = dispatcher_observer_name, qo_handler = ON_QUEUE_CHANGED, qo_user_data = Some 1\<rparr>],
     q_list_cap = 4, max_queue_size = 4, exit_flag = False\<rparr>"

theorem zoo_queue_sort_sorts_witness:
  "\<exists>ns. mset ns = mset [sample_node 10 3, sample_node 11 (- 1), sample_node 12 0]
     \<and> sorted (map (msg_key ZOO_QUEUE_SORT_STRATEGY_PRIORITY) ns)
     \<and> zoo_queue_sort True (\<lambda>i. i < 2)
         (Some (sample_queue [sample_node 10 3, sample_node 11 (- 1), sample_node 12 0])) ZOO_QUEUE_SORT_STRATEGY_PRIORITY =
       Some (sample_queue (map snd (takeWhile (\<lambda>(k, _). k < 2) (enumerate 0 ns))))"
  using zoo_queue_sort_sorts [of "sample_queue [sample_node 10 3, sample_node 11 (- 1), sample_node 12 0]"
      ZOO_QUEUE_SORT_STRATEGY_PRIORITY "\<lambda>i. i < 2"]
  by (simp add: sample_queue_def queue_ok_def)

theorem zoo_queue_fifo_witness:
  "\<exists>rest. [(20, None, 2, None), (21, None, 2, None)] = [(20, None, 2, None)] @ rest \<and> length rest \<le> 4"
proof -
  let ?put = "\<lambda>m. Put (\<lparr>en_node = True, en_list = True, en_now = 100\<rparr>, \<lparr>se_array = True, se_list = \<lambda>_. True\<rparr>) (m, None, 2, None)"
  let ?s = "(sample_queue [], sample_dispatchers ZOO_QUEUE_SORT_STRATEGY_NONE)"
  have init: "queue_holds ?s []"
    by (simp add: queue_holds_def queue_ok_def quiet_def sample_queue_def sample_dispatchers_def strategy_defs)
  have "run_queue queue_put queue_get ?s [?put 20, ?put 21, Get True] =
     ([(20, None, 2, None), (21, None, 2, None)], [(20, None, 2, None)],
      (sample_queue [sample_node 21 0], sample_dispatchers ZOO_QUEUE_SORT_STRATEGY_NONE))"
    by (simp add: sample_queue_def sample_dispatchers_def sample_node_def zoo_queue_enqueue_def push_back_def
        notify_observers_def queue_changed_def zoo_dispatcher_on_queue_changed_def zoo_queue_dequeue_def strategy_defs)
  from zoo_queue_fifo [OF init this] show ?thesis by (auto simp: sample_queue_def)
qed

text \<open>
  The sort is not stable, and a message enters the queue with priority 0: of two waiting messages with
  the same positive priority the later comes first after a third message has arrived, and the new message
  comes before both.
\<close>

lemma quick_sort_three:
  assumes "msg_key strategy a = msg_key strategy b" and "msg_key strategy c < msg_key strategy a"
  shows "quick_sort strategy [a, b, c] 0 2 = [c, b, a]"
proof -
  have cmp: "compare_messages (Some x) (Some y) strategy \<le> 0 \<longleftrightarrow> msg_key strategy x \<le> msg_key strategy y" for x y
    by (rule compare_messages_key)
  have one: "partition_nodes strategy [a, b, c] 0 2 = ([c, b, a], 0)"
    using assms by (simp add: partition_nodes_def partition_loop.simps cmp)
  have two: "partition_nodes strategy [c, b, a] 1 2 = ([c, b, a], 2)"
    using assms by (simp add: partition_nodes_def partition_loop.simps cmp)
  have base: "quick_sort strategy [c, b, a] 1 1 = [c, b, a]"
    by (subst quick_sort.simps) simp
  have "quick_sort strategy [c, b, a] 1 2 = [c, b, a]"
    using two base by (subst quick_sort.simps) simp
  then show ?thesis using one by (subst quick_sort.simps) simp
qed

lemma equal_priorities_reversed:
  assumes "q_messages q = [a, b]" and "qn_priority a = qn_priority b" and "0 < sint (qn_priority a)"
    and "queue_ok q" and "3 \<le> max_queue_size q"
    and "q_observers q = [\<lparr>qo_name = nm, qo_handler = ON_QUEUE_CHANGED, qo_user_data = Some d\<rparr>]"
    and "ds d = Some dp" and "dp_sort_strategy dp = ZOO_QUEUE_SORT_STRATEGY_PRIORITY"
    and "en_node env" and "en_list env"
  shows "zoo_queue_enqueue (queue_changed ds \<lparr>se_array = True, se_list = \<lambda>_. True\<rparr>) env (Some q) (Some m) c (Some h) u =
     Some (True, Some (q\<lparr>q_messages := [queue_entry env m c h u, b, a]\<rparr>))"
proof -
  have cap: "3 \<le> q_list_cap q" using assms(4,5) by (simp add: queue_ok_def)
  have "quick_sort ZOO_QUEUE_SORT_STRATEGY_PRIORITY [a, b, queue_entry env m c h u] 0 (Suc (Suc 0)) =
      [queue_entry env m c h u, b, a]"
    unfolding numeral_2_eq_2 [symmetric] by (rule quick_sort_three) (use assms(2,3) in \<open>simp_all add: msg_key_def queue_entry_def\<close>)
  then show ?thesis using assms cap
    by (simp add: zoo_queue_enqueue_eq queue_accepts_def notify_observers_def queue_changed_def
        zoo_dispatcher_on_queue_changed_def zoo_queue_sort_def push_back_def strategy_defs)
qed

text \<open>A destroyed dispatcher stays registered, so the next enqueue follows a pointer to freed memory.\<close>

lemma enqueue_after_destroy:
  assumes "q_observers q = [\<lparr>qo_name = nm, qo_handler = ON_QUEUE_CHANGED, qo_user_data = Some d\<rparr>]"
    and "ds d = Some dp" and "zoo_destroy_dispatcher (Some d) (Some q) ds = Some (Some q', ds')"
    and "queue_ok q" and "queue_accepts env q"
  shows "zoo_queue_enqueue (queue_changed ds' senv) env (Some q') (Some m) c (Some h) u = None"
proof -
  have q': "q' = q \<or> q' = q\<lparr>exit_flag := True\<rparr>" and ds': "ds' d = None"
    using assms(2,3) by (auto simp: zoo_destroy_dispatcher_def zoo_stop_dispatcher_def zoo_queue_exit_blocking_def
        split: if_splits)
  have ok: "queue_ok q'" "queue_accepts env q'" "q_observers q' = q_observers q"
    using assms(4,5) q' by (auto simp: queue_ok_def queue_accepts_def)
  show ?thesis
    using ok ds' assms(1)
    by (simp add: zoo_queue_enqueue_eq notify_observers_def queue_changed_def zoo_dispatcher_on_queue_changed_def)
qed

end
