(* ===== verification/Routing_Engine.thy ===== *)
theory Routing_Engine
  imports Zoo_Queue Protocol
begin

text \<open>
  The routing engine \<open>src/kernal/core/zoo_smb_routing_engine.c\<close>: messages from the transports and messages
  to the transports go through one queue, which the thread of the dispatcher empties. With it, the
  registration of the engine with a transport, from \<open>src/kernal/transport/zoo_smb_transport_observer.c\<close>
  and \<open>zoo_smb_transport_add_data_observer\<close> of \<open>src/kernal/transport/zoo_smb_transport.c\<close>.

  Messages lie in a store by address, so that copies, the queue and frees are explicit; rules lie in a
  store too. An operation gives \<open>None\<close> where the code would follow a pointer that is \<open>NULL\<close> or leads to
  memory that was returned. Callbacks of observers and messages handed to a transport are recorded in the
  order in which they happen; a callback does not call the engine here. The counters are the words of the
  source, with their wrap-around.
\<close>

section \<open>State\<close>

datatype drop_reason = DROP_NONE | DROP_QUEUE_FULL | DROP_BACKPRESSURE | DROP_INVALID_HEADER
  | DROP_SECURITY_POLICY | DROP_INVALID_PARAM

text \<open>The fields of the configuration the engine reads.\<close>

record engine_config =
  ec_max_queue_size :: u32
  ec_ingress_high_watermark :: u32
  ec_ingress_low_watermark :: u32
  ec_enable_routing_telemetry :: bool
  ec_enforce_encrypted_messages :: bool
  ec_require_sender_identity :: bool
  ec_max_timeout :: "32 word"

definition ZOO_SMB_MAX_QUEUE_SIZE :: u32 where "ZOO_SMB_MAX_QUEUE_SIZE = 1024"
definition ZOO_SMB_MSG_FLAG_ENCRYPT :: u16 where "ZOO_SMB_MSG_FLAG_ENCRYPT = 2"

record routing_context =
  rc_rule :: nat
  rc_receiver :: "u8 list option"
  rc_delete_message_flag :: bool
  rc_message :: nat

text \<open>The two handlers the engine puts into the queue.\<close>

datatype engine_handler = PROCESS_MESSAGE_AND_NOTIFY_OBSERVER | ENGINE_HANDLE_ROUTE_MESSAGE

type_synonym engine_queue = "(nat, routing_context, engine_handler, nat) zoo_queue"

record routing_engine =
  eg_is_running :: bool
  eg_message_queue :: engine_queue
  eg_message_dispatcher :: nat
  eg_transport_manager :: "nat option"
  eg_service_manager :: "nat option"
  eg_rule_manager :: "nat option"
  eg_config :: "engine_config option"
  ingress_high_watermark :: u32
  ingress_low_watermark :: u32
  telemetry_enabled :: bool
  ingress_backpressure_active :: bool
  ingress_in_flight :: u32
  ingress_received :: u64
  ingress_enqueued :: u64
  ingress_dequeued :: u64
  ingress_dropped_total :: u64
  ingress_drop_queue_full :: u64
  ingress_drop_backpressure :: u64
  ingress_drop_invalid_header :: u64
  ingress_drop_security_policy :: u64

text \<open>What the engine reads of an observer and of a rule.\<close>

record node_observer =
  no_node_msg_cb :: "nat option"
  no_msg_type :: u16
  no_usr_data :: nat

record engine_rule =
  er_observers :: "node_observer list option"
  er_transport :: nat
  er_engine :: bool

text \<open>What can be seen from outside: a callback with the message, and a message given to a transport.\<close>

datatype engine_output = Callback nat nat smb_msg u32 | Sent nat smb_msg "u8 list option"

text \<open>The engine with the memory it works on. The observers of a transport are pairs of handler and rule.\<close>

record engine_state =
  es_engine :: routing_engine
  es_dispatchers :: dispatchers
  es_messages :: "nat \<Rightarrow> smb_msg option"
  es_rules :: "nat \<Rightarrow> engine_rule option"
  es_transports :: "nat \<Rightarrow> (nat \<times> nat) list"
  es_outputs :: "engine_output list"

section \<open>Ingress\<close>

definition routing_engine_record_drop :: "routing_engine \<Rightarrow> drop_reason \<Rightarrow> routing_engine" where
  "routing_engine_record_drop e reason =
     (if telemetry_enabled e then
        let e1 = e\<lparr>ingress_dropped_total := ingress_dropped_total e + 1\<rparr>
        in (case reason of
              DROP_QUEUE_FULL \<Rightarrow> e1\<lparr>ingress_drop_queue_full := ingress_drop_queue_full e1 + 1\<rparr>
            | DROP_BACKPRESSURE \<Rightarrow> e1\<lparr>ingress_drop_backpressure := ingress_drop_backpressure e1 + 1\<rparr>
            | DROP_INVALID_HEADER \<Rightarrow> e1\<lparr>ingress_drop_invalid_header := ingress_drop_invalid_header e1 + 1\<rparr>
            | DROP_SECURITY_POLICY \<Rightarrow> e1\<lparr>ingress_drop_security_policy := ingress_drop_security_policy e1 + 1\<rparr>
            | _ \<Rightarrow> e1)
      else e)"

text \<open>Returning a message to the pool.\<close>

definition destroy_message_at :: "nat \<Rightarrow> engine_state \<Rightarrow> engine_state option" where
  "destroy_message_at a s =
     (case es_messages s a of
        None \<Rightarrow> None
      | Some _ \<Rightarrow> Some (s\<lparr>es_messages := (es_messages s)(a := None)\<rparr>))"

text \<open>The check for old messages; \<open>now\<close> is the answer of \<open>time\<close>.\<close>

definition message_is_stale :: "engine_config \<Rightarrow> int \<Rightarrow> msg_header \<Rightarrow> bool" where
  "message_is_stale c now h \<longleftrightarrow>
     sint (ec_max_timeout c) > 0 \<and> timestamp h > 0 \<and> now \<ge> 0 \<and> now > uint (timestamp h)
     \<and> now - sint (timestamp h) > sint (ec_max_timeout c)"

text \<open>The reason for which a message is dropped before it is counted as in flight.\<close>

definition ingress_check :: "nat option \<Rightarrow> routing_engine \<Rightarrow> int \<Rightarrow> msg_header \<Rightarrow> drop_reason option" where
  "ingress_check cfg e now h =
     (if \<not> zoo_smb_protocol_is_header_valid cfg (Some h) then Some DROP_INVALID_HEADER
      else (case eg_config e of
              None \<Rightarrow> None
            | Some c \<Rightarrow>
                if ec_require_sender_identity c \<and> c_str (sender h) = [] then Some DROP_SECURITY_POLICY
                else if ec_enforce_encrypted_messages c \<and> flags h AND ZOO_SMB_MSG_FLAG_ENCRYPT = 0
                then Some DROP_SECURITY_POLICY
                else if message_is_stale c now h then Some DROP_SECURITY_POLICY
                else None))"

text \<open>
  The answers of the system for one incoming message: the clock, the address of the new message, memory for
  its payload, and what the queue asks for.
\<close>

record ingress_env =
  ie_now :: int
  ie_message :: "nat option"
  ie_payload :: bool
  ie_enqueue :: enqueue_env
  ie_sort :: sort_env

definition ingress_drop :: "drop_reason \<Rightarrow> engine_state \<Rightarrow> engine_state" where
  "ingress_drop reason s = s\<lparr>es_engine := routing_engine_record_drop (es_engine s) reason\<rparr>"

definition set_in_flight :: "u32 \<Rightarrow> engine_state \<Rightarrow> engine_state" where
  "set_in_flight n s = s\<lparr>es_engine := (es_engine s)\<lparr>ingress_in_flight := n\<rparr>\<rparr>"

definition ingress_enqueue :: "ingress_env \<Rightarrow> nat \<Rightarrow> nat \<Rightarrow> engine_state \<Rightarrow> engine_state option" where
  "ingress_enqueue env rule a s =
     (case zoo_queue_enqueue (queue_changed (es_dispatchers s) (ie_sort env)) (ie_enqueue env)
             (Some (eg_message_queue (es_engine s))) (Some a) None (Some PROCESS_MESSAGE_AND_NOTIFY_OBSERVER) (Some rule) of
        Some (True, Some q) \<Rightarrow>
          let e = (es_engine s)\<lparr>eg_message_queue := q\<rparr>
          in Some (s\<lparr>es_engine := if telemetry_enabled e then e\<lparr>ingress_enqueued := ingress_enqueued e + 1\<rparr> else e\<rparr>)
      | Some (False, _) \<Rightarrow>
          destroy_message_at a (ingress_drop DROP_QUEUE_FULL (set_in_flight (ingress_in_flight (es_engine s) - 1) s))
      | _ \<Rightarrow> None)"

definition ingress_accept :: "ingress_env \<Rightarrow> nat \<Rightarrow> smb_msg \<Rightarrow> engine_state \<Rightarrow> engine_state option" where
  "ingress_accept env rule message s =
     (let undo = (\<lambda>s. ingress_drop DROP_INVALID_PARAM (set_in_flight (ingress_in_flight (es_engine s) - 1) s))
      in (case ie_message env of
            None \<Rightarrow> Some (undo s)
          | Some a \<Rightarrow>
              (case zoo_smb_copy_message (ie_payload env) (Some message) (zoo_smb_default_message True) of
                 (True, Some msg) \<Rightarrow> ingress_enqueue env rule a (s\<lparr>es_messages := (es_messages s)(a \<mapsto> msg)\<rparr>)
               | _ \<Rightarrow> Some (undo s))))"

definition handle_transport_incoming_data ::
  "nat option \<Rightarrow> ingress_env \<Rightarrow> nat option \<Rightarrow> smb_msg option \<Rightarrow> engine_state \<Rightarrow> engine_state option" where
  "handle_transport_incoming_data cfg env user_data message s =
     (case (user_data, message) of
        (Some rule, Some m) \<Rightarrow>
          (case es_rules s rule of
             None \<Rightarrow> None
           | Some r \<Rightarrow>
               if \<not> er_engine r \<or> \<not> eg_is_running (es_engine s) then Some s
               else
                 let e0 = es_engine s;
                     e = (if telemetry_enabled e0 then e0\<lparr>ingress_received := ingress_received e0 + 1\<rparr> else e0);
                     s1 = s\<lparr>es_engine := e\<rparr>
                 in (case ingress_check cfg e (ie_now env) (header m) of
                       Some reason \<Rightarrow> Some (ingress_drop reason s1)
                     | None \<Rightarrow>
                         let in_flight = ingress_in_flight e + 1
                         in if in_flight > ingress_high_watermark e
                            then let s2 = ingress_drop DROP_BACKPRESSURE s1
                                 in Some (s2\<lparr>es_engine := (es_engine s2)\<lparr>ingress_backpressure_active := True\<rparr>\<rparr>)
                            else ingress_accept env rule m (set_in_flight in_flight s1)))
      | _ \<Rightarrow> Some s)"

section \<open>Dispatch\<close>

text \<open>The callbacks of a message: every observer of its type that has a callback, in the order of the list.\<close>

definition observer_calls :: "node_observer list \<Rightarrow> smb_msg \<Rightarrow> engine_output list" where
  "observer_calls obs m =
     [Callback cb (no_usr_data ob) m (payload_size (header m)).
        ob \<leftarrow> obs, cb \<leftarrow> (case no_node_msg_cb ob of None \<Rightarrow> [] | Some f \<Rightarrow> [f]), msg_type (header m) = no_msg_type ob]"

definition count_dequeued :: "routing_engine \<Rightarrow> routing_engine" where
  "count_dequeued e = (if telemetry_enabled e then e\<lparr>ingress_dequeued := ingress_dequeued e + 1\<rparr> else e)"

definition release_backpressure :: "routing_engine \<Rightarrow> routing_engine" where
  "release_backpressure e =
     (if ingress_backpressure_active e \<and> ingress_in_flight e \<le> ingress_low_watermark e
      then e\<lparr>ingress_backpressure_active := False\<rparr> else e)"

definition process_message_and_notify_observer :: "nat option \<Rightarrow> nat \<Rightarrow> engine_state \<Rightarrow> engine_state option" where
  "process_message_and_notify_observer rule_handle a s =
     (case rule_handle of
        None \<Rightarrow> destroy_message_at a s
      | Some rule \<Rightarrow>
          (case es_rules s rule of
             None \<Rightarrow> None
           | Some r \<Rightarrow>
               let finish = (\<lambda>release s1.
                     if er_engine r
                     then let e = count_dequeued ((es_engine s1)\<lparr>ingress_in_flight := ingress_in_flight (es_engine s1) - 1\<rparr>)
                          in s1\<lparr>es_engine := if release then release_backpressure e else e\<rparr>
                     else s1)
               in (case er_observers r of
                     None \<Rightarrow> map_option (finish False) (destroy_message_at a s)
                   | Some obs \<Rightarrow>
                       (case es_messages s a of
                          None \<Rightarrow> None
                        | Some m \<Rightarrow>
                            map_option (finish True)
                              (destroy_message_at a (s\<lparr>es_outputs := es_outputs s @ observer_calls obs m\<rparr>))))))"

definition engine_handle_route_message :: "nat \<Rightarrow> routing_context option \<Rightarrow> engine_state \<Rightarrow> engine_state option" where
  "engine_handle_route_message a context s =
     (case context of
        None \<Rightarrow> Some s
      | Some ctx \<Rightarrow>
          (case (es_rules s (rc_rule ctx), es_messages s a) of
             (Some r, Some m) \<Rightarrow>
               let s1 = s\<lparr>es_outputs := es_outputs s @ [Sent (er_transport r) m (rc_receiver ctx)]\<rparr>
               in if rc_delete_message_flag ctx then destroy_message_at a s1 else Some s1
           | _ \<Rightarrow> None))"

text \<open>One round of the loop of \<open>engine_task\<close>: the dispatcher takes a job and calls its handler.\<close>

definition engine_dispatch :: "engine_state \<Rightarrow> engine_state option" where
  "engine_dispatch s =
     (case dispatcher_round (eg_message_dispatcher (es_engine s)) (Some (eg_message_queue (es_engine s))) (es_dispatchers s) of
        None \<Rightarrow> None
      | Some (job, queue) \<Rightarrow>
          let s1 = (case queue of None \<Rightarrow> s | Some q \<Rightarrow> s\<lparr>es_engine := (es_engine s)\<lparr>eg_message_queue := q\<rparr>\<rparr>)
          in (case job of
                None \<Rightarrow> Some s1
              | Some (PROCESS_MESSAGE_AND_NOTIFY_OBSERVER, user_data, a, context) \<Rightarrow>
                  process_message_and_notify_observer user_data a s1
              | Some (ENGINE_HANDLE_ROUTE_MESSAGE, user_data, a, context) \<Rightarrow>
                  engine_handle_route_message a context s1))"

section \<open>Life cycle\<close>

record create_engine_env =
  ge_mem :: bool
  ge_queue :: create_queue_env
  ge_dispatcher :: create_dispatcher_env

definition low_watermark :: "engine_config \<Rightarrow> u32 \<Rightarrow> u32" where
  "low_watermark c high =
     (let low = (if ec_ingress_low_watermark c > 0 then ec_ingress_low_watermark c else high div 2)
      in if low = 0 \<or> low \<ge> high
         then (if high div 2 = 0 then 1 else high div 2)
         else low)"

text \<open>
  The configuration is read before the test for \<open>NULL\<close>: without one the outer result is \<open>None\<close>. The inner
  result is the engine, the dispatcher and its queue, or \<open>NULL\<close>.
\<close>

definition zoo_smb_create_routing_engine ::
  "create_engine_env \<Rightarrow> engine_config option \<Rightarrow> dispatchers \<Rightarrow> (routing_engine option \<times> dispatchers) option" where
  "zoo_smb_create_routing_engine env config ds =
     (if \<not> ge_mem env then Some (None, ds)
      else (case config of
              None \<Rightarrow> None
            | Some c \<Rightarrow>
                let qsize = (if ec_max_queue_size c > 0 then ec_max_queue_size c else ZOO_SMB_MAX_QUEUE_SIZE)
                in (case zoo_create_queue (ge_queue env) (unat qsize) of
                      None \<Rightarrow> Some (None, ds)
                    | Some q \<Rightarrow>
                        (case zoo_create_dispatcher (ge_dispatcher env) (Some q) ds of
                           (Some d, Some q', ds') \<Rightarrow>
                             let high = (if ec_ingress_high_watermark c > 0 then ec_ingress_high_watermark c else qsize)
                             in Some (Some \<lparr>eg_is_running = False, eg_message_queue = q', eg_message_dispatcher = d,
                                  eg_transport_manager = None, eg_service_manager = None, eg_rule_manager = None,
                                  eg_config = Some c, ingress_high_watermark = high,
                                  ingress_low_watermark = low_watermark c high,
                                  telemetry_enabled = ec_enable_routing_telemetry c,
                                  ingress_backpressure_active = False, ingress_in_flight = 0, ingress_received = 0,
                                  ingress_enqueued = 0, ingress_dequeued = 0, ingress_dropped_total = 0,
                                  ingress_drop_queue_full = 0, ingress_drop_backpressure = 0,
                                  ingress_drop_invalid_header = 0, ingress_drop_security_policy = 0\<rparr>, ds')
                         | (_, _, ds') \<Rightarrow> Some (None, ds')))))"

definition zoo_smb_routing_engine_set_transport_manager :: "routing_engine \<Rightarrow> nat option \<Rightarrow> routing_engine" where
  "zoo_smb_routing_engine_set_transport_manager e transport_manager = e\<lparr>eg_transport_manager := transport_manager\<rparr>"

definition zoo_smb_routing_engine_set_rule_manager :: "routing_engine \<Rightarrow> nat option \<Rightarrow> routing_engine" where
  "zoo_smb_routing_engine_set_rule_manager e rule_manager = e\<lparr>eg_rule_manager := rule_manager\<rparr>"

definition zoo_smb_routing_engine_set_service_manager :: "routing_engine \<Rightarrow> nat option \<Rightarrow> routing_engine" where
  "zoo_smb_routing_engine_set_service_manager e service_manager = e\<lparr>eg_service_manager := service_manager\<rparr>"

definition ROUTING_ENGINE_TASK_SUBMIT_MAX_RETRIES :: nat where "ROUTING_ENGINE_TASK_SUBMIT_MAX_RETRIES = 100"

text \<open>Submitting the task is tried a hundred times; \<open>submit i\<close> is the answer of the thread pool.\<close>

definition zoo_smb_start_routing_engine :: "(nat \<Rightarrow> bool) \<Rightarrow> engine_state \<Rightarrow> engine_state" where
  "zoo_smb_start_routing_engine submit s =
     s\<lparr>es_engine := (es_engine s)\<lparr>eg_is_running := (\<exists>i < ROUTING_ENGINE_TASK_SUBMIT_MAX_RETRIES. submit i)\<rparr>\<rparr>"

text \<open>The submitted task begins to run.\<close>

definition engine_task :: "engine_state \<Rightarrow> engine_state option" where
  "engine_task s =
     map_option (\<lambda>ds. s\<lparr>es_dispatchers := ds\<rparr>)
       (zoo_start_dispatcher (Some (eg_message_dispatcher (es_engine s))) (es_dispatchers s))"

definition zoo_smb_stop_routing_engine :: "engine_state \<Rightarrow> engine_state option" where
  "zoo_smb_stop_routing_engine s =
     (if \<not> eg_is_running (es_engine s) then Some s
      else (case zoo_stop_dispatcher (Some (eg_message_dispatcher (es_engine s)))
                   (Some (eg_message_queue (es_engine s))) (es_dispatchers s) of
              Some (Some q, ds) \<Rightarrow>
                Some (s\<lparr>es_engine := (es_engine s)\<lparr>eg_is_running := False, eg_message_queue := q\<rparr>, es_dispatchers := ds\<rparr>)
            | _ \<Rightarrow> None))"

text \<open>Destroying the engine: the queue is gone, the messages whose addresses it held are still allocated.\<close>

definition zoo_smb_destroy_routing_engine :: "engine_state \<Rightarrow> (dispatchers \<times> (nat \<Rightarrow> smb_msg option)) option" where
  "zoo_smb_destroy_routing_engine s =
     (case (if eg_is_running (es_engine s) then zoo_smb_stop_routing_engine s else Some s) of
        None \<Rightarrow> None
      | Some s1 \<Rightarrow>
          (case zoo_destroy_dispatcher (Some (eg_message_dispatcher (es_engine s1)))
                  (Some (eg_message_queue (es_engine s1))) (es_dispatchers s1) of
             None \<Rightarrow> None
           | Some (q, ds) \<Rightarrow> Some (ds, es_messages s1)))"

section \<open>Registration with a transport\<close>

text \<open>The number of the handler \<open>handle_transport_incoming_data\<close> among the observers of a transport.\<close>

definition HANDLE_TRANSPORT_INCOMING_DATA :: nat where "HANDLE_TRANSPORT_INCOMING_DATA = 1"

definition create_transport_data_observer :: "bool \<Rightarrow> nat option \<Rightarrow> nat \<Rightarrow> (nat \<times> nat) option" where
  "create_transport_data_observer mem handler user_data =
     (case handler of
        None \<Rightarrow> None
      | Some h \<Rightarrow> if mem then Some (h, user_data) else None)"

definition find_transport_data_observer :: "(nat \<times> nat) list \<Rightarrow> nat \<Rightarrow> (nat \<times> nat) option" where
  "find_transport_data_observer obs handler = find (\<lambda>ob. fst ob = handler) obs"

definition add_transport_data_observer :: "nat \<Rightarrow> bool \<Rightarrow> (nat \<times> nat) \<Rightarrow> (nat \<times> nat) list \<Rightarrow> (nat \<times> nat) list" where
  "add_transport_data_observer cap mem observer obs = snd (push_back cap mem observer obs)"

text \<open>\<open>cap\<close> is the capacity of the list of observers the transport was created with.\<close>

definition zoo_smb_transport_add_data_observer ::
  "nat \<Rightarrow> bool \<Rightarrow> (nat \<times> nat) option \<Rightarrow> (nat \<times> nat) list \<Rightarrow> zoo_error \<times> (nat \<times> nat) list" where
  "zoo_smb_transport_add_data_observer cap mem observer obs =
     (case observer of
        None \<Rightarrow> (ZOO_SMB_ERROR_INVALID_PARAM, obs)
      | Some ob \<Rightarrow>
          (ZOO_SMB_OK,
           if find_transport_data_observer obs (fst ob) = None
           then add_transport_data_observer cap mem ob obs else obs))"

text \<open>
  Preparing a rule ties it to the engine and registers the engine with the transport of the rule; \<open>started\<close>
  is the answer of the transport manager to the request to start the transport.
\<close>

definition zoo_smb_routing_engine_prepare_rule ::
  "nat \<Rightarrow> bool \<Rightarrow> bool \<Rightarrow> zoo_error \<Rightarrow> nat option \<Rightarrow> engine_state \<Rightarrow> (zoo_error \<times> engine_state) option" where
  "zoo_smb_routing_engine_prepare_rule cap omem lmem started rule_handle s =
     (case rule_handle of
        None \<Rightarrow> Some (ZOO_SMB_ERROR_INVALID_PARAM, s)
      | Some rule \<Rightarrow>
          (case es_rules s rule of
             None \<Rightarrow> None
           | Some r \<Rightarrow>
               let observer = create_transport_data_observer omem (Some HANDLE_TRANSPORT_INCOMING_DATA) rule;
                   obs = snd (zoo_smb_transport_add_data_observer cap lmem observer (es_transports s (er_transport r)))
               in Some (started, s\<lparr>es_rules := (es_rules s)(rule \<mapsto> r\<lparr>er_engine := True\<rparr>),
                                   es_transports := (es_transports s)(er_transport r := obs)\<rparr>)))"

text \<open>A transport tells its observers of a message, one after the other.\<close>

fun transport_deliver ::
  "nat option \<Rightarrow> (nat \<Rightarrow> ingress_env) \<Rightarrow> smb_msg \<Rightarrow> nat \<Rightarrow> (nat \<times> nat) list \<Rightarrow> engine_state \<Rightarrow> engine_state option" where
  "transport_deliver cfg env m i [] s = Some s"
| "transport_deliver cfg env m i (ob # obs) s =
     (case (if fst ob = HANDLE_TRANSPORT_INCOMING_DATA
            then handle_transport_incoming_data cfg (env i) (Some (snd ob)) (Some m) s else Some s) of
        None \<Rightarrow> None
      | Some s1 \<Rightarrow> transport_deliver cfg env m (i + 1) obs s1)"

section \<open>Egress\<close>

definition create_routing_context :: "bool \<Rightarrow> nat \<Rightarrow> u8 list option \<Rightarrow> nat \<Rightarrow> bool \<Rightarrow> routing_context option" where
  "create_routing_context mem rule receiver message delete_after_send =
     (if \<not> mem then None
      else Some \<lparr>rc_rule = rule, rc_receiver = receiver, rc_delete_message_flag = delete_after_send,
                 rc_message = message\<rparr>)"

definition enqueue_retry_limit :: nat where "enqueue_retry_limit = 16"

fun dispatch_rounds :: "nat \<Rightarrow> engine_state \<Rightarrow> engine_state option" where
  "dispatch_rounds 0 s = Some s"
| "dispatch_rounds (Suc n) s = (case engine_dispatch s of None \<Rightarrow> None | Some s1 \<Rightarrow> dispatch_rounds n s1)"

text \<open>
  The answers for routing a message: memory for the context, and for each attempt what the queue asks for and
  the number of rounds the dispatcher makes while the caller sleeps.
\<close>

record route_env =
  ro_context :: bool
  ro_enqueue :: "nat \<Rightarrow> enqueue_env"
  ro_sort :: "nat \<Rightarrow> sort_env"
  ro_rounds :: "nat \<Rightarrow> nat"

function route_attempts ::
  "route_env \<Rightarrow> nat \<Rightarrow> nat \<Rightarrow> routing_context \<Rightarrow> engine_state \<Rightarrow> (bool \<times> engine_state) option" where
  "route_attempts env attempt a context s =
     (if attempt < enqueue_retry_limit then
        (case zoo_queue_enqueue (queue_changed (es_dispatchers s) (ro_sort env attempt)) (ro_enqueue env attempt)
                (Some (eg_message_queue (es_engine s))) (Some a) (Some context) (Some ENGINE_HANDLE_ROUTE_MESSAGE)
                (eg_transport_manager (es_engine s)) of
           Some (True, Some q) \<Rightarrow> Some (True, s\<lparr>es_engine := (es_engine s)\<lparr>eg_message_queue := q\<rparr>\<rparr>)
         | Some (False, _) \<Rightarrow>
             (case (if attempt + 1 < enqueue_retry_limit then dispatch_rounds (ro_rounds env attempt) s else Some s) of
                None \<Rightarrow> None
              | Some s1 \<Rightarrow> route_attempts env (attempt + 1) a context s1)
         | _ \<Rightarrow> None)
      else Some (False, s))"
  by pat_completeness auto

termination by (relation "measure (\<lambda>(_, attempt, _). enqueue_retry_limit - attempt)") auto

declare route_attempts.simps [simp del]

definition zoo_smb_routing_engine_handle_route_message ::
  "route_env \<Rightarrow> nat option \<Rightarrow> nat option \<Rightarrow> u8 list option \<Rightarrow> bool \<Rightarrow> engine_state \<Rightarrow> (zoo_error \<times> engine_state) option" where
  "zoo_smb_routing_engine_handle_route_message env rule_handle message receiver delete_after_send s =
     (case rule_handle of
        None \<Rightarrow> None
      | Some rule \<Rightarrow>
          if es_rules s rule = None then None
          else (case message of
             None \<Rightarrow> Some (ZOO_SMB_ERROR_INVALID_PARAM, s)
           | Some a \<Rightarrow>
               if \<not> eg_is_running (es_engine s) then Some (ZOO_SMB_ERROR_NOT_INITIALIZED, s)
               else (case create_routing_context (ro_context env) rule receiver a delete_after_send of
                       None \<Rightarrow> Some (ZOO_SMB_ERROR_OUT_OF_MEMORY, s)
                     | Some context \<Rightarrow>
                         (case route_attempts env 0 a context s of
                            None \<Rightarrow> None
                          | Some (True, s1) \<Rightarrow> Some (ZOO_SMB_OK, s1)
                          | Some (False, s1) \<Rightarrow> Some (ZOO_SMB_ERROR_QUEUE_FULL, ingress_drop DROP_QUEUE_FULL s1)))))"

section \<open>Metrics\<close>

record engine_metrics =
  mx_received :: u64
  mx_enqueued :: u64
  mx_dequeued :: u64
  mx_dropped_total :: u64
  mx_drop_queue_full :: u64
  mx_drop_backpressure :: u64
  mx_drop_invalid_header :: u64
  mx_drop_security_policy :: u64
  mx_in_flight :: u32
  mx_high_watermark :: u32
  mx_low_watermark :: u32
  mx_backpressure_active :: bool

definition zoo_smb_routing_engine_get_metrics :: "routing_engine option \<Rightarrow> zoo_error \<times> engine_metrics option" where
  "zoo_smb_routing_engine_get_metrics engine =
     (case engine of
        None \<Rightarrow> (ZOO_SMB_ERROR_INVALID_PARAM, None)
      | Some e \<Rightarrow>
          (ZOO_SMB_OK,
           Some \<lparr>mx_received = ingress_received e, mx_enqueued = ingress_enqueued e, mx_dequeued = ingress_dequeued e,
                 mx_dropped_total = ingress_dropped_total e, mx_drop_queue_full = ingress_drop_queue_full e,
                 mx_drop_backpressure = ingress_drop_backpressure e,
                 mx_drop_invalid_header = ingress_drop_invalid_header e,
                 mx_drop_security_policy = ingress_drop_security_policy e, mx_in_flight = ingress_in_flight e,
                 mx_high_watermark = ingress_high_watermark e, mx_low_watermark = ingress_low_watermark e,
                 mx_backpressure_active = ingress_backpressure_active e\<rparr>))"

definition zoo_smb_routing_engine_reset_metrics :: "routing_engine option \<Rightarrow> zoo_error \<times> routing_engine option" where
  "zoo_smb_routing_engine_reset_metrics engine =
     (case engine of
        None \<Rightarrow> (ZOO_SMB_ERROR_INVALID_PARAM, None)
      | Some e \<Rightarrow>
          (ZOO_SMB_OK,
           Some (e\<lparr>ingress_received := 0, ingress_enqueued := 0, ingress_dequeued := 0, ingress_dropped_total := 0,
                   ingress_drop_queue_full := 0, ingress_drop_backpressure := 0, ingress_drop_invalid_header := 0,
                   ingress_drop_security_policy := 0\<rparr>)))"

end
