(* ===== verification/Routing_Engine_Safety.thy ===== *)
theory Routing_Engine_Safety
  imports Routing_Engine
begin

text \<open>
  What the routing engine promises: no operation follows a pointer to freed memory, the number of messages in
  flight is that of the incoming messages in the queue and stays within the high watermark, every accepted
  message reaches every observer of its type exactly once and in order, and the counters add up. And what it
  does not do: deliver after a restart, drop old messages, serve two rules on one transport.
\<close>

section \<open>The invariant\<close>

definition queued :: "engine_state \<Rightarrow> (nat, routing_context, engine_handler, nat) queue_node list" where
  "queued s = q_messages (eg_message_queue (es_engine s))"

definition is_ingress :: "(nat, routing_context, engine_handler, nat) queue_node \<Rightarrow> bool" where
  "is_ingress node \<longleftrightarrow> qn_handler node = PROCESS_MESSAGE_AND_NOTIFY_OBSERVER"

text \<open>A job can be carried out: its message is there, and its rule is.\<close>

definition job_ok :: "engine_state \<Rightarrow> (nat, routing_context, engine_handler, nat) queue_node \<Rightarrow> bool" where
  "job_ok s node \<longleftrightarrow> es_messages s (qn_msg node) \<noteq> None \<and>
     (if is_ingress node
      then (\<exists>rule r. qn_user_data node = Some rule \<and> es_rules s rule = Some r \<and> er_engine r)
      else (\<exists>ctx. qn_context node = Some ctx \<and> es_rules s (rc_rule ctx) \<noteq> None))"

definition engine_inv :: "engine_state \<Rightarrow> bool" where
  "engine_inv s \<longleftrightarrow>
     queue_ok (eg_message_queue (es_engine s)) \<and> quiet (es_dispatchers s) (eg_message_queue (es_engine s))
     \<and> es_dispatchers s (eg_message_dispatcher (es_engine s)) \<noteq> None
     \<and> max_queue_size (eg_message_queue (es_engine s)) < 2 ^ 32
     \<and> distinct (map qn_msg (queued s)) \<and> (\<forall>node \<in> set (queued s). job_ok s node)
     \<and> unat (ingress_in_flight (es_engine s)) = length (filter is_ingress (queued s))
     \<and> ingress_in_flight (es_engine s) \<le> ingress_high_watermark (es_engine s)"

lemma engine_invD:
  assumes "engine_inv s"
  shows "queue_ok (eg_message_queue (es_engine s))" "quiet (es_dispatchers s) (eg_message_queue (es_engine s))"
    "\<exists>dp. es_dispatchers s (eg_message_dispatcher (es_engine s)) = Some dp"
    "max_queue_size (eg_message_queue (es_engine s)) < 2 ^ 32"
    "distinct (map qn_msg (queued s))" "\<And>node. node \<in> set (queued s) \<Longrightarrow> job_ok s node"
    "unat (ingress_in_flight (es_engine s)) = length (filter is_ingress (queued s))"
    "ingress_in_flight (es_engine s) \<le> ingress_high_watermark (es_engine s)"
  using assms by (auto simp: engine_inv_def)

lemma fresh_not_queued:
  assumes "engine_inv s" and "es_messages s a = None"
  shows "a \<notin> qn_msg ` set (queued s)"
proof
  assume "a \<in> qn_msg ` set (queued s)"
  then obtain n where n: "n \<in> set (queued s)" "qn_msg n = a" by blast
  from engine_invD(6) [OF assms(1) n(1)] n(2) assms(2) show False by (simp add: job_ok_def)
qed

text \<open>Counters and outputs do not matter to the invariant.\<close>

lemma record_drop_keeps [simp]:
  "eg_message_queue (routing_engine_record_drop e reason) = eg_message_queue e"
  "eg_message_dispatcher (routing_engine_record_drop e reason) = eg_message_dispatcher e"
  "ingress_in_flight (routing_engine_record_drop e reason) = ingress_in_flight e"
  "ingress_high_watermark (routing_engine_record_drop e reason) = ingress_high_watermark e"
  "ingress_low_watermark (routing_engine_record_drop e reason) = ingress_low_watermark e"
  "eg_is_running (routing_engine_record_drop e reason) = eg_is_running e"
  "eg_config (routing_engine_record_drop e reason) = eg_config e"
  "telemetry_enabled (routing_engine_record_drop e reason) = telemetry_enabled e"
  "eg_transport_manager (routing_engine_record_drop e reason) = eg_transport_manager e"
  "ingress_received (routing_engine_record_drop e reason) = ingress_received e"
  "ingress_enqueued (routing_engine_record_drop e reason) = ingress_enqueued e"
  "ingress_dequeued (routing_engine_record_drop e reason) = ingress_dequeued e"
  by (cases reason; simp add: routing_engine_record_drop_def Let_def)+

lemma ingress_drop_keeps [simp]:
  "es_engine (ingress_drop reason s) = routing_engine_record_drop (es_engine s) reason"
  "es_dispatchers (ingress_drop reason s) = es_dispatchers s" "es_messages (ingress_drop reason s) = es_messages s"
  "es_rules (ingress_drop reason s) = es_rules s" "es_transports (ingress_drop reason s) = es_transports s"
  "es_outputs (ingress_drop reason s) = es_outputs s"
  by (simp_all add: ingress_drop_def)

lemma set_in_flight_keeps [simp]:
  "es_engine (set_in_flight n s) = (es_engine s)\<lparr>ingress_in_flight := n\<rparr>"
  "es_dispatchers (set_in_flight n s) = es_dispatchers s" "es_messages (set_in_flight n s) = es_messages s"
  "es_rules (set_in_flight n s) = es_rules s" "es_transports (set_in_flight n s) = es_transports s"
  "es_outputs (set_in_flight n s) = es_outputs s"
  by (simp_all add: set_in_flight_def)

text \<open>Two states the invariant cannot tell apart.\<close>

definition same_core :: "engine_state \<Rightarrow> engine_state \<Rightarrow> bool" where
  "same_core s t \<longleftrightarrow> eg_message_queue (es_engine t) = eg_message_queue (es_engine s)
     \<and> eg_message_dispatcher (es_engine t) = eg_message_dispatcher (es_engine s)
     \<and> ingress_in_flight (es_engine t) = ingress_in_flight (es_engine s)
     \<and> ingress_high_watermark (es_engine t) = ingress_high_watermark (es_engine s)
     \<and> es_dispatchers t = es_dispatchers s \<and> es_messages t = es_messages s \<and> es_rules t = es_rules s"

lemma job_ok_cong: "es_messages t = es_messages s \<Longrightarrow> es_rules t = es_rules s \<Longrightarrow> job_ok t node = job_ok s node"
  by (simp add: job_ok_def)

lemma engine_inv_core:
  assumes "engine_inv s" and "same_core s t"
  shows "engine_inv t"
proof -
  have "job_ok t = job_ok s" using assms(2) by (intro ext job_ok_cong) (simp_all add: same_core_def)
  moreover have "queued t = queued s" using assms(2) by (simp add: same_core_def queued_def)
  ultimately show ?thesis using assms by (simp add: engine_inv_def same_core_def)
qed

section \<open>Dispatch\<close>

text \<open>What a job produces when it is carried out.\<close>

definition job_output :: "engine_state \<Rightarrow> (nat, routing_context, engine_handler, nat) queue_node \<Rightarrow> engine_output list" where
  "job_output s node =
     (case es_messages s (qn_msg node) of
        None \<Rightarrow> []
      | Some m \<Rightarrow>
          if is_ingress node
          then (case qn_user_data node of
                  None \<Rightarrow> []
                | Some rule \<Rightarrow>
                    (case es_rules s rule of
                       None \<Rightarrow> []
                     | Some r \<Rightarrow> (case er_observers r of None \<Rightarrow> [] | Some obs \<Rightarrow> observer_calls obs m)))
          else (case qn_context node of
                  None \<Rightarrow> []
                | Some ctx \<Rightarrow>
                    (case es_rules s (rc_rule ctx) of None \<Rightarrow> [] | Some r \<Rightarrow> [Sent (er_transport r) m (rc_receiver ctx)])))"

text \<open>The message a job frees.\<close>

definition job_frees :: "(nat, routing_context, engine_handler, nat) queue_node \<Rightarrow> bool" where
  "job_frees node \<longleftrightarrow> is_ingress node \<or> (case qn_context node of None \<Rightarrow> False | Some ctx \<Rightarrow> rc_delete_message_flag ctx)"

definition active :: "engine_state \<Rightarrow> bool" where
  "active s \<longleftrightarrow> \<not> exit_flag (eg_message_queue (es_engine s))
     \<and> (\<exists>dp. es_dispatchers s (eg_message_dispatcher (es_engine s)) = Some dp \<and> dp_is_running dp)"

lemma dispatch_idle:
  assumes "es_dispatchers s (eg_message_dispatcher (es_engine s)) = Some dp" and "\<not> active s \<or> queued s = []"
  shows "engine_dispatch s = Some s"
  using assms
  by (auto simp: engine_dispatch_def dispatcher_round_def process_message_def zoo_queue_dequeue_def active_def queued_def
      split: list.splits)

text \<open>The fields a round changes, and how.\<close>

definition after_job :: "engine_state \<Rightarrow> (nat, routing_context, engine_handler, nat) queue_node \<Rightarrow>
    (nat, routing_context, engine_handler, nat) queue_node list \<Rightarrow> engine_state \<Rightarrow> bool" where
  "after_job s node rest t \<longleftrightarrow>
     eg_message_queue (es_engine t) = (eg_message_queue (es_engine s))\<lparr>q_messages := rest\<rparr>
     \<and> eg_message_dispatcher (es_engine t) = eg_message_dispatcher (es_engine s)
     \<and> ingress_in_flight (es_engine t) = (if is_ingress node then ingress_in_flight (es_engine s) - 1 else ingress_in_flight (es_engine s))
     \<and> ingress_high_watermark (es_engine t) = ingress_high_watermark (es_engine s)
     \<and> eg_is_running (es_engine t) = eg_is_running (es_engine s)
     \<and> telemetry_enabled (es_engine t) = telemetry_enabled (es_engine s)
     \<and> ingress_received (es_engine t) = ingress_received (es_engine s)
     \<and> ingress_enqueued (es_engine t) = ingress_enqueued (es_engine s)
     \<and> ingress_dropped_total (es_engine t) = ingress_dropped_total (es_engine s)
     \<and> ingress_dequeued (es_engine t) =
         (if is_ingress node \<and> telemetry_enabled (es_engine s) then ingress_dequeued (es_engine s) + 1 else ingress_dequeued (es_engine s))
     \<and> es_dispatchers t = es_dispatchers s \<and> es_rules t = es_rules s \<and> es_transports t = es_transports s
     \<and> es_messages t = (if job_frees node then (es_messages s)(qn_msg node := None) else es_messages s)
     \<and> es_outputs t = es_outputs s @ job_output s node"

lemma dispatch_ingress:
  assumes "active s" and "queued s = node # rest" and "job_ok s node" and "is_ingress node"
  shows "\<exists>t. engine_dispatch s = Some t \<and> after_job s node rest t"
proof -
  obtain rule r m where j: "qn_user_data node = Some rule" "es_rules s rule = Some r" "er_engine r"
      "es_messages s (qn_msg node) = Some m" "qn_handler node = PROCESS_MESSAGE_AND_NOTIFY_OBSERVER"
    using assms(3,4) by (auto simp: job_ok_def is_ingress_def)
  obtain dp where d: "es_dispatchers s (eg_message_dispatcher (es_engine s)) = Some dp" "dp_is_running dp"
      "\<not> exit_flag (eg_message_queue (es_engine s))" using assms(1) by (auto simp: active_def)
  let ?s1 = "s\<lparr>es_engine := (es_engine s)\<lparr>eg_message_queue := (eg_message_queue (es_engine s))\<lparr>q_messages := rest\<rparr>\<rparr>\<rparr>"
  have run: "engine_dispatch s = process_message_and_notify_observer (Some rule) (qn_msg node) ?s1"
    using d j assms(2)
    by (simp add: engine_dispatch_def dispatcher_round_def process_message_def zoo_queue_dequeue_def queued_def)
  show ?thesis
  proof (cases "er_observers r")
    case None
    then show ?thesis using run j assms(4)
      by (auto simp: process_message_and_notify_observer_def destroy_message_at_def after_job_def job_frees_def
          job_output_def count_dequeued_def Let_def)
  next
    case (Some obs)
    then show ?thesis using run j assms(4)
      by (auto simp: process_message_and_notify_observer_def destroy_message_at_def after_job_def job_frees_def
          job_output_def count_dequeued_def release_backpressure_def Let_def)
  qed
qed

lemma dispatch_route:
  assumes "active s" and "queued s = node # rest" and "job_ok s node" and "\<not> is_ingress node"
  shows "\<exists>t. engine_dispatch s = Some t \<and> after_job s node rest t"
proof -
  obtain ctx r m where j: "qn_context node = Some ctx" "es_rules s (rc_rule ctx) = Some r"
      "es_messages s (qn_msg node) = Some m" "qn_handler node = ENGINE_HANDLE_ROUTE_MESSAGE"
    using assms(3,4) by (cases "qn_handler node") (auto simp: job_ok_def is_ingress_def)
  obtain dp where d: "es_dispatchers s (eg_message_dispatcher (es_engine s)) = Some dp" "dp_is_running dp"
      "\<not> exit_flag (eg_message_queue (es_engine s))" using assms(1) by (auto simp: active_def)
  let ?s1 = "s\<lparr>es_engine := (es_engine s)\<lparr>eg_message_queue := (eg_message_queue (es_engine s))\<lparr>q_messages := rest\<rparr>\<rparr>\<rparr>"
  have run: "engine_dispatch s = engine_handle_route_message (qn_msg node) (Some ctx) ?s1"
    using d j assms(2)
    by (simp add: engine_dispatch_def dispatcher_round_def process_message_def zoo_queue_dequeue_def queued_def)
  show ?thesis using run j assms(4)
    by (auto simp: engine_handle_route_message_def destroy_message_at_def after_job_def job_frees_def job_output_def Let_def)
qed

lemma dispatch_job:
  assumes "active s" and "queued s = node # rest" and "job_ok s node"
  shows "\<exists>t. engine_dispatch s = Some t \<and> after_job s node rest t"
  using dispatch_ingress [OF assms] dispatch_route [OF assms] by blast

lemma other_message_kept:
  assumes "engine_inv s" and "queued s = node # rest" and "after_job s node rest t" and "n \<in> set rest"
  shows "es_messages t (qn_msg n) = es_messages s (qn_msg n)"
proof -
  have "qn_msg node \<notin> qn_msg ` set rest" using engine_invD(5) [OF assms(1)] assms(2) by simp
  then have "qn_msg n \<noteq> qn_msg node" using assms(4) by (metis imageI)
  then show ?thesis using assms(3) by (simp add: after_job_def)
qed

lemma after_job_rest:
  assumes "engine_inv s" and "queued s = node # rest" and "after_job s node rest t" and "n \<in> set rest"
  shows "job_ok t n = job_ok s n" and "job_output t n = job_output s n"
proof -
  have r: "es_rules t = es_rules s" using assms(3) by (simp add: after_job_def)
  note m = other_message_kept [OF assms]
  show "job_ok t n = job_ok s n" unfolding job_ok_def r m ..
  show "job_output t n = job_output s n" unfolding job_output_def r m ..
qed

lemma unat_pred: "0 < unat (x :: u32) \<Longrightarrow> unat (x - 1) = unat x - 1 \<and> x - 1 \<le> x"
proof -
  assume "0 < unat x"
  then have "x \<noteq> 0" by auto
  then show ?thesis using unat_minus_one [of x] by (simp add: word_le_nat_alt)
qed

lemma after_job_inv:
  assumes "engine_inv s" and "queued s = node # rest" and "after_job s node rest t"
  shows "engine_inv t"
proof -
  note inv = engine_invD [OF assms(1)]
  have qt: "queued t = rest" using assms(3) by (simp add: queued_def after_job_def)
  have q: "queue_ok (eg_message_queue (es_engine t))" "quiet (es_dispatchers t) (eg_message_queue (es_engine t))"
    "es_dispatchers t (eg_message_dispatcher (es_engine t)) \<noteq> None"
    "max_queue_size (eg_message_queue (es_engine t)) < 2 ^ 32"
    using inv(1-4) assms(2,3) by (auto simp: queue_ok_def quiet_def after_job_def queued_def)
  have jobs: "job_ok t n" if "n \<in> set rest" for n
    using after_job_rest(1) [OF assms that] inv(6) [of n] that assms(2) by simp
  have "unat (ingress_in_flight (es_engine t)) = length (filter is_ingress rest)
      \<and> ingress_in_flight (es_engine t) \<le> ingress_high_watermark (es_engine t)"
  proof (cases "is_ingress node")
    case True
    then have "0 < unat (ingress_in_flight (es_engine s))" using inv(7) assms(2) by simp
    from unat_pred [OF this] True inv(7,8) assms(2,3) show ?thesis by (auto simp: after_job_def)
  next
    case False
    then show ?thesis using inv(7,8) assms(2,3) by (simp add: after_job_def)
  qed
  then show ?thesis using q jobs inv(5) assms(2) by (simp add: engine_inv_def qt)
qed

text \<open>The outputs of the jobs in the queue, in their order.\<close>

definition pending :: "engine_state \<Rightarrow> engine_output list" where
  "pending s = concat (map (job_output s) (queued s))"

lemma after_job_pending:
  assumes "engine_inv s" and "queued s = node # rest" and "after_job s node rest t"
  shows "es_outputs t @ pending t = es_outputs s @ pending s"
proof -
  have m: "map (job_output t) rest = map (job_output s) rest"
    using after_job_rest(2) [OF assms] by simp
  have "queued t = rest" "es_outputs t = es_outputs s @ job_output s node"
    using assms(3) by (simp_all add: after_job_def queued_def)
  then show ?thesis using arg_cong [OF m, of concat] assms(2) by (simp add: pending_def del: map_eq_conv)
qed

lemma dispatch_safe:
  assumes "engine_inv s"
  shows "\<exists>t. engine_dispatch s = Some t \<and> engine_inv t \<and> es_outputs t @ pending t = es_outputs s @ pending s
     \<and> (active s \<longrightarrow> active t \<and> length (queued t) = length (queued s) - 1)
     \<and> eg_is_running (es_engine t) = eg_is_running (es_engine s) \<and> es_rules t = es_rules s
     \<and> set (map qn_msg (queued t)) \<subseteq> set (map qn_msg (queued s))
     \<and> (\<forall>a. es_messages t a = es_messages s a \<or> a \<in> set (map qn_msg (queued s)))"
proof (cases "active s \<and> queued s \<noteq> []")
  case True
  then obtain node rest where q: "queued s = node # rest" by (cases "queued s") auto
  obtain t where t: "engine_dispatch s = Some t" "after_job s node rest t"
    using dispatch_job [OF _ q] True engine_invD(6) [OF assms, of node] q by auto
  have "queued t = rest" "active t" using t(2) True by (auto simp: queued_def after_job_def active_def)
  with t after_job_inv [OF assms q t(2)] after_job_pending [OF assms q t(2)] q show ?thesis
    by (auto simp: after_job_def)
next
  case False
  obtain dp where "es_dispatchers s (eg_message_dispatcher (es_engine s)) = Some dp" using engine_invD(3) [OF assms] by blast
  from dispatch_idle [OF this] False assms show ?thesis by auto
qed

text \<open>Enough rounds empty the queue.\<close>

lemma dispatch_rounds_drain:
  assumes "engine_inv s" and "active s" and "length (queued s) \<le> n"
  shows "\<exists>t. dispatch_rounds n s = Some t \<and> engine_inv t \<and> active t \<and> queued t = []
     \<and> es_outputs t = es_outputs s @ pending s"
  using assms
proof (induction n arbitrary: s)
  case 0
  then show ?case by (simp add: pending_def)
next
  case (Suc n)
  obtain t where t: "engine_dispatch s = Some t" "engine_inv t" "es_outputs t @ pending t = es_outputs s @ pending s"
      "active t" "length (queued t) = length (queued s) - 1"
    using dispatch_safe [OF Suc.prems(1)] Suc.prems(2) by blast
  then have "length (queued t) \<le> n" using Suc.prems(3) by simp
  from Suc.IH [OF t(2,4) this] t(1,3) show ?case by auto
qed

lemma dispatch_rounds_safe:
  assumes "engine_inv s"
  shows "\<exists>t. dispatch_rounds n s = Some t \<and> engine_inv t \<and> es_outputs t @ pending t = es_outputs s @ pending s
     \<and> eg_is_running (es_engine t) = eg_is_running (es_engine s) \<and> es_rules t = es_rules s
     \<and> set (map qn_msg (queued t)) \<subseteq> set (map qn_msg (queued s))
     \<and> (\<forall>a. es_messages t a = es_messages s a \<or> a \<in> set (map qn_msg (queued s)))"
  using assms
proof (induction n arbitrary: s)
  case 0
  then show ?case by simp
next
  case (Suc n)
  obtain t where t: "engine_dispatch s = Some t" "engine_inv t" "es_outputs t @ pending t = es_outputs s @ pending s"
      "eg_is_running (es_engine t) = eg_is_running (es_engine s)" "es_rules t = es_rules s"
      "set (map qn_msg (queued t)) \<subseteq> set (map qn_msg (queued s))"
      "\<forall>a. es_messages t a = es_messages s a \<or> a \<in> set (map qn_msg (queued s))"
    using dispatch_safe [OF Suc.prems] by blast
  obtain u where u: "dispatch_rounds n t = Some u" "engine_inv u" "es_outputs u @ pending u = es_outputs t @ pending t"
      "eg_is_running (es_engine u) = eg_is_running (es_engine t)" "es_rules u = es_rules t"
      "set (map qn_msg (queued u)) \<subseteq> set (map qn_msg (queued t))"
      "\<forall>a. es_messages u a = es_messages t a \<or> a \<in> set (map qn_msg (queued t))"
    using Suc.IH [OF t(2)] by blast
  show ?case
  proof (intro exI [of _ u] conjI allI)
    show "dispatch_rounds (Suc n) s = Some u" using t(1) u(1) by simp
    show "set (map qn_msg (queued u)) \<subseteq> set (map qn_msg (queued s))" using t(6) u(6) by (rule subset_trans [rotated])
    show "es_messages u a = es_messages s a \<or> a \<in> set (map qn_msg (queued s))" for a
      using t(6) t(7) [rule_format, of a] u(7) [rule_format, of a] by auto
  qed (use t u in simp_all)
qed

section \<open>New jobs\<close>

definition after_add :: "engine_state \<Rightarrow> (nat, routing_context, engine_handler, nat) queue_node \<Rightarrow> engine_state \<Rightarrow> bool" where
  "after_add s node t \<longleftrightarrow>
     eg_message_queue (es_engine t) = (eg_message_queue (es_engine s))\<lparr>q_messages := queued s @ [node]\<rparr>
     \<and> eg_message_dispatcher (es_engine t) = eg_message_dispatcher (es_engine s)
     \<and> ingress_in_flight (es_engine t) = (if is_ingress node then ingress_in_flight (es_engine s) + 1 else ingress_in_flight (es_engine s))
     \<and> ingress_high_watermark (es_engine t) = ingress_high_watermark (es_engine s)
     \<and> es_dispatchers t = es_dispatchers s \<and> es_rules t = es_rules s
     \<and> (\<forall>n \<in> set (queued s). es_messages t (qn_msg n) = es_messages s (qn_msg n))"

lemma unat_succ: "x < (h :: u32) \<Longrightarrow> unat (x + 1) = Suc (unat x)"
  using unat_u32_lt [of h] by (simp add: unat_word_ariths word_less_nat_alt)

lemma add_job_inv:
  assumes "engine_inv s" and "after_add s node t" and "qn_msg node \<notin> qn_msg ` set (queued s)" and "job_ok t node"
    and "length (queued s) < max_queue_size (eg_message_queue (es_engine s))"
    and "is_ingress node \<Longrightarrow> ingress_in_flight (es_engine s) < ingress_high_watermark (es_engine s)"
  shows "engine_inv t"
proof -
  note inv = engine_invD [OF assms(1)]
  have qt: "queued t = queued s @ [node]" and rules: "es_rules t = es_rules s"
    using assms(2) by (simp_all add: queued_def after_add_def)
  have jobs: "job_ok t n" if "n \<in> set (queued s)" for n
  proof -
    have m: "es_messages t (qn_msg n) = es_messages s (qn_msg n)" using assms(2) that by (simp add: after_add_def)
    show ?thesis using inv(6) [OF that] unfolding job_ok_def rules m .
  qed
  have q: "queue_ok (eg_message_queue (es_engine t))" "quiet (es_dispatchers t) (eg_message_queue (es_engine t))"
    "es_dispatchers t (eg_message_dispatcher (es_engine t)) \<noteq> None" "max_queue_size (eg_message_queue (es_engine t)) < 2 ^ 32"
    using inv(1-4) assms(2,5) by (auto simp: queue_ok_def quiet_def after_add_def)
  have "unat (ingress_in_flight (es_engine t)) = length (filter is_ingress (queued t))
      \<and> ingress_in_flight (es_engine t) \<le> ingress_high_watermark (es_engine t)"
  proof (cases "is_ingress node")
    case True
    note lt = assms(6) [OF True]
    then have "unat (ingress_in_flight (es_engine s) + 1) = Suc (unat (ingress_in_flight (es_engine s)))"
      by (rule unat_succ)
    with lt True inv(7) assms(2) qt show ?thesis
      by (auto simp: after_add_def word_le_nat_alt word_less_nat_alt)
  next
    case False
    then show ?thesis using inv(7,8) assms(2) qt by (simp add: after_add_def)
  qed
  then show ?thesis using q jobs inv(5) assms(3,4) by (auto simp: engine_inv_def qt)
qed

lemma add_job_pending:
  assumes "after_add s node t"
  shows "pending t = pending s @ job_output t node"
proof -
  have qt: "queued t = queued s @ [node]" and rules: "es_rules t = es_rules s"
    using assms by (simp_all add: queued_def after_add_def)
  have "job_output t n = job_output s n" if "n \<in> set (queued s)" for n
  proof -
    have m: "es_messages t (qn_msg n) = es_messages s (qn_msg n)" using assms that by (simp add: after_add_def)
    show ?thesis unfolding job_output_def rules m ..
  qed
  then have "map (job_output t) (queued s) = map (job_output s) (queued s)" by simp
  from arg_cong [OF this, of concat] show ?thesis by (simp add: pending_def qt del: map_eq_conv)
qed

section \<open>Incoming messages\<close>

text \<open>The exact condition under which an incoming message is put into the queue.\<close>

definition ingress_taken :: "nat option \<Rightarrow> ingress_env \<Rightarrow> engine_rule \<Rightarrow> smb_msg \<Rightarrow> engine_state \<Rightarrow> bool" where
  "ingress_taken cfg env r m s \<longleftrightarrow>
     er_engine r \<and> eg_is_running (es_engine s) \<and> ingress_check cfg (es_engine s) (ie_now env) (header m) = None
     \<and> ingress_in_flight (es_engine s) < ingress_high_watermark (es_engine s)
     \<and> ie_message env \<noteq> None \<and> fst (zoo_smb_copy_message (ie_payload env) (Some m) (zoo_smb_default_message True))
     \<and> queue_accepts (ie_enqueue env) (eg_message_queue (es_engine s))"

definition message_copy :: "smb_msg \<Rightarrow> smb_msg" where
  "message_copy m = \<lparr>header = header m,
     payload = (if payload_size (header m) = 0 then None else map_option (take (unat (payload_size (header m)))) (payload m))\<rparr>"

lemma copy_message_result:
  "fst (zoo_smb_copy_message ok (Some m) (zoo_smb_default_message True)) \<Longrightarrow>
   zoo_smb_copy_message ok (Some m) (zoo_smb_default_message True) = (True, Some (message_copy m))"
  by (auto simp: zoo_smb_copy_message_def zoo_smb_default_message_def smb_message_alloc_def sizeof_msg_def sizeof_header_def
      message_copy_def Let_def unat_eq_zero split: option.splits if_splits)

lemma ingress_check_received [simp]:
  "ingress_check cfg (e\<lparr>ingress_received := n\<rparr>) now h = ingress_check cfg e now h"
  by (simp add: ingress_check_def)

lemma ingress_enqueue_accepted:
  assumes "queue_ok (eg_message_queue (es_engine s))" and "quiet (es_dispatchers s) (eg_message_queue (es_engine s))"
    and "queue_accepts (ie_enqueue env) (eg_message_queue (es_engine s))"
  shows "ingress_enqueue env rule a s =
    Some (let e = (es_engine s)\<lparr>eg_message_queue := (eg_message_queue (es_engine s))\<lparr>q_messages :=
            q_messages (eg_message_queue (es_engine s)) @ [queue_entry (ie_enqueue env) a None PROCESS_MESSAGE_AND_NOTIFY_OBSERVER (Some rule)]\<rparr>\<rparr>
          in s\<lparr>es_engine := if telemetry_enabled e then e\<lparr>ingress_enqueued := ingress_enqueued e + 1\<rparr> else e\<rparr>)"
  using assms by (simp add: ingress_enqueue_def zoo_queue_enqueue_quiet Let_def)

lemma ingress_enqueue_refused:
  assumes "queue_ok (eg_message_queue (es_engine s))" and "quiet (es_dispatchers s) (eg_message_queue (es_engine s))"
    and "\<not> queue_accepts (ie_enqueue env) (eg_message_queue (es_engine s))"
  shows "ingress_enqueue env rule a s =
    destroy_message_at a (ingress_drop DROP_QUEUE_FULL (set_in_flight (ingress_in_flight (es_engine s) - 1) s))"
  using assms by (simp add: ingress_enqueue_def zoo_queue_enqueue_quiet)

definition count_received :: "engine_state \<Rightarrow> engine_state" where
  "count_received s = s\<lparr>es_engine := if telemetry_enabled (es_engine s)
     then (es_engine s)\<lparr>ingress_received := ingress_received (es_engine s) + 1\<rparr> else es_engine s\<rparr>"

lemma count_received_keeps [simp]:
  "eg_message_queue (es_engine (count_received s)) = eg_message_queue (es_engine s)"
  "eg_message_dispatcher (es_engine (count_received s)) = eg_message_dispatcher (es_engine s)"
  "ingress_in_flight (es_engine (count_received s)) = ingress_in_flight (es_engine s)"
  "ingress_high_watermark (es_engine (count_received s)) = ingress_high_watermark (es_engine s)"
  "eg_is_running (es_engine (count_received s)) = eg_is_running (es_engine s)"
  "telemetry_enabled (es_engine (count_received s)) = telemetry_enabled (es_engine s)"
  "ingress_enqueued (es_engine (count_received s)) = ingress_enqueued (es_engine s)"
  "ingress_dequeued (es_engine (count_received s)) = ingress_dequeued (es_engine s)"
  "ingress_dropped_total (es_engine (count_received s)) = ingress_dropped_total (es_engine s)"
  "es_dispatchers (count_received s) = es_dispatchers s" "es_messages (count_received s) = es_messages s"
  "es_rules (count_received s) = es_rules s" "es_transports (count_received s) = es_transports s"
  "es_outputs (count_received s) = es_outputs s"
  by (simp_all add: count_received_def)

lemma incoming_unfold:
  assumes "es_rules s rule = Some r" and "er_engine r" and "eg_is_running (es_engine s)"
  shows "handle_transport_incoming_data cfg env (Some rule) (Some m) s =
    (case ingress_check cfg (es_engine s) (ie_now env) (header m) of
       Some reason \<Rightarrow> Some (ingress_drop reason (count_received s))
     | None \<Rightarrow>
         if ingress_in_flight (es_engine s) + 1 > ingress_high_watermark (es_engine s)
         then Some (let s2 = ingress_drop DROP_BACKPRESSURE (count_received s)
                    in s2\<lparr>es_engine := (es_engine s2)\<lparr>ingress_backpressure_active := True\<rparr>\<rparr>)
         else ingress_accept env rule m (set_in_flight (ingress_in_flight (es_engine s) + 1) (count_received s)))"
  using assms by (simp add: handle_transport_incoming_data_def count_received_def Let_def split: option.splits)

lemma incoming_taken:
  assumes "engine_inv s" and "es_rules s rule = Some r" and "ingress_taken cfg env r m s" and "ie_message env = Some a"
    and "es_messages s a = None"
  shows "\<exists>t. handle_transport_incoming_data cfg env (Some rule) (Some m) s = Some t
     \<and> after_add s (queue_entry (ie_enqueue env) a None PROCESS_MESSAGE_AND_NOTIFY_OBSERVER (Some rule)) t
     \<and> es_messages t = (es_messages s)(a \<mapsto> message_copy m) \<and> es_outputs t = es_outputs s \<and> es_transports t = es_transports s
     \<and> eg_is_running (es_engine t) = eg_is_running (es_engine s) \<and> telemetry_enabled (es_engine t) = telemetry_enabled (es_engine s)
     \<and> (telemetry_enabled (es_engine s) \<longrightarrow>
          ingress_received (es_engine t) = ingress_received (es_engine s) + 1
          \<and> ingress_enqueued (es_engine t) = ingress_enqueued (es_engine s) + 1)
     \<and> ingress_dequeued (es_engine t) = ingress_dequeued (es_engine s)
     \<and> ingress_dropped_total (es_engine t) = ingress_dropped_total (es_engine s)"
proof -
  note inv = engine_invD [OF assms(1)]
  have tk: "er_engine r" "eg_is_running (es_engine s)" "ingress_check cfg (es_engine s) (ie_now env) (header m) = None"
      "ingress_in_flight (es_engine s) < ingress_high_watermark (es_engine s)"
      "queue_accepts (ie_enqueue env) (eg_message_queue (es_engine s))"
      "zoo_smb_copy_message (ie_payload env) (Some m) (zoo_smb_default_message True) = (True, Some (message_copy m))"
    using assms(3) copy_message_result by (auto simp: ingress_taken_def)
  have le: "\<not> ingress_in_flight (es_engine s) + 1 > ingress_high_watermark (es_engine s)"
    using tk(4) unat_succ [OF tk(4)] by (simp add: word_less_nat_alt)
  let ?s2 = "(set_in_flight (ingress_in_flight (es_engine s) + 1) (count_received s))\<lparr>es_messages := (es_messages s)(a \<mapsto> message_copy m)\<rparr>"
  have run: "handle_transport_incoming_data cfg env (Some rule) (Some m) s = ingress_enqueue env rule a ?s2"
    using incoming_unfold [OF assms(2) tk(1,2)] tk(3,6) le assms(4) by (simp add: ingress_accept_def)
  have acc: "ingress_enqueue env rule a ?s2 = Some (let e = (es_engine ?s2)\<lparr>eg_message_queue := (eg_message_queue (es_engine ?s2))\<lparr>q_messages :=
            q_messages (eg_message_queue (es_engine ?s2)) @ [queue_entry (ie_enqueue env) a None PROCESS_MESSAGE_AND_NOTIFY_OBSERVER (Some rule)]\<rparr>\<rparr>
          in ?s2\<lparr>es_engine := if telemetry_enabled e then e\<lparr>ingress_enqueued := ingress_enqueued e + 1\<rparr> else e\<rparr>)"
    by (rule ingress_enqueue_accepted) (use inv(1,2) tk(5) in simp_all)
  have fresh: "\<forall>n \<in> set (queued s). qn_msg n \<noteq> a" using fresh_not_queued [OF assms(1,5)] by blast
  show ?thesis unfolding run acc using fresh
    by (simp add: after_add_def queued_def is_ingress_def queue_entry_def Let_def count_received_def)
qed

lemma accept_refused:
  assumes "queue_ok (eg_message_queue (es_engine s))" and "quiet (es_dispatchers s) (eg_message_queue (es_engine s))"
    and "\<not> (ie_message env \<noteq> None \<and> fst (zoo_smb_copy_message (ie_payload env) (Some m) (zoo_smb_default_message True))
            \<and> queue_accepts (ie_enqueue env) (eg_message_queue (es_engine s)))"
    and "\<And>a. ie_message env = Some a \<Longrightarrow> es_messages s a = None"
  shows "\<exists>reason. ingress_accept env rule m s =
    Some (ingress_drop reason (set_in_flight (ingress_in_flight (es_engine s) - 1) s))"
proof (cases "ie_message env")
  case None
  then show ?thesis by (auto simp: ingress_accept_def)
next
  case (Some a)
  show ?thesis
  proof (cases "fst (zoo_smb_copy_message (ie_payload env) (Some m) (zoo_smb_default_message True))")
    case False
    then show ?thesis using Some by (auto simp: ingress_accept_def split: prod.splits bool.splits)
  next
    case True
    let ?s = "s\<lparr>es_messages := (es_messages s)(a \<mapsto> message_copy m)\<rparr>"
    have full: "\<not> queue_accepts (ie_enqueue env) (eg_message_queue (es_engine s))" using True Some assms(3) by simp
    have "ingress_accept env rule m s = ingress_enqueue env rule a ?s"
      using Some copy_message_result [OF True] by (simp add: ingress_accept_def)
    also have "\<dots> = destroy_message_at a (ingress_drop DROP_QUEUE_FULL (set_in_flight (ingress_in_flight (es_engine ?s) - 1) ?s))"
      by (rule ingress_enqueue_refused) (use assms(1,2) full in simp_all)
    also have "\<dots> = Some (ingress_drop DROP_QUEUE_FULL (set_in_flight (ingress_in_flight (es_engine s) - 1) s))"
      using assms(4) [OF Some]
      by (simp add: destroy_message_at_def ingress_drop_def set_in_flight_def fun_upd_idem)
    finally show ?thesis by blast
  qed
qed

text \<open>The count cannot wrap around while the queue has room.\<close>

lemma in_flight_below:
  assumes "engine_inv s" and "\<not> ingress_in_flight (es_engine s) + 1 > ingress_high_watermark (es_engine s)"
    and "queue_accepts env (eg_message_queue (es_engine s))"
  shows "ingress_in_flight (es_engine s) < ingress_high_watermark (es_engine s)"
proof -
  note inv = engine_invD [OF assms(1)]
  have "length (filter is_ingress (queued s)) \<le> length (queued s)" by simp
  also have "\<dots> < max_queue_size (eg_message_queue (es_engine s))" using assms(3) by (simp add: queue_accepts_def queued_def)
  finally have "unat (ingress_in_flight (es_engine s)) + 1 < 2 ^ 32" using inv(4,7) by linarith
  then have "unat (ingress_in_flight (es_engine s) + 1) = Suc (unat (ingress_in_flight (es_engine s)))"
    by (simp add: unat_word_ariths)
  then show ?thesis using assms(2) by (simp add: word_less_nat_alt)
qed

lemma incoming_refused:
  assumes "engine_inv s" and "es_rules s rule = Some r" and "\<not> ingress_taken cfg env r m s"
    and "\<And>a. ie_message env = Some a \<Longrightarrow> es_messages s a = None"
  shows "\<exists>t. handle_transport_incoming_data cfg env (Some rule) (Some m) s = Some t \<and> same_core s t
     \<and> es_outputs t = es_outputs s \<and> es_transports t = es_transports s
     \<and> eg_is_running (es_engine t) = eg_is_running (es_engine s) \<and> telemetry_enabled (es_engine t) = telemetry_enabled (es_engine s)
     \<and> ingress_enqueued (es_engine t) = ingress_enqueued (es_engine s)
     \<and> ingress_dequeued (es_engine t) = ingress_dequeued (es_engine s)
     \<and> ingress_received (es_engine t) - ingress_dropped_total (es_engine t) =
        ingress_received (es_engine s) - ingress_dropped_total (es_engine s)"
proof (cases "er_engine r \<and> eg_is_running (es_engine s)")
  case False
  then show ?thesis using assms(2) by (auto simp: handle_transport_incoming_data_def same_core_def)
next
  case True
  note inv = engine_invD [OF assms(1)]
  note run = incoming_unfold [OF assms(2), of cfg env m]
  have total: "ingress_dropped_total (routing_engine_record_drop e reason) =
      (if telemetry_enabled e then ingress_dropped_total e + 1 else ingress_dropped_total e)" for e reason
    by (cases reason) (simp_all add: routing_engine_record_drop_def Let_def)
  have rcv: "ingress_received (es_engine (count_received s)) =
      (if telemetry_enabled (es_engine s) then ingress_received (es_engine s) + 1 else ingress_received (es_engine s))"
    by (simp add: count_received_def)
  show ?thesis
  proof (cases "ingress_check cfg (es_engine s) (ie_now env) (header m)")
    case (Some reason)
    then show ?thesis using True run by (simp add: same_core_def total rcv)
  next
    case None
    show ?thesis
    proof (cases "ingress_in_flight (es_engine s) + 1 > ingress_high_watermark (es_engine s)")
      case True': True
      then show ?thesis using True run None by (simp add: same_core_def total rcv Let_def)
    next
      case le: False
      define s1 where "s1 = set_in_flight (ingress_in_flight (es_engine s) + 1) (count_received s)"
      have run1: "handle_transport_incoming_data cfg env (Some rule) (Some m) s = ingress_accept env rule m s1"
        using True run None le by (simp add: s1_def)
      have core1: "eg_message_queue (es_engine s1) = eg_message_queue (es_engine s)" "es_dispatchers s1 = es_dispatchers s"
          "es_messages s1 = es_messages s" by (simp_all add: s1_def)
      have no: "\<not> (ie_message env \<noteq> None \<and> fst (zoo_smb_copy_message (ie_payload env) (Some m) (zoo_smb_default_message True))
            \<and> queue_accepts (ie_enqueue env) (eg_message_queue (es_engine s1)))"
        using assms(3) True None in_flight_below [OF assms(1) le] by (auto simp: ingress_taken_def core1)
      obtain reason where "ingress_accept env rule m s1 =
          Some (ingress_drop reason (set_in_flight (ingress_in_flight (es_engine s1) - 1) s1))"
        using accept_refused [OF _ _ no, of rule] inv(1,2) assms(4) core1 by auto
      then show ?thesis using run1 by (simp add: s1_def same_core_def total rcv)
    qed
  qed
qed

section \<open>The counters\<close>

text \<open>
  With telemetry on: every incoming message that was counted was either enqueued or dropped, except that
  routed messages refused by the queue (there are \<open>n\<close> of them) are counted as dropped without having been
  received; and every enqueued message was dequeued or is in flight.
\<close>

definition balanced :: "nat \<Rightarrow> routing_engine \<Rightarrow> bool" where
  "balanced n e \<longleftrightarrow> telemetry_enabled e \<longrightarrow>
     ingress_received e + of_nat n = ingress_enqueued e + ingress_dropped_total e
     \<and> ingress_enqueued e = ingress_dequeued e + ucast (ingress_in_flight e)"

lemma balance_shift:
  assumes "r' - d' = r - (d :: u64)" and "r + n = e + d"
  shows "r' + n = e + d'"
proof -
  have "r' = r - d + d'" using assms(1) by (simp add: diff_eq_eq)
  then have "r' + n = (r + n) - d + d'" by (simp add: algebra_simps)
  then show ?thesis using assms(2) by simp
qed

lemma ucast_pred: "0 < unat (x :: u32) \<Longrightarrow> (ucast (x - 1) :: u64) + 1 = ucast x"
proof -
  assume pos: "0 < unat x"
  have "(ucast y :: u64) = of_nat (unat y)" for y :: u32 by simp
  moreover have "unat (x - 1) + 1 = unat x" using unat_pred [OF pos] pos by simp
  ultimately show ?thesis by (metis of_nat_1 of_nat_add)
qed

lemma ucast_succ: "x < (h :: u32) \<Longrightarrow> (ucast (x + 1) :: u64) = ucast x + 1"
proof -
  assume lt: "x < h"
  have "(ucast y :: u64) = of_nat (unat y)" for y :: u32 by simp
  then show ?thesis using unat_succ [OF lt] by (metis of_nat_Suc add.commute)
qed

lemma after_job_balanced:
  assumes "engine_inv s" and "queued s = node # rest" and "after_job s node rest t" and "balanced n (es_engine s)"
  shows "balanced n (es_engine t)"
proof (cases "is_ingress node")
  case True
  then have pos: "0 < unat (ingress_in_flight (es_engine s))" using engine_invD(7) [OF assms(1)] assms(2) by simp
  have "ingress_dequeued (es_engine s) + 1 + ucast (ingress_in_flight (es_engine s) - 1) =
      ingress_dequeued (es_engine s) + ucast (ingress_in_flight (es_engine s))"
    unfolding ucast_pred [OF pos, symmetric] by (simp add: add.commute)
  then show ?thesis using True assms(3,4) by (simp add: balanced_def after_job_def)
next
  case False
  then show ?thesis using assms(3,4) by (simp add: balanced_def after_job_def)
qed

lemma dispatch_balanced:
  assumes "engine_inv s" and "engine_dispatch s = Some t" and "balanced n (es_engine s)"
  shows "balanced n (es_engine t)"
proof (cases "active s \<and> queued s \<noteq> []")
  case True
  then obtain node rest where q: "queued s = node # rest" by (cases "queued s") auto
  obtain t' where "engine_dispatch s = Some t'" "after_job s node rest t'"
    using dispatch_job [OF _ q] True engine_invD(6) [OF assms(1), of node] q by auto
  with after_job_balanced [OF assms(1) q] assms(2,3) show ?thesis by auto
next
  case False
  obtain dp where "es_dispatchers s (eg_message_dispatcher (es_engine s)) = Some dp" using engine_invD(3) [OF assms(1)] by blast
  from dispatch_idle [OF this] False assms show ?thesis by auto
qed

lemma dispatch_rounds_balanced:
  "engine_inv s \<Longrightarrow> dispatch_rounds k s = Some t \<Longrightarrow> balanced n (es_engine s) \<Longrightarrow> balanced n (es_engine t)"
proof (induction k arbitrary: s)
  case (Suc k)
  obtain u where u: "engine_dispatch s = Some u" "engine_inv u" using dispatch_safe [OF Suc.prems(1)] by blast
  then have "dispatch_rounds k u = Some t" using Suc.prems(2) by simp
  from Suc.IH [OF u(2) this dispatch_balanced [OF Suc.prems(1) u(1) Suc.prems(3)]] show ?case .
qed simp

section \<open>Routed messages\<close>

definition route_output :: "engine_state \<Rightarrow> nat \<Rightarrow> routing_context \<Rightarrow> engine_output list" where
  "route_output s a ctx =
     (case (es_messages s a, es_rules s (rc_rule ctx)) of
        (Some m, Some r) \<Rightarrow> [Sent (er_transport r) m (rc_receiver ctx)]
      | _ \<Rightarrow> [])"

lemma job_output_route:
  "job_output s (queue_entry env a (Some ctx) ENGINE_HANDLE_ROUTE_MESSAGE u) = route_output s a ctx"
  by (auto simp: job_output_def route_output_def is_ingress_def queue_entry_def split: option.splits)

lemma route_output_cong:
  "es_messages t a = es_messages s a \<Longrightarrow> es_rules t = es_rules s \<Longrightarrow> route_output t a ctx = route_output s a ctx"
  by (simp add: route_output_def)

text \<open>While the caller sleeps the dispatcher may work; a message that is not in the queue is left alone.\<close>

lemma pause_safe:
  assumes "engine_inv s" and "balanced n (es_engine s)"
  shows "\<exists>u. (if c then dispatch_rounds k s else Some s) = Some u \<and> engine_inv u
     \<and> es_outputs u @ pending u = es_outputs s @ pending s \<and> balanced n (es_engine u)
     \<and> eg_is_running (es_engine u) = eg_is_running (es_engine s) \<and> es_rules u = es_rules s
     \<and> (\<forall>a. a \<notin> qn_msg ` set (queued s) \<longrightarrow> a \<notin> qn_msg ` set (queued u) \<and> es_messages u a = es_messages s a)"
proof (cases c)
  case True
  obtain v where v: "dispatch_rounds k s = Some v" "engine_inv v" "es_outputs v @ pending v = es_outputs s @ pending s"
    "eg_is_running (es_engine v) = eg_is_running (es_engine s)" "es_rules v = es_rules s"
    "set (map qn_msg (queued v)) \<subseteq> set (map qn_msg (queued s))"
    "\<forall>a. es_messages v a = es_messages s a \<or> a \<in> set (map qn_msg (queued s))"
    using dispatch_rounds_safe [OF assms(1)] by blast
  have "a \<notin> qn_msg ` set (queued v) \<and> es_messages v a = es_messages s a" if "a \<notin> qn_msg ` set (queued s)" for a
    using that v(6) v(7) [rule_format, of a] by auto
  with v True dispatch_rounds_balanced [OF assms(1) v(1) assms(2)] show ?thesis by auto
next
  case False
  then show ?thesis using assms by auto
qed

lemma route_enqueue_safe:
  assumes "engine_inv s" and "es_messages s a \<noteq> None" and "a \<notin> qn_msg ` set (queued s)"
    and "es_rules s (rc_rule ctx) \<noteq> None" and "queue_accepts env (eg_message_queue (es_engine s))"
    and "t = s\<lparr>es_engine := (es_engine s)\<lparr>eg_message_queue := (eg_message_queue (es_engine s))\<lparr>q_messages :=
          q_messages (eg_message_queue (es_engine s)) @ [queue_entry env a (Some ctx) ENGINE_HANDLE_ROUTE_MESSAGE u]\<rparr>\<rparr>\<rparr>"
  shows "engine_inv t" and "pending t = pending s @ route_output s a ctx"
proof -
  have add: "after_add s (queue_entry env a (Some ctx) ENGINE_HANDLE_ROUTE_MESSAGE u) t"
    by (simp add: after_add_def assms(6) queued_def is_ingress_def queue_entry_def)
  show "engine_inv t"
    by (rule add_job_inv [OF assms(1) add])
      (use assms(2-5) in \<open>simp_all add: queue_entry_def job_ok_def assms(6) is_ingress_def queue_accepts_def queued_def\<close>)
  have "route_output t a ctx = route_output s a ctx" by (rule route_output_cong) (simp_all add: assms(6))
  then show "pending t = pending s @ route_output s a ctx"
    using add_job_pending [OF add] by (simp add: job_output_route)
qed

lemma route_attempts_safe:
  assumes "engine_inv s" and "es_messages s a \<noteq> None" and "a \<notin> qn_msg ` set (queued s)"
    and "es_rules s (rc_rule ctx) \<noteq> None" and "balanced n (es_engine s)"
  shows "\<exists>ok t. route_attempts env attempt a ctx s = Some (ok, t) \<and> engine_inv t
     \<and> es_outputs t @ pending t = es_outputs s @ pending s @ (if ok then route_output s a ctx else [])
     \<and> balanced n (es_engine t) \<and> eg_is_running (es_engine t) = eg_is_running (es_engine s) \<and> es_rules t = es_rules s"
  using assms
proof (induction "enqueue_retry_limit - attempt" arbitrary: attempt s)
  case 0
  then show ?case by (subst route_attempts.simps) auto
next
  case (Suc k)
  note inv = engine_invD [OF Suc.prems(1)]
  have att: "attempt < enqueue_retry_limit" using Suc.hyps(2) by simp
  show ?case
  proof (cases "queue_accepts (ro_enqueue env attempt) (eg_message_queue (es_engine s))")
    case True
    define t where "t = s\<lparr>es_engine := (es_engine s)\<lparr>eg_message_queue := (eg_message_queue (es_engine s))\<lparr>q_messages :=
        q_messages (eg_message_queue (es_engine s)) @ [queue_entry (ro_enqueue env attempt) a (Some ctx)
          ENGINE_HANDLE_ROUTE_MESSAGE (eg_transport_manager (es_engine s))]\<rparr>\<rparr>\<rparr>"
    have run: "route_attempts env attempt a ctx s = Some (True, t)"
      using att True by (subst route_attempts.simps) (simp add: zoo_queue_enqueue_quiet [OF inv(1,2)] t_def)
    have "balanced n (es_engine t)" using Suc.prems(5) by (simp add: balanced_def t_def)
    with run route_enqueue_safe [OF Suc.prems(1-4) True t_def] show ?thesis by (auto simp: t_def)
  next
    case False
    obtain u where u: "(if attempt + 1 < enqueue_retry_limit then dispatch_rounds (ro_rounds env attempt) s else Some s) = Some u"
        "engine_inv u" "es_outputs u @ pending u = es_outputs s @ pending s" "balanced n (es_engine u)"
        "eg_is_running (es_engine u) = eg_is_running (es_engine s)" "es_rules u = es_rules s"
        "a \<notin> qn_msg ` set (queued u)" "es_messages u a = es_messages s a"
      using pause_safe [OF Suc.prems(1,5), of "attempt + 1 < enqueue_retry_limit" "ro_rounds env attempt"] Suc.prems(3) by blast
    have run: "route_attempts env attempt a ctx s = route_attempts env (attempt + 1) a ctx u"
      using att False u(1) by (subst route_attempts.simps) (simp add: zoo_queue_enqueue_quiet [OF inv(1,2)])
    have "k = enqueue_retry_limit - (attempt + 1)" using Suc.hyps(2) by simp
    moreover have "es_messages u a \<noteq> None" "es_rules u (rc_rule ctx) \<noteq> None" using u(6,8) Suc.prems(2,4) by simp_all
    ultimately obtain ok t where t: "route_attempts env (attempt + 1) a ctx u = Some (ok, t)" "engine_inv t"
        "es_outputs t @ pending t = es_outputs u @ pending u @ (if ok then route_output u a ctx else [])"
        "balanced n (es_engine t)" "eg_is_running (es_engine t) = eg_is_running (es_engine u)" "es_rules t = es_rules u"
      using Suc.hyps(1) [OF _ u(2) _ u(7) _ u(4)] by blast
    have "es_outputs t @ pending t = (es_outputs u @ pending u) @ (if ok then route_output s a ctx else [])"
      using t(3) route_output_cong [OF u(8,6)] by simp
    then have "es_outputs t @ pending t = es_outputs s @ pending s @ (if ok then route_output s a ctx else [])"
      unfolding u(3) by simp
    with t u(5,6) run show ?thesis by auto
  qed
qed

section \<open>Runs\<close>

datatype engine_op =
  Incoming "nat option" ingress_env nat smb_msg
| Dispatch
| Route route_env nat nat "u8 list option" bool
| StartEngine "nat \<Rightarrow> bool"
| TaskBegins
| StopEngine
| PrepareRule nat bool bool zoo_error nat

text \<open>An operation of the engine; the number is 1 if a routed message was refused by the queue.\<close>

fun engine_op_step :: "engine_op \<Rightarrow> engine_state \<Rightarrow> (nat \<times> engine_state) option" where
  "engine_op_step (Incoming cfg env rule m) s =
     map_option (\<lambda>t. (0, t)) (handle_transport_incoming_data cfg env (Some rule) (Some m) s)"
| "engine_op_step Dispatch s = map_option (\<lambda>t. (0, t)) (engine_dispatch s)"
| "engine_op_step (Route env rule a receiver del) s =
     map_option (\<lambda>(r, t). (if r = ZOO_SMB_ERROR_QUEUE_FULL then 1 else 0, t))
       (zoo_smb_routing_engine_handle_route_message env (Some rule) (Some a) receiver del s)"
| "engine_op_step (StartEngine submit) s = Some (0, zoo_smb_start_routing_engine submit s)"
| "engine_op_step TaskBegins s = map_option (\<lambda>t. (0, t)) (engine_task s)"
| "engine_op_step StopEngine s = map_option (\<lambda>t. (0, t)) (zoo_smb_stop_routing_engine s)"
| "engine_op_step (PrepareRule cap omem lmem started rule) s =
     map_option (\<lambda>(r, t). (0, t)) (zoo_smb_routing_engine_prepare_rule cap omem lmem started (Some rule) s)"

text \<open>
  What callers and allocator keep to: rules exist while they are used, the allocator gives unused addresses,
  and a message that is routed exists and is not already in the queue.
\<close>

fun engine_op_ok :: "engine_op \<Rightarrow> engine_state \<Rightarrow> bool" where
  "engine_op_ok (Incoming cfg env rule m) s \<longleftrightarrow>
     es_rules s rule \<noteq> None \<and> (case ie_message env of None \<Rightarrow> True | Some a \<Rightarrow> es_messages s a = None)"
| "engine_op_ok (Route env rule a receiver del) s \<longleftrightarrow>
     es_rules s rule \<noteq> None \<and> es_messages s a \<noteq> None \<and> a \<notin> qn_msg ` set (queued s)"
| "engine_op_ok (PrepareRule cap omem lmem started rule) s \<longleftrightarrow> es_rules s rule \<noteq> None"
| "engine_op_ok op s \<longleftrightarrow> True"

inductive engine_run :: "engine_state \<Rightarrow> nat \<Rightarrow> engine_state \<Rightarrow> bool" for s :: engine_state where
  start: "engine_run s 0 s"
| step: "engine_run s n t \<Longrightarrow> engine_op_ok op t \<Longrightarrow> engine_op_step op t = Some (k, u) \<Longrightarrow> engine_run s (n + k) u"

lemma incoming_safe:
  assumes "engine_inv s" and "es_rules s rule = Some r" and "\<And>a. ie_message env = Some a \<Longrightarrow> es_messages s a = None"
    and "balanced n (es_engine s)"
  shows "\<exists>t. handle_transport_incoming_data cfg env (Some rule) (Some m) s = Some t \<and> engine_inv t
     \<and> balanced n (es_engine t) \<and> es_outputs t = es_outputs s
     \<and> pending t = pending s @ (if ingress_taken cfg env r m s
         then (case er_observers r of None \<Rightarrow> [] | Some obs \<Rightarrow> observer_calls obs (message_copy m)) else [])
     \<and> (ingress_taken cfg env r m s \<longrightarrow> length (queued t) = Suc (length (queued s)))
     \<and> (active t \<longleftrightarrow> active s)"
proof (cases "ingress_taken cfg env r m s")
  case True
  then obtain a where a: "ie_message env = Some a" by (auto simp: ingress_taken_def)
  let ?node = "queue_entry (ie_enqueue env) a None PROCESS_MESSAGE_AND_NOTIFY_OBSERVER (Some rule)"
  have lt: "ingress_in_flight (es_engine s) < ingress_high_watermark (es_engine s)"
    "queue_accepts (ie_enqueue env) (eg_message_queue (es_engine s))" "er_engine r" using True by (auto simp: ingress_taken_def)
  obtain t where t: "handle_transport_incoming_data cfg env (Some rule) (Some m) s = Some t" "after_add s ?node t"
      "es_messages t = (es_messages s)(a \<mapsto> message_copy m)" "es_outputs t = es_outputs s"
      "telemetry_enabled (es_engine t) = telemetry_enabled (es_engine s)"
      "telemetry_enabled (es_engine s) \<longrightarrow> ingress_received (es_engine t) = ingress_received (es_engine s) + 1
          \<and> ingress_enqueued (es_engine t) = ingress_enqueued (es_engine s) + 1"
      "ingress_dequeued (es_engine t) = ingress_dequeued (es_engine s)"
      "ingress_dropped_total (es_engine t) = ingress_dropped_total (es_engine s)"
    using incoming_taken [OF assms(1,2) True a assms(3) [OF a]] by blast
  have fresh: "a \<notin> qn_msg ` set (queued s)"
    using fresh_not_queued [OF assms(1) assms(3) [OF a]] .
  have rules: "es_rules t rule = Some r" "is_ingress ?node" "ingress_in_flight (es_engine t) = ingress_in_flight (es_engine s) + 1"
    using t(2) assms(2) by (auto simp: after_add_def is_ingress_def queue_entry_def)
  have "engine_inv t"
    by (rule add_job_inv [OF assms(1) t(2)])
      (use fresh lt t(3) rules in \<open>simp_all add: queue_entry_def job_ok_def is_ingress_def queue_accepts_def queued_def\<close>)
  moreover have "job_output t ?node = (case er_observers r of None \<Rightarrow> [] | Some obs \<Rightarrow> observer_calls obs (message_copy m))"
    using rules t(3) by (simp add: job_output_def queue_entry_def)
  moreover have "balanced n (es_engine t)"
    using assms(4) t(5-8) rules(3) ucast_succ [OF lt(1)] by (simp add: balanced_def algebra_simps)
  moreover have "active t = active s" "length (queued t) = Suc (length (queued s))"
    using t(2) by (simp_all add: active_def after_add_def queued_def)
  ultimately show ?thesis using t(1,4) add_job_pending [OF t(2)] True by auto
next
  case False
  obtain t where t: "handle_transport_incoming_data cfg env (Some rule) (Some m) s = Some t" "same_core s t"
      "es_outputs t = es_outputs s" "telemetry_enabled (es_engine t) = telemetry_enabled (es_engine s)"
      "ingress_enqueued (es_engine t) = ingress_enqueued (es_engine s)" "ingress_dequeued (es_engine t) = ingress_dequeued (es_engine s)"
      "ingress_received (es_engine t) - ingress_dropped_total (es_engine t) = ingress_received (es_engine s) - ingress_dropped_total (es_engine s)"
    using incoming_refused [OF assms(1,2) False assms(3)] by blast
  have "balanced n (es_engine t)"
    using assms(4) t(2,4-6) balance_shift [OF t(7)] by (auto simp: balanced_def same_core_def)
  moreover have "pending t = pending s"
  proof -
    have c: "es_messages t = es_messages s" "es_rules t = es_rules s" "queued t = queued s"
      using t(2) by (simp_all add: same_core_def queued_def)
    show ?thesis unfolding pending_def job_output_def c ..
  qed
  moreover have "active t = active s" using t(2) by (simp add: active_def same_core_def)
  ultimately show ?thesis using t(1,3) engine_inv_core [OF assms(1) t(2)] False by auto
qed

lemma quiet_update:
  assumes "quiet ds q" and "ds d = Some dp" and "dp_sort_strategy dp' = dp_sort_strategy dp"
  shows "quiet (ds(d \<mapsto> dp')) q"
  using assms unfolding quiet_def by (metis fun_upd_apply option.inject)

text \<open>Changing whether dispatcher and engine run, and the exit flag of the queue.\<close>

lemma engine_inv_mode:
  assumes "engine_inv s" and "es_dispatchers s (eg_message_dispatcher (es_engine s)) = Some dp"
    and "q = eg_message_queue (es_engine s) \<or> q = (eg_message_queue (es_engine s))\<lparr>exit_flag := True\<rparr>"
  shows "engine_inv (s\<lparr>es_engine := (es_engine s)\<lparr>eg_is_running := b, eg_message_queue := q\<rparr>,
      es_dispatchers := (es_dispatchers s)(eg_message_dispatcher (es_engine s) \<mapsto> dp\<lparr>dp_is_running := c\<rparr>)\<rparr>)"
proof -
  let ?t = "s\<lparr>es_engine := (es_engine s)\<lparr>eg_is_running := b, eg_message_queue := q\<rparr>,
      es_dispatchers := (es_dispatchers s)(eg_message_dispatcher (es_engine s) \<mapsto> dp\<lparr>dp_is_running := c\<rparr>)\<rparr>"
  have q: "q_messages q = q_messages (eg_message_queue (es_engine s))" "q_observers q = q_observers (eg_message_queue (es_engine s))"
    "max_queue_size q = max_queue_size (eg_message_queue (es_engine s))" "q_list_cap q = q_list_cap (eg_message_queue (es_engine s))"
    using assms(3) by auto
  have quiet: "quiet (es_dispatchers ?t) q"
    using quiet_update [OF engine_invD(2) [OF assms(1)] assms(2), of "dp\<lparr>dp_is_running := c\<rparr>"] q(2) by (simp add: quiet_def)
  have "job_ok ?t = job_ok s" by (intro ext job_ok_cong) simp_all
  moreover have "queued ?t = queued s" by (simp add: queued_def q)
  ultimately show ?thesis using assms(1) quiet q by (simp add: engine_inv_def queue_ok_def)
qed

lemma prepare_rule_safe:
  assumes "engine_inv s" and "es_rules s rule = Some r"
  shows "\<exists>t. zoo_smb_routing_engine_prepare_rule cap omem lmem started (Some rule) s = Some (started, t) \<and> engine_inv t
     \<and> es_engine t = es_engine s"
proof -
  obtain t where t: "zoo_smb_routing_engine_prepare_rule cap omem lmem started (Some rule) s = Some (started, t)"
      "es_rules t = (es_rules s)(rule \<mapsto> r\<lparr>er_engine := True\<rparr>)" "es_engine t = es_engine s" "es_messages t = es_messages s"
      "es_dispatchers t = es_dispatchers s"
    using assms(2) by (simp add: zoo_smb_routing_engine_prepare_rule_def Let_def)
  have "job_ok t n" if "job_ok s n" for n
    using that assms(2) t(2,4) by (auto simp: job_ok_def split: if_splits)
  then have "engine_inv t" using assms(1) t(3,5) by (auto simp: engine_inv_def queued_def)
  with t show ?thesis by blast
qed

lemma route_codes: "ZOO_SMB_OK \<noteq> ZOO_SMB_ERROR_QUEUE_FULL" "ZOO_SMB_ERROR_NOT_INITIALIZED \<noteq> ZOO_SMB_ERROR_QUEUE_FULL"
  "ZOO_SMB_ERROR_OUT_OF_MEMORY \<noteq> ZOO_SMB_ERROR_QUEUE_FULL"
  by (simp_all add: zoo_error_codes)

lemma balanced_drop: "balanced n e \<Longrightarrow> balanced (Suc n) (routing_engine_record_drop e DROP_QUEUE_FULL)"
  by (simp add: balanced_def routing_engine_record_drop_def Let_def algebra_simps)

lemma route_safe:
  assumes "engine_inv s" and "engine_op_ok (Route env rule a receiver del) s" and "balanced n (es_engine s)"
  shows "\<exists>r t. zoo_smb_routing_engine_handle_route_message env (Some rule) (Some a) receiver del s = Some (r, t) \<and> engine_inv t
     \<and> balanced (n + (if r = ZOO_SMB_ERROR_QUEUE_FULL then 1 else 0)) (es_engine t)"
proof (cases "eg_is_running (es_engine s) \<and> ro_context env")
  case False
  then show ?thesis using assms
    by (auto simp: zoo_smb_routing_engine_handle_route_message_def create_routing_context_def route_codes)
next
  case True
  let ?ctx = "\<lparr>rc_rule = rule, rc_receiver = receiver, rc_delete_message_flag = del, rc_message = a\<rparr>"
  obtain ok t where t: "route_attempts env 0 a ?ctx s = Some (ok, t)" "engine_inv t" "balanced n (es_engine t)"
    using route_attempts_safe [OF assms(1), of a ?ctx n env 0] assms(2,3) by auto
  have drop: "engine_inv (ingress_drop DROP_QUEUE_FULL t)"
    by (rule engine_inv_core [OF t(2)]) (simp add: same_core_def)
  show ?thesis
  proof (cases ok)
    case True': True
    then show ?thesis using True t assms(2)
      by (auto simp: zoo_smb_routing_engine_handle_route_message_def create_routing_context_def route_codes)
  next
    case False
    then show ?thesis using True t assms(2) drop balanced_drop [OF t(3)]
      by (auto simp: zoo_smb_routing_engine_handle_route_message_def create_routing_context_def)
  qed
qed

lemma engine_op_safe:
  assumes "engine_inv s" and "engine_op_ok op s" and "balanced n (es_engine s)"
  shows "\<exists>k t. engine_op_step op s = Some (k, t) \<and> engine_inv t \<and> balanced (n + k) (es_engine t)"
proof (cases op)
  case (Incoming cfg env rule m)
  then obtain r where "es_rules s rule = Some r" using assms(2) by auto
  moreover have "es_messages s a = None" if "ie_message env = Some a" for a using assms(2) Incoming that by simp
  ultimately show ?thesis using incoming_safe [OF assms(1) _ _ assms(3), of rule r env cfg m] Incoming by auto
next
  case Dispatch
  then show ?thesis using dispatch_safe [OF assms(1)] dispatch_balanced [OF assms(1) _ assms(3)] by auto
next
  case (Route env rule a receiver del)
  obtain r t where "zoo_smb_routing_engine_handle_route_message env (Some rule) (Some a) receiver del s = Some (r, t)"
      "engine_inv t" "balanced (n + (if r = ZOO_SMB_ERROR_QUEUE_FULL then 1 else 0)) (es_engine t)"
    using route_safe [OF assms(1) assms(2) [unfolded Route] assms(3)] by blast
  then show ?thesis using Route by simp
next
  case (StartEngine submit)
  have "engine_inv (zoo_smb_start_routing_engine submit s)"
    by (rule engine_inv_core [OF assms(1)]) (simp add: same_core_def zoo_smb_start_routing_engine_def)
  then show ?thesis using StartEngine assms(3) by (simp add: balanced_def zoo_smb_start_routing_engine_def)
next
  case TaskBegins
  obtain dp where dp: "es_dispatchers s (eg_message_dispatcher (es_engine s)) = Some dp" using engine_invD(3) [OF assms(1)] by blast
  have "engine_inv (s\<lparr>es_dispatchers := (es_dispatchers s)(eg_message_dispatcher (es_engine s) \<mapsto> dp\<lparr>dp_is_running := True\<rparr>)\<rparr>)"
    using engine_inv_mode [OF assms(1) dp disjI1 [OF refl], of True "eg_is_running (es_engine s)"] by simp
  then show ?thesis using dp TaskBegins assms(1,3)
    by (cases "dp_is_running dp") (simp_all add: engine_task_def zoo_start_dispatcher_def)
next
  case StopEngine
  obtain dp where dp: "es_dispatchers s (eg_message_dispatcher (es_engine s)) = Some dp" using engine_invD(3) [OF assms(1)] by blast
  with engine_inv_mode [OF assms(1) dp, of "(eg_message_queue (es_engine s))\<lparr>exit_flag := True\<rparr>" False False] StopEngine assms(1,3)
  show ?thesis
    by (auto simp: zoo_smb_stop_routing_engine_def zoo_stop_dispatcher_def zoo_queue_exit_blocking_def balanced_def)
next
  case (PrepareRule cap omem lmem started rule)
  then obtain r where "es_rules s rule = Some r" using assms(2) by auto
  from prepare_rule_safe [OF assms(1) this, of cap omem lmem started] assms(3) PrepareRule show ?thesis by auto
qed

section \<open>A new engine\<close>

definition engine_with :: "routing_engine \<Rightarrow> dispatchers \<Rightarrow> (nat \<Rightarrow> smb_msg option) \<Rightarrow> (nat \<Rightarrow> engine_rule option)
    \<Rightarrow> (nat \<Rightarrow> (nat \<times> nat) list) \<Rightarrow> engine_state" where
  "engine_with e ds msgs rules trs = \<lparr>es_engine = e, es_dispatchers = ds, es_messages = msgs, es_rules = rules,
     es_transports = trs, es_outputs = []\<rparr>"

lemma low_watermark_bounds:
  assumes "0 < high"
  shows "0 < low_watermark c high" and "low_watermark c high \<le> high" and "low_watermark c high = high \<longleftrightarrow> high = 1"
proof -
  have pos: "0 < unat high" using assms by (simp add: word_less_nat_alt)
  have half: "unat (high div 2) = unat high div 2" by (simp add: unat_div)
  have z: "high div 2 = 0 \<longleftrightarrow> unat high < 2" using half by (metis div_eq_0_iff unat_eq_zero zero_neq_numeral)
  have one: "high = 1 \<longleftrightarrow> unat high = 1" by (metis unat_1 word_unat_eq_iff)
  define low where "low = (if ec_ingress_low_watermark c > 0 then ec_ingress_low_watermark c else high div 2)"
  have res: "low_watermark c high = (if low = 0 \<or> low \<ge> high then (if high div 2 = 0 then 1 else high div 2) else low)"
    by (simp add: low_watermark_def low_def Let_def)
  have l0: "low = 0 \<longleftrightarrow> unat low = 0" by (simp add: unat_eq_zero)
  have nat: "unat (low_watermark c high) =
      (if low = 0 \<or> low \<ge> high then (if unat high < 2 then 1 else unat high div 2) else unat low)"
    by (simp add: res z half)
  show "0 < low_watermark c high" unfolding word_less_nat_alt nat using pos by (auto simp: unat_gt_0)
  show "low_watermark c high \<le> high" unfolding word_le_nat_alt nat using pos by (auto simp: word_le_nat_alt)
  have "unat (low_watermark c high) = unat high \<longleftrightarrow> unat high = 1"
    unfolding nat using pos l0 by (auto simp: word_le_nat_alt)
  then show "low_watermark c high = high \<longleftrightarrow> high = 1" unfolding one by (metis word_unat_eq_iff)
qed

lemma created_queue:
  assumes "zoo_create_queue env n = Some q"
  shows "q = \<lparr>q_messages = [], q_observers = [], q_list_cap = (if n = 0 then 64 else n), max_queue_size = n, exit_flag = False\<rparr>"
  using assms by (auto simp: zoo_create_queue_def Let_def split: if_splits)

lemma created_engine:
  assumes "zoo_smb_create_routing_engine env (Some c) ds = Some (Some e, ds')"
  shows "engine_inv (engine_with e ds' msgs rules trs)" and "balanced 0 e" and "0 < ingress_high_watermark e"
    and "ingress_low_watermark e = low_watermark c (ingress_high_watermark e)" and "\<not> eg_is_running e"
    and "\<not> exit_flag (eg_message_queue e)"
proof -
  define qsize where "qsize = (if ec_max_queue_size c > 0 then ec_max_queue_size c else ZOO_SMB_MAX_QUEUE_SIZE)"
  have pos: "0 < qsize" by (simp add: qsize_def ZOO_SMB_MAX_QUEUE_SIZE_def)
  obtain q :: engine_queue where q: "zoo_create_queue (ge_queue env) (unat qsize) = Some q"
    using assms unfolding zoo_smb_create_routing_engine_def qsize_def [symmetric] option.case Let_def
    by (cases "ge_mem env"; cases "zoo_create_queue (ge_queue env) (unat qsize) :: engine_queue option") simp_all
  obtain d q' where d: "zoo_create_dispatcher (ge_dispatcher env) (Some q) ds = (Some d, Some q', ds')"
    and e: "eg_message_queue e = q'" "eg_message_dispatcher e = d" "ingress_in_flight e = 0" "\<not> eg_is_running e"
      "ingress_high_watermark e = (if ec_ingress_high_watermark c > 0 then ec_ingress_high_watermark c else qsize)"
      "ingress_low_watermark e = low_watermark c (ingress_high_watermark e)"
      "ingress_received e = 0" "ingress_enqueued e = 0" "ingress_dequeued e = 0" "ingress_dropped_total e = 0"
    using assms q unfolding zoo_smb_create_routing_engine_def qsize_def [symmetric] option.case Let_def
    by (auto split: if_splits option.splits prod.splits)
  note q0 = created_queue [OF q]
  have d': "ds' d = Some \<lparr>dp_is_running = False, dp_sort_strategy = ZOO_QUEUE_SORT_STRATEGY_NONE,
        dp_dispatcher_id = cd_id (ge_dispatcher env)\<rparr>"
    and q': "q_messages q' = []" "max_queue_size q' = unat qsize" "q_list_cap q' = (if unat qsize = 0 then 64 else unat qsize)"
      "\<not> exit_flag q'" "length (q_observers q') \<le> 1" "\<forall>ob \<in> set (q_observers q'). qo_user_data ob = Some d"
    using d q0 by (auto simp: zoo_create_dispatcher_def zoo_queue_add_observer_def find_existing_observer_def push_back_def
        split: if_splits option.splits)
  have "queue_ok q'" using q' by (simp add: queue_ok_def)
  moreover have "quiet ds' q'" using q'(6) d' by (auto simp: quiet_def strategy_defs)
  ultimately show "engine_inv (engine_with e ds' msgs rules trs)"
    using e q' d' unat_u32_lt [of qsize] by (simp add: engine_inv_def engine_with_def queued_def)
  show "balanced 0 e" using e by (simp add: balanced_def)
  show "0 < ingress_high_watermark e" using e(5) pos by simp
  show "ingress_low_watermark e = low_watermark c (ingress_high_watermark e)" "\<not> eg_is_running e"
    "\<not> exit_flag (eg_message_queue e)" using e q' by simp_all
qed

lemma incoming_length:
  assumes "engine_inv s" and "es_rules s rule = Some r" and "\<And>a. ie_message env = Some a \<Longrightarrow> es_messages s a = None"
    and "handle_transport_incoming_data cfg env (Some rule) (Some m) s = Some t"
  shows "length (queued t) \<le> Suc (length (queued s))"
    and "exit_flag (eg_message_queue (es_engine t)) = exit_flag (eg_message_queue (es_engine s))"
    and "es_outputs t = es_outputs s"
proof -
  have "\<exists>nodes. eg_message_queue (es_engine t) = (eg_message_queue (es_engine s))\<lparr>q_messages := nodes\<rparr>
      \<and> length nodes \<le> Suc (length (queued s)) \<and> es_outputs t = es_outputs s"
  proof (cases "ingress_taken cfg env r m s")
    case True
    then obtain a where a: "ie_message env = Some a" by (auto simp: ingress_taken_def)
    from incoming_taken [OF assms(1,2) True a assms(3) [OF a]] assms(4) show ?thesis
      by (auto simp: after_add_def)
  next
    case False
    from incoming_refused [OF assms(1,2) False assms(3)] assms(4) show ?thesis
      by (intro exI [of _ "queued s"]) (auto simp: same_core_def queued_def)
  qed
  then show "length (queued t) \<le> Suc (length (queued s))"
    "exit_flag (eg_message_queue (es_engine t)) = exit_flag (eg_message_queue (es_engine s))" "es_outputs t = es_outputs s"
    by (auto simp: queued_def)
qed

end
