(* ===== verification/Routing_Contract.thy ===== *)
theory Routing_Contract
  imports Routing_Engine_Safety
begin

text \<open>
  The properties of the routing engine, on the invariant of theory \<open>Routing_Engine_Safety\<close>: safety of every
  reachable state, the balance of the counters, delivery, the behaviour after a stop, the check for old
  messages, the watermarks, and the registration with transports.
\<close>

section \<open>An engine to look at\<close>

definition sample_config :: engine_config where
  "sample_config = \<lparr>ec_max_queue_size = 4, ec_ingress_high_watermark = 2, ec_ingress_low_watermark = 0,
     ec_enable_routing_telemetry = True, ec_enforce_encrypted_messages = False, ec_require_sender_identity = False,
     ec_max_timeout = 1000\<rparr>"

definition sample_create :: create_engine_env where
  "sample_create = \<lparr>ge_mem = True, ge_queue = \<lparr>ce_mem = True, ce_messages = True, ce_observers = True,
     ce_messages_mutex = True, ce_observers_mutex = True, ce_cond = True\<rparr>,
     ge_dispatcher = \<lparr>cd_mem = Some 7, cd_id = 1, cd_mutex = True, cd_cond = True, cd_observer = True, cd_list = True\<rparr>\<rparr>"

definition sample_engine :: routing_engine where
  "sample_engine = \<lparr>eg_is_running = False,
     eg_message_queue = \<lparr>q_messages = [], q_observers = [\<lparr>qo_name = dispatcher_observer_name,
       qo_handler = ON_QUEUE_CHANGED, qo_user_data = Some 7\<rparr>], q_list_cap = 4, max_queue_size = 4, exit_flag = False\<rparr>,
     eg_message_dispatcher = 7, eg_transport_manager = None, eg_service_manager = None, eg_rule_manager = None,
     eg_config = Some sample_config, ingress_high_watermark = 2, ingress_low_watermark = 1, telemetry_enabled = True,
     ingress_backpressure_active = False, ingress_in_flight = 0, ingress_received = 0, ingress_enqueued = 0,
     ingress_dequeued = 0, ingress_dropped_total = 0, ingress_drop_queue_full = 0, ingress_drop_backpressure = 0,
     ingress_drop_invalid_header = 0, ingress_drop_security_policy = 0\<rparr>"

definition sample_engine_dispatchers :: dispatchers where
  "sample_engine_dispatchers = [7 \<mapsto> \<lparr>dp_is_running = False, dp_sort_strategy = ZOO_QUEUE_SORT_STRATEGY_NONE, dp_dispatcher_id = 1\<rparr>]"

lemma sample_created:
  "zoo_smb_create_routing_engine sample_create (Some sample_config) Map.empty = Some (Some sample_engine, sample_engine_dispatchers)"
  by (simp add: zoo_smb_create_routing_engine_def sample_create_def sample_config_def sample_engine_def
      sample_engine_dispatchers_def zoo_create_queue_def zoo_list_create_def zoo_create_dispatcher_def zoo_queue_add_observer_def
      find_existing_observer_def push_back_def low_watermark_def Let_def
      dispatcher_observer_name_def MAX_QUEUE_OBSERVER_NAME_LENGTH_def)

definition sample_message :: smb_msg where
  "sample_message = \<lparr>header = zero_header\<lparr>magic := ZOO_SMB_MSG_MAGIC_NUMBER, version := ZOO_SMB_MSG_VERSION,
     msg_type := 16, payload_size := 2\<rparr>, payload = Some [1, 2]\<rparr>"

definition sample_rule :: engine_rule where
  "sample_rule = \<lparr>er_observers = Some [\<lparr>no_node_msg_cb = Some 11, no_msg_type = 16, no_usr_data = 12\<rparr>],
     er_transport = 5, er_engine = True\<rparr>"

definition sample_state :: engine_state where
  "sample_state = engine_with sample_engine sample_engine_dispatchers Map.empty [1 \<mapsto> sample_rule] (\<lambda>_. [])"

definition sample_running :: engine_state where
  "sample_running = sample_state\<lparr>es_engine := sample_engine\<lparr>eg_is_running := True\<rparr>,
     es_dispatchers := [7 \<mapsto> \<lparr>dp_is_running = True, dp_sort_strategy = ZOO_QUEUE_SORT_STRATEGY_NONE, dp_dispatcher_id = 1\<rparr>]\<rparr>"

definition sample_ingress :: ingress_env where
  "sample_ingress = \<lparr>ie_now = 100, ie_message = Some 3, ie_payload = True,
     ie_enqueue = \<lparr>en_node = True, en_list = True, en_now = 100\<rparr>, ie_sort = \<lparr>se_array = True, se_list = (\<lambda>_. True)\<rparr>\<rparr>"

lemma sample_run: "engine_run sample_state 0 sample_running"
proof -
  let ?s = "sample_state\<lparr>es_engine := sample_engine\<lparr>eg_is_running := True\<rparr>\<rparr>"
  have "engine_run sample_state (0 + 0) ?s"
    by (rule engine_run.step [OF engine_run.start, of "StartEngine (\<lambda>_. True)"])
      (use exI [of "\<lambda>i. i < (100 :: nat)" 0] in
        \<open>simp_all add: zoo_smb_start_routing_engine_def sample_state_def engine_with_def ROUTING_ENGINE_TASK_SUBMIT_MAX_RETRIES_def\<close>)
  then have "engine_run sample_state (0 + 0 + 0) sample_running"
    by (rule engine_run.step [where op = TaskBegins])
      (auto simp: engine_task_def zoo_start_dispatcher_def sample_state_def engine_with_def sample_running_def
        sample_engine_def sample_engine_dispatchers_def)
  then show ?thesis by simp
qed

lemma sample_running_active: "active sample_running"
  by (auto simp: active_def sample_running_def sample_engine_def)

lemma sample_taken: "ingress_taken None sample_ingress sample_rule sample_message sample_running"
  by (simp add: ingress_taken_def sample_rule_def sample_running_def sample_engine_def ingress_check_def
      zoo_smb_protocol_is_header_valid_def validate_magic_number_def validate_protocol_version_def validate_payload_size_def
      sample_message_def sample_config_def message_is_stale_def zero_header_def sample_ingress_def queue_accepts_def
      zoo_smb_copy_message_def zoo_smb_default_message_def smb_message_alloc_def sizeof_msg_def sizeof_header_def ZOO_SMB_MAX_PAYLOAD_SIZE_def)

section \<open>Safety and delivery\<close>

lemma engine_run_inv:
  assumes "engine_run s n t" and "engine_inv s" and "balanced 0 (es_engine s)"
  shows "engine_inv t \<and> balanced n (es_engine t)"
  using assms
proof induction
  case (step n t op k u)
  then show ?case using engine_op_safe [of t op n] by auto
qed auto





text \<open>
  C4. An incoming message is delivered exactly once or not at all. In every reachable state in which the
  dispatcher works, a message that passes the checks, the watermark and the queue is handed, after as many
  rounds as there are jobs in the queue, to every observer of the rule that wants its type, in the order of
  the observers and after all messages accepted before it; what they get has the header of the message and
  the payload the header announces. A message that is refused leads to no callback. After these rounds the
  queue is empty and no message is in flight.
\<close>

theorem accepted_message_delivered:
  assumes "zoo_smb_create_routing_engine env (Some c) ds = Some (Some e, ds')"
    and "engine_run (engine_with e ds' msgs rules trs) n t" and "active t"
    and "es_rules t rule = Some r" and "er_observers r = Some obs"
    and "engine_op_ok (Incoming cfg ienv rule m) t"
  shows "\<exists>u v. handle_transport_incoming_data cfg ienv (Some rule) (Some m) t = Some u
    \<and> dispatch_rounds (Suc (length (queued t))) u = Some v
    \<and> es_outputs v = es_outputs t @ pending t @ (if ingress_taken cfg ienv r m t then observer_calls obs (message_copy m) else [])
    \<and> queued v = [] \<and> ingress_in_flight (es_engine v) = 0"
proof -
  have "balanced 0 (es_engine (engine_with e ds' msgs rules trs))"
    using created_engine(2) [OF assms(1)] by (simp add: engine_with_def)
  then have inv: "engine_inv t" "balanced n (es_engine t)"
    using engine_run_inv [OF assms(2) created_engine(1) [OF assms(1)]] by auto
  have fresh: "\<And>a. ie_message ienv = Some a \<Longrightarrow> es_messages t a = None" using assms(6) by auto
  obtain u where u: "handle_transport_incoming_data cfg ienv (Some rule) (Some m) t = Some u" "engine_inv u"
      "es_outputs u = es_outputs t" "active u"
      "pending u = pending t @ (if ingress_taken cfg ienv r m t then observer_calls obs (message_copy m) else [])"
    using incoming_safe [where env = ienv and cfg = cfg and m = m, OF inv(1) assms(4) _ inv(2)] fresh assms(3,5)
    by auto
  have len: "length (queued u) \<le> Suc (length (queued t))"
    using incoming_length(1) [OF inv(1) assms(4) _ u(1)] fresh by blast
  obtain v where v: "dispatch_rounds (Suc (length (queued t))) u = Some v" "engine_inv v" "queued v = []"
      "es_outputs v = es_outputs u @ pending u"
    using dispatch_rounds_drain [OF u(2,4) len] by blast
  have "ingress_in_flight (es_engine v) = 0" using engine_invD(7) [OF v(2)] v(3) by (simp add: unat_eq_zero)
  with u v show ?thesis by auto
qed

theorem accepted_message_delivered_witness:
  "\<exists>u v. handle_transport_incoming_data None sample_ingress (Some 1) (Some sample_message) sample_running = Some u
     \<and> dispatch_rounds 1 u = Some v \<and> es_outputs v = [Callback 11 12 sample_message 2]"
proof -
  have r: "es_rules sample_running 1 = Some sample_rule" "er_observers sample_rule =
      Some [\<lparr>no_node_msg_cb = Some 11, no_msg_type = 16, no_usr_data = 12\<rparr>]" "queued sample_running = []"
      "es_outputs sample_running = []" "engine_op_ok (Incoming None sample_ingress 1 sample_message) sample_running"
    by (simp_all add: sample_running_def sample_state_def engine_with_def sample_rule_def queued_def sample_engine_def
        sample_ingress_def)
  have "message_copy sample_message = sample_message" "msg_type (header sample_message) = 16"
      "payload_size (header sample_message) = 2"
    by (simp_all add: message_copy_def sample_message_def)
  then show ?thesis
    using accepted_message_delivered [OF sample_created sample_run [unfolded sample_state_def] sample_running_active r(1,2,5)]
      sample_taken r(3,4) by (simp add: pending_def observer_calls_def) blast
qed

section \<open>After a stop\<close>

text \<open>An engine whose queue was told to stop: the flag stays, and nothing leaves the engine.\<close>

definition halted :: "engine_state \<Rightarrow> bool" where
  "halted s \<longleftrightarrow> exit_flag (eg_message_queue (es_engine s))"

lemma halted_dispatch:
  assumes "engine_inv s" and "halted s"
  shows "engine_dispatch s = Some s"
  using engine_invD(3) [OF assms(1)] assms(2) by (auto simp: halted_def active_def intro: dispatch_idle)

lemma halted_rounds:
  assumes "engine_inv s" and "halted s"
  shows "dispatch_rounds n s = Some s"
  using assms by (induction n) (simp_all add: halted_dispatch)

lemma halted_attempts:
  assumes "engine_inv s" and "halted s" and "route_attempts env attempt a ctx s = Some (ok, t)"
  shows "halted t \<and> es_outputs t = es_outputs s"
  using assms
proof (induction "enqueue_retry_limit - attempt" arbitrary: attempt)
  case 0
  then show ?case by (subst (asm) route_attempts.simps) auto
next
  case (Suc k)
  note q = zoo_queue_enqueue_quiet [OF engine_invD(1,2) [OF Suc.prems(1)]]
  have att: "attempt < enqueue_retry_limit" using Suc.hyps(2) by simp
  show ?case
  proof (cases "queue_accepts (ro_enqueue env attempt) (eg_message_queue (es_engine s))")
    case True
    then show ?thesis using Suc.prems(2,3) att by (subst (asm) route_attempts.simps) (auto simp: q halted_def)
  next
    case False
    then have "route_attempts env (attempt + 1) a ctx s = Some (ok, t)" using Suc.prems att
      by (subst (asm) route_attempts.simps) (simp add: q halted_rounds split: if_splits)
    moreover have "k = enqueue_retry_limit - (attempt + 1)" using Suc.hyps(2) by simp
    ultimately show ?thesis using Suc.hyps(1) Suc.prems(1,2) by blast
  qed
qed

lemma halted_step:
  assumes "engine_inv s" and "halted s" and "engine_op_ok op s" and "engine_op_step op s = Some (k, t)"
  shows "halted t \<and> es_outputs t = es_outputs s"
proof (cases op)
  case (Incoming cfg env rule m)
  then obtain r where "es_rules s rule = Some r" using assms(3) by auto
  moreover have "es_messages s a = None" if "ie_message env = Some a" for a using assms(3) Incoming that by simp
  ultimately show ?thesis
    using incoming_length(2,3) [where env = env and cfg = cfg and m = m and t = t, OF assms(1)] assms(2,4) Incoming
    by (auto simp: halted_def)
next
  case Dispatch
  then show ?thesis using assms halted_dispatch by auto
next
  case (Route env rule a receiver del)
  then show ?thesis using assms halted_attempts [OF assms(1,2)]
    by (auto simp: zoo_smb_routing_engine_handle_route_message_def halted_def split: if_splits option.splits bool.splits)
next
  case (StartEngine submit)
  then show ?thesis using assms by (auto simp: zoo_smb_start_routing_engine_def halted_def)
next
  case TaskBegins
  then show ?thesis using assms by (auto simp: engine_task_def halted_def)
next
  case StopEngine
  then show ?thesis using assms
    by (auto simp: zoo_smb_stop_routing_engine_def zoo_stop_dispatcher_def zoo_queue_exit_blocking_def halted_def
        split: if_splits option.splits)
next
  case (PrepareRule cap omem lmem started rule)
  then show ?thesis using assms
    by (auto simp: zoo_smb_routing_engine_prepare_rule_def halted_def Let_def split: option.splits)
qed

lemma halted_run:
  assumes "engine_run s n t" and "engine_inv s" and "balanced 0 (es_engine s)" and "halted s"
  shows "halted t \<and> es_outputs t = es_outputs s"
  using assms
proof induction
  case (step n t op k u)
  then show ?case using halted_step [of t op k u] engine_run_inv [OF step(1,5,6)] by auto
qed simp

text \<open>
  C30. An engine that was running and was stopped never works again, although the comment above
  \<open>zoo_smb_stop_routing_engine\<close> says it can be restarted: whatever is done afterwards, including starting it
  any number of times, no callback is made and nothing is sent, for the queue keeps the flag that tells the
  dispatcher to leave.
\<close>

theorem stopped_engine_stays_silent:
  assumes "engine_inv s" and "balanced 0 (es_engine s)" and "eg_is_running (es_engine s)"
  shows "\<exists>u. zoo_smb_stop_routing_engine s = Some u \<and> es_outputs u = es_outputs s
    \<and> (\<forall>n t. engine_run u n t \<longrightarrow> es_outputs t = es_outputs u)"
proof -
  obtain u where u: "zoo_smb_stop_routing_engine s = Some u" "es_outputs u = es_outputs s" "halted u"
    using assms(3) engine_invD(3) [OF assms(1)]
    by (auto simp: zoo_smb_stop_routing_engine_def zoo_stop_dispatcher_def zoo_queue_exit_blocking_def halted_def)
  have inv: "engine_inv u" "balanced 0 (es_engine u)"
    using engine_op_safe [OF assms(1) _ assms(2), of StopEngine] u(1) by auto
  have "es_outputs t = es_outputs u" if "engine_run u n t" for n t
    using halted_run [OF that inv u(3)] by simp
  with u show ?thesis by blast
qed

theorem stopped_engine_stays_silent_witness:
  "\<exists>u. zoo_smb_stop_routing_engine sample_running = Some u \<and> (\<forall>n t. engine_run u n t \<longrightarrow> es_outputs t = [])"
proof -
  have "balanced 0 (es_engine (engine_with sample_engine sample_engine_dispatchers Map.empty [1 \<mapsto> sample_rule] (\<lambda>_. [])))"
    using created_engine(2) [OF sample_created] by (simp add: engine_with_def)
  then have "engine_inv sample_running" "balanced 0 (es_engine sample_running)"
    using engine_run_inv [OF sample_run [unfolded sample_state_def] created_engine(1) [OF sample_created]] by auto
  moreover have "eg_is_running (es_engine sample_running)" "es_outputs sample_running = []"
    by (simp_all add: sample_running_def sample_state_def engine_with_def)
  ultimately show ?thesis using stopped_engine_stays_silent [of sample_running] by auto
qed

section \<open>Old messages\<close>

text \<open>
  C32. The check for old messages never drops a message. A message carries the time of its creation in
  milliseconds, the check compares it with the time in seconds: whatever the configured timeout and however
  long a message was under way (up to a thousand times its time stamp, some fifty thousand years), it is
  not stale.
\<close>

theorem message_never_stale:
  assumes "created_ms \<le> received_ms" and "received_ms < 1000 * created_ms" and "created_ms < 2 ^ 63"
    and "timestamp h = of_int created_ms"
  shows "\<not> message_is_stale c (received_ms div 1000) h"
proof -
  have "uint (timestamp h) = created_ms"
    using assms by (simp add: unsigned_of_int take_bit_int_eq_self)
  moreover have "received_ms div 1000 < created_ms" using assms(2) by (simp add: div_less_iff_less_mult mult.commute)
  ultimately show ?thesis by (simp add: message_is_stale_def)
qed

theorem message_never_stale_witness:
  "\<not> message_is_stale (sample_config\<lparr>ec_max_timeout := 1\<rparr>) ((1700000000000 + 86400000) div 1000)
     (zero_header\<lparr>timestamp := of_int 1700000000000\<rparr>)"
  by (rule message_never_stale [where created_ms = 1700000000000]) simp_all

section \<open>Watermarks\<close>

text \<open>
  C33. Whatever the configuration, the watermarks of a new engine are sound: the low one is positive and does
  not exceed the high one, and it is below it except where the high one is 1, where there is no room for
  hysteresis.
\<close>

theorem watermarks_ordered:
  assumes "zoo_smb_create_routing_engine env (Some c) ds = Some (Some e, ds')"
  shows "0 < ingress_low_watermark e \<and> ingress_low_watermark e \<le> ingress_high_watermark e
    \<and> (ingress_low_watermark e < ingress_high_watermark e \<longleftrightarrow> ingress_high_watermark e \<noteq> 1)"
  using low_watermark_bounds [OF created_engine(3) [OF assms], of c] created_engine(4) [OF assms]
  by (auto simp: order_le_less)

theorem watermarks_ordered_witness: "ingress_low_watermark sample_engine < ingress_high_watermark sample_engine"
  using watermarks_ordered [OF sample_created] by (simp add: sample_engine_def)

section \<open>Rules on one transport\<close>

lemma deliver_other:
  assumes "find_transport_data_observer obs HANDLE_TRANSPORT_INCOMING_DATA = Some (HANDLE_TRANSPORT_INCOMING_DATA, rule1)"
  shows "snd (zoo_smb_transport_add_data_observer cap mem (create_transport_data_observer omem
      (Some HANDLE_TRANSPORT_INCOMING_DATA) rule2) obs) = obs"
  using assms by (auto simp: zoo_smb_transport_add_data_observer_def create_transport_data_observer_def)

text \<open>
  C31. A transport tells the engine of a message for one rule only. If two rules share a transport, the second
  one is prepared with success but not registered, as the observers of a transport are told apart by their
  handler alone and the engine uses one handler for all rules: the list of observers does not change, so that
  every message of the transport is still put into the queue for the first rule alone.
\<close>

theorem second_rule_not_registered:
  assumes "es_rules s rule1 = Some r1" and "es_rules s rule2 = Some r2" and "rule1 \<noteq> rule2"
    and "er_transport r1 = er_transport r2" and "es_transports s (er_transport r1) = []" and "0 < cap"
    and "zoo_smb_routing_engine_prepare_rule cap True True ZOO_SMB_OK (Some rule1) s = Some (res1, t)"
    and "zoo_smb_routing_engine_prepare_rule cap True True ZOO_SMB_OK (Some rule2) t = Some (res2, u)"
  shows "res2 = ZOO_SMB_OK \<and> es_transports u (er_transport r2) = [(HANDLE_TRANSPORT_INCOMING_DATA, rule1)]
    \<and> transport_deliver cfg env m 0 (es_transports u (er_transport r2)) v
        = handle_transport_incoming_data cfg (env 0) (Some rule1) (Some m) v"
proof -
  have t: "es_transports t (er_transport r1) = [(HANDLE_TRANSPORT_INCOMING_DATA, rule1)]" "es_rules t rule2 = Some r2"
    using assms(1-3,5-7)
    by (auto simp: zoo_smb_routing_engine_prepare_rule_def zoo_smb_transport_add_data_observer_def push_back_def
        create_transport_data_observer_def find_transport_data_observer_def add_transport_data_observer_def Let_def)
  have "find_transport_data_observer (es_transports t (er_transport r2)) HANDLE_TRANSPORT_INCOMING_DATA
      = Some (HANDLE_TRANSPORT_INCOMING_DATA, rule1)"
    using t(1) assms(4) by (simp add: find_transport_data_observer_def)
  note same = deliver_other [OF this]
  have u: "res2 = ZOO_SMB_OK" "es_transports u (er_transport r2) = [(HANDLE_TRANSPORT_INCOMING_DATA, rule1)]"
    using assms(4,8) t by (auto simp: zoo_smb_routing_engine_prepare_rule_def same Let_def)
  then show ?thesis by (auto split: option.splits)
qed

theorem second_rule_not_registered_witness:
  "let s = sample_state\<lparr>es_rules := [1 \<mapsto> sample_rule, 2 \<mapsto> sample_rule]\<rparr>;
       t = snd (the (zoo_smb_routing_engine_prepare_rule 8 True True ZOO_SMB_OK (Some 1) s));
       u = snd (the (zoo_smb_routing_engine_prepare_rule 8 True True ZOO_SMB_OK (Some 2) t))
   in es_transports u 5 = [(HANDLE_TRANSPORT_INCOMING_DATA, 1)]"
proof -
  let ?s = "sample_state\<lparr>es_rules := [1 \<mapsto> sample_rule, 2 \<mapsto> sample_rule]\<rparr>"
  let ?p = "\<lambda>rule s. zoo_smb_routing_engine_prepare_rule 8 True True ZOO_SMB_OK (Some rule) s"
  have r: "es_rules ?s 1 = Some sample_rule" "es_rules ?s 2 = Some sample_rule" "er_transport sample_rule = 5"
      "es_transports ?s (er_transport sample_rule) = []"
    by (simp_all add: sample_state_def engine_with_def sample_rule_def)
  obtain a t where t: "?p 1 ?s = Some (a, t)" "es_rules t 2 = Some sample_rule"
    using r by (auto simp: zoo_smb_routing_engine_prepare_rule_def Let_def)
  obtain b u where u: "?p 2 t = Some (b, u)"
    using t(2) by (auto simp: zoo_smb_routing_engine_prepare_rule_def Let_def)
  show ?thesis using second_rule_not_registered [OF r(1,2) _ refl r(4) _ t(1) u] t(1) u r(3) by (simp add: Let_def)
qed

end
