(* ===== verification/Port_Manager.thy ===== *)
theory Port_Manager
  imports Main
begin

text \<open>
  The port manager (\<open>src/kernal/core/zoo_smb_port_manager.c\<close>), which hands out ports to the processes of one
  machine: a table of process ids in a shared file, a lock file per port, and the two calls to find and to
  give back a port. The first half has the functions of the source; what the operating system answers is an
  argument, the file system and the record locks of POSIX are written out as far as the code uses them. The
  second half lets processes run against each other, with every access to something shared as a step of its
  own, and shows that no two living processes ever hold one port, and under what circumstances they do.
\<close>

section \<open>The table\<close>

definition MIN_TRANSPORT_PORT :: int where "MIN_TRANSPORT_PORT = 13800"
definition MAX_TRANSPORT_PORT :: int where "MAX_TRANSPORT_PORT = 15800"
definition ZOO_SMB_INVALID_PORT :: int where "ZOO_SMB_INVALID_PORT = - 1"
definition PORT_TABLE_SIZE :: nat where "PORT_TABLE_SIZE = nat (MAX_TRANSPORT_PORT - MIN_TRANSPORT_PORT + 1)"

text \<open>The process id of the occupant of each port, 0 if there is none; the index counts from the first port.\<close>

record port_table =
  pids :: "nat \<Rightarrow> int"
  table_initialized :: bool

text \<open>The first process that sees the table empty clears it. \<open>attr\<close> and \<open>mutex\<close>: the mutex could be made.\<close>

definition initialize_port_table_structure :: "bool \<Rightarrow> bool \<Rightarrow> port_table \<Rightarrow> bool \<times> port_table" where
  "initialize_port_table_structure attr mutex table =
     (if table_initialized table then (True, table)
      else if \<not> attr then (False, table)
      else if \<not> mutex then (False, table)
      else (True, table\<lparr>pids := (\<lambda>_. 0), table_initialized := True\<rparr>))"

record init_env =
  ni_file :: bool
  ni_map :: bool
  ni_attr :: bool
  ni_mutex :: bool

definition init_port_table :: "init_env \<Rightarrow> port_table \<Rightarrow> bool \<times> port_table" where
  "init_port_table env table =
     (if \<not> ni_file env then (False, table)
      else if \<not> ni_map env then (False, table)
      else initialize_port_table_structure (ni_attr env) (ni_mutex env) table)"

text \<open>\<open>kill (pid, 0)\<close> succeeds, fails as there is no such process, or fails for another reason.\<close>

datatype kill_answer = Exists | ESRCH | OtherError

definition is_process_alive :: "(int \<Rightarrow> kill_answer) \<Rightarrow> int \<Rightarrow> bool" where
  "is_process_alive kill_0 pid \<longleftrightarrow> pid > 0 \<and> kill_0 pid \<noteq> ESRCH"

definition port_index :: "int \<Rightarrow> nat" where
  "port_index port = nat (port - MIN_TRANSPORT_PORT)"

definition acquire_port :: "(int \<Rightarrow> kill_answer) \<Rightarrow> int \<Rightarrow> port_table \<Rightarrow> int \<Rightarrow> bool \<times> port_table" where
  "acquire_port kill_0 self table port =
     (if port < MIN_TRANSPORT_PORT \<or> port > MAX_TRANSPORT_PORT then (False, table)
      else let index = port_index port
           in if pids table index = 0 then (True, table\<lparr>pids := (pids table)(index := self)\<rparr>)
              else if \<not> is_process_alive kill_0 (pids table index) then (True, table\<lparr>pids := (pids table)(index := self)\<rparr>)
              else (False, table))"

definition release_port :: "int \<Rightarrow> port_table \<Rightarrow> int \<Rightarrow> port_table" where
  "release_port self table port =
     (if port < MIN_TRANSPORT_PORT \<or> port > MAX_TRANSPORT_PORT then table
      else let index = port_index port
           in if pids table index = self then table\<lparr>pids := (pids table)(index := 0)\<rparr> else table)"

section \<open>Lock files\<close>

definition get_lock_dir :: "(string \<Rightarrow> string option) \<Rightarrow> string" where
  "get_lock_dir getenv =
     (case getenv ''ZOO_SMB_LOCK_DIR'' of
        Some (c # cs) \<Rightarrow> c # cs
      | _ \<Rightarrow> (case getenv ''TMPDIR'' of
                 Some (c # cs) \<Rightarrow> c # cs
               | _ \<Rightarrow> ''/tmp''))"

fun decimal :: "nat \<Rightarrow> string" where
  "decimal n = (if n < 10 then [char_of (48 + n)] else decimal (n div 10) @ [char_of (48 + n mod 10)])"

declare decimal.simps [simp del]

text \<open>\<open>%d\<close>\<close>

definition show_int :: "int \<Rightarrow> string" where
  "show_int i = (if i < 0 then ''-'' @ decimal (nat (- i)) else decimal (nat i))"

definition lock_dir_path :: "(string \<Rightarrow> string option) \<Rightarrow> string" where
  "lock_dir_path getenv = get_lock_dir getenv @ ''/zoo_smb_ports''"

definition lock_file_name :: "(string \<Rightarrow> string option) \<Rightarrow> int \<Rightarrow> string" where
  "lock_file_name getenv port = lock_dir_path getenv @ ''/zoo_smb_port_'' @ show_int port @ ''.lock''"

text \<open>The buffers have 256 and \<open>buffer_size\<close> bytes; \<open>mkdir\<close>: the directory could be made or is there.\<close>

definition create_lock_file_path :: "(string \<Rightarrow> string option) \<Rightarrow> bool \<Rightarrow> int \<Rightarrow> nat \<Rightarrow> string option" where
  "create_lock_file_path getenv mkdir port buffer_size =
     (if length (lock_dir_path getenv) \<ge> 256 then None
      else if \<not> mkdir then None
      else if length (lock_file_name getenv port) \<ge> buffer_size then None
      else Some (lock_file_name getenv port))"

text \<open>
  Files by their paths, and the process that has the record lock of a file. A process that locks a file it has
  locked already succeeds; closing any descriptor of the file drops the lock of the process; a file that is
  unlinked goes on existing for those who have it open.
\<close>

record lock_files =
  lf_paths :: "string \<Rightarrow> nat option"
  lf_locks :: "nat \<Rightarrow> int option"
  lf_next :: nat

definition open_file :: "string \<Rightarrow> lock_files \<Rightarrow> nat \<times> lock_files" where
  "open_file path fs =
     (case lf_paths fs path of
        Some i \<Rightarrow> (i, fs)
      | None \<Rightarrow> (lf_next fs, fs\<lparr>lf_paths := (lf_paths fs)(path \<mapsto> lf_next fs), lf_next := lf_next fs + 1\<rparr>))"

definition acquire_file_lock :: "int \<Rightarrow> nat \<Rightarrow> lock_files \<Rightarrow> bool \<times> lock_files" where
  "acquire_file_lock self i fs =
     (case lf_locks fs i of
        None \<Rightarrow> (True, fs\<lparr>lf_locks := (lf_locks fs)(i \<mapsto> self)\<rparr>)
      | Some owner \<Rightarrow> (owner = self, fs))"

definition close_file :: "int \<Rightarrow> nat \<Rightarrow> lock_files \<Rightarrow> lock_files" where
  "close_file self i fs = (if lf_locks fs i = Some self then fs\<lparr>lf_locks := (lf_locks fs)(i := None)\<rparr> else fs)"

definition unlink_file :: "string \<Rightarrow> lock_files \<Rightarrow> lock_files" where
  "unlink_file path fs = fs\<lparr>lf_paths := (lf_paths fs)(path := None)\<rparr>"

record lock_env =
  le_getenv :: "string \<Rightarrow> string option"
  le_mkdir :: bool
  le_open :: bool

definition lock_port :: "lock_env \<Rightarrow> int \<Rightarrow> int \<Rightarrow> lock_files \<Rightarrow> nat option \<times> lock_files" where
  "lock_port env self port fs =
     (case create_lock_file_path (le_getenv env) (le_mkdir env) port 128 of
        None \<Rightarrow> (None, fs)
      | Some path \<Rightarrow>
          if \<not> le_open env then (None, fs)
          else let (i, fs1) = open_file path fs;
                   (locked, fs2) = acquire_file_lock self i fs1
               in if locked then (Some i, fs2) else (None, close_file self i fs2))"

text \<open>The name of the file to remove is cut to the buffer of 128 bytes.\<close>

definition unlock_path :: "lock_env \<Rightarrow> int \<Rightarrow> string" where
  "unlock_path env port = take 127 (lock_file_name (le_getenv env) port)"

definition unlock_port :: "lock_env \<Rightarrow> int \<Rightarrow> nat \<Rightarrow> int \<Rightarrow> lock_files \<Rightarrow> lock_files" where
  "unlock_port env self i port fs =
     (let fs1 = close_file self i fs
      in if length (lock_dir_path (le_getenv env)) < 256 then unlink_file (unlock_path env port) fs1 else fs1)"

section \<open>Finding a port\<close>

text \<open>The two sockets could be made, and both could be bound to the port.\<close>

record probe =
  pr_tcp_socket :: bool
  pr_tcp_bind :: bool
  pr_udp_socket :: bool
  pr_udp_bind :: bool

definition is_port_in_use :: "probe \<Rightarrow> bool" where
  "is_port_in_use p =
     (if \<not> pr_tcp_socket p then True
      else if \<not> pr_tcp_bind p then True
      else if \<not> pr_udp_socket p then True
      else if \<not> pr_udp_bind p then True
      else False)"

definition validate_port_range :: "int \<Rightarrow> int \<Rightarrow> bool" where
  "validate_port_range lo hi =
     (if lo > hi then False
      else if lo < 1024 \<or> hi > 65535 then False
      else True)"

text \<open>The answers of the system for one process that runs alone: for each port the two probes and the lock.\<close>

record port_env =
  po_kill :: "int \<Rightarrow> kill_answer"
  po_probe :: "int \<Rightarrow> probe"
  po_recheck :: "int \<Rightarrow> probe"
  po_lock :: "int \<Rightarrow> lock_env"

definition attempt_port_allocation ::
  "port_env \<Rightarrow> int \<Rightarrow> int \<Rightarrow> port_table \<times> lock_files \<Rightarrow> int \<times> port_table \<times> lock_files" where
  "attempt_port_allocation env self port s =
     (case s of (table, fs) \<Rightarrow>
        if is_port_in_use (po_probe env port) then (ZOO_SMB_INVALID_PORT, table, fs)
        else (case acquire_port (po_kill env) self table port of
                (False, table1) \<Rightarrow> (ZOO_SMB_INVALID_PORT, table1, fs)
              | (True, table1) \<Rightarrow>
                  (case lock_port (po_lock env port) self port fs of
                     (None, fs1) \<Rightarrow> (ZOO_SMB_INVALID_PORT, release_port self table1 port, fs1)
                   | (Some i, fs1) \<Rightarrow>
                       if is_port_in_use (po_recheck env port)
                       then (ZOO_SMB_INVALID_PORT, release_port self table1 port,
                             unlock_port (po_lock env port) self i port fs1)
                       else (port, table1, fs1))))"

function find_ports :: "port_env \<Rightarrow> int \<Rightarrow> int \<Rightarrow> int \<Rightarrow> port_table \<times> lock_files \<Rightarrow> int \<times> port_table \<times> lock_files" where
  "find_ports env self port hi s =
     (if port \<le> hi then
        (case attempt_port_allocation env self port s of
           (allocated_port, s1) \<Rightarrow>
             if allocated_port \<noteq> ZOO_SMB_INVALID_PORT then (allocated_port, s1)
             else find_ports env self (port + 1) hi s1)
      else (ZOO_SMB_INVALID_PORT, s))"
  by pat_completeness auto
termination by (relation "measure (\<lambda>(_, _, port, hi, _). nat (hi + 1 - port))") auto

declare find_ports.simps [simp del]

definition zoo_smb_find_available_port ::
  "init_env \<Rightarrow> port_env \<Rightarrow> int \<Rightarrow> int \<Rightarrow> int \<Rightarrow> port_table \<times> lock_files \<Rightarrow> int \<times> port_table \<times> lock_files" where
  "zoo_smb_find_available_port ienv env self lo hi s =
     (if \<not> validate_port_range lo hi then (ZOO_SMB_INVALID_PORT, s)
      else (case s of (table, fs) \<Rightarrow>
              (case init_port_table ienv table of
                 (False, table1) \<Rightarrow> (ZOO_SMB_INVALID_PORT, table1, fs)
               | (True, table1) \<Rightarrow> find_ports env self lo hi (table1, fs))))"

definition zoo_smb_release_port_resources ::
  "init_env \<Rightarrow> lock_env \<Rightarrow> int \<Rightarrow> int \<Rightarrow> port_table \<times> lock_files \<Rightarrow> port_table \<times> lock_files" where
  "zoo_smb_release_port_resources ienv env self port s =
     (case s of (table, fs) \<Rightarrow>
        (case init_port_table ienv table of
           (False, table1) \<Rightarrow> (table1, fs)
         | (True, table1) \<Rightarrow>
             (case lock_port env self port fs of
                (None, fs1) \<Rightarrow> (release_port self table1 port, fs1)
              | (Some i, fs1) \<Rightarrow> (release_port self table1 port, unlock_port env self i port fs1))))"

end
