(* ===== verification/Spec2Isabelle.thy ===== *)
theory Spec2Isabelle
  imports Ring_Queue SMB_Error_Strings Tcp_Server Tcp_Client Shm_Client Memory_Pool_Contract Rule_Manager Routing_Contract Port_Manager
begin

text \<open>
  A verification library of the soft message bus (SMB), a C library that carries messages between the
  nodes of a system over shared memory and TCP. Paths below are relative to \<open>src/\<close>.

  \<^bold>\<open>The parts of the program and how they meet.\<close> A node makes a message
  (\<open>src/kernal/core/zoo_smb_message.c\<close>), the protocol turns it into the bytes of a frame and back
  (\<open>src/kernal/transport/zoo_smb_protocol.c\<close>), and a transport carries the frame. The shared-memory
  transport keeps two ring buffers per client in a System V segment
  (\<open>src/kernal/utility/zoo_smb_ring_buffer.c\<close>, \<open>zoo_smb_transport_shm_common.c\<close>, \<open>_shm_server.c\<close>,
  \<open>_shm_client.c\<close>); the TCP transport writes frames to a stream (\<open>zoo_smb_transport_tcp_common.c\<close>,
  \<open>_tcp_server.c\<close>, \<open>_tcp_client.c\<close>, with \<open>zoo_socket.c\<close> and \<open>zoo_smb_reactor.c\<close> below them). All of them
  take memory from one pool (\<open>src/platform/memory_pool/zoo_memory_pool.c\<close>) and keep tables in one kind of
  list (\<open>src/platform/buffer/zoo_list.c\<close>). What a transport receives goes to the routing engine
  (\<open>src/kernal/core/zoo_smb_routing_engine.c\<close>), which puts it into a queue
  (\<open>src/platform/buffer/zoo_queue.c\<close>); a dispatcher (\<open>src/platform/dispatcher/zoo_dispatcher.c\<close>) takes it
  out and calls the observers of the routing rule (\<open>zoo_smb_routing_rule.c\<close>, \<open>zoo_smb_rule_manager.c\<close>).

  \<^bold>\<open>Conventions.\<close> Fixed-width integers are words (\<open>u8\<close> to \<open>u64\<close>), a pointer that may be \<open>NULL\<close> is an
  \<open>option\<close>, a block of memory is the list of its bytes, a C string the list of its characters before the
  zero, a callback a number. Error codes are the words of the source (\<open>SMB_Error\<close>). A state of the program
  is a record that an operation returns updated. What lies outside the sources is an argument: the answers
  of \<open>malloc\<close>, of locks and of system calls, the clock, and the byte order of the host. The pool and the
  lists are used by the other components through their contracts: an answer of the pool is an argument,
  a list is the sequence \<open>seq_step\<close> works on. One call of an operation runs without interruption, except
  where a theory says otherwise.

  \<^bold>\<open>The theories.\<close>
  \<^item> \<open>SMB_Prelude\<close>: integer types, byte images of words, C strings, and the locales \<open>refinement_on\<close> and
    \<open>refinement\<close>, which carry a simulation of single steps to sequences of operations.
  \<^item> \<open>Crc32\<close>: the table and loop of \<open>zoo_crc32.c\<close>. The loop equals the bit-by-bit checksum of its polynomial,
    and it detects every change within four neighbouring bytes.
  \<^item> \<open>Message\<close>: headers and messages, their construction and deep copy, on every branch.
  \<^item> \<open>Protocol\<close>: swapping, validation, serialisation and deserialisation. The exact accepted images, the
    bytes written, and the round trip on hosts of either byte order.
  \<^item> \<open>Message_Queue\<close>: the contract of a first-in first-out channel as a locale, with its consequences for
    sequences of operations; the ring buffer and the transports are instances.
  \<^item> \<open>Ring_Buffer\<close>: the control structure and every operation of the ring; \<open>Ring_Queue\<close>: it refines a queue of
    payloads with a byte capacity, in both modes, over wrap-around of positions and sequence numbers; the
    computed size of a block suffices; the one size of message that corrupts an overwriting ring.
  \<^item> \<open>SMB_Error\<close>, \<open>SMB_Error_Strings\<close>: packing of codes, all declared codes and their texts.
  \<^item> \<open>Zoo_List\<close>: the linked list on a heap of nodes; every sequence of operations behaves as on a sequence.
  \<^item> \<open>Wire\<close>: lemmas on frames that both transports use.
  \<^item> \<open>Zoo_Socket\<close>: error translation, stream sockets and the address union at the level of its bytes.
  \<^item> \<open>Tcp_Transport\<close>, \<open>Tcp_Server\<close>, \<open>Tcp_Client\<close>: framing over a stream whose world is a parameter, the client
    table and the event handlers of a server, connecting and reconnecting of a client. What is delivered, in
    which order, and which frames are lost.
  \<^item> \<open>Shm_Common\<close>, \<open>Shm_Server\<close>, \<open>Shm_Client\<close>: segments, keys, registration, routing by name, sending and
    receiving. A connection is a pair of lossy queues, the tables of the server never lead to freed memory, a
    reply reaches the sender of the request, receiving ends; and the cases in which messages are lost.
  \<^item> \<open>Memory_Pool\<close>, \<open>Memory_Pool_Segments\<close>: the slab allocator of a segment and the chain of segments.
    \<open>Memory_Pool_Spec\<close> states what a segment promises without pointers, \<open>Memory_Pool_Refine\<close> proves the
    allocator a refinement of it, \<open>Memory_Pool_Contract\<close> lifts this to the pool: blocks handed out are disjoint
    and long enough, a request comes to an end and fails only without system memory, nothing leaks.
  \<^item> \<open>Name_Index\<close>: hash tables of names as the managers use them, and the locale \<open>name_table\<close> of a cache in front
    of a list; \<open>Rule_Manager\<close>: rules and their manager, whose index never changes an answer.
  \<^item> \<open>Zoo_Queue\<close>: the message queue with its sorting, and the dispatcher. Sorting sorts; a queue that is not
    sorted is a first-in first-out channel.
  \<^item> \<open>Routing_Engine\<close>: checks, back pressure, dispatching, egress, counters and the life cycle of the engine;
    \<open>Routing_Engine_Safety\<close>: its invariant, kept by every operation; \<open>Routing_Contract\<close>: memory safety in every
    reachable state, delivery exactly once and in order, the balance of the counters, and where the engine
    falls short of its comments (restart, old messages, two rules on one transport).

  \<^bold>\<open>Fuel and bounds.\<close> No model has a fuel argument chosen for convenience. Loops of the source with a
  bound of their own keep it (a thousand discarded messages in the ring, the retries of TCP). Loops without one
  are recursive functions with a termination proof, or \<open>partial_function (option)\<close> where ending depends on the
  state (the lists of the pool), and then returning is proved. Event loops are modelled by their body; a
  property of the loop is one of all sequences of rounds.

  \<^bold>\<open>Not modelled.\<close> Interleaving of threads inside a call: calls hold a lock for their whole work in the list
  and the pool, and the ring has one writer and one reader, so calls are the steps. Logging has no effect on
  what is modelled and is left out of the definitions. The manifest lists the components that are left out
  and the reason for each.
\<close>

end
